(* ===== verification/TR_Prelude.thy ===== *)
theory TR_Prelude
  imports Main "HOL-Library.Word"
begin

text \<open>
  Shared vocabulary of the TurboRaft development: the machine integer types of the C code, the
  status codes the functions return, the bit-set operations on acknowledgement masks, the
  ascending-array search used by the membership and the peer set, and the generic lemmas on words
  and lists that the component theories use.
\<close>

unbundle bit_operations_syntax

section \<open>Types and constants of the C code\<close>

type_synonym u8 = "8 word"
type_synonym u32 = "32 word"
type_synonym u64 = "64 word"

type_synonym node_id = u64
type_synonym raft_term = u64
type_synonym raft_index = u64

abbreviation UINT64_MAX :: u64 where
  "UINT64_MAX \<equiv> - 1"

abbreviation UINT32_MAX :: u32 where
  "UINT32_MAX \<equiv> - 1"

abbreviation (input) TR_RAFT_MAX_MEMBERS :: nat where
  "TR_RAFT_MAX_MEMBERS \<equiv> 31"

abbreviation (input) TR_RAFT_MAX_ENTRY_BYTES :: nat where
  "TR_RAFT_MAX_ENTRY_BYTES \<equiv> 512"

abbreviation (input) TR_RAFT_MAX_APPEND_ENTRIES :: nat where
  "TR_RAFT_MAX_APPEND_ENTRIES \<equiv> 8"

abbreviation (input) TR_RAFT_MAX_PROPOSAL_BATCH :: nat where
  "TR_RAFT_MAX_PROPOSAL_BATCH \<equiv> 16"

abbreviation (input) TR_RAFT_DEFAULT_MAX_INFLIGHT_APPEND_REQUESTS :: nat where
  "TR_RAFT_DEFAULT_MAX_INFLIGHT_APPEND_REQUESTS \<equiv> 1"

abbreviation (input) TR_RAFT_MAX_INFLIGHT_APPEND_REQUESTS :: nat where
  "TR_RAFT_MAX_INFLIGHT_APPEND_REQUESTS \<equiv> 64"

abbreviation (input) TR_RAFT_DEFAULT_MAX_LOG_ENTRIES :: nat where
  "TR_RAFT_DEFAULT_MAX_LOG_ENTRIES \<equiv> 1024"

abbreviation (input) TR_RAFT_DEFAULT_MAX_PENDING_READS :: nat where
  "TR_RAFT_DEFAULT_MAX_PENDING_READS \<equiv> 16"

abbreviation (input) TR_RAFT_MAX_PENDING_READS :: nat where
  "TR_RAFT_MAX_PENDING_READS \<equiv> 64"

text \<open>
  The status codes of \<open>cmeta_error.h\<close> that the modelled functions return. \<open>C_FAULT\<close> is no code
  of the program: the model returns it where the C code would read through a null pointer, so that
  the absence of such a read is a statement about the model.
\<close>

datatype salts_status =
    SALTS_OK
  | SALTS_EINVAL
  | SALTS_EPROTO
  | SALTS_ENOSPC
  | SALTS_EBUSY
  | SALTS_ENOENT
  | SALTS_EALREADY
  | SALTS_ENOMEM
  | SALTS_EPERM
  | SALTS_EFBIG
  | SALTS_EIO
  | SALTS_ENOTSUP
  | SALTS_ERANGE
  | SALTS_EPROTONOSUPPORT
  | SALTS_ESHUTDOWN
  | SALTS_ENOBUFS
  | SALTS_ENAMETOOLONG
  | SALTS_ECANCELED
  | SALTS_ETIMEDOUT
  | SALTS_ENOTCONN
  | SALTS_EPIPE
  | C_FAULT

text \<open>The status codes of the container library and their translation.\<close>

datatype stl_status =
    STL_OK
  | STL_OUT_OF_MEMORY
  | STL_CAPACITY_EXCEEDED
  | STL_EMPTY
  | STL_NOT_FOUND
  | STL_INVALID_ARGUMENT
  | STL_TYPE_MISMATCH
  | STL_TRAIT_MISSING

fun tr_raft_stl_status_to_error :: "stl_status \<Rightarrow> salts_status" where
  "tr_raft_stl_status_to_error STL_OK = SALTS_OK"
| "tr_raft_stl_status_to_error STL_OUT_OF_MEMORY = SALTS_ENOMEM"
| "tr_raft_stl_status_to_error STL_CAPACITY_EXCEEDED = SALTS_ENOSPC"
| "tr_raft_stl_status_to_error STL_EMPTY = SALTS_ENOENT"
| "tr_raft_stl_status_to_error STL_NOT_FOUND = SALTS_ENOENT"
| "tr_raft_stl_status_to_error _ = SALTS_EINVAL"

lemma tr_raft_stl_status_to_error_OK [simp]:
  "tr_raft_stl_status_to_error s = SALTS_OK \<longleftrightarrow> s = STL_OK"
  by (cases s) simp_all

lemma tr_raft_stl_status_to_error_not_fault [simp]:
  "tr_raft_stl_status_to_error s \<noteq> C_FAULT"
  by (cases s) simp_all

section \<open>Acknowledgement masks\<close>

text \<open>
  \<open>u32_shl1 i\<close> is \<open>UINT32_C(1) << (uint32_t) i\<close>. The C code calls it with an \<open>int\<close> index. A
  negative index (a failed search) or one of 32 and above would shift past the width, which C
  leaves undefined; the model reads it as \<open>0\<close>.
\<close>

definition u32_shl1 :: "int \<Rightarrow> u32" where
  "u32_shl1 i = (if 0 \<le> i \<and> i < 32 then push_bit (nat i) 1 else 0)"

definition u32_test :: "u32 \<Rightarrow> int \<Rightarrow> bool" where
  "u32_test w i \<longleftrightarrow> w AND u32_shl1 i \<noteq> 0"

lemma u32_shl1_nat: "i < 32 \<Longrightarrow> u32_shl1 (int i) = push_bit i 1"
  by (simp add: u32_shl1_def)

lemma u32_shl1_neg1 [simp]: "u32_shl1 (- 1) = 0"
  by (simp add: u32_shl1_def)

lemma bit_u32_shl1 [simp]:
  "i < 32 \<Longrightarrow> bit (u32_shl1 (int i)) n \<longleftrightarrow> n = i"
  by (simp add: u32_shl1_nat bit_push_bit_iff bit_1_iff del: push_bit_of_1) (auto)

lemma u32_test_bit [simp]: "i < 32 \<Longrightarrow> u32_test w (int i) \<longleftrightarrow> bit w i"
  by (simp add: u32_test_def u32_shl1_nat and_exp_eq_0_iff_not_bit)

lemma u32_test_or [simp]:
  "i < 32 \<Longrightarrow> j < 32 \<Longrightarrow> u32_test (w OR u32_shl1 (int i)) (int j) \<longleftrightarrow> u32_test w (int j) \<or> i = j"
  by (auto simp: bit_or_iff)

section \<open>Fixed arrays addressed by an \<open>int\<close> index\<close>

text \<open>
  The core addresses its per-peer arrays with \<open>int\<close> results of the peer search. A write outside the
  array is undefined in C; the model leaves the array as it is, and a read outside returns the given
  default. The core invariant shows that neither happens.
\<close>

definition arr_get :: "'a \<Rightarrow> 'a list \<Rightarrow> int \<Rightarrow> 'a" where
  "arr_get d xs i = (if 0 \<le> i \<and> nat i < length xs then xs ! nat i else d)"

definition arr_set :: "'a list \<Rightarrow> int \<Rightarrow> 'a \<Rightarrow> 'a list" where
  "arr_set xs i v = (if 0 \<le> i \<and> nat i < length xs then xs[nat i := v] else xs)"

lemma length_arr_set [simp]: "length (arr_set xs i v) = length xs"
  by (simp add: arr_set_def)

lemma arr_get_set_same [simp]:
  "0 \<le> i \<Longrightarrow> nat i < length xs \<Longrightarrow> arr_get d (arr_set xs i v) i = v"
  by (simp add: arr_get_def arr_set_def)

lemma arr_get_set_other [simp]: "i \<noteq> j \<Longrightarrow> arr_get d (arr_set xs i v) j = arr_get d xs j"
  by (auto simp: arr_get_def arr_set_def nth_list_update nat_eq_iff)

lemma arr_get_nth [simp]: "i < length xs \<Longrightarrow> arr_get d xs (int i) = xs ! i"
  by (simp add: arr_get_def)

section \<open>Search in an ascending array\<close>

text \<open>
  The loop shared by \<open>tr_raft_membership_index\<close> and \<open>tr_raft_peer_set_index\<close>: the position of the
  identifier, or \<open>-1\<close>; the loop stops at the first larger identifier.
\<close>

fun search_ascending :: "nat \<Rightarrow> node_id list \<Rightarrow> node_id \<Rightarrow> int" where
  "search_ascending i [] n = - 1"
| "search_ascending i (x # xs) n =
     (if x = n then int i
      else if x > n then - 1
      else search_ascending (Suc i) xs n)"

lemma search_ascending_range:
  "search_ascending i xs n = - 1 \<or>
   (int i \<le> search_ascending i xs n \<and> search_ascending i xs n < int (i + length xs))"
  by (induction i xs n rule: search_ascending.induct) auto

lemma search_ascending_nth:
  "search_ascending i xs n \<noteq> - 1 \<Longrightarrow> xs ! (nat (search_ascending i xs n) - i) = n"
proof (induction i xs n rule: search_ascending.induct)
  case (2 i x xs n)
  show ?case
  proof (cases "x = n \<or> x > n")
    case True
    with 2(2) show ?thesis by (auto split: if_splits)
  next
    case False
    with 2 have found: "search_ascending (Suc i) xs n \<noteq> - 1"
      and IH: "xs ! (nat (search_ascending (Suc i) xs n) - Suc i) = n"
      by auto
    from found search_ascending_range [of "Suc i" xs n]
    have "nat (search_ascending (Suc i) xs n) - i
      = Suc (nat (search_ascending (Suc i) xs n) - Suc i)"
      by auto
    with IH False show ?thesis by simp
  qed
qed simp

lemma search_ascending_notin:
  "n \<notin> set xs \<Longrightarrow> search_ascending i xs n = - 1"
  by (induction i xs n rule: search_ascending.induct) auto

lemma search_ascending_found:
  "sorted_wrt (<) xs \<Longrightarrow> k < length xs \<Longrightarrow> search_ascending i xs (xs ! k) = int (i + k)"
proof (induction xs arbitrary: i k)
  case Nil
  then show ?case by simp
next
  case (Cons x xs)
  show ?case
  proof (cases k)
    case 0
    then show ?thesis by simp
  next
    case (Suc k')
    with Cons.prems have k': "k' < length xs" and lt: "x < xs ! k'"
      by auto
    from Cons k' have "search_ascending (Suc i) xs (xs ! k') = int (Suc i + k')"
      by simp
    with Suc lt show ?thesis by (auto simp: not_less_iff_gr_or_eq)
  qed
qed

lemma search_ascending_mem:
  assumes "sorted_wrt (<) xs"
  shows "search_ascending 0 xs n \<noteq> - 1 \<longleftrightarrow> n \<in> set xs"
  using search_ascending_found [OF assms, of _ 0] search_ascending_notin [of n xs 0]
  by (force simp: in_set_conv_nth)

section \<open>Word arithmetic on indices\<close>

lemma unat_plus_nat:
  fixes a :: u64
  assumes "unat a + n < 2 ^ 64"
  shows "unat (a + of_nat n) = unat a + n"
proof -
  from assms have "unat (of_nat n :: u64) = n" by (simp add: unat_of_nat)
  with assms show ?thesis by (simp add: unat_word_ariths)
qed

lemma unat_plus_1:
  fixes a :: u64
  assumes "a \<noteq> UINT64_MAX"
  shows "unat (a + 1) = Suc (unat a)"
  using assms by (metis add_eq_0_iff unatSuc add.commute Suc_eq_plus1)

lemma unat_minus_le:
  fixes a b :: u64
  shows "b \<le> a \<Longrightarrow> unat (a - b) = unat a - unat b"
  by (rule unat_sub)

lemma u64_le_MAX [simp]: "(a :: u64) \<le> UINT64_MAX"
  by (rule word_order.extremum)

lemma unat_UINT64_MAX: "unat UINT64_MAX = 2 ^ 64 - 1"
  by (simp add: unsigned_minus_1_eq_mask mask_eq_exp_minus_1)

lemma unat_u64_less: "unat (a :: u64) < 2 ^ 64"
  using unsigned_less [of a, where 'a = nat] by simp

lemma u64_eqI: "unat (a :: u64) = unat b \<Longrightarrow> a = b"
  by (simp add: word_unat_eq_iff)

lemma u64_less_unat: "(a :: u64) < b \<longleftrightarrow> unat a < unat b"
  by (rule word_less_nat_alt)

lemma u64_le_unat: "(a :: u64) \<le> b \<longleftrightarrow> unat a \<le> unat b"
  by (rule word_le_nat_alt)

lemma unat_MAX_minus: "unat (UINT64_MAX - (a :: u64)) = 2 ^ 64 - 1 - unat a"
  using unat_minus_le [OF u64_le_MAX, of a] by (simp add: unat_UINT64_MAX)

lemma plus_1_neq_0 [simp]: "(a :: u64) \<noteq> UINT64_MAX \<Longrightarrow> a + 1 \<noteq> 0"
  using add_eq_0_iff2 by blast

section \<open>Collections\<close>

text \<open>\<open>raft_wf\<close> collects the invariant preservation lemmas of the components.\<close>

named_theorems raft_wf "preservation of the component invariants"

end
