(* ===== verification/Raft_Configuration.thy ===== *)
theory Raft_Configuration
  imports TR_Prelude
begin

text \<open>
  The membership configuration of \<open>src/core/raft_configuration.c\<close>: its validation, its canonical
  byte encoding and its embedding into a log entry. An array with a count field is the list of its
  first \<open>count\<close> elements; an entry's \<open>data\<close> buffer is the list of its first \<open>data_length\<close> bytes.
  The lemmas characterise the accepted configurations and show that encoding and decoding are
  inverse to each other on them.
\<close>

section \<open>Data\<close>

text \<open>
  A decoded phase byte can be any value, so the enum has a constructor for the values outside it.
\<close>

datatype conf_phase =
    TR_RAFT_CONF_JOINT
  | TR_RAFT_CONF_FINAL
  | TR_RAFT_CONF_OTHER u8

abbreviation (input) TR_RAFT_CONF_OLD_VOTER :: u8 where
  "TR_RAFT_CONF_OLD_VOTER \<equiv> 1"

abbreviation (input) TR_RAFT_CONF_NEW_VOTER :: u8 where
  "TR_RAFT_CONF_NEW_VOTER \<equiv> 2"

abbreviation (input) TR_RAFT_CONF_LEARNER :: u8 where
  "TR_RAFT_CONF_LEARNER \<equiv> 4"

record conf_member =
  cm_node_id :: node_id
  cm_roles :: u8

record conf =
  conf_phase :: conf_phase
  conf_transition_id :: u64
  conf_members :: "conf_member list"

record entry =
  e_index :: raft_index
  e_term :: raft_term
  e_command_id :: u64
  e_data :: "u8 list"

abbreviation conf_ids :: "conf \<Rightarrow> node_id list" where
  "conf_ids c \<equiv> map cm_node_id (conf_members c)"

abbreviation role_old :: "u8 \<Rightarrow> bool" where
  "role_old roles \<equiv> roles AND TR_RAFT_CONF_OLD_VOTER \<noteq> 0"

abbreviation role_new :: "u8 \<Rightarrow> bool" where
  "role_new roles \<equiv> roles AND TR_RAFT_CONF_NEW_VOTER \<noteq> 0"

abbreviation role_learner :: "u8 \<Rightarrow> bool" where
  "role_learner roles \<equiv> roles AND TR_RAFT_CONF_LEARNER \<noteq> 0"

section \<open>Operations\<close>

fun phase_to_byte :: "conf_phase \<Rightarrow> u8" where
  "phase_to_byte TR_RAFT_CONF_JOINT = 1"
| "phase_to_byte TR_RAFT_CONF_FINAL = 2"
| "phase_to_byte (TR_RAFT_CONF_OTHER b) = b"

definition phase_of_byte :: "u8 \<Rightarrow> conf_phase" where
  "phase_of_byte b =
     (if b = 1 then TR_RAFT_CONF_JOINT
      else if b = 2 then TR_RAFT_CONF_FINAL
      else TR_RAFT_CONF_OTHER b)"

definition tr_raft_conf_magic :: "u8 list" where
  "tr_raft_conf_magic = [84, 82, 67, 70]"

text \<open>The big-endian loop: the byte written last comes first, the value is shifted right by 8.\<close>

fun put_u64_loop :: "nat \<Rightarrow> u64 \<Rightarrow> u8 list" where
  "put_u64_loop 0 value = []"
| "put_u64_loop (Suc n) value = put_u64_loop n (drop_bit 8 value) @ [ucast (value AND 0xff)]"

definition tr_raft_conf_put_u64 :: "u64 \<Rightarrow> u8 list" where
  "tr_raft_conf_put_u64 value = put_u64_loop 8 value"

definition tr_raft_conf_get_u64 :: "u8 list \<Rightarrow> u64" where
  "tr_raft_conf_get_u64 input =
     foldl (\<lambda>value b. push_bit 8 value OR ucast b) 0 (take 8 input)"

definition tr_raft_conf_roles_valid :: "conf_phase \<Rightarrow> u8 \<Rightarrow> bool" where
  "tr_raft_conf_roles_valid ph roles =
     (let voter_roles = TR_RAFT_CONF_OLD_VOTER OR TR_RAFT_CONF_NEW_VOTER;
          all_roles = voter_roles OR TR_RAFT_CONF_LEARNER
      in if roles = 0 \<or> roles AND NOT all_roles \<noteq> 0 \<or> (role_new roles \<and> role_learner roles)
         then False
         else if ph = TR_RAFT_CONF_FINAL
         then roles = voter_roles \<or> roles = TR_RAFT_CONF_LEARNER
         else ph = TR_RAFT_CONF_JOINT)"

text \<open>
  The member loop of \<open>tr_raft_conf_validate\<close>; \<open>prev\<close> is the identifier before the current one, \<open>None\<close>
  at index 0.
\<close>

fun conf_validate_loop ::
    "conf_phase \<Rightarrow> node_id option \<Rightarrow> conf_member list \<Rightarrow> nat \<Rightarrow> nat \<Rightarrow> salts_status" where
  "conf_validate_loop ph prev [] old_voter_count new_voter_count =
     (if old_voter_count \<noteq> 0 \<and> new_voter_count \<noteq> 0 then SALTS_OK else SALTS_EINVAL)"
| "conf_validate_loop ph prev (m # ms) old_voter_count new_voter_count =
     (if cm_node_id m = 0
         \<or> (case prev of None \<Rightarrow> False | Some p \<Rightarrow> p \<ge> cm_node_id m)
         \<or> \<not> tr_raft_conf_roles_valid ph (cm_roles m)
      then SALTS_EINVAL
      else conf_validate_loop ph (Some (cm_node_id m)) ms
             (old_voter_count + (if role_old (cm_roles m) then 1 else 0))
             (new_voter_count + (if role_new (cm_roles m) then 1 else 0)))"

definition tr_raft_conf_validate :: "conf \<Rightarrow> salts_status" where
  "tr_raft_conf_validate c =
     (if (conf_phase c = TR_RAFT_CONF_JOINT \<and> conf_transition_id c = 0)
         \<or> length (conf_members c) = 0
         \<or> length (conf_members c) > TR_RAFT_MAX_MEMBERS
         \<or> (conf_phase c \<noteq> TR_RAFT_CONF_JOINT \<and> conf_phase c \<noteq> TR_RAFT_CONF_FINAL)
      then SALTS_EINVAL
      else conf_validate_loop (conf_phase c) None (conf_members c) 0 0)"

definition conf_member_bytes :: "conf_member \<Rightarrow> u8 list" where
  "conf_member_bytes m = tr_raft_conf_put_u64 (cm_node_id m) @ [cm_roles m]"

text \<open>
  The result is the status, the value left in \<open>*output_length\<close> and the bytes written to \<open>output\<close>
  (none on failure).
\<close>

definition tr_raft_conf_encode :: "conf \<Rightarrow> nat \<Rightarrow> salts_status \<times> nat \<times> u8 list" where
  "tr_raft_conf_encode c output_capacity =
     (if tr_raft_conf_validate c \<noteq> SALTS_OK then (SALTS_EINVAL, 0, [])
      else
        let required = 16 + 9 * length (conf_members c)
        in if output_capacity < required then (SALTS_ENOSPC, required, [])
           else (SALTS_OK, required,
                 tr_raft_conf_magic
                 @ [1, phase_to_byte (conf_phase c), of_nat (length (conf_members c)), 0]
                 @ tr_raft_conf_put_u64 (conf_transition_id c)
                 @ concat (map conf_member_bytes (conf_members c))))"

definition conf_decode_member :: "u8 list \<Rightarrow> nat \<Rightarrow> conf_member" where
  "conf_decode_member input index =
     (let offset = 16 + 9 * index
      in \<lparr>cm_node_id = tr_raft_conf_get_u64 (drop offset input),
          cm_roles = input ! (offset + 8)\<rparr>)"

definition tr_raft_conf_decode :: "u8 list \<Rightarrow> salts_status + conf" where
  "tr_raft_conf_decode input =
     (if length input < 16
         \<or> take 4 input \<noteq> tr_raft_conf_magic
         \<or> input ! 4 \<noteq> 1
         \<or> input ! 7 \<noteq> 0
      then Inl SALTS_EPROTO
      else
        let member_count = unat (input ! 6)
        in if member_count = 0 \<or> member_count > TR_RAFT_MAX_MEMBERS then Inl SALTS_EPROTO
           else if length input \<noteq> 16 + 9 * member_count then Inl SALTS_EPROTO
           else
             let c = \<lparr>conf_phase = phase_of_byte (input ! 5),
                      conf_transition_id = tr_raft_conf_get_u64 (drop 8 input),
                      conf_members = map (conf_decode_member input) [0..<member_count]\<rparr>
             in if tr_raft_conf_validate c \<noteq> SALTS_OK then Inl SALTS_EPROTO else Inr c)"

definition tr_raft_conf_entry_is_configuration :: "entry \<Rightarrow> bool" where
  "tr_raft_conf_entry_is_configuration e \<longleftrightarrow> e_command_id e = 0"

definition tr_raft_conf_entry_encode ::
    "conf \<Rightarrow> raft_index \<Rightarrow> raft_term \<Rightarrow> salts_status + entry" where
  "tr_raft_conf_entry_encode c index term =
     (if index = 0 \<or> term = 0 then Inl SALTS_EINVAL
      else
        let (result, encoded_length, bytes) = tr_raft_conf_encode c TR_RAFT_MAX_ENTRY_BYTES
        in if result \<noteq> SALTS_OK then Inl result
           else Inr \<lparr>e_index = index, e_term = term, e_command_id = 0, e_data = bytes\<rparr>)"

definition tr_raft_conf_entry_decode :: "entry \<Rightarrow> salts_status + conf" where
  "tr_raft_conf_entry_decode e =
     (if \<not> tr_raft_conf_entry_is_configuration e then Inl SALTS_ENOENT
      else if e_index e = 0 \<or> e_term e = 0 \<or> length (e_data e) > TR_RAFT_MAX_ENTRY_BYTES
      then Inl SALTS_EPROTO
      else tr_raft_conf_decode (e_data e))"

section \<open>Accepted configurations\<close>

text \<open>The loop-free reading of \<open>tr_raft_conf_validate\<close>.\<close>

definition conf_valid :: "conf \<Rightarrow> bool" where
  "conf_valid c \<longleftrightarrow>
     (conf_phase c = TR_RAFT_CONF_FINAL \<or>
      conf_phase c = TR_RAFT_CONF_JOINT \<and> conf_transition_id c \<noteq> 0)
     \<and> conf_members c \<noteq> [] \<and> length (conf_members c) \<le> TR_RAFT_MAX_MEMBERS
     \<and> 0 \<notin> set (conf_ids c) \<and> sorted_wrt (<) (conf_ids c)
     \<and> (\<forall>m \<in> set (conf_members c). tr_raft_conf_roles_valid (conf_phase c) (cm_roles m))
     \<and> (\<exists>m \<in> set (conf_members c). role_old (cm_roles m))
     \<and> (\<exists>m \<in> set (conf_members c). role_new (cm_roles m))"

lemma conf_validate_loop_iff:
  "conf_validate_loop ph prev ms a b = SALTS_OK \<longleftrightarrow>
     (case prev of None \<Rightarrow> True | Some p \<Rightarrow> ms \<noteq> [] \<longrightarrow> p < cm_node_id (hd ms))
     \<and> 0 \<notin> set (map cm_node_id ms) \<and> sorted_wrt (<) (map cm_node_id ms)
     \<and> (\<forall>m \<in> set ms. tr_raft_conf_roles_valid ph (cm_roles m))
     \<and> (a \<noteq> 0 \<or> (\<exists>m \<in> set ms. role_old (cm_roles m)))
     \<and> (b \<noteq> 0 \<or> (\<exists>m \<in> set ms. role_new (cm_roles m)))"
proof (induction ph prev ms a b rule: conf_validate_loop.induct)
  case (1 ph prev a b)
  then show ?case by (simp split: option.split)
next
  case (2 ph prev m ms a b)
  have head: "sorted_wrt (<) (map cm_node_id (m # ms)) \<longleftrightarrow>
      (ms \<noteq> [] \<longrightarrow> cm_node_id m < cm_node_id (hd ms)) \<and> sorted_wrt (<) (map cm_node_id ms)"
    by (cases ms) (auto intro: less_trans)
  show ?case
  proof (cases "cm_node_id m = 0 \<or> (case prev of None \<Rightarrow> False | Some p \<Rightarrow> p \<ge> cm_node_id m)
      \<or> \<not> tr_raft_conf_roles_valid ph (cm_roles m)")
    case True
    then show ?thesis by (auto split: option.splits)
  next
    case False
    note IH = 2 [OF False]
    from False show ?thesis
      unfolding head
      by (simp add: IH split: option.splits) (auto simp: not_le)
  qed
qed

lemma tr_raft_conf_validate_iff: "tr_raft_conf_validate c = SALTS_OK \<longleftrightarrow> conf_valid c"
  by (auto simp: tr_raft_conf_validate_def conf_valid_def conf_validate_loop_iff)

lemma tr_raft_conf_validate_cases:
  "tr_raft_conf_validate c = SALTS_OK \<or> tr_raft_conf_validate c = SALTS_EINVAL"
proof -
  have "conf_validate_loop ph prev ms a b \<in> {SALTS_OK, SALTS_EINVAL}" for ph prev ms a b
    by (induction ph prev ms a b rule: conf_validate_loop.induct) auto
  then show ?thesis by (auto simp: tr_raft_conf_validate_def)
qed

lemma conf_valid_distinct: "conf_valid c \<Longrightarrow> distinct (conf_ids c)"
  by (simp add: conf_valid_def strict_sorted_iff)

section \<open>The byte encoding\<close>

lemma length_put_u64_loop [simp]: "length (put_u64_loop n v) = n"
  by (induction n arbitrary: v) auto

lemma length_put_u64 [simp]: "length (tr_raft_conf_put_u64 v) = 8"
  by (simp add: tr_raft_conf_put_u64_def)

lemma get_u64_append [simp]:
  "length bs = 8 \<Longrightarrow> tr_raft_conf_get_u64 (bs @ rest) = tr_raft_conf_get_u64 bs"
  by (simp add: tr_raft_conf_get_u64_def)

lemma ucast_and_255 [simp]: "ucast ((v :: u64) AND 255) = (ucast v :: u8)"
proof -
  have "v AND 255 = take_bit 8 v" by (simp add: take_bit_eq_mask mask_eq_exp_minus_1)
  then show ?thesis by (auto intro!: bit_word_eqI simp: bit_simps)
qed

abbreviation (input) get_step :: "u64 \<Rightarrow> u8 \<Rightarrow> u64" where
  "get_step \<equiv> \<lambda>value b. push_bit 8 value OR ucast b"

lemma foldl_put_u64_loop:
  "foldl get_step acc (put_u64_loop n v) = push_bit (8 * n) acc OR take_bit (8 * n) v"
proof (induction n arbitrary: v)
  case 0
  then show ?case by simp
next
  case (Suc n)
  show ?case
    by (rule bit_word_eqI)
       (auto simp: Suc bit_simps algebra_simps)
qed

lemma get_put_u64 [simp]: "tr_raft_conf_get_u64 (tr_raft_conf_put_u64 v) = v"
  using foldl_put_u64_loop [of 0 8 v]
  by (simp add: tr_raft_conf_get_u64_def tr_raft_conf_put_u64_def take_bit_word_eq_self)

lemma put_u64_loop_low_bits:
  "(\<And>k. k < 8 * n \<Longrightarrow> bit v k = bit w k) \<Longrightarrow> put_u64_loop n v = put_u64_loop n w"
proof (induction n arbitrary: v w)
  case 0
  then show ?case by simp
next
  case (Suc n)
  have "put_u64_loop n (drop_bit 8 v) = put_u64_loop n (drop_bit 8 w)"
    by (rule Suc.IH) (simp add: bit_simps Suc.prems)
  moreover have "(ucast v :: u8) = ucast w"
    by (rule bit_word_eqI) (simp add: bit_simps Suc.prems)
  ultimately show ?case by simp
qed

lemma put_u64_loop_foldl:
  "length bs \<le> 8 \<Longrightarrow> put_u64_loop (length bs) (foldl get_step acc bs) = bs"
proof (induction bs rule: rev_induct)
  case Nil
  then show ?case by simp
next
  case (snoc b bs)
  let ?x = "foldl get_step acc bs"
  from snoc.prems have len: "8 * length bs + 8 \<le> 64" by simp
  have "put_u64_loop (length bs) (drop_bit 8 (push_bit 8 ?x OR ucast b)) = put_u64_loop (length bs) ?x"
    by (rule put_u64_loop_low_bits) (use len in \<open>auto simp: bit_simps dest: bit_imp_le_length\<close>)
  moreover have "(ucast (push_bit 8 ?x OR ucast b) :: u8) = b"
    by (rule bit_word_eqI) (auto simp: bit_simps)
  ultimately show ?case using snoc by simp
qed

lemma put_get_u64:
  assumes "length bs = 8"
  shows "tr_raft_conf_put_u64 (tr_raft_conf_get_u64 bs) = bs"
  using put_u64_loop_foldl [of bs 0] assms
  by (simp add: tr_raft_conf_get_u64_def tr_raft_conf_put_u64_def)

section \<open>Round trips\<close>

lemma length_conf_member_bytes [simp]: "length (conf_member_bytes m) = 9"
  by (simp add: conf_member_bytes_def)

lemma length_concat_member_bytes [simp]:
  "length (concat (map conf_member_bytes ms)) = 9 * length ms"
  by (induction ms) auto

lemma drop_concat_member_bytes:
  "drop (9 * i) (concat (map conf_member_bytes ms)) = concat (map conf_member_bytes (drop i ms))"
proof (induction ms arbitrary: i)
  case Nil
  then show ?case by simp
next
  case (Cons m ms)
  then show ?case by (cases i) auto
qed

lemma conf_decode_member_concat:
  assumes "length header = 16" and "i < length ms"
  shows "conf_decode_member (header @ concat (map conf_member_bytes ms)) i = ms ! i"
proof -
  let ?b = "header @ concat (map conf_member_bytes ms)"
  have d: "drop (16 + 9 * i) ?b = conf_member_bytes (ms ! i) @ concat (map conf_member_bytes (drop (Suc i) ms))"
    using assms by (simp add: drop_concat_member_bytes flip: Cons_nth_drop_Suc)
  have "?b ! (16 + 9 * i + 8) = drop (16 + 9 * i) ?b ! 8"
    using assms by (subst nth_drop) simp_all
  also have "\<dots> = cm_roles (ms ! i)"
    unfolding d by (simp add: conf_member_bytes_def nth_append)
  finally have roles: "?b ! (16 + 9 * i + 8) = cm_roles (ms ! i)" .
  have "tr_raft_conf_get_u64 (drop (16 + 9 * i) ?b) = cm_node_id (ms ! i)"
    unfolding d by (simp add: conf_member_bytes_def)
  with roles show ?thesis
    unfolding conf_decode_member_def Let_def by simp
qed

lemma concat_chunks:
  "concat (map (\<lambda>i. take w (drop (w * i) xs)) [0..<n]) = take (w * n) xs"
proof (induction n)
  case (Suc n)
  have "take (w * Suc n) xs = take (w * n) xs @ take w (drop (w * n) xs)"
    by (simp add: add.commute [of w] take_add)
  with Suc show ?case by simp
qed simp

lemma conf_member_bytes_decode:
  assumes "16 + 9 * i + 9 \<le> length input"
  shows "conf_member_bytes (conf_decode_member input i) = take 9 (drop (9 * i) (drop 16 input))"
proof -
  let ?d = "drop (16 + 9 * i) input"
  have "take 9 ?d = take 8 ?d @ [?d ! 8]"
    using assms by (simp add: take_Suc_conv_app_nth flip: numeral_eq_Suc add: eval_nat_numeral)
  moreover have "tr_raft_conf_put_u64 (tr_raft_conf_get_u64 ?d) = take 8 ?d"
    using put_get_u64 [of "take 8 ?d"] assms by (simp add: tr_raft_conf_get_u64_def)
  ultimately show ?thesis
    using assms by (simp add: conf_member_bytes_def conf_decode_member_def Let_def add.commute)
qed

lemma split_header:
  assumes "16 \<le> length xs"
  shows "xs = take 4 xs @ [xs ! 4, xs ! 5, xs ! 6, xs ! 7] @ take 8 (drop 8 xs) @ drop 16 xs"
proof -
  have "take 4 (drop 4 xs) = [xs ! 4, xs ! 5, xs ! 6, xs ! 7]"
    using assms by (simp add: eval_nat_numeral take_Suc_conv_app_nth)
  moreover have "xs = take 4 xs @ take 4 (drop 4 xs) @ take 8 (drop 8 xs) @ drop 16 xs"
    using append_take_drop_id [of 4 xs] append_take_drop_id [of 4 "drop 4 xs"]
      append_take_drop_id [of 8 "drop 8 xs"] by simp
  ultimately show ?thesis by simp
qed

lemma phase_of_byte_inverse [simp]: "phase_to_byte (phase_of_byte b) = b"
  by (simp add: phase_of_byte_def)

lemma phase_to_byte_inverse:
  "conf_valid c \<Longrightarrow> phase_of_byte (phase_to_byte (conf_phase c)) = conf_phase c"
  by (auto simp: conf_valid_def phase_of_byte_def)

lemma conf_encode_decode_ex:
  assumes "tr_raft_conf_validate c = SALTS_OK" and "16 + 9 * length (conf_members c) \<le> capacity"
  shows "\<exists>bytes. tr_raft_conf_encode c capacity = (SALTS_OK, length bytes, bytes)
           \<and> tr_raft_conf_decode bytes = Inr c"
proof -
  let ?ms = "conf_members c"
  let ?h = "tr_raft_conf_magic @ [1, phase_to_byte (conf_phase c), of_nat (length ?ms), 0]
            @ tr_raft_conf_put_u64 (conf_transition_id c)"
  let ?b = "?h @ concat (map conf_member_bytes ?ms)"
  from assms(1) have valid: "conf_valid c" by (simp add: tr_raft_conf_validate_iff)
  then have n: "length ?ms \<noteq> 0" "length ?ms \<le> 31" by (auto simp: conf_valid_def)
  have h: "length ?h = 16" by (simp add: tr_raft_conf_magic_def)
  have count: "unat (?b ! 6) = length ?ms"
    using n by (simp add: tr_raft_conf_magic_def unat_of_nat)
  have members: "map (conf_decode_member ?b) [0..<length ?ms] = ?ms"
    by (rule nth_equalityI) (use conf_decode_member_concat [OF h] in simp_all)
  have tid: "tr_raft_conf_get_u64 (drop 8 ?b) = conf_transition_id c"
    by (simp add: tr_raft_conf_magic_def)
  have hdr: "take 4 ?b = tr_raft_conf_magic" "?b ! 4 = 1" "?b ! 7 = 0"
    "?b ! 5 = phase_to_byte (conf_phase c)"
    by (simp_all add: tr_raft_conf_magic_def)
  have "\<lparr>conf_phase = phase_of_byte (?b ! 5), conf_transition_id = tr_raft_conf_get_u64 (drop 8 ?b),
         conf_members = map (conf_decode_member ?b) [0..<length ?ms]\<rparr> = c"
    unfolding members tid hdr(4) by (simp add: phase_to_byte_inverse [OF valid])
  with n hdr count h assms(1) have "tr_raft_conf_decode ?b = Inr c"
    unfolding tr_raft_conf_decode_def Let_def by simp
  moreover have "tr_raft_conf_encode c capacity = (SALTS_OK, length ?b, ?b)"
    using assms h by (simp add: tr_raft_conf_encode_def Let_def)
  ultimately show ?thesis by blast
qed

text \<open>C24 (round trip, encode then decode). A configuration that \<open>tr_raft_conf_validate\<close> accepts is
  encoded into a buffer of at least the required size, and decoding the bytes gives exactly this
  configuration back: phase, transition id, and every member with its roles.\<close>

theorem conf_encode_decode:
  assumes "tr_raft_conf_validate c = SALTS_OK" and "16 + 9 * length (conf_members c) \<le> capacity"
  shows "\<exists>bytes. tr_raft_conf_encode c capacity = (SALTS_OK, length bytes, bytes)
           \<and> tr_raft_conf_decode bytes = Inr c"
  using assms by (rule conf_encode_decode_ex)

text \<open>C36 (round trip, decode then encode). Whatever bytes \<open>tr_raft_conf_decode\<close> accepts, the
  configuration it returns is valid and encodes to these very bytes: the accepted encodings are
  canonical, so two different byte strings never decode to the same configuration.\<close>

theorem conf_decode_encode:
  assumes "tr_raft_conf_decode input = Inr c"
  shows "tr_raft_conf_validate c = SALTS_OK
         \<and> tr_raft_conf_encode c (length input) = (SALTS_OK, length input, input)"
proof -
  let ?n = "unat (input ! 6)"
  from assms have n: "?n \<noteq> 0" "?n \<le> 31" and len: "length input = 16 + 9 * ?n"
    and hdr: "take 4 input = tr_raft_conf_magic" "input ! 4 = 1" "input ! 7 = 0"
    and c: "c = \<lparr>conf_phase = phase_of_byte (input ! 5),
              conf_transition_id = tr_raft_conf_get_u64 (drop 8 input),
              conf_members = map (conf_decode_member input) [0..<?n]\<rparr>"
    and ok: "tr_raft_conf_validate c = SALTS_OK"
    by (auto simp: tr_raft_conf_decode_def Let_def split: if_splits)
  have body: "concat (map conf_member_bytes (map (conf_decode_member input) [0..<?n])) = drop 16 input"
  proof -
    have "map conf_member_bytes (map (conf_decode_member input) [0..<?n])
      = map (\<lambda>i. take 9 (drop (9 * i) (drop 16 input))) [0..<?n]"
      using len by (simp add: conf_member_bytes_decode)
    then have "concat (map conf_member_bytes (map (conf_decode_member input) [0..<?n]))
      = concat (map (\<lambda>i. take 9 (drop (9 * i) (drop 16 input))) [0..<?n])"
      by (rule arg_cong)
    also have "\<dots> = drop 16 input"
      unfolding concat_chunks using len by simp
    finally show ?thesis .
  qed
  have tid: "tr_raft_conf_put_u64 (tr_raft_conf_get_u64 (drop 8 input)) = take 8 (drop 8 input)"
    using put_get_u64 [of "take 8 (drop 8 input)"] len by (simp add: tr_raft_conf_get_u64_def)
  have count: "(of_nat ?n :: u8) = input ! 6" by simp
  have "input = take 4 input @ [input ! 4, input ! 5, input ! 6, input ! 7]
      @ take 8 (drop 8 input) @ drop 16 input"
    using split_header [of input] len by simp
  then have "input = tr_raft_conf_magic @ [1, phase_to_byte (conf_phase c), of_nat (length (conf_members c)), 0]
      @ tr_raft_conf_put_u64 (conf_transition_id c) @ concat (map conf_member_bytes (conf_members c))"
    using hdr body tid count by (simp add: c)
  then show ?thesis
    using ok len by (simp add: tr_raft_conf_encode_def Let_def c)
qed

text \<open>Example configurations used by the witnesses of this and the later theories.\<close>

definition ex_joint :: conf where
  "ex_joint = \<lparr>conf_phase = TR_RAFT_CONF_JOINT, conf_transition_id = 7,
     conf_members = [\<lparr>cm_node_id = 1, cm_roles = 3\<rparr>, \<lparr>cm_node_id = 2, cm_roles = 1\<rparr>,
                     \<lparr>cm_node_id = 3, cm_roles = 2\<rparr>, \<lparr>cm_node_id = 9, cm_roles = 4\<rparr>]\<rparr>"

definition ex_joint_bytes :: "u8 list" where
  "ex_joint_bytes =
     [84, 82, 67, 70, 1, 1, 4, 0, 0, 0, 0, 0, 0, 0, 0, 7,
      0, 0, 0, 0, 0, 0, 0, 1, 3,  0, 0, 0, 0, 0, 0, 0, 2, 1,
      0, 0, 0, 0, 0, 0, 0, 3, 2,  0, 0, 0, 0, 0, 0, 0, 9, 4]"

lemma ex_joint_valid [simp]: "tr_raft_conf_validate ex_joint = SALTS_OK"
  by code_simp

theorem conf_encode_decode_witness:
  "\<exists>bytes. tr_raft_conf_encode ex_joint 512 = (SALTS_OK, length bytes, bytes)
           \<and> tr_raft_conf_decode bytes = Inr ex_joint"
  by (rule conf_encode_decode) (simp_all add: ex_joint_def [THEN arg_cong, of conf_members])

theorem conf_decode_encode_witness:
  "tr_raft_conf_validate ex_joint = SALTS_OK
   \<and> tr_raft_conf_encode ex_joint (length ex_joint_bytes)
     = (SALTS_OK, length ex_joint_bytes, ex_joint_bytes)"
proof (rule conf_decode_encode)
  show "tr_raft_conf_decode ex_joint_bytes = Inr ex_joint" by code_simp
qed

lemma conf_entry_roundtrip_ex:
  assumes "conf_valid c" and "index \<noteq> 0" and "term \<noteq> 0"
  shows "\<exists>e. tr_raft_conf_entry_encode c index term = Inr e \<and> e_index e = index \<and> e_term e = term
           \<and> e_command_id e = 0 \<and> length (e_data e) \<le> TR_RAFT_MAX_ENTRY_BYTES
           \<and> tr_raft_conf_entry_decode e = Inr c"
proof -
  from assms(1) have n: "length (conf_members c) \<le> 31" and v: "tr_raft_conf_validate c = SALTS_OK"
    by (simp_all add: tr_raft_conf_validate_iff conf_valid_def)
  from n obtain bytes where enc: "tr_raft_conf_encode c 512 = (SALTS_OK, length bytes, bytes)"
    and dec: "tr_raft_conf_decode bytes = Inr c"
    using conf_encode_decode_ex [OF v, of 512] by auto
  from enc n have "length bytes \<le> 512"
    by (auto simp: tr_raft_conf_encode_def Let_def split: if_splits)
  with enc dec assms(2,3) show ?thesis
    by (simp add: tr_raft_conf_entry_encode_def tr_raft_conf_entry_decode_def
        tr_raft_conf_entry_is_configuration_def)
qed

text \<open>C37 (round trip through a log entry). A valid configuration stored in a log entry at a non-zero
  index and term always fits the entry, the entry is recognised as a configuration entry (its
  command id is 0), and reading it back gives the same configuration.\<close>

theorem conf_entry_roundtrip:
  assumes "tr_raft_conf_validate c = SALTS_OK" and "index \<noteq> 0" and "term \<noteq> 0"
  shows "\<exists>e. tr_raft_conf_entry_encode c index term = Inr e
           \<and> tr_raft_conf_entry_is_configuration e
           \<and> e_index e = index \<and> e_term e = term \<and> length (e_data e) \<le> TR_RAFT_MAX_ENTRY_BYTES
           \<and> tr_raft_conf_entry_decode e = Inr c"
  using conf_entry_roundtrip_ex [of c index "term"] assms
  by (auto simp: tr_raft_conf_validate_iff tr_raft_conf_entry_is_configuration_def)

theorem conf_entry_roundtrip_witness:
  "\<exists>e. tr_raft_conf_entry_encode ex_joint 5 2 = Inr e
     \<and> tr_raft_conf_entry_is_configuration e
     \<and> e_index e = 5 \<and> e_term e = 2 \<and> length (e_data e) \<le> TR_RAFT_MAX_ENTRY_BYTES
     \<and> tr_raft_conf_entry_decode e = Inr ex_joint"
  by (rule conf_entry_roundtrip) simp_all

lemma tr_raft_conf_entry_decode_valid:
  "tr_raft_conf_entry_decode e = Inr c \<Longrightarrow> conf_valid c"
  by (auto simp: tr_raft_conf_entry_decode_def tr_raft_conf_decode_def Let_def
      tr_raft_conf_validate_iff split: if_splits)

lemma tr_raft_conf_entry_decode_entry:
  "tr_raft_conf_entry_decode e = Inr c \<Longrightarrow>
     e_command_id e = 0 \<and> e_index e \<noteq> 0 \<and> e_term e \<noteq> 0 \<and> length (e_data e) \<le> TR_RAFT_MAX_ENTRY_BYTES"
  by (auto simp: tr_raft_conf_entry_decode_def tr_raft_conf_entry_is_configuration_def
      split: if_splits)

end
