(* ===== verification/Raft_Membership.thy ===== *)
theory Raft_Membership
  imports Raft_Configuration
begin

text \<open>
  The membership operations of \<open>src/core/raft_membership.c\<close>: stable, joint and final memberships,
  the voter lookup and the quorum tests. The lemmas give the voter sets of the memberships that the
  operations build, read the quorum tests as majorities of these sets, and show that quorums
  intersect, within one membership and across the steps of a membership change.
\<close>

section \<open>Arguments\<close>

text \<open>
  A C array argument is a pointer with a count: either a null pointer (with whatever count the
  caller passed) or an array of exactly \<open>count\<close> identifiers.
\<close>

datatype id_array = Id_null nat | Id_array "node_id list"

fun id_is_null :: "id_array \<Rightarrow> bool" where
  "id_is_null (Id_null n) = True"
| "id_is_null (Id_array xs) = False"

fun id_count :: "id_array \<Rightarrow> nat" where
  "id_count (Id_null n) = n"
| "id_count (Id_array xs) = length xs"

fun id_list :: "id_array \<Rightarrow> node_id list" where
  "id_list (Id_null n) = []"
| "id_list (Id_array xs) = xs"

section \<open>Merge steps shared by the union loops\<close>

text \<open>
  The loops over several ascending arrays keep a position in each; the model keeps the part of each
  array from its position on. \<open>least_head\<close> is the running minimum that starts at \<open>UINT64_MAX\<close> and
  is replaced by a strictly smaller head; \<open>skip_head\<close> advances a position whose head is the minimum.
\<close>

fun head_below :: "node_id \<Rightarrow> node_id list \<Rightarrow> node_id" where
  "head_below nxt [] = nxt"
| "head_below nxt (x # xs) = (if x < nxt then x else nxt)"

definition least_head :: "node_id list list \<Rightarrow> node_id" where
  "least_head xss = foldl head_below UINT64_MAX xss"

fun head_is :: "node_id \<Rightarrow> node_id list \<Rightarrow> bool" where
  "head_is nxt [] = False"
| "head_is nxt (x # xs) = (x = nxt)"

definition skip_head :: "node_id \<Rightarrow> node_id list \<Rightarrow> node_id list" where
  "skip_head nxt xs = (if head_is nxt xs then tl xs else xs)"

lemma length_skip_head: "length (skip_head n xs) \<le> length xs"
  by (simp add: skip_head_def)

lemma length_skip_head_less: "head_is n xs \<Longrightarrow> length (skip_head n xs) < length xs"
  by (cases xs) (simp_all add: skip_head_def)

lemma foldl_head_below:
  "foldl head_below a xss = a \<or> (\<exists>xs \<in> set xss. head_is (foldl head_below a xss) xs)"
proof (induction xss arbitrary: a)
  case (Cons xs xss)
  from Cons [of "head_below a xs"] show ?case
    by (cases xs) (auto split: if_splits)
qed simp

lemma foldl_head_below_le:
  "foldl head_below a xss \<le> a"
  "xs \<in> set xss \<Longrightarrow> xs \<noteq> [] \<Longrightarrow> foldl head_below a xss \<le> hd xs"
proof -
  show le: "foldl head_below a xss \<le> a" for a xss
  proof (induction xss arbitrary: a)
    case (Cons ys yss)
    have "head_below a ys \<le> a" by (cases ys) auto
    then show ?case using Cons [of "head_below a ys"] by simp
  qed simp
  show "xs \<in> set xss \<Longrightarrow> xs \<noteq> [] \<Longrightarrow> foldl head_below a xss \<le> hd xs"
  proof (induction xss arbitrary: a)
    case (Cons ys yss)
    show ?case
    proof (cases "xs = ys")
      case True
      have "head_below a ys \<le> hd ys" using True Cons.prems by (cases ys) auto
      then show ?thesis using le [of "head_below a ys" yss] True by simp
    next
      case False
      then show ?thesis using Cons by simp
    qed
  qed simp
qed

lemma least_head_cases:
  "least_head xss = UINT64_MAX \<or> (\<exists>xs \<in> set xss. head_is (least_head xss) xs)"
  unfolding least_head_def by (rule foldl_head_below)

lemma least_head_le: "xs \<in> set xss \<Longrightarrow> xs \<noteq> [] \<Longrightarrow> least_head xss \<le> hd xs"
  unfolding least_head_def by (rule foldl_head_below_le)

lemma least_head_max_head_is:
  assumes "least_head xss = UINT64_MAX" and "xs \<in> set xss" and "xs \<noteq> []"
  shows "head_is UINT64_MAX xs"
  using least_head_le [OF assms(2,3)] assms
  by (cases xs) (auto simp: word_order.extremum_unique)

lemma least_head_head_is:
  assumes "xs \<in> set xss" and "xs \<noteq> []"
  shows "\<exists>ys \<in> set xss. head_is (least_head xss) ys"
proof (cases "least_head xss = UINT64_MAX")
  case True
  with least_head_max_head_is [OF True assms] show ?thesis
    using assms(1) by auto
next
  case False
  then show ?thesis using least_head_cases [of xss] by auto
qed

lemma head_is_mem: "head_is n xs \<Longrightarrow> n \<in> set xs"
  by (cases xs) auto

section \<open>Operations\<close>

fun ascending_loop :: "node_id option \<Rightarrow> node_id list \<Rightarrow> bool" where
  "ascending_loop prev [] = True"
| "ascending_loop prev (x # xs) =
     (if x = 0 \<or> (case prev of None \<Rightarrow> False | Some p \<Rightarrow> p \<ge> x) then False
      else ascending_loop (Some x) xs)"

fun disjoint_loop :: "node_id list \<Rightarrow> node_id list \<Rightarrow> bool" where
  "disjoint_loop (v # vs) (l # ls) =
     (if v = l then False
      else if v < l then disjoint_loop vs (l # ls)
      else disjoint_loop (v # vs) ls)"
| "disjoint_loop vs ls = True"

definition tr_raft_membership_validate_set :: "id_array \<Rightarrow> id_array \<Rightarrow> salts_status" where
  "tr_raft_membership_validate_set voters learners =
     (if id_is_null voters \<or> id_count voters = 0
         \<or> id_count voters > TR_RAFT_MAX_MEMBERS
         \<or> id_count learners > TR_RAFT_MAX_MEMBERS - id_count voters
         \<or> (id_count learners \<noteq> 0 \<and> id_is_null learners)
         \<or> (id_count learners = 0 \<and> \<not> id_is_null learners)
      then SALTS_EINVAL
      else if \<not> ascending_loop None (id_list voters) then SALTS_EINVAL
      else if \<not> ascending_loop None (id_list learners) then SALTS_EINVAL
      else if \<not> disjoint_loop (id_list voters) (id_list learners) then SALTS_EINVAL
      else SALTS_OK)"

fun stable_valid_loop :: "node_id option \<Rightarrow> conf_member list \<Rightarrow> nat \<Rightarrow> bool" where
  "stable_valid_loop prev [] voter_count = (voter_count \<noteq> 0)"
| "stable_valid_loop prev (m # ms) voter_count =
     (if cm_node_id m = 0
         \<or> (case prev of None \<Rightarrow> False | Some p \<Rightarrow> p \<ge> cm_node_id m)
         \<or> (cm_roles m \<noteq> (TR_RAFT_CONF_OLD_VOTER OR TR_RAFT_CONF_NEW_VOTER)
            \<and> cm_roles m \<noteq> TR_RAFT_CONF_LEARNER)
      then False
      else stable_valid_loop (Some (cm_node_id m)) ms
             (voter_count
              + (if cm_roles m = (TR_RAFT_CONF_OLD_VOTER OR TR_RAFT_CONF_NEW_VOTER) then 1 else 0)))"

definition tr_raft_membership_stable_valid :: "conf \<Rightarrow> bool" where
  "tr_raft_membership_stable_valid c =
     (if conf_phase c \<noteq> TR_RAFT_CONF_FINAL
         \<or> length (conf_members c) = 0
         \<or> length (conf_members c) > TR_RAFT_MAX_MEMBERS
      then False
      else stable_valid_loop None (conf_members c) 0)"

function union_count_loop :: "node_id list \<Rightarrow> node_id list \<Rightarrow> node_id list \<Rightarrow> nat" where
  "union_count_loop cur vs ls =
     (if cur = [] \<and> vs = [] \<and> ls = [] then 0
      else
        let nxt = least_head [cur, vs, ls]
        in Suc (union_count_loop (skip_head nxt cur) (skip_head nxt vs) (skip_head nxt ls)))"
  by pat_completeness auto
termination
proof (relation "measure (\<lambda>(cur, vs, ls). length cur + length vs + length ls)", goal_cases)
  case 1
  show ?case by simp
next
  case (2 cur vs ls nxt)
  from 2 have "\<exists>xs \<in> set [cur, vs, ls]. xs \<noteq> []" by auto
  with 2(2) have "\<exists>xs \<in> set [cur, vs, ls]. head_is nxt xs"
    using least_head_head_is by blast
  then show ?case
    using length_skip_head [of nxt cur] length_skip_head [of nxt vs] length_skip_head [of nxt ls]
    by (auto dest!: length_skip_head_less)
qed

declare union_count_loop.simps [simp del]

definition tr_raft_membership_union_count :: "conf \<Rightarrow> id_array \<Rightarrow> id_array \<Rightarrow> nat" where
  "tr_raft_membership_union_count current target_voters target_learners =
     union_count_loop (conf_ids current) (id_list target_voters) (id_list target_learners)"

text \<open>The merge loop of \<open>tr_raft_membership_stable\<close>.\<close>

abbreviation stable_voter :: "node_id \<Rightarrow> conf_member" where
  "stable_voter v \<equiv> \<lparr>cm_node_id = v, cm_roles = TR_RAFT_CONF_OLD_VOTER OR TR_RAFT_CONF_NEW_VOTER\<rparr>"

abbreviation stable_learner :: "node_id \<Rightarrow> conf_member" where
  "stable_learner l \<equiv> \<lparr>cm_node_id = l, cm_roles = TR_RAFT_CONF_LEARNER\<rparr>"

fun stable_merge :: "node_id list \<Rightarrow> node_id list \<Rightarrow> conf_member list" where
  "stable_merge [] [] = []"
| "stable_merge (v # vs) [] = stable_voter v # stable_merge vs []"
| "stable_merge [] (l # ls) = stable_learner l # stable_merge [] ls"
| "stable_merge (v # vs) (l # ls) =
     (if v < l then stable_voter v # stable_merge vs (l # ls)
      else stable_learner l # stable_merge (v # vs) ls)"

definition tr_raft_membership_stable :: "id_array \<Rightarrow> id_array \<Rightarrow> salts_status + conf" where
  "tr_raft_membership_stable voters learners =
     (if tr_raft_membership_validate_set voters learners \<noteq> SALTS_OK then Inl SALTS_EINVAL
      else Inr \<lparr>conf_phase = TR_RAFT_CONF_FINAL, conf_transition_id = 0,
                conf_members = stable_merge (id_list voters) (id_list learners)\<rparr>)"

function joint_loop ::
    "conf_member list \<Rightarrow> node_id list \<Rightarrow> node_id list \<Rightarrow> conf_member list" where
  "joint_loop cur vs ls =
     (if cur = [] \<and> vs = [] \<and> ls = [] then []
      else
        let cur' = dropWhile (\<lambda>m. cm_roles m = TR_RAFT_CONF_LEARNER) cur;
            nxt = least_head [map cm_node_id cur', vs, ls]
        in if nxt = UINT64_MAX then []
           else
             let current_voter = head_is nxt (map cm_node_id cur');
                 roles = (if current_voter then TR_RAFT_CONF_OLD_VOTER else 0)
                         OR (if head_is nxt vs then TR_RAFT_CONF_NEW_VOTER else 0)
                         OR (if head_is nxt ls then TR_RAFT_CONF_LEARNER else 0);
                 rest = joint_loop (if current_voter then tl cur' else cur')
                          (skip_head nxt vs) (skip_head nxt ls)
             in if current_voter \<or> roles \<noteq> 0 then \<lparr>cm_node_id = nxt, cm_roles = roles\<rparr> # rest
                else rest)"
  by pat_completeness auto
termination
proof (relation "measure (\<lambda>(cur, vs, ls). length cur + length vs + length ls)", goal_cases)
  case 1
  show ?case by simp
next
  case (2 cur vs ls cur' nxt current_voter roles)
  then have cases: "head_is nxt (map cm_node_id cur') \<or> head_is nxt vs \<or> head_is nxt ls"
    using least_head_cases [of "[map cm_node_id cur', vs, ls]"] by auto
  have len: "length cur' \<le> length cur"
    using 2 by (simp add: length_dropWhile_le)
  have tl: "length (if current_voter then tl cur' else cur') \<le> length cur'"
    by simp
  show ?case
  proof (cases current_voter)
    case True
    with 2(5) have "head_is nxt (map cm_node_id cur')" by simp
    then have "cur' \<noteq> []" by (cases cur') simp_all
    then have "length (tl cur') < length cur'" by (cases cur') auto
    with True len length_skip_head [of nxt vs] length_skip_head [of nxt ls] show ?thesis
      by simp
  next
    case False
    with 2 cases have "head_is nxt vs \<or> head_is nxt ls" by simp
    with False len length_skip_head [of nxt vs] length_skip_head [of nxt ls] show ?thesis
      by (auto dest!: length_skip_head_less)
  qed
qed

declare joint_loop.simps [simp del]

definition tr_raft_membership_joint ::
    "conf \<Rightarrow> id_array \<Rightarrow> id_array \<Rightarrow> u64 \<Rightarrow> salts_status + conf" where
  "tr_raft_membership_joint current target_voters target_learners transition_id =
     (if transition_id = 0 \<or> \<not> tr_raft_membership_stable_valid current
         \<or> tr_raft_membership_validate_set target_voters target_learners \<noteq> SALTS_OK
      then Inl SALTS_EINVAL
      else if tr_raft_membership_union_count current target_voters target_learners
              > TR_RAFT_MAX_MEMBERS
      then Inl SALTS_ENOSPC
      else
        let joint = \<lparr>conf_phase = TR_RAFT_CONF_JOINT, conf_transition_id = transition_id,
                     conf_members = joint_loop (conf_members current)
                       (id_list target_voters) (id_list target_learners)\<rparr>
        in if tr_raft_conf_validate joint \<noteq> SALTS_OK then Inl SALTS_EINVAL else Inr joint)"

fun final_loop :: "conf_member list \<Rightarrow> conf_member list" where
  "final_loop [] = []"
| "final_loop (m # ms) =
     (if cm_roles m AND (TR_RAFT_CONF_NEW_VOTER OR TR_RAFT_CONF_LEARNER) = 0 then final_loop ms
      else \<lparr>cm_node_id = cm_node_id m,
            cm_roles = (if role_new (cm_roles m)
                        then TR_RAFT_CONF_OLD_VOTER OR TR_RAFT_CONF_NEW_VOTER
                        else TR_RAFT_CONF_LEARNER)\<rparr> # final_loop ms)"

definition tr_raft_membership_final :: "conf \<Rightarrow> salts_status + conf" where
  "tr_raft_membership_final joint =
     (if conf_phase joint \<noteq> TR_RAFT_CONF_JOINT \<or> tr_raft_conf_validate joint \<noteq> SALTS_OK
      then Inl SALTS_EINVAL
      else
        let final_membership = \<lparr>conf_phase = TR_RAFT_CONF_FINAL,
              conf_transition_id = conf_transition_id joint,
              conf_members = final_loop (conf_members joint)\<rparr>
        in if tr_raft_conf_validate final_membership \<noteq> SALTS_OK
           then Inl (tr_raft_conf_validate final_membership)
           else Inr final_membership)"

definition tr_raft_membership_index :: "conf \<Rightarrow> node_id \<Rightarrow> int" where
  "tr_raft_membership_index c n =
     (if n = 0 then - 1 else search_ascending 0 (conf_ids c) n)"

definition tr_raft_membership_roles :: "conf \<Rightarrow> node_id \<Rightarrow> u8" where
  "tr_raft_membership_roles c n =
     (let index = tr_raft_membership_index c n
      in if index < 0 then 0 else cm_roles (conf_members c ! nat index))"

definition tr_raft_membership_is_voter :: "conf \<Rightarrow> node_id \<Rightarrow> bool" where
  "tr_raft_membership_is_voter c n \<longleftrightarrow>
     tr_raft_membership_roles c n AND (TR_RAFT_CONF_OLD_VOTER OR TR_RAFT_CONF_NEW_VOTER) \<noteq> 0"

fun has_quorum_loop ::
    "nat \<Rightarrow> conf_member list \<Rightarrow> u32 \<Rightarrow> nat \<Rightarrow> nat \<Rightarrow> nat \<Rightarrow> nat \<Rightarrow> bool" where
  "has_quorum_loop index [] acknowledgements old_count old_acks new_count new_acks =
     (old_count \<noteq> 0 \<and> new_count \<noteq> 0
      \<and> old_acks \<ge> old_count div 2 + 1 \<and> new_acks \<ge> new_count div 2 + 1)"
| "has_quorum_loop index (m # ms) acknowledgements old_count old_acks new_count new_acks =
     (let acknowledged = (if u32_test acknowledgements (int index) then 1 else 0);
          is_old = role_old (cm_roles m);
          is_new = role_new (cm_roles m)
      in has_quorum_loop (Suc index) ms acknowledgements
           (old_count + (if is_old then 1 else 0))
           (old_acks + (if is_old then acknowledged else 0))
           (new_count + (if is_new then 1 else 0))
           (new_acks + (if is_new then acknowledged else 0)))"

definition tr_raft_membership_has_quorum :: "conf \<Rightarrow> u32 \<Rightarrow> bool" where
  "tr_raft_membership_has_quorum c acknowledgements =
     (if length (conf_members c) = 0 \<or> length (conf_members c) > TR_RAFT_MAX_MEMBERS then False
      else has_quorum_loop 0 (conf_members c) acknowledgements 0 0 0 0)"

text \<open>\<open>match_indices\<close> is an array as long as the member array.\<close>

fun match_acks_loop :: "nat \<Rightarrow> raft_index list \<Rightarrow> raft_index \<Rightarrow> u32 \<Rightarrow> u32" where
  "match_acks_loop index [] candidate acks = acks"
| "match_acks_loop index (m # ms) candidate acks =
     match_acks_loop (Suc index) ms candidate
       (if m \<ge> candidate then acks OR u32_shl1 (int index) else acks)"

definition tr_raft_membership_match_quorum :: "conf \<Rightarrow> raft_index list \<Rightarrow> raft_index \<Rightarrow> bool" where
  "tr_raft_membership_match_quorum c match_indices candidate_index =
     (if candidate_index = 0 \<or> length (conf_members c) > TR_RAFT_MAX_MEMBERS then False
      else tr_raft_membership_has_quorum c
             (match_acks_loop 0 (take (length (conf_members c)) match_indices) candidate_index 0))"

section \<open>Voter sets and the member lookup\<close>

definition old_voters :: "conf \<Rightarrow> node_id set" where
  "old_voters c = cm_node_id ` {m \<in> set (conf_members c). role_old (cm_roles m)}"

definition new_voters :: "conf \<Rightarrow> node_id set" where
  "new_voters c = cm_node_id ` {m \<in> set (conf_members c). role_new (cm_roles m)}"

definition learners_of :: "conf \<Rightarrow> node_id set" where
  "learners_of c = cm_node_id ` {m \<in> set (conf_members c). role_learner (cm_roles m)}"

lemma voters_filter [code]:
  "old_voters c = set (map cm_node_id (filter (\<lambda>m. role_old (cm_roles m)) (conf_members c)))"
  "new_voters c = set (map cm_node_id (filter (\<lambda>m. role_new (cm_roles m)) (conf_members c)))"
  "learners_of c = set (map cm_node_id (filter (\<lambda>m. role_learner (cm_roles m)) (conf_members c)))"
  by (simp_all add: old_voters_def new_voters_def learners_of_def)

lemma roles_valid_exclusive:
  "tr_raft_conf_roles_valid ph r \<Longrightarrow> \<not> (role_new r \<and> role_learner r)"
  by (auto simp: tr_raft_conf_roles_valid_def Let_def split: if_splits)

lemma finite_voters [simp]: "finite (old_voters c)" "finite (new_voters c)"
  by (simp_all add: old_voters_def new_voters_def)

lemma roles_and_3: "(r :: u8) AND 3 \<noteq> 0 \<longleftrightarrow> role_old r \<or> role_new r"
proof -
  have "(3 :: u8) = 1 OR 2" by simp
  then show ?thesis by (simp only: bit.conj_disj_distrib or_eq_0_iff) blast
qed

lemma roles_and_6: "(r :: u8) AND 6 \<noteq> 0 \<longleftrightarrow> role_new r \<or> role_learner r"
proof -
  have "(6 :: u8) = 2 OR 4" by simp
  then show ?thesis by (simp only: bit.conj_disj_distrib or_eq_0_iff) blast
qed

definition ids_ok :: "conf \<Rightarrow> bool" where
  "ids_ok c \<longleftrightarrow> sorted_wrt (<) (conf_ids c) \<and> 0 \<notin> set (conf_ids c)"

lemma conf_valid_ids_ok [intro]: "conf_valid c \<Longrightarrow> ids_ok c"
  by (simp add: conf_valid_def ids_ok_def)

lemma tr_raft_membership_index_range:
  "tr_raft_membership_index c n = - 1 \<or>
   (0 \<le> tr_raft_membership_index c n \<and>
    tr_raft_membership_index c n < int (length (conf_members c)) \<and>
    cm_node_id (conf_members c ! nat (tr_raft_membership_index c n)) = n)"
  using search_ascending_range [of 0 "conf_ids c" n] search_ascending_nth [of 0 "conf_ids c" n]
  by (auto simp: tr_raft_membership_index_def)

lemma tr_raft_membership_index_found:
  assumes "ids_ok c" and "m \<in> set (conf_members c)"
  shows "\<exists>k < length (conf_members c). conf_members c ! k = m
           \<and> tr_raft_membership_index c (cm_node_id m) = int k"
proof -
  from assms(2) obtain k where k: "k < length (conf_members c)" "conf_members c ! k = m"
    by (auto simp: in_set_conv_nth)
  with assms have "cm_node_id m \<noteq> 0" by (auto simp: ids_ok_def)
  moreover have "search_ascending 0 (conf_ids c) (conf_ids c ! k) = int (0 + k)"
    using assms(1) k by (intro search_ascending_found) (simp_all add: ids_ok_def)
  ultimately have "tr_raft_membership_index c (cm_node_id m) = int k"
    using k by (simp add: tr_raft_membership_index_def)
  with k show ?thesis by blast
qed

lemma tr_raft_membership_roles_of:
  assumes "ids_ok c" and "m \<in> set (conf_members c)"
  shows "tr_raft_membership_roles c (cm_node_id m) = cm_roles m"
  using tr_raft_membership_index_found [OF assms]
  by (auto simp: tr_raft_membership_roles_def Let_def)

lemma tr_raft_membership_roles_none:
  assumes "n \<notin> set (conf_ids c)"
  shows "tr_raft_membership_roles c n = 0"
  using search_ascending_notin [OF assms, of 0]
  by (simp add: tr_raft_membership_roles_def tr_raft_membership_index_def)

lemma tr_raft_membership_is_voter_iff:
  assumes "ids_ok c"
  shows "tr_raft_membership_is_voter c n \<longleftrightarrow> n \<in> old_voters c \<union> new_voters c"
proof (cases "n \<in> set (conf_ids c)")
  case True
  then obtain m where m: "m \<in> set (conf_members c)" "cm_node_id m = n" by auto
  have inj: "m' = m" if "m' \<in> set (conf_members c)" "cm_node_id m' = n" for m'
    using that m assms
    by (metis distinct_map ids_ok_def inj_onD strict_sorted_iff)
  from tr_raft_membership_roles_of [OF assms m(1)] m(2)
  have "tr_raft_membership_is_voter c n \<longleftrightarrow> role_old (cm_roles m) \<or> role_new (cm_roles m)"
    by (simp add: tr_raft_membership_is_voter_def roles_and_3)
  also have "\<dots> \<longleftrightarrow> n \<in> old_voters c \<union> new_voters c"
    unfolding old_voters_def new_voters_def using m inj by blast
  finally show ?thesis .
next
  case False
  then show ?thesis
    using tr_raft_membership_roles_none [OF False]
    by (auto simp: tr_raft_membership_is_voter_def old_voters_def new_voters_def)
qed

lemma is_voter_in_ids:
  "tr_raft_membership_is_voter c n \<Longrightarrow> n \<in> set (conf_ids c)"
proof (rule ccontr)
  assume "tr_raft_membership_is_voter c n" and "n \<notin> set (conf_ids c)"
  with tr_raft_membership_roles_none [of n c] show False
    by (simp add: tr_raft_membership_is_voter_def)
qed

section \<open>Quorums as majorities\<close>

text \<open>
  The abstract quorum interface a client relies on: supersets of quorums are quorums and any two
  quorums have a common node. The client's use of it is that at most one candidate can collect a
  quorum of votes when no node votes for two.
\<close>

locale quorum_system =
  fixes quorum :: "node_id set \<Rightarrow> bool"
  assumes quorum_mono: "quorum A \<Longrightarrow> A \<subseteq> B \<Longrightarrow> quorum B"
    and quorum_intersect: "quorum A \<Longrightarrow> quorum B \<Longrightarrow> A \<inter> B \<noteq> {}"
begin

lemma unique_winner:
  assumes "quorum A" and "quorum B"
    and "\<And>n. n \<in> A \<Longrightarrow> vote n = Some x" and "\<And>n. n \<in> B \<Longrightarrow> vote n = Some y"
  shows "x = y"
proof -
  from quorum_intersect [OF assms(1,2)] obtain n where "n \<in> A" "n \<in> B" by blast
  with assms(3,4) have "Some x = Some y" by metis
  then show ?thesis by simp
qed

lemma complement_no_quorum:
  assumes "quorum A"
  shows "\<not> quorum (- A)"
  using quorum_intersect [OF assms] by blast

end

definition majority_of :: "node_id set \<Rightarrow> node_id set \<Rightarrow> bool" where
  "majority_of V A \<longleftrightarrow> V \<noteq> {} \<and> card V div 2 + 1 \<le> card (A \<inter> V)"

definition conf_quorum :: "conf \<Rightarrow> node_id set \<Rightarrow> bool" where
  "conf_quorum c A \<longleftrightarrow> majority_of (old_voters c) A \<and> majority_of (new_voters c) A"

lemma majority_of_mono: "finite V \<Longrightarrow> majority_of V A \<Longrightarrow> A \<subseteq> B \<Longrightarrow> majority_of V B"
proof -
  assume "finite V" "majority_of V A" "A \<subseteq> B"
  then have "card (A \<inter> V) \<le> card (B \<inter> V)" by (intro card_mono) auto
  with \<open>majority_of V A\<close> show ?thesis by (auto simp: majority_of_def)
qed

lemma majority_of_intersect:
  assumes "finite V" and "majority_of V A" and "majority_of V B"
  shows "A \<inter> B \<inter> V \<noteq> {}"
proof
  assume "A \<inter> B \<inter> V = {}"
  then have "(A \<inter> V) \<inter> (B \<inter> V) = {}" by blast
  with assms(1) have "card (A \<inter> V) + card (B \<inter> V) = card ((A \<inter> V) \<union> (B \<inter> V))"
    by (intro card_Un_disjoint [symmetric]) auto
  also have "\<dots> \<le> card V" using assms(1) by (intro card_mono) auto
  finally have "card (A \<inter> V) + card (B \<inter> V) \<le> card V" .
  moreover have "card V div 2 + 1 \<le> card (A \<inter> V)" "card V div 2 + 1 \<le> card (B \<inter> V)"
    using assms(2,3) by (simp_all add: majority_of_def)
  ultimately show False by arith
qed

interpretation conf_q: quorum_system "conf_quorum c" for c
proof unfold_locales
  show "conf_quorum c B" if "conf_quorum c A" "A \<subseteq> B" for A B
    using that by (auto simp: conf_quorum_def intro: majority_of_mono)
  show "A \<inter> B \<noteq> {}" if "conf_quorum c A" "conf_quorum c B" for A B
    using that majority_of_intersect [of "old_voters c" A B] by (auto simp: conf_quorum_def)
qed

definition acked_ids :: "conf \<Rightarrow> u32 \<Rightarrow> node_id set" where
  "acked_ids c acks = {cm_node_id (conf_members c ! i) | i. i < length (conf_members c) \<and> bit acks i}"

lemma acked_ids_filter [code]:
  "acked_ids c acks =
     set (map (\<lambda>i. cm_node_id (conf_members c ! i)) (filter (bit acks) [0..<length (conf_members c)]))"
  by (auto simp: acked_ids_def)

lemma has_quorum_loop_counts:
  "has_quorum_loop k ms acks a b d e \<longleftrightarrow>
     (let oldn = a + length (filter (\<lambda>m. role_old (cm_roles m)) ms);
          olda = b + length (filter (\<lambda>(i, m). u32_test acks (int i) \<and> role_old (cm_roles m)) (enumerate k ms));
          newn = d + length (filter (\<lambda>m. role_new (cm_roles m)) ms);
          newa = e + length (filter (\<lambda>(i, m). u32_test acks (int i) \<and> role_new (cm_roles m)) (enumerate k ms))
      in oldn \<noteq> 0 \<and> newn \<noteq> 0 \<and> oldn div 2 + 1 \<le> olda \<and> newn div 2 + 1 \<le> newa)"
proof (induction k ms acks a b d e rule: has_quorum_loop.induct)
  case (2 k m ms acks a b d e)
  show ?case
    unfolding has_quorum_loop.simps Let_def 2 [OF refl refl refl]
    by (cases "role_old (cm_roles m)"; cases "role_new (cm_roles m)";
        cases "u32_test acks (int k)") (simp_all add: Let_def)
qed (simp add: Let_def)

lemma card_role_ids:
  assumes "distinct (conf_ids c)"
  shows "length (filter (\<lambda>m. P (cm_roles m)) (conf_members c))
         = card (cm_node_id ` {m \<in> set (conf_members c). P (cm_roles m)})"
proof -
  from assms have "distinct (conf_members c)" and inj: "inj_on cm_node_id (set (conf_members c))"
    by (simp_all add: distinct_map)
  then have "length (filter (\<lambda>m. P (cm_roles m)) (conf_members c))
      = card {m \<in> set (conf_members c). P (cm_roles m)}"
    by (metis distinct_card distinct_filter set_filter)
  also have "\<dots> = card (cm_node_id ` {m \<in> set (conf_members c). P (cm_roles m)})"
    using inj by (intro card_image [symmetric]) (auto intro: inj_on_subset)
  finally show ?thesis .
qed

lemma card_role_acked:
  assumes "distinct (conf_ids c)" and "length (conf_members c) \<le> 31"
  shows "length (filter (\<lambda>(i, m). u32_test acks (int i) \<and> P (cm_roles m)) (enumerate 0 (conf_members c)))
         = card (acked_ids c acks \<inter> cm_node_id ` {m \<in> set (conf_members c). P (cm_roles m)})"
proof -
  let ?ms = "conf_members c"
  let ?I = "{i. i < length ?ms \<and> bit acks i \<and> P (cm_roles (?ms ! i))}"
  have inj: "inj_on (\<lambda>i. cm_node_id (?ms ! i)) {i. i < length ?ms}"
    using assms(1) by (auto simp: inj_on_def distinct_conv_nth)
  have "length (filter (\<lambda>(i, m). u32_test acks (int i) \<and> P (cm_roles m)) (enumerate 0 ?ms)) = card ?I"
    unfolding length_filter_conv_card
    using assms(2) by (intro arg_cong [where f = card]) (auto simp: nth_enumerate_eq)
  also have "\<dots> = card ((\<lambda>i. cm_node_id (?ms ! i)) ` ?I)"
    by (rule card_image [symmetric]) (rule inj_on_subset [OF inj], auto)
  also have "(\<lambda>i. cm_node_id (?ms ! i)) ` ?I
      = acked_ids c acks \<inter> cm_node_id ` {m \<in> set ?ms. P (cm_roles m)}"
  proof (intro equalityI subsetI)
    fix n assume "n \<in> acked_ids c acks \<inter> cm_node_id ` {m \<in> set ?ms. P (cm_roles m)}"
    then obtain i j where i: "i < length ?ms" "bit acks i" "n = cm_node_id (?ms ! i)"
      and j: "j < length ?ms" "P (cm_roles (?ms ! j))" "n = cm_node_id (?ms ! j)"
      by (auto simp: acked_ids_def in_set_conv_nth)
    with inj have "i = j" by (auto simp: inj_on_def)
    with i j show "n \<in> (\<lambda>i. cm_node_id (?ms ! i)) ` ?I" by auto
  next
    fix n assume "n \<in> (\<lambda>i. cm_node_id (?ms ! i)) ` ?I"
    then obtain i where "i < length ?ms" "bit acks i" "P (cm_roles (?ms ! i))" "n = cm_node_id (?ms ! i)"
      by auto
    then show "n \<in> acked_ids c acks \<inter> cm_node_id ` {m \<in> set ?ms. P (cm_roles m)}"
      unfolding acked_ids_def by auto
  qed
  finally show ?thesis .
qed

lemma has_quorum_iff:
  assumes "distinct (conf_ids c)" and "length (conf_members c) \<le> 31"
  shows "tr_raft_membership_has_quorum c acks \<longleftrightarrow> conf_quorum c (acked_ids c acks)"
proof -
  have empty: "conf_members c = [] \<Longrightarrow> \<not> conf_quorum c (acked_ids c acks)"
    by (simp add: conf_quorum_def majority_of_def old_voters_def)
  show ?thesis
    using assms(2) empty
    unfolding tr_raft_membership_has_quorum_def has_quorum_loop_counts Let_def
      card_role_ids [OF assms(1), where P = role_old] card_role_ids [OF assms(1), where P = role_new]
      card_role_acked [OF assms, where P = role_old] card_role_acked [OF assms, where P = role_new]
      conf_quorum_def majority_of_def
    by (auto simp: old_voters_def new_voters_def card_eq_0_iff)
qed

lemma has_quorum_empty_mask:
  "tr_raft_membership_has_quorum c acks \<Longrightarrow> conf_members c \<noteq> [] \<and> length (conf_members c) \<le> 31"
  by (auto simp: tr_raft_membership_has_quorum_def split: if_splits)

lemma bit_match_acks_loop:
  assumes "k + length ms \<le> 32" and "i < 32"
  shows "bit (match_acks_loop k ms cand acks) i \<longleftrightarrow>
           bit acks i \<or> (k \<le> i \<and> i < k + length ms \<and> ms ! (i - k) \<ge> cand)"
  using assms
proof (induction k ms cand acks rule: match_acks_loop.induct)
  case (2 k m ms cand acks)
  from 2(2,3) have k: "k < 32" by simp
  have nth: "(m # ms) ! (i - k) = ms ! (i - Suc k)" if "Suc k \<le> i"
    using that by (simp add: nth_Cons' Suc_diff_Suc)
  from 2 k show ?case
    by (cases "i = k") (auto simp: bit_or_iff nth nth_Cons')
qed auto

lemma match_quorum_iff:
  assumes "distinct (conf_ids c)" and "length (conf_members c) \<le> length mi"
  shows "tr_raft_membership_match_quorum c mi cand \<longleftrightarrow>
           cand \<noteq> 0 \<and> length (conf_members c) \<le> 31 \<and>
           conf_quorum c {cm_node_id (conf_members c ! i) | i. i < length (conf_members c) \<and> cand \<le> mi ! i}"
proof (cases "length (conf_members c) \<le> 31")
  case True
  let ?acks = "match_acks_loop 0 (take (length (conf_members c)) mi) cand 0"
  have "bit ?acks i \<longleftrightarrow> cand \<le> mi ! i" if "i < length (conf_members c)" for i
    using that True assms(2) by (subst bit_match_acks_loop) auto
  then have "acked_ids c ?acks
      = {cm_node_id (conf_members c ! i) | i. i < length (conf_members c) \<and> cand \<le> mi ! i}"
    unfolding acked_ids_def by (simp cong: conj_cong)
  with True show ?thesis
    by (simp add: tr_raft_membership_match_quorum_def has_quorum_iff [OF assms(1) True])
next
  case False
  then show ?thesis by (simp add: tr_raft_membership_match_quorum_def)
qed

section \<open>Target sets and the stable membership\<close>

lemma ascending_loop_iff:
  "ascending_loop prev xs \<longleftrightarrow>
     (case prev of None \<Rightarrow> True | Some p \<Rightarrow> xs \<noteq> [] \<longrightarrow> p < hd xs)
     \<and> 0 \<notin> set xs \<and> sorted_wrt (<) xs"
proof (induction prev xs rule: ascending_loop.induct)
  case (2 prev x xs)
  have "sorted_wrt (<) (x # xs) \<longleftrightarrow> (xs \<noteq> [] \<longrightarrow> x < hd xs) \<and> sorted_wrt (<) xs"
    by (cases xs) (auto intro: less_trans)
  with 2 show ?case by (auto split: option.splits simp del: sorted_wrt.simps)
qed (simp split: option.split)

lemma disjoint_loop_iff:
  "sorted_wrt (<) vs \<Longrightarrow> sorted_wrt (<) ls \<Longrightarrow> disjoint_loop vs ls \<longleftrightarrow> set vs \<inter> set ls = {}"
  by (induction vs ls rule: disjoint_loop.induct) (auto dest: less_asym)

definition target_ok :: "id_array \<Rightarrow> id_array \<Rightarrow> bool" where
  "target_ok voters learners \<longleftrightarrow>
     (\<exists>vs. voters = Id_array vs \<and> vs \<noteq> [] \<and> sorted_wrt (<) vs \<and> 0 \<notin> set vs \<and>
       (learners = Id_null 0 \<or>
         (\<exists>ls. learners = Id_array ls \<and> ls \<noteq> [] \<and> sorted_wrt (<) ls \<and> 0 \<notin> set ls)) \<and>
       set vs \<inter> set (id_list learners) = {} \<and> length vs + length (id_list learners) \<le> 31)"

lemma validate_set_iff:
  "tr_raft_membership_validate_set voters learners = SALTS_OK \<longleftrightarrow> target_ok voters learners"
  by (cases voters; cases learners)
     (auto simp: tr_raft_membership_validate_set_def target_ok_def ascending_loop_iff
       disjoint_loop_iff)

lemma set_stable_merge:
  "set (stable_merge vs ls) = stable_voter ` set vs \<union> stable_learner ` set ls"
  by (induction vs ls rule: stable_merge.induct) auto

lemma length_stable_merge [simp]: "length (stable_merge vs ls) = length vs + length ls"
  by (induction vs ls rule: stable_merge.induct) auto

lemma ids_stable_merge: "set (map cm_node_id (stable_merge vs ls)) = set vs \<union> set ls"
  by (simp add: set_stable_merge image_Un image_image)

lemma sorted_stable_merge:
  "sorted_wrt (<) vs \<Longrightarrow> sorted_wrt (<) ls \<Longrightarrow> set vs \<inter> set ls = {} \<Longrightarrow>
     sorted_wrt (<) (map cm_node_id (stable_merge vs ls))"
proof (induction vs ls rule: stable_merge.induct)
  case (4 v vs l ls)
  show ?case
  proof (cases "v < l")
    case True
    with 4 show ?thesis
      using ids_stable_merge [of vs "l # ls"] by (auto intro: less_trans)
  next
    case False
    with 4(5) have "l < v" by auto
    with 4 False show ?thesis
      using ids_stable_merge [of "v # vs" ls] by (auto intro: less_trans)
  qed
qed (auto simp: set_stable_merge)

lemma stable_merge_voters:
  assumes "conf_members c = stable_merge vs ls"
  shows "old_voters c = set vs" "new_voters c = set vs" "learners_of c = set ls"
proof -
  have "{m \<in> set (conf_members c). role_old (cm_roles m)} = stable_voter ` set vs"
    "{m \<in> set (conf_members c). role_new (cm_roles m)} = stable_voter ` set vs"
    "{m \<in> set (conf_members c). role_learner (cm_roles m)} = stable_learner ` set ls"
    by (auto simp: assms set_stable_merge)
  then show "old_voters c = set vs" "new_voters c = set vs" "learners_of c = set ls"
    by (simp_all add: old_voters_def new_voters_def learners_of_def image_image)
qed

lemma membership_stable_Inr:
  assumes "tr_raft_membership_stable voters learners = Inr c"
  shows "tr_raft_conf_validate c = SALTS_OK" "conf_phase c = TR_RAFT_CONF_FINAL"
    "old_voters c = set (id_list voters)" "new_voters c = set (id_list voters)"
    "learners_of c = set (id_list learners)"
proof -
  from assms have ok: "target_ok voters learners"
    and mem: "conf_members c = stable_merge (id_list voters) (id_list learners)"
    and ph: "conf_phase c = TR_RAFT_CONF_FINAL"
    by (auto simp: tr_raft_membership_stable_def validate_set_iff split: if_splits)
  show "conf_phase c = TR_RAFT_CONF_FINAL" by (rule ph)
  show "old_voters c = set (id_list voters)" "new_voters c = set (id_list voters)"
    "learners_of c = set (id_list learners)"
    using stable_merge_voters [OF mem] by simp_all
  from ok have "sorted_wrt (<) (conf_ids c)" "0 \<notin> set (conf_ids c)"
    unfolding mem ids_stable_merge by (auto simp: target_ok_def intro!: sorted_stable_merge)
  moreover from ok have "length (conf_members c) \<le> 31"
    unfolding mem by (auto simp: target_ok_def)
  moreover obtain v where "stable_voter v \<in> set (conf_members c)"
    using ok unfolding mem set_stable_merge target_ok_def
    by (metis UnI1 id_list.simps(2) imageI list.set_intros(1) neq_Nil_conv)
  then have "conf_members c \<noteq> []" "\<exists>m \<in> set (conf_members c). role_old (cm_roles m)"
    "\<exists>m \<in> set (conf_members c). role_new (cm_roles m)"
    by (auto intro!: bexI [of _ "stable_voter v"])
  moreover have "\<forall>m \<in> set (conf_members c). tr_raft_conf_roles_valid (conf_phase c) (cm_roles m)"
    unfolding mem ph by (auto simp: set_stable_merge tr_raft_conf_roles_valid_def Let_def)
  ultimately show "tr_raft_conf_validate c = SALTS_OK"
    unfolding tr_raft_conf_validate_iff conf_valid_def ph by blast
qed

text \<open>C38 (functional). \<open>tr_raft_membership_stable\<close> succeeds exactly on the voter and learner arrays
  that the API documents (non-null and non-empty voters, strictly ascending, non-zero, disjoint, at
  most 31 together, a null learner pointer exactly when there are none). The membership it builds
  passes validation, is in the final phase, and has exactly these voters and learners.\<close>

theorem membership_stable_correct:
  "(\<exists>c. tr_raft_membership_stable voters learners = Inr c) = target_ok voters learners
   \<and> (\<forall>c. tr_raft_membership_stable voters learners = Inr c \<longrightarrow>
        tr_raft_conf_validate c = SALTS_OK \<and> conf_phase c = TR_RAFT_CONF_FINAL
        \<and> old_voters c = set (id_list voters) \<and> new_voters c = set (id_list voters)
        \<and> learners_of c = set (id_list learners))"
  using membership_stable_Inr [of voters learners]
  by (auto simp: tr_raft_membership_stable_def validate_set_iff)

theorem membership_stable_correct_witness:
  "\<exists>c. tr_raft_membership_stable (Id_array [1, 2, 3]) (Id_array [7]) = Inr c
     \<and> tr_raft_conf_validate c = SALTS_OK \<and> conf_phase c = TR_RAFT_CONF_FINAL
     \<and> old_voters c = {1, 2, 3} \<and> learners_of c = {7}"
proof -
  have "target_ok (Id_array [1, 2, 3]) (Id_array [7])" by (simp add: target_ok_def)
  then show ?thesis
    using membership_stable_correct [of "Id_array [1, 2, 3]" "Id_array [7]"] by auto
qed

section \<open>The union loops\<close>

lemma head_is_iff:
  assumes "sorted_wrt (<) xs" and "xs \<noteq> [] \<Longrightarrow> n \<le> hd xs"
  shows "head_is n xs \<longleftrightarrow> n \<in> set xs"
  using assms by (cases xs) auto

lemma set_skip_head:
  assumes "sorted_wrt (<) xs" and "xs \<noteq> [] \<Longrightarrow> n \<le> hd xs"
  shows "set (skip_head n xs) = set xs - {n}"
  using assms by (cases xs) (auto simp: skip_head_def)

lemma sorted_skip_head: "sorted_wrt (<) xs \<Longrightarrow> sorted_wrt (<) (skip_head n xs)"
  by (cases xs) (auto simp: skip_head_def)

lemma least_head_lower:
  assumes "xs \<in> set xss" and "sorted_wrt (<) xs" and "x \<in> set xs"
  shows "least_head xss \<le> x"
proof -
  from assms(3) have "xs \<noteq> []" by auto
  then have "least_head xss \<le> hd xs" by (rule least_head_le [OF assms(1)])
  also have "hd xs \<le> x" using assms(2,3) by (cases xs) auto
  finally show ?thesis .
qed

lemma union_count_loop_card:
  "sorted_wrt (<) cur \<Longrightarrow> sorted_wrt (<) vs \<Longrightarrow> sorted_wrt (<) ls \<Longrightarrow>
     union_count_loop cur vs ls = card (set cur \<union> set vs \<union> set ls)"
proof (induction cur vs ls rule: union_count_loop.induct)
  case (1 cur vs ls)
  show ?case
  proof (cases "cur = [] \<and> vs = [] \<and> ls = []")
    case True
    then show ?thesis by (simp add: union_count_loop.simps)
  next
    case False
    let ?n = "least_head [cur, vs, ls]"
    have le: "xs \<noteq> [] \<Longrightarrow> ?n \<le> hd xs" if "xs \<in> {cur, vs, ls}" for xs
      using that least_head_le [of xs "[cur, vs, ls]"] by auto
    have mem: "?n \<in> set cur \<union> set vs \<union> set ls"
    proof -
      from False have "\<exists>xs \<in> set [cur, vs, ls]. xs \<noteq> []" by auto
      then have "\<exists>ys \<in> set [cur, vs, ls]. head_is ?n ys"
        using least_head_head_is by blast
      then show ?thesis using head_is_mem [of ?n] by auto
    qed
    have "union_count_loop (skip_head ?n cur) (skip_head ?n vs) (skip_head ?n ls)
        = card (set (skip_head ?n cur) \<union> set (skip_head ?n vs) \<union> set (skip_head ?n ls))"
      by (rule 1(1) [OF False refl]) (simp_all add: 1(2-4) sorted_skip_head)
    also have "set (skip_head ?n cur) \<union> set (skip_head ?n vs) \<union> set (skip_head ?n ls)
        = (set cur \<union> set vs \<union> set ls) - {?n}"
      using 1(2-4) le by (auto simp: set_skip_head)
    also have "Suc (card \<dots>) = card (set cur \<union> set vs \<union> set ls)"
      by (rule card_Suc_Diff1) (use mem in auto)
    finally show ?thesis
      using False by (simp add: union_count_loop.simps [of cur vs ls] Let_def)
  qed
qed

abbreviation voter_members :: "conf_member list \<Rightarrow> conf_member list" where
  "voter_members ms \<equiv> filter (\<lambda>m. cm_roles m \<noteq> TR_RAFT_CONF_LEARNER) ms"

abbreviation voter_ids :: "conf_member list \<Rightarrow> node_id list" where
  "voter_ids ms \<equiv> map cm_node_id (voter_members ms)"

lemma dropWhile_voter_ids:
  assumes "sorted_wrt (<) (map cm_node_id cur)"
    and "cur' = dropWhile (\<lambda>m. cm_roles m = TR_RAFT_CONF_LEARNER) cur"
  shows "voter_members cur' = voter_members cur"
    and "sorted_wrt (<) (map cm_node_id cur')"
    and "cur' \<noteq> [] \<Longrightarrow> cm_roles (hd cur') \<noteq> TR_RAFT_CONF_LEARNER"
proof -
  show "voter_members cur' = voter_members cur"
    unfolding assms(2) by (induction cur) auto
  show "sorted_wrt (<) (map cm_node_id cur')"
    unfolding assms(2) using assms(1) by (induction cur) auto
  show "cur' \<noteq> [] \<Longrightarrow> cm_roles (hd cur') \<noteq> TR_RAFT_CONF_LEARNER"
    unfolding assms(2) using hd_dropWhile [of "\<lambda>m. cm_roles m = 4" cur] by simp
qed

definition joint_roles_of ::
    "node_id set \<Rightarrow> node_id set \<Rightarrow> node_id set \<Rightarrow> conf_member \<Rightarrow> bool" where
  "joint_roles_of O' N' L' m \<longleftrightarrow>
     cm_roles m =
       (if cm_node_id m \<in> O' then TR_RAFT_CONF_OLD_VOTER else 0)
       OR (if cm_node_id m \<in> N' then TR_RAFT_CONF_NEW_VOTER else 0)
       OR (if cm_node_id m \<in> L' then TR_RAFT_CONF_LEARNER else 0)"

lemma joint_roles_of_cong:
  "cm_node_id m \<in> A \<longleftrightarrow> cm_node_id m \<in> A' \<Longrightarrow> cm_node_id m \<in> B \<longleftrightarrow> cm_node_id m \<in> B' \<Longrightarrow>
   cm_node_id m \<in> C \<longleftrightarrow> cm_node_id m \<in> C' \<Longrightarrow> joint_roles_of A B C m = joint_roles_of A' B' C' m"
  by (simp add: joint_roles_of_def)

lemma joint_head:
  assumes cur: "sorted_wrt (<) (map cm_node_id cur)"
    and hd: "cur \<noteq> [] \<Longrightarrow> cm_roles (hd cur) \<noteq> TR_RAFT_CONF_LEARNER"
    and n: "cur \<noteq> [] \<Longrightarrow> n \<le> cm_node_id (hd cur)"
  shows "head_is n (map cm_node_id cur) \<longleftrightarrow> n \<in> set (voter_ids cur)"
    and "set (voter_ids (if head_is n (map cm_node_id cur) then tl cur else cur))
         = set (voter_ids cur) - {n}"
    and "sorted_wrt (<) (map cm_node_id (if head_is n (map cm_node_id cur) then tl cur else cur))"
proof -
  show "head_is n (map cm_node_id cur) \<longleftrightarrow> n \<in> set (voter_ids cur)"
    using assms by (cases cur) auto
  show "set (voter_ids (if head_is n (map cm_node_id cur) then tl cur else cur))
         = set (voter_ids cur) - {n}"
    using assms by (cases cur) auto
  show "sorted_wrt (<) (map cm_node_id (if head_is n (map cm_node_id cur) then tl cur else cur))"
    using cur by (cases cur) auto
qed

text \<open>One round of the joint loop that does not end it: the member it emits and what is left.\<close>

lemma joint_loop_round:
  assumes "cur \<noteq> [] \<or> vs \<noteq> [] \<or> ls \<noteq> []"
    and cur': "cur' = dropWhile (\<lambda>m. cm_roles m = TR_RAFT_CONF_LEARNER) cur"
    and n: "n = least_head [map cm_node_id cur', vs, ls]" and "n \<noteq> UINT64_MAX"
    and sorted: "sorted_wrt (<) (map cm_node_id cur)" "sorted_wrt (<) vs" "sorted_wrt (<) ls"
  defines "rcur \<equiv> if head_is n (map cm_node_id cur') then tl cur' else cur'"
  shows "joint_loop cur vs ls =
           \<lparr>cm_node_id = n,
            cm_roles = (if n \<in> set (voter_ids cur) then TR_RAFT_CONF_OLD_VOTER else 0)
              OR (if n \<in> set vs then TR_RAFT_CONF_NEW_VOTER else 0)
              OR (if n \<in> set ls then TR_RAFT_CONF_LEARNER else 0)\<rparr>
           # joint_loop rcur (skip_head n vs) (skip_head n ls)"
    and "set (voter_ids rcur) = set (voter_ids cur) - {n}"
    and "set (skip_head n vs) = set vs - {n}" and "set (skip_head n ls) = set ls - {n}"
    and "sorted_wrt (<) (map cm_node_id rcur)"
    and "n \<in> set (voter_ids cur) \<union> set vs \<union> set ls"
    and "\<And>x. x \<in> set (voter_ids cur) \<union> set vs \<union> set ls \<Longrightarrow> n \<le> x"
proof -
  let ?xss = "[map cm_node_id cur', vs, ls]"
  note dw = dropWhile_voter_ids [OF sorted(1) cur']
  have le: "cur' \<noteq> [] \<Longrightarrow> n \<le> cm_node_id (hd cur')" "vs \<noteq> [] \<Longrightarrow> n \<le> hd vs" "ls \<noteq> [] \<Longrightarrow> n \<le> hd ls"
    using least_head_le [of "map cm_node_id cur'" ?xss] least_head_le [of vs ?xss]
      least_head_le [of ls ?xss] by (simp_all add: n hd_map)
  note jh = joint_head [OF dw(2,3) le(1)]
  have heads: "head_is n (map cm_node_id cur') \<longleftrightarrow> n \<in> set (voter_ids cur)"
    "head_is n vs \<longleftrightarrow> n \<in> set vs" "head_is n ls \<longleftrightarrow> n \<in> set ls"
    using jh(1) dw(1) head_is_iff [OF sorted(2) le(2)] head_is_iff [OF sorted(3) le(3)] by simp_all
  have some: "head_is n (map cm_node_id cur') \<or> head_is n vs \<or> head_is n ls"
    using assms(4) least_head_cases [of ?xss] by (auto simp: n)
  with heads show "n \<in> set (voter_ids cur) \<union> set vs \<union> set ls" by blast
  show "set (voter_ids rcur) = set (voter_ids cur) - {n}" "sorted_wrt (<) (map cm_node_id rcur)"
    using jh(2,3) dw(1) by (simp_all add: rcur_def)
  show "set (skip_head n vs) = set vs - {n}" "set (skip_head n ls) = set ls - {n}"
    using set_skip_head [OF sorted(2) le(2)] set_skip_head [OF sorted(3) le(3)] by simp_all
  show "n \<le> x" if "x \<in> set (voter_ids cur) \<union> set vs \<union> set ls" for x
  proof -
    have "set (voter_ids cur) \<subseteq> set (map cm_node_id cur')"
      unfolding dw(1) [symmetric] by auto
    with that have "x \<in> set (map cm_node_id cur') \<or> x \<in> set vs \<or> x \<in> set ls" by blast
    then show ?thesis
      using least_head_lower [of "map cm_node_id cur'" ?xss x] least_head_lower [of vs ?xss x]
        least_head_lower [of ls ?xss x] dw(2) sorted(2,3) unfolding n by (metis list.set_intros)
  qed
  let ?r = "(if head_is n (map cm_node_id cur') then 1 else 0)
    OR (if head_is n vs then 2 else 0) OR (if head_is n ls then 4 else (0 :: u8))"
  from some have "head_is n (map cm_node_id cur') \<or> ?r \<noteq> 0" by auto
  then have "joint_loop cur vs ls = \<lparr>cm_node_id = n, cm_roles = ?r\<rparr>
      # joint_loop rcur (skip_head n vs) (skip_head n ls)"
    using assms(1,4)
    unfolding joint_loop.simps [of cur vs ls] Let_def cur' [symmetric] n [symmetric] rcur_def
    by simp
  then show "joint_loop cur vs ls =
           \<lparr>cm_node_id = n,
            cm_roles = (if n \<in> set (voter_ids cur) then TR_RAFT_CONF_OLD_VOTER else 0)
              OR (if n \<in> set vs then TR_RAFT_CONF_NEW_VOTER else 0)
              OR (if n \<in> set ls then TR_RAFT_CONF_LEARNER else 0)\<rparr>
           # joint_loop rcur (skip_head n vs) (skip_head n ls)"
    unfolding heads .
qed

lemma joint_loop_stop:
  assumes "sorted_wrt (<) (map cm_node_id cur)" "sorted_wrt (<) vs" "sorted_wrt (<) ls"
    and "least_head [map cm_node_id (dropWhile (\<lambda>m. cm_roles m = TR_RAFT_CONF_LEARNER) cur), vs, ls]
         = UINT64_MAX"
  shows "joint_loop cur vs ls = []"
    and "set (voter_ids cur) \<union> set vs \<union> set ls \<subseteq> {UINT64_MAX}"
proof -
  let ?cur = "dropWhile (\<lambda>m. cm_roles m = TR_RAFT_CONF_LEARNER) cur"
  let ?xss = "[map cm_node_id ?cur, vs, ls]"
  note dw = dropWhile_voter_ids [OF assms(1) refl]
  show "joint_loop cur vs ls = []"
    using assms(4) by (simp add: joint_loop.simps [of cur vs ls] Let_def)
  have "x = UINT64_MAX" if "x \<in> set (map cm_node_id ?cur) \<or> x \<in> set vs \<or> x \<in> set ls" for x
  proof -
    have "UINT64_MAX \<le> x"
      using that least_head_lower [of "map cm_node_id ?cur" ?xss x]
        least_head_lower [of vs ?xss x] least_head_lower [of ls ?xss x] dw(2) assms
      by (metis list.set_intros)
    then show ?thesis by (simp add: word_order.extremum_unique)
  qed
  moreover have "set (voter_ids cur) \<subseteq> set (map cm_node_id ?cur)"
    unfolding dw(1) [symmetric] by auto
  ultimately show "set (voter_ids cur) \<union> set vs \<union> set ls \<subseteq> {UINT64_MAX}" by blast
qed

lemma joint_loop_spec:
  "sorted_wrt (<) (map cm_node_id cur) \<Longrightarrow> sorted_wrt (<) vs \<Longrightarrow> sorted_wrt (<) ls \<Longrightarrow>
     sorted_wrt (<) (map cm_node_id (joint_loop cur vs ls))
     \<and> set (map cm_node_id (joint_loop cur vs ls))
       = (set (voter_ids cur) \<union> set vs \<union> set ls) - {UINT64_MAX}
     \<and> (\<forall>m \<in> set (joint_loop cur vs ls).
          joint_roles_of (set (voter_ids cur)) (set vs) (set ls) m)"
proof (induction cur vs ls rule: joint_loop.induct)
  case (1 cur vs ls)
  define cur' where "cur' = dropWhile (\<lambda>m. cm_roles m = TR_RAFT_CONF_LEARNER) cur"
  define n where "n = least_head [map cm_node_id cur', vs, ls]"
  consider (stop) "n = UINT64_MAX" | (round) "n \<noteq> UINT64_MAX" "\<not> (cur = [] \<and> vs = [] \<and> ls = [])"
  proof (cases "n = UINT64_MAX")
    case False
    then have "\<not> (cur = [] \<and> vs = [] \<and> ls = [])"
      by (auto simp: n_def cur'_def least_head_def)
    with False that show ?thesis by blast
  qed (use that in blast)
  then show ?case
  proof cases
    case stop
    with joint_loop_stop [OF 1(2-4)] show ?thesis
      unfolding n_def cur'_def by (auto simp del: set_map)
  next
    case round
    let ?rcur = "if head_is n (map cm_node_id cur') then tl cur' else cur'"
    let ?rest = "joint_loop ?rcur (skip_head n vs) (skip_head n ls)"
    let ?O = "set (voter_ids cur)"
    have "cur \<noteq> [] \<or> vs \<noteq> [] \<or> ls \<noteq> []" using round(2) by blast
    note r = joint_loop_round [OF this cur'_def n_def round(1) 1(2-4)]
    have IH: "sorted_wrt (<) (map cm_node_id ?rest)"
      "set (map cm_node_id ?rest) = (?O - {n} \<union> (set vs - {n}) \<union> (set ls - {n})) - {UINT64_MAX}"
      "\<forall>m \<in> set ?rest. joint_roles_of (?O - {n}) (set vs - {n}) (set ls - {n}) m"
      using 1(1) [OF round(2) cur'_def n_def round(1) refl refl r(5)
          sorted_skip_head [OF 1(3)] sorted_skip_head [OF 1(4)]]
      unfolding r(2-4) by blast+
    have gt: "n < cm_node_id m" if "m \<in> set ?rest" for m
    proof -
      have "cm_node_id m \<in> set (map cm_node_id ?rest)" using that by simp
      then have "cm_node_id m \<in> ?O \<union> set vs \<union> set ls" "cm_node_id m \<noteq> n"
        unfolding IH(2) by blast+
      with r(7) [of "cm_node_id m"] show ?thesis by simp
    qed
    have roles: "joint_roles_of ?O (set vs) (set ls) m" if "m \<in> set ?rest" for m
      using IH(3) that gt [OF that]
        joint_roles_of_cong [of m "?O - {n}" ?O "set vs - {n}" "set vs" "set ls - {n}" "set ls"]
      by auto
    have ids: "set (map cm_node_id (joint_loop cur vs ls)) = (?O \<union> set vs \<union> set ls) - {UINT64_MAX}"
      unfolding r(1) list.map list.set IH(2) using r(6) round(1) by auto
    have sorted: "sorted_wrt (<) (map cm_node_id (joint_loop cur vs ls))"
      unfolding r(1) using IH(1) gt by simp
    have "joint_roles_of ?O (set vs) (set ls) (hd (joint_loop cur vs ls))"
      unfolding r(1) joint_roles_of_def by simp
    with roles have "\<forall>m \<in> set (joint_loop cur vs ls). joint_roles_of ?O (set vs) (set ls) m"
      unfolding r(1) by (simp only: list.sel list.set) blast
    with sorted ids show ?thesis by blast
  qed
qed

section \<open>Joint and final memberships\<close>

lemma stable_valid_loop_iff:
  "stable_valid_loop prev ms k \<longleftrightarrow>
     (case prev of None \<Rightarrow> True | Some p \<Rightarrow> ms \<noteq> [] \<longrightarrow> p < cm_node_id (hd ms))
     \<and> 0 \<notin> set (map cm_node_id ms) \<and> sorted_wrt (<) (map cm_node_id ms)
     \<and> (\<forall>m \<in> set ms. cm_roles m = 3 \<or> cm_roles m = 4)
     \<and> (k \<noteq> 0 \<or> (\<exists>m \<in> set ms. cm_roles m = 3))"
proof (induction prev ms k rule: stable_valid_loop.induct)
  case (2 prev m ms k)
  have head: "sorted_wrt (<) (map cm_node_id (m # ms)) \<longleftrightarrow>
      (ms \<noteq> [] \<longrightarrow> cm_node_id m < cm_node_id (hd ms)) \<and> sorted_wrt (<) (map cm_node_id ms)"
    by (cases ms) (auto intro: less_trans)
  show ?case
  proof (cases "cm_node_id m = 0 \<or> (case prev of None \<Rightarrow> False | Some p \<Rightarrow> p \<ge> cm_node_id m)
      \<or> (cm_roles m \<noteq> (1 OR 2) \<and> cm_roles m \<noteq> 4)")
    case True
    then show ?thesis by (auto split: option.splits)
  next
    case False
    show ?thesis
      unfolding head
      using 2 [OF False] False
      by (cases "cm_roles m = 3") (auto simp: not_le split: option.splits)
  qed
qed (simp split: option.split)

lemma roles_valid_final:
  "tr_raft_conf_roles_valid TR_RAFT_CONF_FINAL r \<longleftrightarrow> r = 3 \<or> r = 4"
  by (auto simp: tr_raft_conf_roles_valid_def Let_def)

lemma stable_valid_iff:
  "tr_raft_membership_stable_valid c \<longleftrightarrow> conf_valid c \<and> conf_phase c = TR_RAFT_CONF_FINAL"
proof -
  have "\<lbrakk>\<forall>m \<in> set ms. cm_roles m = 3 \<or> cm_roles m = 4\<rbrakk> \<Longrightarrow>
      (\<exists>m \<in> set ms. cm_roles m = 3) \<longleftrightarrow>
      (\<exists>m \<in> set ms. role_old (cm_roles m)) \<and> (\<exists>m \<in> set ms. role_new (cm_roles m))" for ms
    by force
  then show ?thesis
    by (auto simp: tr_raft_membership_stable_valid_def stable_valid_loop_iff conf_valid_def
        roles_valid_final)
qed

lemma final_voters:
  assumes "conf_valid c" and "conf_phase c = TR_RAFT_CONF_FINAL"
  shows "new_voters c = old_voters c" and "set (voter_ids (conf_members c)) = old_voters c"
proof -
  have roles: "cm_roles m = 3 \<or> cm_roles m = 4" if "m \<in> set (conf_members c)" for m
    using assms that by (auto simp: conf_valid_def roles_valid_final)
  have "{m \<in> set (conf_members c). role_new (cm_roles m)} = {m \<in> set (conf_members c). role_old (cm_roles m)}"
    using roles by force
  then show "new_voters c = old_voters c" by (simp add: new_voters_def old_voters_def)
  have "set (voter_members (conf_members c)) = {m \<in> set (conf_members c). role_old (cm_roles m)}"
    using roles by force
  then show "set (voter_ids (conf_members c)) = old_voters c"
    by (simp add: old_voters_def)
qed

lemma joint_roles_of_bits:
  assumes "joint_roles_of A B C m"
  shows "role_old (cm_roles m) \<longleftrightarrow> cm_node_id m \<in> A" "role_new (cm_roles m) \<longleftrightarrow> cm_node_id m \<in> B"
    "role_learner (cm_roles m) \<longleftrightarrow> cm_node_id m \<in> C"
  using assms by (auto simp: joint_roles_of_def)

lemma joint_roles_valid:
  assumes "joint_roles_of A B C m" and "B \<inter> C = {}" and "cm_node_id m \<in> A \<union> B \<union> C"
  shows "tr_raft_conf_roles_valid TR_RAFT_CONF_JOINT (cm_roles m)"
  using assms by (auto simp: joint_roles_of_def tr_raft_conf_roles_valid_def Let_def)

lemma ids_by_role:
  assumes "\<And>m. m \<in> set ms \<Longrightarrow> P (cm_roles m) \<longleftrightarrow> cm_node_id m \<in> A" and "A' \<subseteq> A"
    and "set (map cm_node_id ms) = V" and "A \<inter> V = A'"
  shows "cm_node_id ` {m \<in> set ms. P (cm_roles m)} = A'"
  using assms by auto

lemma joint_loop_voters:
  assumes "conf_valid cur" and "conf_phase cur = TR_RAFT_CONF_FINAL" and "target_ok voters learners"
    and "conf_members j = joint_loop (conf_members cur) (id_list voters) (id_list learners)"
  shows "sorted_wrt (<) (conf_ids j)"
    and "set (conf_ids j) = (old_voters cur \<union> set (id_list voters) \<union> set (id_list learners)) - {UINT64_MAX}"
    and "old_voters j = old_voters cur - {UINT64_MAX}"
    and "new_voters j = set (id_list voters) - {UINT64_MAX}"
    and "learners_of j = set (id_list learners) - {UINT64_MAX}"
    and "\<forall>m \<in> set (conf_members j). tr_raft_conf_roles_valid TR_RAFT_CONF_JOINT (cm_roles m)"
proof -
  let ?vs = "id_list voters" and ?ls = "id_list learners"
  have sorted: "sorted_wrt (<) (conf_ids cur)" "sorted_wrt (<) ?vs" "sorted_wrt (<) ?ls"
    and disj: "set ?vs \<inter> set ?ls = {}"
    using assms(1,3) by (auto simp: conf_valid_def target_ok_def)
  note spec = joint_loop_spec [OF sorted, folded assms(4), unfolded final_voters(2) [OF assms(1,2)]]
  show "sorted_wrt (<) (conf_ids j)" using spec by blast
  show ids: "set (conf_ids j) = (old_voters cur \<union> set ?vs \<union> set ?ls) - {UINT64_MAX}"
    using spec by blast
  have roles: "joint_roles_of (old_voters cur) (set ?vs) (set ?ls) m" if "m \<in> set (conf_members j)" for m
    using spec that by blast
  note bits = joint_roles_of_bits [OF roles]
  show "old_voters j = old_voters cur - {UINT64_MAX}"
    unfolding old_voters_def [of j] by (rule ids_by_role [OF bits(1) _ ids]) auto
  show "new_voters j = set ?vs - {UINT64_MAX}"
    unfolding new_voters_def by (rule ids_by_role [OF bits(2) _ ids]) auto
  show "learners_of j = set ?ls - {UINT64_MAX}"
    unfolding learners_of_def by (rule ids_by_role [OF bits(3) _ ids]) auto
  show "\<forall>m \<in> set (conf_members j). tr_raft_conf_roles_valid TR_RAFT_CONF_JOINT (cm_roles m)"
  proof
    fix m assume m: "m \<in> set (conf_members j)"
    then have "cm_node_id m \<in> set (conf_ids j)" by simp
    then have "cm_node_id m \<in> old_voters cur \<union> set ?vs \<union> set ?ls" unfolding ids by blast
    with roles [OF m] disj show "tr_raft_conf_roles_valid TR_RAFT_CONF_JOINT (cm_roles m)"
      by (rule joint_roles_valid)
  qed
qed

lemma membership_joint_Inr:
  assumes "tr_raft_membership_joint cur voters learners tid = Inr j"
  shows "conf_valid j" and "conf_phase j = TR_RAFT_CONF_JOINT" and "conf_transition_id j = tid"
    and "conf_valid cur" and "conf_phase cur = TR_RAFT_CONF_FINAL" and "target_ok voters learners"
    and "old_voters j = old_voters cur - {UINT64_MAX}"
    and "new_voters j = set (id_list voters) - {UINT64_MAX}"
    and "learners_of j = set (id_list learners) - {UINT64_MAX}"
proof -
  from assms show "conf_valid j" and "conf_phase j = TR_RAFT_CONF_JOINT"
    and "conf_transition_id j = tid" and cur: "conf_valid cur" "conf_phase cur = TR_RAFT_CONF_FINAL"
    and ok: "target_ok voters learners"
    by (auto simp: tr_raft_membership_joint_def Let_def validate_set_iff stable_valid_iff
        tr_raft_conf_validate_iff split: if_splits)
  from assms have mem: "conf_members j = joint_loop (conf_members cur) (id_list voters) (id_list learners)"
    by (auto simp: tr_raft_membership_joint_def Let_def split: if_splits)
  from joint_loop_voters [OF cur ok mem]
  show "old_voters j = old_voters cur - {UINT64_MAX}" "new_voters j = set (id_list voters) - {UINT64_MAX}"
    "learners_of j = set (id_list learners) - {UINT64_MAX}" by simp_all
qed

lemma final_loop_eq:
  "final_loop ms = map (\<lambda>m. \<lparr>cm_node_id = cm_node_id m,
      cm_roles = (if role_new (cm_roles m) then 3 else 4)\<rparr>)
    (filter (\<lambda>m. role_new (cm_roles m) \<or> role_learner (cm_roles m)) ms)"
  by (induction ms) (auto simp: roles_and_6)

lemma sorted_filter_ids:
  "sorted_wrt (<) (map cm_node_id ms) \<Longrightarrow> sorted_wrt (<) (map cm_node_id (filter P ms))"
  by (induction ms) auto

lemma final_loop_voters:
  assumes "conf_members f = final_loop (conf_members j)"
  shows "old_voters f = new_voters j" "new_voters f = new_voters j"
    "conf_ids f = map cm_node_id (filter (\<lambda>m. role_new (cm_roles m) \<or> role_learner (cm_roles m)) (conf_members j))"
proof -
  let ?mk = "\<lambda>m. \<lparr>cm_node_id = cm_node_id m, cm_roles = (if role_new (cm_roles m) then 3 else (4 :: u8))\<rparr>"
  have "{m \<in> set (conf_members f). role_old (cm_roles m)} = ?mk ` {m \<in> set (conf_members j). role_new (cm_roles m)}"
    "{m \<in> set (conf_members f). role_new (cm_roles m)} = ?mk ` {m \<in> set (conf_members j). role_new (cm_roles m)}"
    unfolding assms final_loop_eq by auto
  then show "old_voters f = new_voters j" "new_voters f = new_voters j"
    by (simp_all add: old_voters_def new_voters_def image_image)
  show "conf_ids f = map cm_node_id (filter (\<lambda>m. role_new (cm_roles m) \<or> role_learner (cm_roles m)) (conf_members j))"
    unfolding assms final_loop_eq by simp
qed

lemma final_loop_learners:
  assumes "conf_members f = final_loop (conf_members j)" and "conf_valid j"
  shows "learners_of f = learners_of j"
proof -
  let ?mk = "\<lambda>m. \<lparr>cm_node_id = cm_node_id m, cm_roles = (if role_new (cm_roles m) then 3 else (4 :: u8))\<rparr>"
  have "\<forall>m \<in> set (conf_members j). \<not> (role_new (cm_roles m) \<and> role_learner (cm_roles m))"
    using assms(2) roles_valid_exclusive unfolding conf_valid_def by blast
  then have "{m \<in> set (conf_members f). role_learner (cm_roles m)}
      = ?mk ` {m \<in> set (conf_members j). role_learner (cm_roles m)}"
    unfolding assms(1) final_loop_eq by (auto split: if_splits)
  then show ?thesis by (simp add: learners_of_def image_image)
qed

lemma membership_final_Inr:
  assumes "conf_valid j" and "conf_phase j = TR_RAFT_CONF_JOINT"
  obtains f where "tr_raft_membership_final j = Inr f" and "conf_valid f"
    and "conf_phase f = TR_RAFT_CONF_FINAL" and "conf_transition_id f = conf_transition_id j"
    and "old_voters f = new_voters j" and "new_voters f = new_voters j"
    and "learners_of f = learners_of j" and "set (conf_ids f) \<subseteq> set (conf_ids j)"
proof -
  let ?f = "\<lparr>conf_phase = TR_RAFT_CONF_FINAL, conf_transition_id = conf_transition_id j,
    conf_members = final_loop (conf_members j)\<rparr>"
  have mem: "conf_members ?f = final_loop (conf_members j)" by simp
  note v = final_loop_voters [OF mem]
  have ids: "sorted_wrt (<) (conf_ids ?f)" "set (conf_ids ?f) \<subseteq> set (conf_ids j)" "0 \<notin> set (conf_ids ?f)"
    unfolding v(3) using assms(1) by (auto simp: conf_valid_def intro!: sorted_filter_ids)
  have "length (conf_members ?f) \<le> length (conf_members j)"
    by (simp add: final_loop_eq)
  moreover have "new_voters j \<noteq> {}" "length (conf_members j) \<le> 31"
    using assms(1) by (auto simp: conf_valid_def new_voters_def)
  moreover from this v(1,2) have "\<exists>m \<in> set (conf_members ?f). role_old (cm_roles m)"
    "\<exists>m \<in> set (conf_members ?f). role_new (cm_roles m)"
    unfolding old_voters_def new_voters_def by blast+
  moreover have "\<forall>m \<in> set (conf_members ?f). cm_roles m = 3 \<or> cm_roles m = 4"
    by (auto simp: final_loop_eq)
  ultimately have valid: "conf_valid ?f"
    using ids unfolding conf_valid_def by (auto simp: roles_valid_final)
  with assms have "tr_raft_membership_final j = Inr ?f"
    by (simp add: tr_raft_membership_final_def Let_def tr_raft_conf_validate_iff)
  with that valid v(1,2) ids(2) final_loop_learners [OF mem assms(1)] show thesis by simp
qed

lemma joint_conf_valid:
  assumes cur: "conf_valid cur" "conf_phase cur = TR_RAFT_CONF_FINAL" and ok: "target_ok voters learners"
    and "tid \<noteq> 0" and max: "UINT64_MAX \<notin> old_voters cur \<union> set (id_list voters)"
    and size: "card (set (conf_ids cur) \<union> set (id_list voters) \<union> set (id_list learners)) \<le> 31"
    and ph: "conf_phase j = TR_RAFT_CONF_JOINT" "conf_transition_id j = tid"
    and mem: "conf_members j = joint_loop (conf_members cur) (id_list voters) (id_list learners)"
  shows "conf_valid j"
proof -
  note v = joint_loop_voters [OF cur ok mem]
  have sub: "set (conf_ids j) \<subseteq> set (conf_ids cur) \<union> set (id_list voters) \<union> set (id_list learners)"
    unfolding v(2) by (auto simp: old_voters_def)
  have "length (conf_members j) = card (set (conf_ids j))"
    using v(1) by (metis distinct_card length_map strict_sorted_iff)
  also have "\<dots> \<le> 31" using card_mono [OF _ sub] size by (simp add: order_trans)
  finally have len: "length (conf_members j) \<le> 31" .
  have "0 \<notin> set (conf_ids j)"
    using cur(1) ok sub by (auto simp: conf_valid_def target_ok_def)
  moreover have "old_voters j \<noteq> {}" "new_voters j \<noteq> {}"
    using v(3,4) max cur(1) ok by (auto simp: conf_valid_def target_ok_def old_voters_def)
  then have "\<exists>m \<in> set (conf_members j). role_old (cm_roles m)"
    "\<exists>m \<in> set (conf_members j). role_new (cm_roles m)" "conf_members j \<noteq> []"
    unfolding old_voters_def new_voters_def by auto
  ultimately show ?thesis
    unfolding conf_valid_def using len v(1,6) ph \<open>tid \<noteq> 0\<close> by simp
qed

text \<open>C28 (functional). Starting a membership change: from a valid final-phase membership and an
  acceptable target whose union with the current members has at most 31 nodes (and no voter uses
  the identifier \<open>UINT64_MAX\<close>), \<open>tr_raft_membership_joint\<close> returns a valid joint membership whose old
  voters are the current voters, whose new voters are the target voters and whose learners are the
  target learners. Completing it with \<open>tr_raft_membership_final\<close> never fails and gives a valid
  final-phase membership with exactly the target voters and learners.\<close>

theorem membership_change_correct:
  assumes "conf_valid cur" and "conf_phase cur = TR_RAFT_CONF_FINAL"
    and "target_ok voters learners" and "tid \<noteq> 0"
    and "UINT64_MAX \<notin> old_voters cur \<union> set (id_list voters) \<union> set (id_list learners)"
    and "card (set (conf_ids cur) \<union> set (id_list voters) \<union> set (id_list learners)) \<le> 31"
  shows "\<exists>j f. tr_raft_membership_joint cur voters learners tid = Inr j
           \<and> tr_raft_conf_validate j = SALTS_OK \<and> conf_phase j = TR_RAFT_CONF_JOINT
           \<and> old_voters j = old_voters cur \<and> new_voters j = set (id_list voters)
           \<and> learners_of j = set (id_list learners)
           \<and> tr_raft_membership_final j = Inr f
           \<and> tr_raft_conf_validate f = SALTS_OK \<and> conf_phase f = TR_RAFT_CONF_FINAL
           \<and> old_voters f = set (id_list voters) \<and> new_voters f = set (id_list voters)
           \<and> learners_of f = set (id_list learners)"
proof -
  let ?j = "\<lparr>conf_phase = TR_RAFT_CONF_JOINT, conf_transition_id = tid,
    conf_members = joint_loop (conf_members cur) (id_list voters) (id_list learners)\<rparr>"
  have valid: "conf_valid ?j"
    by (rule joint_conf_valid [of cur voters learners tid]) (use assms in auto)
  have count: "tr_raft_membership_union_count cur voters learners \<le> 31"
    unfolding tr_raft_membership_union_count_def
    using assms by (subst union_count_loop_card) (auto simp: conf_valid_def target_ok_def)
  have joint: "tr_raft_membership_joint cur voters learners tid = Inr ?j"
    using assms(1-4) valid count
    by (simp add: tr_raft_membership_joint_def Let_def stable_valid_iff validate_set_iff
        tr_raft_conf_validate_iff)
  have ph: "conf_phase ?j = TR_RAFT_CONF_JOINT" by simp
  from membership_joint_Inr(7-9) [OF joint] assms(5)
  have v: "old_voters ?j = old_voters cur" "new_voters ?j = set (id_list voters)"
    "learners_of ?j = set (id_list learners)" by simp_all
  obtain f where "tr_raft_membership_final ?j = Inr f" "conf_valid f"
    "conf_phase f = TR_RAFT_CONF_FINAL" "old_voters f = new_voters ?j" "new_voters f = new_voters ?j"
    "learners_of f = learners_of ?j"
    by (rule membership_final_Inr [OF valid ph])
  with joint v valid ph show ?thesis
    unfolding tr_raft_conf_validate_iff by metis
qed

definition ex_stable :: conf where
  "ex_stable = \<lparr>conf_phase = TR_RAFT_CONF_FINAL, conf_transition_id = 0,
     conf_members = [\<lparr>cm_node_id = 1, cm_roles = 3\<rparr>, \<lparr>cm_node_id = 2, cm_roles = 3\<rparr>,
                     \<lparr>cm_node_id = 5, cm_roles = 3\<rparr>]\<rparr>"

lemma ex_stable_valid [simp]: "conf_valid ex_stable"
  unfolding tr_raft_conf_validate_iff [symmetric] by code_simp

theorem membership_change_correct_witness:
  "\<exists>j f. tr_raft_membership_joint ex_stable (Id_array [2, 3, 4]) (Id_array [5]) 9 = Inr j
     \<and> old_voters j = {1, 2, 5} \<and> new_voters j = {2, 3, 4}
     \<and> tr_raft_membership_final j = Inr f \<and> new_voters f = {2, 3, 4} \<and> learners_of f = {5}"
proof -
  have old: "old_voters ex_stable = {1, 2, 5}" "set (conf_ids ex_stable) = {1, 2, 5}"
    by (simp_all add: voters_filter ex_stable_def)
  have "target_ok (Id_array [2, 3, 4]) (Id_array [5])" by (simp add: target_ok_def)
  moreover have "card ({1, 2, 5} \<union> {2, 3, 4} \<union> {5 :: u64}) \<le> 31"
    by (simp add: insert_commute card_insert_if)
  ultimately show ?thesis
    using membership_change_correct [of ex_stable "Id_array [2, 3, 4]" "Id_array [5]" 9] old
    by (auto simp: ex_stable_def [THEN arg_cong, of conf_phase])
qed

section \<open>Quorum theorems\<close>

text \<open>C26 (equivalence). The quorum test on an acknowledgement mask is the specification of joint
  consensus: for a valid configuration, \<open>tr_raft_membership_has_quorum\<close> holds exactly when the nodes
  whose bit is set are a majority of the old voters and a majority of the new voters.\<close>

theorem has_quorum_spec:
  assumes "tr_raft_conf_validate c = SALTS_OK"
  shows "tr_raft_membership_has_quorum c acks \<longleftrightarrow>
           card (old_voters c) < 2 * card (acked_ids c acks \<inter> old_voters c)
           \<and> card (new_voters c) < 2 * card (acked_ids c acks \<inter> new_voters c)"
proof -
  from assms have valid: "conf_valid c" by (simp add: tr_raft_conf_validate_iff)
  then have "old_voters c \<noteq> {}" "new_voters c \<noteq> {}" "length (conf_members c) \<le> 31"
    by (auto simp: conf_valid_def old_voters_def new_voters_def)
  then show ?thesis
    unfolding has_quorum_iff [OF conf_valid_distinct [OF valid] \<open>length (conf_members c) \<le> 31\<close>]
      conf_quorum_def majority_of_def by auto
qed

theorem has_quorum_spec_witness:
  "tr_raft_membership_has_quorum ex_joint 5 \<longleftrightarrow>
     card (old_voters ex_joint) < 2 * card (acked_ids ex_joint 5 \<inter> old_voters ex_joint)
     \<and> card (new_voters ex_joint) < 2 * card (acked_ids ex_joint 5 \<inter> new_voters ex_joint)"
  by (rule has_quorum_spec) simp

text \<open>C27 (safety). Joint consensus overlaps with what it replaces and with what it leads to: a quorum
  of the joint membership has a node in common with every quorum of the membership it started from,
  and with every quorum of the final membership it completes to. So no step of a membership change
  lets two disjoint groups decide.\<close>

theorem joint_quorum_overlap:
  assumes "tr_raft_membership_joint cur voters learners tid = Inr j"
    and "UINT64_MAX \<notin> old_voters cur"
    and "tr_raft_membership_final j = Inr f"
    and "tr_raft_membership_has_quorum j acks"
  shows "(tr_raft_membership_has_quorum cur acks_cur \<longrightarrow>
            acked_ids j acks \<inter> acked_ids cur acks_cur \<noteq> {})
         \<and> (tr_raft_membership_has_quorum f acks_f \<longrightarrow>
            acked_ids j acks \<inter> acked_ids f acks_f \<noteq> {})"
proof -
  note j = membership_joint_Inr [OF assms(1)]
  obtain f' where "tr_raft_membership_final j = Inr f'" and f': "conf_valid f'" "old_voters f' = new_voters j"
    by (rule membership_final_Inr [OF j(1,2)])
  with assms(3) have f: "conf_valid f" "old_voters f = new_voters j" by simp_all
  have q: "conf_quorum c (acked_ids c a)" if "conf_valid c" "tr_raft_membership_has_quorum c a" for c a
    using that has_quorum_iff [OF conf_valid_distinct, of c a] by (simp add: conf_valid_def)
  have old: "old_voters j = old_voters cur" using j(7) assms(2) by simp
  from q [OF j(1) assms(4)] have maj: "majority_of (old_voters cur) (acked_ids j acks)"
    "majority_of (old_voters f) (acked_ids j acks)"
    by (simp_all add: conf_quorum_def old f(2))
  have "majority_of (old_voters cur) (acked_ids cur acks_cur)" if "tr_raft_membership_has_quorum cur acks_cur"
    using q [OF j(4) that] by (simp add: conf_quorum_def)
  moreover have "majority_of (old_voters f) (acked_ids f acks_f)" if "tr_raft_membership_has_quorum f acks_f"
    using q [OF f(1) that] by (simp add: conf_quorum_def)
  ultimately show ?thesis
    using maj majority_of_intersect [of "old_voters cur" "acked_ids j acks" "acked_ids cur acks_cur"]
      majority_of_intersect [of "old_voters f" "acked_ids j acks" "acked_ids f acks_f"] by auto
qed

definition ex_change_joint :: conf where
  "ex_change_joint = \<lparr>conf_phase = TR_RAFT_CONF_JOINT, conf_transition_id = 9,
     conf_members = [\<lparr>cm_node_id = 1, cm_roles = 1\<rparr>, \<lparr>cm_node_id = 2, cm_roles = 3\<rparr>,
                     \<lparr>cm_node_id = 3, cm_roles = 2\<rparr>, \<lparr>cm_node_id = 5, cm_roles = 5\<rparr>]\<rparr>"

definition ex_change_final :: conf where
  "ex_change_final = \<lparr>conf_phase = TR_RAFT_CONF_FINAL, conf_transition_id = 9,
     conf_members = [\<lparr>cm_node_id = 2, cm_roles = 3\<rparr>, \<lparr>cm_node_id = 3, cm_roles = 3\<rparr>,
                     \<lparr>cm_node_id = 5, cm_roles = 4\<rparr>]\<rparr>"

lemma ex_change_eqs:
  "tr_raft_membership_joint ex_stable (Id_array [2, 3]) (Id_array [5]) 9 = Inr ex_change_joint"
  "tr_raft_membership_final ex_change_joint = Inr ex_change_final"
  by code_simp+

theorem joint_quorum_overlap_witness:
  "tr_raft_membership_has_quorum ex_change_joint 7
   \<and> tr_raft_membership_has_quorum ex_stable 6
   \<and> tr_raft_membership_has_quorum ex_change_final 3
   \<and> acked_ids ex_change_joint 7 \<inter> acked_ids ex_stable 6 \<noteq> {}
   \<and> acked_ids ex_change_joint 7 \<inter> acked_ids ex_change_final 3 \<noteq> {}"
proof -
  have q: "tr_raft_membership_has_quorum ex_change_joint 7" "tr_raft_membership_has_quorum ex_stable 6"
    "tr_raft_membership_has_quorum ex_change_final 3" by code_simp+
  have "UINT64_MAX \<notin> old_voters ex_stable" by (simp add: voters_filter ex_stable_def)
  from joint_quorum_overlap [OF ex_change_eqs(1) this ex_change_eqs(2) q(1), of 6 3] q
  show ?thesis by simp
qed

text \<open>C40 (error). The union loop of \<open>tr_raft_membership_joint\<close> uses \<open>UINT64_MAX\<close> as its end marker, so
  a node whose identifier is \<open>UINT64_MAX\<close> is dropped: the target sets and the current voters are
  accepted by validation, the call returns success, and the joint membership has neither an old
  nor a new voter with that identifier.\<close>

theorem joint_drops_max_identifier:
  assumes "tr_raft_membership_joint cur voters learners tid = Inr j"
  shows "old_voters j = old_voters cur - {UINT64_MAX}
         \<and> new_voters j = set (id_list voters) - {UINT64_MAX}
         \<and> learners_of j = set (id_list learners) - {UINT64_MAX}"
  using membership_joint_Inr(7-9) [OF assms] by simp

theorem joint_drops_max_identifier_witness:
  "\<exists>j. tr_raft_membership_joint ex_stable (Id_array [2, UINT64_MAX]) (Id_null 0) 9 = Inr j
     \<and> tr_raft_membership_validate_set (Id_array [2, UINT64_MAX]) (Id_null 0) = SALTS_OK
     \<and> new_voters j = {2}"
proof -
  let ?j = "\<lparr>conf_phase = TR_RAFT_CONF_JOINT, conf_transition_id = 9,
     conf_members = [\<lparr>cm_node_id = 1, cm_roles = 1\<rparr>, \<lparr>cm_node_id = 2, cm_roles = 3\<rparr>,
                     \<lparr>cm_node_id = 5, cm_roles = 1\<rparr>]\<rparr>"
  have j: "tr_raft_membership_joint ex_stable (Id_array [2, UINT64_MAX]) (Id_null 0) 9 = Inr ?j"
    by code_simp
  have "tr_raft_membership_validate_set (Id_array [2, UINT64_MAX]) (Id_null 0) = SALTS_OK"
    by code_simp
  with j joint_drops_max_identifier [OF j] show ?thesis by auto
qed

end
