(* ===== verification/Raft_Peer_Set.thy ===== *)
theory Raft_Peer_Set
  imports Raft_Membership
begin

text \<open>
  The peer set of \<open>src/core/raft_peer_set.c\<close>: the ascending union of the member identifiers of up to
  three memberships. The lemmas show that the merge loop ends and computes the sorted union, and that
  the search in the result finds exactly its elements.
\<close>

section \<open>Operations\<close>

type_synonym peer_set = "node_id list"

definition tr_raft_peer_set_membership_valid :: "conf \<Rightarrow> bool" where
  "tr_raft_peer_set_membership_valid c =
     (if length (conf_members c) = 0 \<or> length (conf_members c) > TR_RAFT_MAX_MEMBERS then False
      else ascending_loop None (conf_ids c))"

text \<open>
  The merge loop; \<open>xss\<close> holds, for each source, the identifiers from its position on. No head is
  available exactly when the running minimum is still \<open>UINT64_MAX\<close>.
\<close>

function peer_set_build_loop ::
    "node_id list list \<Rightarrow> peer_set \<Rightarrow> salts_status + peer_set" where
  "peer_set_build_loop xss peers =
     (let nxt = least_head xss
      in if nxt = UINT64_MAX then Inr peers
         else if length peers = TR_RAFT_MAX_MEMBERS then Inl SALTS_ENOSPC
         else peer_set_build_loop (map (skip_head nxt) xss) (peers @ [nxt]))"
  by pat_completeness auto
termination
proof (relation "measure (\<lambda>(xss, peers). sum_list (map length xss))", goal_cases)
  case 1
  show ?case by simp
next
  case (2 xss peers nxt)
  then obtain xs where xs: "xs \<in> set xss" "head_is nxt xs"
    using least_head_cases [of xss] by auto
  then obtain ys zs where xss: "xss = ys @ xs # zs" by (auto simp: in_set_conv_decomp)
  have le: "sum_list (map (length \<circ> skip_head nxt) as) \<le> sum_list (map length as)" for as
    by (induction as) (auto intro: add_mono length_skip_head)
  from le [of ys] le [of zs] length_skip_head_less [OF xs(2)] show ?case
    by (simp add: xss)
qed

declare peer_set_build_loop.simps [simp del]

definition tr_raft_peer_set_build :: "conf list \<Rightarrow> salts_status + peer_set" where
  "tr_raft_peer_set_build memberships =
     (if length memberships = 0 \<or> length memberships > 3 then Inl SALTS_EINVAL
      else if \<not> list_all tr_raft_peer_set_membership_valid memberships then Inl SALTS_EINVAL
      else peer_set_build_loop (map conf_ids memberships) [])"

definition tr_raft_peer_set_index :: "peer_set \<Rightarrow> node_id \<Rightarrow> int" where
  "tr_raft_peer_set_index peers n = (if n = 0 then - 1 else search_ascending 0 peers n)"

section \<open>The merge computes the sorted union\<close>

lemma peer_set_build_loop_spec:
  assumes "\<And>xs. xs \<in> set xss \<Longrightarrow> sorted_wrt (<) xs"
    and "sorted_wrt (<) peers" and "length peers \<le> 31"
    and "\<And>p x xs. p \<in> set peers \<Longrightarrow> xs \<in> set xss \<Longrightarrow> x \<in> set xs \<Longrightarrow> p < x"
  shows "peer_set_build_loop xss peers =
           (let U = \<Union> (set ` set xss) - {UINT64_MAX}
            in if length peers + card U \<le> 31 then Inr (peers @ sorted_list_of_set U)
               else Inl SALTS_ENOSPC)"
  using assms
proof (induction xss peers rule: peer_set_build_loop.induct)
  case (1 xss peers)
  define n where "n = least_head xss"
  define U where "U = \<Union> (set ` set xss) - {UINT64_MAX}"
  have lower: "n \<le> x" if "xs \<in> set xss" "x \<in> set xs" for x xs
    unfolding n_def using least_head_lower [OF that(1) 1(2) [OF that(1)] that(2)] .
  have unfold: "peer_set_build_loop xss peers =
      (if n = UINT64_MAX then Inr peers
       else if length peers = 31 then Inl SALTS_ENOSPC
       else peer_set_build_loop (map (skip_head n) xss) (peers @ [n]))"
    unfolding n_def peer_set_build_loop.simps [of xss peers] Let_def ..
  have "peer_set_build_loop xss peers =
      (if length peers + card U \<le> 31 then Inr (peers @ sorted_list_of_set U) else Inl SALTS_ENOSPC)"
  proof (cases "n = UINT64_MAX")
    case True
    have "U = {}" unfolding U_def using lower True by (force simp: word_order.extremum_unique)
    with True 1(4) show ?thesis unfolding unfold by simp
  next
    case False
    then have mem: "n \<in> U"
      using least_head_cases [of xss] head_is_mem unfolding U_def n_def by fastforce
    have fin: "finite U" by (simp add: U_def)
    have set_skip: "set (skip_head n xs) = set xs - {n}" if "xs \<in> set xss" for xs
      unfolding n_def using set_skip_head [OF 1(2) [OF that]] least_head_le [OF that] by blast
    have U': "\<Union> (set ` set (map (skip_head n) xss)) - {UINT64_MAX} = U - {n}"
      unfolding U_def using set_skip by auto
    have card: "card U = Suc (card (U - {n}))"
      using mem fin by (metis card_Suc_Diff1)
    have "Min U = n" using mem lower fin by (intro Min_eqI) (auto simp: U_def)
    with mem fin have list: "sorted_list_of_set U = n # sorted_list_of_set (U - {n})"
      using sorted_list_of_set_nonempty [of U] by auto
    show ?thesis
    proof (cases "length peers = 31")
      case True
      with False card show ?thesis unfolding unfold by simp
    next
      case False': False
      from mem obtain xs where xs: "xs \<in> set xss" "n \<in> set xs" by (auto simp: U_def)
      have "peer_set_build_loop (map (skip_head n) xss) (peers @ [n]) =
          (let U = \<Union> (set ` set (map (skip_head n) xss)) - {UINT64_MAX}
           in if length (peers @ [n]) + card U \<le> 31 then Inr ((peers @ [n]) @ sorted_list_of_set U)
              else Inl SALTS_ENOSPC)"
      proof (rule 1(1) [OF n_def False False'])
        show "sorted_wrt (<) ys" if "ys \<in> set (map (skip_head n) xss)" for ys
          using that 1(2) by (auto intro: sorted_skip_head)
        show "sorted_wrt (<) (peers @ [n])"
          using 1(3) 1(5) [OF _ xs] by (simp add: sorted_wrt_append)
        show "length (peers @ [n]) \<le> 31" using False' 1(4) by simp
        show "p < x" if "p \<in> set (peers @ [n])" "zs \<in> set (map (skip_head n) xss)" "x \<in> set zs" for p x zs
        proof -
          from that(2) obtain ys where ys: "ys \<in> set xss" "zs = skip_head n ys" by auto
          with that(3) set_skip have x: "x \<in> set ys" "x \<noteq> n" by auto
          from that(1) show ?thesis
          proof (cases "p = n")
            case True
            with lower [OF ys(1) x(1)] x(2) show ?thesis by simp
          next
            case False
            with that(1) 1(5) [OF _ ys(1) x(1)] show ?thesis by simp
          qed
        qed
      qed
      with False False' card list show ?thesis
        unfolding unfold U' Let_def by simp
    qed
  qed
  then show ?case unfolding U_def Let_def .
qed

lemma peer_set_membership_valid_iff:
  "tr_raft_peer_set_membership_valid c \<longleftrightarrow>
     conf_members c \<noteq> [] \<and> length (conf_members c) \<le> 31 \<and> ids_ok c"
  by (auto simp: tr_raft_peer_set_membership_valid_def ascending_loop_iff ids_ok_def)

definition member_union :: "conf list \<Rightarrow> node_id set" where
  "member_union cs = (\<Union>c \<in> set cs. set (conf_ids c)) - {UINT64_MAX}"

lemma peer_set_build_eq:
  assumes "cs \<noteq> []" and "length cs \<le> 3" and "list_all tr_raft_peer_set_membership_valid cs"
  shows "tr_raft_peer_set_build cs =
           (if card (member_union cs) \<le> 31 then Inr (sorted_list_of_set (member_union cs))
            else Inl SALTS_ENOSPC)"
proof -
  have sorted: "sorted_wrt (<) xs" if "xs \<in> set (map conf_ids cs)" for xs
    using that assms(3) by (auto simp: list_all_iff peer_set_membership_valid_iff ids_ok_def)
  have U: "\<Union> (set ` set (map conf_ids cs)) - {UINT64_MAX} = member_union cs"
    by (simp add: member_union_def image_image)
  have "peer_set_build_loop (map conf_ids cs) [] =
      (let U = \<Union> (set ` set (map conf_ids cs)) - {UINT64_MAX}
       in if length ([] :: node_id list) + card U \<le> 31 then Inr ([] @ sorted_list_of_set U)
          else Inl SALTS_ENOSPC)"
    by (rule peer_set_build_loop_spec [OF sorted]) auto
  then show ?thesis
    unfolding U using assms by (simp add: tr_raft_peer_set_build_def Let_def)
qed
lemma peer_set_build_Inr:
  assumes "tr_raft_peer_set_build cs = Inr peers"
  shows "sorted_wrt (<) peers" and "set peers = member_union cs" and "length peers \<le> 31"
    and "list_all tr_raft_peer_set_membership_valid cs" and "cs \<noteq> []" and "length cs \<le> 3"
    and "0 \<notin> set peers"
proof -
  from assms show valid: "list_all tr_raft_peer_set_membership_valid cs" "cs \<noteq> []" "length cs \<le> 3"
    by (auto simp: tr_raft_peer_set_build_def split: if_splits)
  have fin: "finite (member_union cs)" by (simp add: member_union_def)
  from peer_set_build_eq [OF valid(2,3,1)] assms have card: "card (member_union cs) \<le> 31"
    and peers: "peers = sorted_list_of_set (member_union cs)"
    by (auto split: if_splits)
  with fin show "sorted_wrt (<) peers" and set: "set peers = member_union cs" and "length peers \<le> 31"
    by simp_all
  show "0 \<notin> set peers"
    unfolding set member_union_def
    using valid(1) by (auto simp: list_all_iff peer_set_membership_valid_iff ids_ok_def)
qed

lemma peer_set_build_mono:
  assumes "tr_raft_peer_set_build cs = Inr peers" and "cs' \<noteq> []" and "set cs' \<subseteq> set cs" and "length cs' \<le> 3"
  shows "\<exists>peers'. tr_raft_peer_set_build cs' = Inr peers'"
proof -
  note b = peer_set_build_Inr [OF assms(1)]
  have "member_union cs' \<subseteq> member_union cs" using assms(3) by (auto simp: member_union_def)
  then have "card (member_union cs') \<le> card (member_union cs)"
    by (intro card_mono) (simp_all add: member_union_def)
  also have "\<dots> \<le> 31" using b(1-3) by (metis distinct_card strict_sorted_iff)
  finally have "card (member_union cs') \<le> 31" .
  moreover have "list_all tr_raft_peer_set_membership_valid cs'"
    using b(4) assms(3) by (auto simp: list_all_iff)
  ultimately show ?thesis using peer_set_build_eq [OF assms(2,4)] by simp
qed

lemma tr_raft_peer_set_index_range:
  "tr_raft_peer_set_index peers n = - 1 \<or>
   (0 \<le> tr_raft_peer_set_index peers n \<and> tr_raft_peer_set_index peers n < int (length peers)
    \<and> peers ! nat (tr_raft_peer_set_index peers n) = n)"
  using search_ascending_range [of 0 peers n] search_ascending_nth [of 0 peers n]
  by (auto simp: tr_raft_peer_set_index_def)

lemma tr_raft_peer_set_index_mem:
  assumes "sorted_wrt (<) peers" and "0 \<notin> set peers"
  shows "0 \<le> tr_raft_peer_set_index peers n \<longleftrightarrow> n \<in> set peers"
proof -
  have "0 \<le> tr_raft_peer_set_index peers n \<longleftrightarrow> tr_raft_peer_set_index peers n \<noteq> - 1"
    using tr_raft_peer_set_index_range [of peers n] by auto
  also have "\<dots> \<longleftrightarrow> n \<in> set peers"
    using search_ascending_mem [OF assms(1), of n] assms(2)
    by (cases "n = 0") (auto simp: tr_raft_peer_set_index_def)
  finally show ?thesis .
qed

lemma tr_raft_peer_set_index_nth:
  assumes "sorted_wrt (<) peers" and "0 \<notin> set peers" and "k < length peers"
  shows "tr_raft_peer_set_index peers (peers ! k) = int k"
proof -
  have "peers ! k \<noteq> 0" using assms(2,3) by (metis nth_mem)
  then show ?thesis
    using search_ascending_found [OF assms(1,3), of 0] by (simp add: tr_raft_peer_set_index_def)
qed

text \<open>C35 (equivalence). On one to three memberships with ascending non-zero identifiers,
  \<open>tr_raft_peer_set_build\<close> terminates and returns the ascending list of the union of their member
  identifiers (except \<open>UINT64_MAX\<close>, see the finding on the end marker) when there are at most 31,
  and \<open>SALTS_ENOSPC\<close> otherwise; searching the result with \<open>tr_raft_peer_set_index\<close> gives the position
  of a member and \<open>-1\<close> for every other identifier.\<close>

theorem peer_set_build_correct:
  assumes "cs \<noteq> []" and "length cs \<le> 3" and "list_all tr_raft_peer_set_membership_valid cs"
  shows "tr_raft_peer_set_build cs =
           (if card (member_union cs) \<le> 31 then Inr (sorted_list_of_set (member_union cs))
            else Inl SALTS_ENOSPC)
         \<and> (\<forall>peers n. tr_raft_peer_set_build cs = Inr peers \<longrightarrow>
              (if n \<in> member_union cs
               then 0 \<le> tr_raft_peer_set_index peers n
                    \<and> tr_raft_peer_set_index peers n < int (length peers)
                    \<and> peers ! nat (tr_raft_peer_set_index peers n) = n
               else tr_raft_peer_set_index peers n = - 1))"
proof (intro conjI allI impI)
  show "tr_raft_peer_set_build cs =
           (if card (member_union cs) \<le> 31 then Inr (sorted_list_of_set (member_union cs))
            else Inl SALTS_ENOSPC)"
    by (rule peer_set_build_eq [OF assms])
  fix peers n
  assume "tr_raft_peer_set_build cs = Inr peers"
  note b = peer_set_build_Inr [OF this]
  from tr_raft_peer_set_index_range [of peers n] tr_raft_peer_set_index_mem [OF b(1,7), of n] b(2)
  show "if n \<in> member_union cs
               then 0 \<le> tr_raft_peer_set_index peers n
                    \<and> tr_raft_peer_set_index peers n < int (length peers)
                    \<and> peers ! nat (tr_raft_peer_set_index peers n) = n
               else tr_raft_peer_set_index peers n = - 1"
    by auto
qed

theorem peer_set_build_correct_witness:
  "tr_raft_peer_set_build [ex_stable, ex_change_joint] = Inr [1, 2, 3, 5]
   \<and> tr_raft_peer_set_index [1, 2, 3, 5] 5 < 4 \<and> 0 \<le> tr_raft_peer_set_index [1, 2, 3, 5] 5"
proof -
  have b: "tr_raft_peer_set_build [ex_stable, ex_change_joint] = Inr [1, 2, 3, 5]" by code_simp
  have v: "list_all tr_raft_peer_set_membership_valid [ex_stable, ex_change_joint]" by code_simp
  have "5 \<in> member_union [ex_stable, ex_change_joint]"
    by (simp add: member_union_def ex_stable_def)
  moreover have "[ex_stable, ex_change_joint] \<noteq> []" "length [ex_stable, ex_change_joint] \<le> 3"
    by simp_all
  note conjunct2 [OF peer_set_build_correct [OF this v], THEN spec, THEN spec, THEN mp, OF b, of 5]
  ultimately show ?thesis using b by simp
qed

end
