(* ===== verification/Raft_Membership_Transition.thy ===== *)
theory Raft_Membership_Transition
  imports Raft_Peer_Set
begin

text \<open>
  The membership transition of \<open>src/core/raft_membership_transition.c\<close>: the committed membership and
  at most two staged ones, each with the log index of its entry. The lemmas give the invariant of
  the structure, show that every operation keeps it, that neighbouring configurations have
  overlapping quorums, and that a whole change ends in the target membership.
\<close>

section \<open>State\<close>

text \<open>The arrays \<open>pending\<close> and \<open>pending_indices\<close> are one list of their first \<open>pending_count\<close> pairs.\<close>

record transition =
  tr_committed :: conf
  tr_pending :: "(conf \<times> raft_index) list"

section \<open>Operations\<close>

definition tr_raft_membership_equal :: "conf \<Rightarrow> conf \<Rightarrow> bool" where
  "tr_raft_membership_equal left right =
     (if conf_phase left \<noteq> conf_phase right
         \<or> conf_transition_id left \<noteq> conf_transition_id right
         \<or> length (conf_members left) \<noteq> length (conf_members right)
      then False
      else list_all2 (\<lambda>l r. cm_node_id l = cm_node_id r \<and> cm_roles l = cm_roles r)
             (conf_members left) (conf_members right))"

text \<open>The two nested scans of \<open>tr_raft_joint_old_voters_match\<close>, for the test of each list.\<close>

function old_voters_match_loop ::
    "(conf_member \<Rightarrow> bool) \<Rightarrow> (conf_member \<Rightarrow> bool) \<Rightarrow> conf_member list \<Rightarrow> conf_member list \<Rightarrow> bool" where
  "old_voters_match_loop P Q ss js =
     (if ss = [] \<and> js = [] then True
      else
        let ss' = dropWhile (\<lambda>m. \<not> P m) ss;
            js' = dropWhile (\<lambda>m. \<not> Q m) js
        in if ss' = [] \<or> js' = [] then ss' = [] \<and> js' = []
           else if cm_node_id (hd ss') \<noteq> cm_node_id (hd js') then False
           else old_voters_match_loop P Q (tl ss') (tl js'))"
  by pat_completeness auto
termination
proof (relation "measure (\<lambda>(P, Q, ss, js). length ss)", goal_cases)
  case 1
  show ?case by simp
next
  case (2 P Q ss js ss' js')
  then have "ss' \<noteq> []" by simp
  then have "length (tl ss') < length ss'" by simp
  also have "length ss' \<le> length ss" unfolding 2(2) by (rule length_dropWhile_le)
  finally show ?case by simp
qed

declare old_voters_match_loop.simps [simp del]

definition tr_raft_joint_old_voters_match :: "conf \<Rightarrow> conf \<Rightarrow> bool" where
  "tr_raft_joint_old_voters_match stab joint =
     old_voters_match_loop
       (\<lambda>m. tr_raft_membership_is_voter stab (cm_node_id m)) (\<lambda>m. role_old (cm_roles m))
       (conf_members stab) (conf_members joint)"

definition tr_raft_membership_transition_validate_next :: "transition \<Rightarrow> conf \<Rightarrow> salts_status" where
  "tr_raft_membership_transition_validate_next t configuration =
     (if tr_raft_conf_validate configuration \<noteq> SALTS_OK then SALTS_EPROTO
      else if length (tr_pending t) > 1 then SALTS_EPROTO
      else
        case tr_raft_peer_set_build (tr_committed t # map fst (tr_pending t) @ [configuration]) of
          Inl e \<Rightarrow> SALTS_EPROTO
        | Inr peers \<Rightarrow>
            let base = (if tr_pending t \<noteq> [] then fst (last (tr_pending t)) else tr_committed t)
            in if conf_phase configuration = TR_RAFT_CONF_JOINT
               then if tr_pending t \<noteq> []
                       \<or> conf_phase (tr_committed t) \<noteq> TR_RAFT_CONF_FINAL
                       \<or> \<not> tr_raft_joint_old_voters_match (tr_committed t) configuration
                    then SALTS_EPROTO
                    else SALTS_OK
               else if conf_phase configuration = TR_RAFT_CONF_FINAL
                       \<and> conf_phase base = TR_RAFT_CONF_JOINT
               then case tr_raft_membership_final base of
                      Inl e \<Rightarrow> SALTS_EPROTO
                    | Inr expected \<Rightarrow>
                        if \<not> tr_raft_membership_equal expected configuration
                        then SALTS_EPROTO else SALTS_OK
               else SALTS_EPROTO)"

definition tr_raft_membership_transition_init ::
    "id_array \<Rightarrow> id_array \<Rightarrow> salts_status + transition" where
  "tr_raft_membership_transition_init voters learners =
     (case tr_raft_membership_stable voters learners of
        Inl e \<Rightarrow> Inl e
      | Inr c \<Rightarrow> Inr \<lparr>tr_committed = c, tr_pending = []\<rparr>)"

definition tr_raft_membership_transition_init_configuration :: "conf \<Rightarrow> salts_status + transition" where
  "tr_raft_membership_transition_init_configuration configuration =
     (if tr_raft_conf_validate configuration \<noteq> SALTS_OK then Inl SALTS_EINVAL
      else Inr \<lparr>tr_committed = configuration, tr_pending = []\<rparr>)"

definition tr_raft_membership_transition_propose ::
    "transition \<Rightarrow> id_array \<Rightarrow> id_array \<Rightarrow> u64 \<Rightarrow> salts_status + conf" where
  "tr_raft_membership_transition_propose t target_voters target_learners transition_id =
     (if conf_phase (tr_committed t) \<noteq> TR_RAFT_CONF_FINAL \<or> tr_pending t \<noteq> [] then Inl SALTS_EBUSY
      else tr_raft_membership_joint (tr_committed t) target_voters target_learners transition_id)"

definition tr_raft_membership_transition_stage ::
    "transition \<Rightarrow> conf \<Rightarrow> raft_index \<Rightarrow> salts_status \<times> transition" where
  "tr_raft_membership_transition_stage t configuration log_index =
     (if log_index = 0 then (SALTS_EINVAL, t)
      else if length (tr_pending t) > 2 then (SALTS_EPROTO, t)
      else
        case find (\<lambda>p. snd p = log_index) (tr_pending t) of
          Some p \<Rightarrow>
            (if tr_raft_membership_equal (fst p) configuration then SALTS_OK else SALTS_EPROTO, t)
        | None \<Rightarrow>
            if length (tr_pending t) = 2
               \<or> (tr_pending t \<noteq> [] \<and> snd (last (tr_pending t)) \<ge> log_index)
            then (SALTS_EPROTO, t)
            else
              let result = tr_raft_membership_transition_validate_next t configuration
              in if result \<noteq> SALTS_OK then (result, t)
                 else (SALTS_OK, t\<lparr>tr_pending := tr_pending t @ [(configuration, log_index)]\<rparr>))"

definition tr_raft_membership_transition_stage_entry ::
    "transition \<Rightarrow> entry \<Rightarrow> salts_status \<times> transition" where
  "tr_raft_membership_transition_stage_entry t e =
     (case tr_raft_conf_entry_decode e of
        Inl result \<Rightarrow> (result, t)
      | Inr configuration \<Rightarrow> tr_raft_membership_transition_stage t configuration (e_index e))"

definition tr_raft_membership_transition_commit_limit :: "transition \<Rightarrow> raft_index \<Rightarrow> raft_index" where
  "tr_raft_membership_transition_commit_limit t candidate_index =
     (case tr_pending t of
        [] \<Rightarrow> candidate_index
      | p # ps \<Rightarrow> if candidate_index < snd p then candidate_index else snd p)"

fun transition_apply_loop ::
    "conf \<Rightarrow> (conf \<times> raft_index) list \<Rightarrow> raft_index \<Rightarrow> transition" where
  "transition_apply_loop committed [] commit_index = \<lparr>tr_committed = committed, tr_pending = []\<rparr>"
| "transition_apply_loop committed (p # ps) commit_index =
     (if snd p \<le> commit_index then transition_apply_loop (fst p) ps commit_index
      else \<lparr>tr_committed = committed, tr_pending = p # ps\<rparr>)"

definition tr_raft_membership_transition_apply :: "transition \<Rightarrow> raft_index \<Rightarrow> transition" where
  "tr_raft_membership_transition_apply t commit_index =
     transition_apply_loop (tr_committed t) (tr_pending t) commit_index"

definition tr_raft_membership_transition_needs_final :: "transition \<Rightarrow> bool" where
  "tr_raft_membership_transition_needs_final t \<longleftrightarrow>
     conf_phase (tr_committed t) = TR_RAFT_CONF_JOINT \<and> tr_pending t = []"

definition tr_raft_membership_transition_final :: "transition \<Rightarrow> salts_status + conf" where
  "tr_raft_membership_transition_final t =
     (if \<not> tr_raft_membership_transition_needs_final t then Inl SALTS_EINVAL
      else tr_raft_membership_final (tr_committed t))"

definition tr_raft_membership_transition_committed :: "transition \<Rightarrow> conf" where
  "tr_raft_membership_transition_committed t = tr_committed t"

definition tr_raft_membership_transition_next :: "transition \<Rightarrow> conf option" where
  "tr_raft_membership_transition_next t =
     (case tr_pending t of [] \<Rightarrow> None | p # ps \<Rightarrow> Some (fst p))"

section \<open>Comparison loops\<close>

lemma tr_raft_membership_equal_iff [simp]: "tr_raft_membership_equal l r \<longleftrightarrow> l = r"
proof
  assume eq: "tr_raft_membership_equal l r"
  then have "list_all2 (\<lambda>l r. cm_node_id l = cm_node_id r \<and> cm_roles l = cm_roles r)
      (conf_members l) (conf_members r)"
    by (simp add: tr_raft_membership_equal_def split: if_splits)
  then have "list_all2 (=) (conf_members l) (conf_members r)"
    by (rule list_all2_mono) auto
  with eq show "l = r"
    by (auto simp: tr_raft_membership_equal_def list_all2_eq split: if_splits)
next
  assume "l = r"
  then show "tr_raft_membership_equal l r"
    by (simp add: tr_raft_membership_equal_def list_all2_conv_all_nth)
qed

lemma filter_dropWhile_hd:
  "filter P xs = (case dropWhile (\<lambda>x. \<not> P x) xs of [] \<Rightarrow> [] | y # ys \<Rightarrow> y # filter P ys)"
proof (induction xs)
  case (Cons x xs)
  then show ?case by (cases "P x") auto
qed simp

lemma old_voters_match_loop_iff:
  "old_voters_match_loop P Q ss js \<longleftrightarrow> map cm_node_id (filter P ss) = map cm_node_id (filter Q js)"
proof (induction P Q ss js rule: old_voters_match_loop.induct)
  case (1 P Q ss js)
  show ?case
  proof (cases "ss = [] \<and> js = []")
    case True
    then show ?thesis by (simp add: old_voters_match_loop.simps)
  next
    case False
    note IH = 1 [OF False refl refl]
    show ?thesis
      using False IH
      by (cases "dropWhile (\<lambda>m. \<not> P m) ss"; cases "dropWhile (\<lambda>m. \<not> Q m) js")
         (auto simp: filter_dropWhile_hd [of P ss] filter_dropWhile_hd [of Q js]
            old_voters_match_loop.simps [of P Q ss js] Let_def simp del: dropWhile_eq_Nil_conv)
  qed
qed

lemma joint_old_voters_match_iff:
  assumes "ids_ok stab" and "ids_ok joint"
  shows "tr_raft_joint_old_voters_match stab joint \<longleftrightarrow>
           old_voters joint = old_voters stab \<union> new_voters stab"
proof -
  let ?a = "map cm_node_id (filter (\<lambda>m. tr_raft_membership_is_voter stab (cm_node_id m)) (conf_members stab))"
  let ?b = "map cm_node_id (filter (\<lambda>m. role_old (cm_roles m)) (conf_members joint))"
  have sorted: "sorted_wrt (<) ?a" "sorted_wrt (<) ?b"
    using assms by (auto simp: ids_ok_def intro: sorted_filter_ids)
  have "?a = ?b \<longleftrightarrow> set ?a = set ?b"
    using sorted by (metis strict_sorted_equal)
  moreover have "set ?a = old_voters stab \<union> new_voters stab"
    using tr_raft_membership_is_voter_iff [OF assms(1)]
    by (auto simp: old_voters_def new_voters_def)
  moreover have "set ?b = old_voters joint" by (simp add: voters_filter)
  ultimately show ?thesis
    unfolding tr_raft_joint_old_voters_match_def old_voters_match_loop_iff by auto
qed

section \<open>The transition invariant\<close>

text \<open>The step from one configuration to the next: a final one is followed by a joint one that keeps
  its voters as old voters, and a joint one by its own final membership.\<close>

definition conf_step :: "conf \<Rightarrow> conf \<Rightarrow> bool" where
  "conf_step base c \<longleftrightarrow> conf_valid c \<and>
     (if conf_phase base = TR_RAFT_CONF_JOINT then tr_raft_membership_final base = Inr c
      else conf_phase base = TR_RAFT_CONF_FINAL \<and> conf_phase c = TR_RAFT_CONF_JOINT
           \<and> old_voters c = old_voters base)"

fun pending_chain :: "conf \<Rightarrow> (conf \<times> raft_index) list \<Rightarrow> bool" where
  "pending_chain base [] \<longleftrightarrow> True"
| "pending_chain base [p] \<longleftrightarrow> conf_step base (fst p)"
| "pending_chain base [p, q] \<longleftrightarrow>
     conf_step base (fst p) \<and> conf_phase (fst p) = TR_RAFT_CONF_JOINT \<and> conf_step (fst p) (fst q)"
| "pending_chain base (p # q # r # ps) \<longleftrightarrow> False"

definition transition_confs :: "transition \<Rightarrow> conf list" where
  "transition_confs t = tr_committed t # map fst (tr_pending t)"

definition transition_wf :: "transition \<Rightarrow> bool" where
  "transition_wf t \<longleftrightarrow>
     conf_valid (tr_committed t) \<and> (\<exists>peers. tr_raft_peer_set_build (transition_confs t) = Inr peers)
     \<and> sorted_wrt (<) (map snd (tr_pending t)) \<and> 0 \<notin> set (map snd (tr_pending t))
     \<and> pending_chain (tr_committed t) (tr_pending t)"

lemma conf_step_valid: "conf_step base c \<Longrightarrow> conf_valid c"
  by (simp add: conf_step_def)

lemma conf_step_phase:
  assumes "conf_step base c"
  shows "conf_phase c = TR_RAFT_CONF_JOINT \<longleftrightarrow> conf_phase base = TR_RAFT_CONF_FINAL"
    and "conf_phase c = TR_RAFT_CONF_FINAL \<longleftrightarrow> conf_phase base = TR_RAFT_CONF_JOINT"
  using assms
  by (auto simp: conf_step_def tr_raft_membership_final_def Let_def split: if_splits)

lemma pending_chain_length: "pending_chain base ps \<Longrightarrow> length ps \<le> 2"
  by (induction base ps rule: pending_chain.induct) auto

lemma peer_set_build_single:
  assumes "conf_valid c"
  shows "\<exists>peers. tr_raft_peer_set_build [c] = Inr peers"
proof -
  have "card (member_union [c]) \<le> card (set (conf_ids c))"
    by (intro card_mono) (auto simp: member_union_def)
  also have "\<dots> \<le> 31" using assms card_length [of "conf_ids c"] by (auto simp: conf_valid_def)
  finally have "card (member_union [c]) \<le> 31" .
  moreover have "tr_raft_peer_set_membership_valid c"
    using assms by (auto simp: peer_set_membership_valid_iff conf_valid_def ids_ok_def)
  ultimately show ?thesis using peer_set_build_eq [of "[c]"] by simp
qed

lemma transition_wf_stable:
  "conf_valid c \<Longrightarrow> transition_wf \<lparr>tr_committed = c, tr_pending = []\<rparr>"
  by (simp add: transition_wf_def transition_confs_def peer_set_build_single)

lemma transition_init_wf:
  "tr_raft_membership_transition_init voters learners = Inr t \<Longrightarrow> transition_wf t"
  "tr_raft_membership_transition_init_configuration c = Inr t \<Longrightarrow> transition_wf t"
  using membership_stable_Inr(1) [of voters learners]
  by (auto simp: tr_raft_membership_transition_init_def tr_raft_conf_validate_iff
      tr_raft_membership_transition_init_configuration_def
      intro!: transition_wf_stable split: sum.splits if_splits)

lemma final_conf_valid:
  assumes "conf_valid j" and "conf_phase j = TR_RAFT_CONF_JOINT" and "tr_raft_membership_final j = Inr f"
  shows "conf_valid f" "conf_phase f = TR_RAFT_CONF_FINAL" "old_voters f = new_voters j"
    "new_voters f = new_voters j" "learners_of f = learners_of j"
    "conf_transition_id f = conf_transition_id j"
  using membership_final_Inr [OF assms(1,2)] assms(3) by (metis sum.inject(2))+

lemma validate_next_iff:
  assumes "transition_wf t"
  defines "base \<equiv> last (transition_confs t)"
  shows "tr_raft_membership_transition_validate_next t c = SALTS_OK \<longleftrightarrow>
           transition_wf t \<and> conf_step base c \<and> length (tr_pending t) \<le> 1
           \<and> (tr_pending t \<noteq> [] \<longrightarrow> conf_phase c = TR_RAFT_CONF_FINAL)
           \<and> (\<exists>peers. tr_raft_peer_set_build (transition_confs t @ [c]) = Inr peers)"
    and "tr_raft_membership_transition_validate_next t c \<in> {SALTS_OK, SALTS_EPROTO}"
proof -
  let ?b = "if tr_pending t \<noteq> [] then fst (last (tr_pending t)) else tr_committed t"
  have base: "?b = base" by (simp add: base_def transition_confs_def last_map)
  have valid: "conf_valid (tr_committed t)" using assms(1) by (simp add: transition_wf_def)
  have confs: "tr_committed t # map fst (tr_pending t) @ [c] = transition_confs t @ [c]"
    by (simp add: transition_confs_def)
  have match: "tr_raft_joint_old_voters_match (tr_committed t) c \<longleftrightarrow> old_voters c = old_voters (tr_committed t)"
    if "conf_valid c" "conf_phase (tr_committed t) = TR_RAFT_CONF_FINAL"
    using joint_old_voters_match_iff [OF conf_valid_ids_ok [OF valid] conf_valid_ids_ok [OF that(1)]]
      final_voters(1) [OF valid that(2)] by simp
  have single: "base = tr_committed t" if "tr_pending t = []"
    using that by (simp add: base_def transition_confs_def)
  show "tr_raft_membership_transition_validate_next t c \<in> {SALTS_OK, SALTS_EPROTO}"
    by (simp add: tr_raft_membership_transition_validate_next_def Let_def split: sum.splits)
  have fin: "conf_phase c = TR_RAFT_CONF_FINAL"
    if "tr_raft_membership_final base = Inr c"
    using that by (auto simp: tr_raft_membership_final_def Let_def split: if_splits)
  show "tr_raft_membership_transition_validate_next t c = SALTS_OK \<longleftrightarrow>
           transition_wf t \<and> conf_step base c \<and> length (tr_pending t) \<le> 1
           \<and> (tr_pending t \<noteq> [] \<longrightarrow> conf_phase c = TR_RAFT_CONF_FINAL)
           \<and> (\<exists>peers. tr_raft_peer_set_build (transition_confs t @ [c]) = Inr peers)"
    unfolding tr_raft_membership_transition_validate_next_def Let_def base confs conf_step_def
      tr_raft_conf_validate_iff
    using assms(1) match single fin by (auto split: sum.splits if_splits)
qed
lemma pending_chain_snoc:
  assumes "pending_chain base ps" and "conf_step (last (base # map fst ps)) c" and "length ps \<le> 1"
    and "ps \<noteq> [] \<longrightarrow> conf_phase c = TR_RAFT_CONF_FINAL"
  shows "pending_chain base (ps @ [(c, i)])"
proof (cases ps)
  case Nil
  with assms show ?thesis by simp
next
  case (Cons p qs)
  with assms(3) have ps: "ps = [p]" by simp
  with assms show ?thesis
    using conf_step_phase(2) [of "fst p" c] by simp
qed

lemma transition_stage_cases:
  assumes wf: "transition_wf t" and stage: "tr_raft_membership_transition_stage t c i = (s, t')"
  obtains (known) "s = SALTS_OK" "t' = t" "(c, i) \<in> set (tr_pending t)"
  | (staged) "s = SALTS_OK" "t' = t\<lparr>tr_pending := tr_pending t @ [(c, i)]\<rparr>" "transition_wf t'"
      "conf_step (last (transition_confs t)) c" "\<forall>p \<in> set (tr_pending t). snd p < i"
  | (failed) "s \<in> {SALTS_EINVAL, SALTS_EPROTO}" "t' = t"
proof (cases "find (\<lambda>p. snd p = i) (tr_pending t)")
  case (Some p)
  then have "p \<in> set (tr_pending t)" "snd p = i"
    by (auto simp: find_Some_iff)
  with Some stage that(1,3) show thesis
    by (cases p) (auto simp: tr_raft_membership_transition_stage_def split: if_splits)
next
  case None
  show thesis
  proof (cases "i \<noteq> 0 \<and> \<not> (tr_pending t \<noteq> [] \<and> snd (last (tr_pending t)) \<ge> i)
      \<and> tr_raft_membership_transition_validate_next t c = SALTS_OK")
    case False
    then show thesis
      using None stage that(3) validate_next_iff(2) [OF wf, of c]
      by (auto simp: tr_raft_membership_transition_stage_def Let_def split: if_splits)
  next
    case True
    note next_ok = validate_next_iff(1) [OF wf, of c] True
    then have step: "conf_step (last (transition_confs t)) c" and len: "length (tr_pending t) \<le> 1"
      and fin: "tr_pending t \<noteq> [] \<longrightarrow> conf_phase c = TR_RAFT_CONF_FINAL" by auto
    have res: "s = SALTS_OK" "t' = t\<lparr>tr_pending := tr_pending t @ [(c, i)]\<rparr>"
      using None stage True len
      by (auto simp: tr_raft_membership_transition_stage_def split: if_splits)
    have below: "\<forall>p \<in> set (tr_pending t). snd p < i"
      using True len by (cases "tr_pending t") auto
    have "transition_wf t'"
      using wf next_ok below True pending_chain_snoc [OF _ step [unfolded transition_confs_def] len fin]
      unfolding res(2) transition_wf_def transition_confs_def
      by (auto simp: sorted_wrt_append)
    with that(2) res step below show thesis by blast
  qed
qed

lemma transition_stage_wf:
  "transition_wf t \<Longrightarrow> tr_raft_membership_transition_stage t c i = (s, t') \<Longrightarrow> transition_wf t'"
  by (rule transition_stage_cases) auto

lemma transition_stage_entry_wf:
  "transition_wf t \<Longrightarrow> tr_raft_membership_transition_stage_entry t e = (s, t') \<Longrightarrow> transition_wf t'"
  by (auto simp: tr_raft_membership_transition_stage_entry_def split: sum.splits
      intro: transition_stage_wf)

lemma transition_apply_loop_eq:
  assumes "sorted_wrt (<) (map snd ps)"
  shows "transition_apply_loop c ps ci =
           \<lparr>tr_committed = last (c # map fst (filter (\<lambda>p. snd p \<le> ci) ps)),
            tr_pending = filter (\<lambda>p. ci < snd p) ps\<rparr>"
  using assms
proof (induction c ps ci rule: transition_apply_loop.induct)
  case (2 c p ps ci)
  then have above: "\<forall>q \<in> set ps. snd p < snd q" by simp
  show ?case
  proof (cases "snd p \<le> ci")
    case True
    with 2 show ?thesis by simp
  next
    case False
    then have "filter (\<lambda>q. snd q \<le> ci) ps = []" "filter (\<lambda>q. ci < snd q) ps = ps"
      using above by (force simp: filter_empty_conv filter_id_conv)+
    with False show ?thesis by simp
  qed
qed simp

lemma transition_apply_loop_wf:
  "transition_wf \<lparr>tr_committed = c, tr_pending = ps\<rparr> \<Longrightarrow> transition_wf (transition_apply_loop c ps ci)"
proof (induction c ps ci rule: transition_apply_loop.induct)
  case (2 c p ps ci)
  have "transition_wf \<lparr>tr_committed = fst p, tr_pending = ps\<rparr>"
  proof -
    from 2(2) have "pending_chain c (p # ps)" by (simp add: transition_wf_def)
    then have chain: "conf_step c (fst p)" "pending_chain (fst p) ps"
      by (induction c "p # ps" rule: pending_chain.induct) auto
    from 2(2) obtain peers where "tr_raft_peer_set_build (c # fst p # map fst ps) = Inr peers"
      by (auto simp: transition_wf_def transition_confs_def)
    from peer_set_build_mono [OF this, of "fst p # map fst ps"] peer_set_build_Inr(6) [OF this]
    have "\<exists>peers. tr_raft_peer_set_build (fst p # map fst ps) = Inr peers" by auto
    with 2(2) chain conf_step_valid [OF chain(1)] show ?thesis
      by (auto simp: transition_wf_def transition_confs_def)
  qed
  with 2 show ?case by simp
qed simp

lemma transition_apply_wf: "transition_wf t \<Longrightarrow> transition_wf (tr_raft_membership_transition_apply t ci)"
  unfolding tr_raft_membership_transition_apply_def
  by (rule transition_apply_loop_wf) (cases t, simp)

lemma transition_apply_eq:
  assumes "transition_wf t"
  shows "tr_raft_membership_transition_apply t ci =
           \<lparr>tr_committed = last (tr_committed t # map fst (filter (\<lambda>p. snd p \<le> ci) (tr_pending t))),
            tr_pending = filter (\<lambda>p. ci < snd p) (tr_pending t)\<rparr>"
  unfolding tr_raft_membership_transition_apply_def
  using assms by (intro transition_apply_loop_eq) (simp add: transition_wf_def)

lemmas transition_wf_intros = transition_wf_stable transition_stage_wf transition_stage_entry_wf
  transition_apply_wf

section \<open>Neighbouring configurations\<close>

text \<open>The interface a leader relies on while the configuration changes: two consecutive
  configurations never have disjoint quorums.\<close>

locale config_succession =
  fixes quorum :: "'c \<Rightarrow> node_id set \<Rightarrow> bool"
    and ok :: "'c \<Rightarrow> bool"
    and succ :: "'c \<Rightarrow> 'c \<Rightarrow> bool"
  assumes succ_ok: "ok c \<Longrightarrow> succ c d \<Longrightarrow> ok d"
    and succ_overlap: "ok c \<Longrightarrow> succ c d \<Longrightarrow> quorum c A \<Longrightarrow> quorum d B \<Longrightarrow> A \<inter> B \<noteq> {}"
begin

lemma decided_value_carries:
  assumes "ok c" and "succ c d" and "quorum c A" and "quorum d B"
    and "\<forall>n \<in> A. acc n = x" and "\<forall>n \<in> B. acc n = y"
  shows "x = y"
  using succ_overlap [OF assms(1-4)] assms(5,6) by auto

lemma chain_ok: "succ\<^sup>*\<^sup>* c d \<Longrightarrow> ok c \<Longrightarrow> ok d"
  by (induction rule: rtranclp_induct) (auto intro: succ_ok)

end

lemma conf_step_overlap:
  assumes "conf_valid base" and "conf_step base c" and "conf_quorum base A" and "conf_quorum c B"
  shows "A \<inter> B \<noteq> {}"
proof (cases "conf_phase base = TR_RAFT_CONF_JOINT")
  case True
  with assms(2) have "tr_raft_membership_final base = Inr c" by (simp add: conf_step_def)
  from final_conf_valid(3) [OF assms(1) True this] assms(3,4)
  show ?thesis
    using majority_of_intersect [of "new_voters base" A B] by (auto simp: conf_quorum_def)
next
  case False
  with assms(2) have "old_voters c = old_voters base" by (simp add: conf_step_def)
  with assms(3,4) show ?thesis
    using majority_of_intersect [of "old_voters base" A B] by (auto simp: conf_quorum_def)
qed

interpretation step_succ: config_succession conf_quorum conf_valid conf_step
  by unfold_locales (auto dest: conf_step_valid conf_step_overlap)

lemma acked_quorum:
  "conf_valid c \<Longrightarrow> tr_raft_membership_has_quorum c acks \<Longrightarrow> conf_quorum c (acked_ids c acks)"
  using has_quorum_iff [OF conf_valid_distinct, of c acks] by (simp add: conf_valid_def)

section \<open>Properties\<close>

text \<open>C33 (invariant). Staging a configuration keeps the transition well formed (at most two staged
  configurations, strictly ascending non-zero log indices, each a legal successor of the one
  before, all member sets together within the peer table). Success means that the configuration is
  recorded for that log index behind the earlier ones; every other outcome is \<open>SALTS_EINVAL\<close> or
  \<open>SALTS_EPROTO\<close> and leaves the transition as it was.\<close>

theorem transition_stage_correct:
  assumes "transition_wf t" and "tr_raft_membership_transition_stage t c i = (s, t')"
  shows "transition_wf t'
         \<and> (if s = SALTS_OK
            then (c, i) \<in> set (tr_pending t') \<and> tr_committed t' = tr_committed t
                 \<and> (t' = t \<or> tr_pending t' = tr_pending t @ [(c, i)] \<and> conf_step (last (transition_confs t)) c)
            else s \<in> {SALTS_EINVAL, SALTS_EPROTO} \<and> t' = t)"
  using assms by (rule transition_stage_cases) (use assms in auto)

text \<open>C34 (functional). Advancing the commit index makes the staged configuration with the greatest
  log index at or below it the committed one (or keeps the committed one when there is none), keeps
  exactly the staged configurations above it, and keeps the transition well formed.\<close>

theorem transition_apply_correct:
  assumes "transition_wf t"
  shows "tr_raft_membership_transition_apply t ci =
           \<lparr>tr_committed = last (tr_committed t # map fst (filter (\<lambda>p. snd p \<le> ci) (tr_pending t))),
            tr_pending = filter (\<lambda>p. ci < snd p) (tr_pending t)\<rparr>
         \<and> transition_wf (tr_raft_membership_transition_apply t ci)"
  using transition_apply_eq [OF assms] transition_apply_wf [OF assms] by metis

text \<open>C23 (safety). The commit limit lets a leader step over at most one staged configuration: the
  limited index is at most the candidate and applying it commits nothing, or exactly the first
  staged configuration, whose quorums all meet the quorums of the committed one.\<close>

theorem commit_limit_single_step:
  assumes "transition_wf t"
  shows "tr_raft_membership_transition_commit_limit t ci \<le> ci
         \<and> (case tr_raft_membership_transition_next t of
              None \<Rightarrow> tr_raft_membership_transition_apply t (tr_raft_membership_transition_commit_limit t ci) = t
            | Some c \<Rightarrow>
                tr_raft_membership_transition_apply t (tr_raft_membership_transition_commit_limit t ci)
                  \<in> {t, \<lparr>tr_committed = c, tr_pending = tl (tr_pending t)\<rparr>}
                \<and> (\<forall>acks acks'. tr_raft_membership_has_quorum (tr_committed t) acks \<longrightarrow>
                     tr_raft_membership_has_quorum c acks' \<longrightarrow>
                     acked_ids (tr_committed t) acks \<inter> acked_ids c acks' \<noteq> {}))"
proof (cases "tr_pending t")
  case Nil
  then show ?thesis
    by (cases t) (simp add: tr_raft_membership_transition_commit_limit_def
        tr_raft_membership_transition_next_def tr_raft_membership_transition_apply_def)
next
  case (Cons p ps)
  from assms have "pending_chain (tr_committed t) (p # ps)" and valid: "conf_valid (tr_committed t)"
    and sorted: "sorted_wrt (<) (map snd (p # ps))"
    by (simp_all add: transition_wf_def Cons)
  then have step: "conf_step (tr_committed t) (fst p)"
    by (induction "tr_committed t" "p # ps" rule: pending_chain.induct) auto
  have overlap: "acked_ids (tr_committed t) acks \<inter> acked_ids (fst p) acks' \<noteq> {}"
    if "tr_raft_membership_has_quorum (tr_committed t) acks" "tr_raft_membership_has_quorum (fst p) acks'"
    for acks acks'
    using step_succ.succ_overlap [OF valid step acked_quorum acked_quorum] that valid
      step_succ.succ_ok [OF valid step] by blast
  have "filter (\<lambda>q. ci' < snd q) ps = ps" "filter (\<lambda>q. snd q \<le> ci') ps = []" if "ci' \<le> snd p" for ci'
    using sorted that by (force simp: filter_id_conv filter_empty_conv)+
  with transition_apply_eq [OF assms] Cons overlap show ?thesis
    by (cases t) (auto simp: tr_raft_membership_transition_commit_limit_def
        tr_raft_membership_transition_next_def)
qed

text \<open>A whole change on a concrete membership, for the examples of the properties: two voters and a
  learner, changed into two voters and a learner with entries at indices 4 and 7.\<close>

definition ex_transition :: transition where
  "ex_transition = \<lparr>tr_committed = ex_stable, tr_pending = []\<rparr>"

definition ex_staged :: transition where
  "ex_staged = \<lparr>tr_committed = ex_stable, tr_pending = [(ex_change_joint, 4), (ex_change_final, 7)]\<rparr>"

lemma ex_transition_wf [simp]: "transition_wf ex_transition"
  unfolding ex_transition_def by (rule transition_wf_stable) simp

lemma ex_staged_eqs:
  "tr_raft_membership_transition_stage ex_transition ex_change_joint 4
     = (SALTS_OK, ex_transition\<lparr>tr_pending := [(ex_change_joint, 4)]\<rparr>)"
  "tr_raft_membership_transition_stage (ex_transition\<lparr>tr_pending := [(ex_change_joint, 4)]\<rparr>) ex_change_final 7
     = (SALTS_OK, ex_staged)"
  by code_simp+

lemma ex_staged_wf [simp]: "transition_wf ex_staged"
  by (rule transition_stage_wf [OF transition_stage_wf [OF ex_transition_wf ex_staged_eqs(1)] ex_staged_eqs(2)])

theorem transition_stage_correct_witness:
  "tr_raft_membership_transition_stage ex_transition ex_change_joint 4
     = (SALTS_OK, ex_transition\<lparr>tr_pending := [(ex_change_joint, 4)]\<rparr>)
   \<and> transition_wf (ex_transition\<lparr>tr_pending := [(ex_change_joint, 4)]\<rparr>)"
  using transition_stage_correct [OF ex_transition_wf ex_staged_eqs(1)] ex_staged_eqs(1) by simp

theorem transition_apply_correct_witness:
  "tr_raft_membership_transition_apply ex_staged 5
     = \<lparr>tr_committed = ex_change_joint, tr_pending = [(ex_change_final, 7)]\<rparr>
   \<and> transition_wf (tr_raft_membership_transition_apply ex_staged 5)"
proof -
  note ap = transition_apply_correct [OF ex_staged_wf, of 5]
  then have "tr_raft_membership_transition_apply ex_staged 5
      = \<lparr>tr_committed = ex_change_joint, tr_pending = [(ex_change_final, 7)]\<rparr>"
    by (simp add: ex_staged_def)
  with ap show ?thesis by metis
qed

theorem commit_limit_single_step_witness:
  "tr_raft_membership_transition_commit_limit ex_staged 9 = 4
   \<and> tr_raft_membership_transition_next ex_staged = Some ex_change_joint
   \<and> tr_raft_membership_transition_commit_limit ex_staged 9 \<le> 9
   \<and> acked_ids ex_stable 6 \<inter> acked_ids ex_change_joint 7 \<noteq> {}"
proof -
  have q: "tr_raft_membership_has_quorum (tr_committed ex_staged) 6"
    "tr_raft_membership_has_quorum ex_change_joint 7" by code_simp+
  have nxt: "tr_raft_membership_transition_next ex_staged = Some ex_change_joint"
    and lim: "tr_raft_membership_transition_commit_limit ex_staged 9 = 4" by code_simp+
  from commit_limit_single_step [OF ex_staged_wf, of 9] q nxt lim show ?thesis
    by (auto simp: ex_staged_def)
qed

lemma stage_ready:
  assumes "transition_wf t" and "tr_pending t = []" and "conf_step (tr_committed t) c" and "i \<noteq> 0"
    and "\<exists>peers. tr_raft_peer_set_build [tr_committed t, c] = Inr peers"
  shows "tr_raft_membership_transition_stage t c i = (SALTS_OK, t\<lparr>tr_pending := [(c, i)]\<rparr>)"
proof -
  have "tr_raft_membership_transition_validate_next t c = SALTS_OK"
    using assms validate_next_iff(1) [OF assms(1), of c] by (auto simp: transition_confs_def)
  with assms show ?thesis by (simp add: tr_raft_membership_transition_stage_def)
qed


lemma joint_peer_set:
  assumes "tr_raft_membership_joint cur voters learners tid = Inr j"
  shows "\<exists>peers. tr_raft_peer_set_build [cur, j] = Inr peers"
proof -
  note j = membership_joint_Inr [OF assms]
  let ?U = "set (conf_ids cur) \<union> set (id_list voters) \<union> set (id_list learners)"
  have mem: "conf_members j = joint_loop (conf_members cur) (id_list voters) (id_list learners)"
    and "tr_raft_membership_union_count cur voters learners \<le> 31"
    using assms by (auto simp: tr_raft_membership_joint_def Let_def split: if_splits)
  then have "card ?U \<le> 31"
    using j(4,6) union_count_loop_card [of "conf_ids cur" "id_list voters" "id_list learners"]
    by (auto simp: tr_raft_membership_union_count_def conf_valid_def target_ok_def)
  moreover have "set (conf_ids j) \<subseteq> ?U"
    unfolding joint_loop_voters(2) [OF j(4,5,6) mem] by (auto simp: old_voters_def)
  then have "member_union [cur, j] \<subseteq> ?U" by (auto simp: member_union_def)
  then have "card (member_union [cur, j]) \<le> card ?U" by (intro card_mono) simp_all
  ultimately have "card (member_union [cur, j]) \<le> 31" by simp
  moreover have "list_all tr_raft_peer_set_membership_valid [cur, j]"
    using j(1,4) by (auto simp: peer_set_membership_valid_iff conf_valid_def ids_ok_def)
  ultimately show ?thesis using peer_set_build_eq [of "[cur, j]"] by simp
qed

lemma final_peer_set:
  assumes "conf_valid j" and "conf_phase j = TR_RAFT_CONF_JOINT" and "tr_raft_membership_final j = Inr f"
  shows "\<exists>peers. tr_raft_peer_set_build [j, f] = Inr peers"
proof -
  have "set (conf_ids f) \<subseteq> set (conf_ids j)"
    by (rule membership_final_Inr [OF assms(1,2)]) (use assms(3) in simp)
  then have "member_union [j, f] \<subseteq> set (conf_ids j)" by (auto simp: member_union_def)
  then have "card (member_union [j, f]) \<le> card (set (conf_ids j))" by (intro card_mono) simp_all
  also have "\<dots> \<le> 31" using assms(1) card_length [of "conf_ids j"] by (auto simp: conf_valid_def)
  finally have "card (member_union [j, f]) \<le> 31" .
  moreover have "list_all tr_raft_peer_set_membership_valid [j, f]"
    using assms(1) final_conf_valid(1) [OF assms]
    by (auto simp: peer_set_membership_valid_iff conf_valid_def ids_ok_def)
  ultimately show ?thesis using peer_set_build_eq [of "[j, f]"] by simp
qed

text \<open>C22 (liveness). A membership change runs to completion: from a settled well-formed transition,
  once \<open>tr_raft_membership_transition_propose\<close> accepts the target, staging the joint entry, applying
  its index, staging the final entry that \<open>tr_raft_membership_transition_final\<close> asks for and
  applying that index all succeed, and end in a settled transition whose committed membership is
  final with exactly the target voters and learners. A second proposal is refused with
  \<open>SALTS_EBUSY\<close> at every point in between.\<close>

theorem membership_change_lifecycle:
  assumes wf: "transition_wf t" and settled: "tr_pending t = []"
    and propose: "tr_raft_membership_transition_propose t voters learners tid = Inr j"
    and max: "UINT64_MAX \<notin> old_voters (tr_committed t) \<union> set (id_list voters) \<union> set (id_list learners)"
    and idx: "i \<noteq> 0" "k \<noteq> 0"
  shows "\<exists>t1 t2 f t3 t4.
      tr_raft_membership_transition_stage t j i = (SALTS_OK, t1)
    \<and> t2 = tr_raft_membership_transition_apply t1 i
    \<and> tr_raft_membership_transition_needs_final t2
    \<and> tr_raft_membership_transition_final t2 = Inr f
    \<and> tr_raft_membership_transition_stage t2 f k = (SALTS_OK, t3)
    \<and> t4 = tr_raft_membership_transition_apply t3 k
    \<and> transition_wf t4 \<and> tr_pending t4 = [] \<and> conf_phase (tr_committed t4) = TR_RAFT_CONF_FINAL
    \<and> old_voters (tr_committed t4) = set (id_list voters)
    \<and> new_voters (tr_committed t4) = set (id_list voters)
    \<and> learners_of (tr_committed t4) = set (id_list learners)
    \<and> (\<forall>u \<in> {t1, t2, t3}.
         tr_raft_membership_transition_propose u voters learners tid = Inl SALTS_EBUSY)"
proof -
  from propose have joint: "tr_raft_membership_joint (tr_committed t) voters learners tid = Inr j"
    by (auto simp: tr_raft_membership_transition_propose_def split: if_splits)
  note j = membership_joint_Inr [OF joint]
  obtain f where final: "tr_raft_membership_final j = Inr f" by (rule membership_final_Inr [OF j(1,2)])
  note f = final_conf_valid [OF j(1,2) final]
  define t1 where "t1 = t\<lparr>tr_pending := [(j, i)]\<rparr>"
  define t2 where "t2 = \<lparr>tr_committed = j, tr_pending = []\<rparr>"
  define t3 where "t3 = t2\<lparr>tr_pending := [(f, k)]\<rparr>"
  define t4 where "t4 = \<lparr>tr_committed = f, tr_pending = []\<rparr>"
  have s1: "tr_raft_membership_transition_stage t j i = (SALTS_OK, t1)"
    unfolding t1_def using j max joint_peer_set [OF joint]
    by (intro stage_ready [OF wf settled _ idx(1)]) (simp_all add: conf_step_def)
  have wf2: "transition_wf t2" unfolding t2_def by (rule transition_wf_stable [OF j(1)])
  have s2: "tr_raft_membership_transition_stage t2 f k = (SALTS_OK, t3)"
    unfolding t3_def using final_peer_set [OF j(1,2) final] f(1) final j(2)
    by (intro stage_ready [OF wf2 _ _ idx(2)]) (simp_all add: t2_def conf_step_def)
  have a: "t2 = tr_raft_membership_transition_apply t1 i" "t4 = tr_raft_membership_transition_apply t3 k"
    by (simp_all add: t1_def t2_def t3_def t4_def tr_raft_membership_transition_apply_def)
  have n: "tr_raft_membership_transition_needs_final t2" "tr_raft_membership_transition_final t2 = Inr f"
    using j(2) final
    by (simp_all add: t2_def tr_raft_membership_transition_final_def
        tr_raft_membership_transition_needs_final_def)
  have busy: "\<forall>u \<in> {t1, t2, t3}.
      tr_raft_membership_transition_propose u voters learners tid = Inl SALTS_EBUSY"
    using j(2) by (simp add: tr_raft_membership_transition_propose_def t1_def t2_def t3_def)
  have fin: "transition_wf t4" "tr_pending t4 = []" "conf_phase (tr_committed t4) = TR_RAFT_CONF_FINAL"
    "old_voters (tr_committed t4) = set (id_list voters)" "new_voters (tr_committed t4) = set (id_list voters)"
    "learners_of (tr_committed t4) = set (id_list learners)"
    using transition_wf_stable [OF f(1)] f j(8,9) max by (simp_all add: t4_def)
  from s1 a(1) n s2 a(2) fin busy show ?thesis by blast
qed

theorem membership_change_lifecycle_witness:
  "\<exists>t1 t3. tr_raft_membership_transition_stage ex_transition ex_change_joint 4 = (SALTS_OK, t1)
    \<and> tr_raft_membership_transition_stage (tr_raft_membership_transition_apply t1 4) ex_change_final 7
        = (SALTS_OK, t3)
    \<and> old_voters (tr_committed (tr_raft_membership_transition_apply t3 7)) = {2, 3}"
proof -
  have p: "tr_raft_membership_transition_propose ex_transition (Id_array [2, 3]) (Id_array [5]) 9
      = Inr ex_change_joint" by code_simp
  have f: "tr_raft_membership_transition_final
      (tr_raft_membership_transition_apply (ex_transition\<lparr>tr_pending := [(ex_change_joint, 4)]\<rparr>) 4)
      = Inr ex_change_final" by code_simp
  have "tr_pending ex_transition = []" "(4 :: raft_index) \<noteq> 0" "(7 :: raft_index) \<noteq> 0"
    "UINT64_MAX \<notin> old_voters (tr_committed ex_transition) \<union> set (id_list (Id_array [2, 3]))
      \<union> set (id_list (Id_array [5]))"
    by (simp_all add: ex_transition_def voters_filter ex_stable_def)
  from membership_change_lifecycle [OF ex_transition_wf this(1) p this(4) this(2,3)] f ex_staged_eqs(1)
  show ?thesis by auto
qed

end
