(* ===== verification/Raft_Log.thy ===== *)
theory Raft_Log
  imports Raft_Membership_Transition "HOL-Library.Code_Target_Nat"
begin

text \<open>
  The in-memory replicated log of \<open>src/core/raft_log.c\<close>: a base point (the last compacted index and
  term) and the entries behind it in a vector of the container library. The vector's fallible
  operations are a parameter. The lemmas give the log invariant, the reading laws after every
  append, compaction and reconciliation, and the correctness of the reconciliation with a leader's
  entries against a specification by the longest common prefix.
\<close>

section \<open>The vector parameter\<close>

text \<open>
  \<open>vec_t\<close> of the container library is not part of the sources. The model keeps a vector as the list
  of its elements, so that \<open>vec_size\<close> and \<open>vec_at\<close> are length and position; the operations that
  allocate or change the size are the parameter \<open>vec_ops\<close>. \<open>vec_contract V cap\<close> is what the log relies
  on once \<open>cap\<close> elements are reserved: a push below the capacity succeeds and appends, and a resize
  within the capacity succeeds, keeps the common prefix and gives the wanted size. The values of
  elements added by a resize are left open.
\<close>

record vec_ops =
  vec_init_bytes :: "nat \<Rightarrow> stl_status"
  vec_reserve :: "nat \<Rightarrow> stl_status"
  vec_push :: "entry list \<Rightarrow> entry \<Rightarrow> stl_status \<times> entry list"
  vec_resize :: "entry list \<Rightarrow> nat \<Rightarrow> stl_status \<times> entry list"

definition vec_contract :: "vec_ops \<Rightarrow> nat \<Rightarrow> bool" where
  "vec_contract V cap \<longleftrightarrow>
     (\<forall>xs e. length xs < cap \<longrightarrow> vec_push V xs e = (STL_OK, xs @ [e]))
     \<and> (\<forall>xs n. length xs \<le> cap \<longrightarrow> n \<le> cap \<longrightarrow>
          (\<exists>ys. vec_resize V xs n = (STL_OK, ys) \<and> length ys = n
                \<and> take (min n (length xs)) ys = take (min n (length xs)) xs))"

section \<open>State\<close>

record raft_log =
  log_entries :: "entry list"
  log_max_entries :: nat
  log_base_index :: raft_index
  log_base_term :: raft_term

record reconcile_result =
  rr_matched :: bool
  rr_changed :: bool
  rr_reject_hint :: raft_index
  rr_truncate_from :: raft_index
  rr_append_from :: raft_index
  rr_append_count :: nat

definition reconcile_zero :: reconcile_result where
  "reconcile_zero = \<lparr>rr_matched = False, rr_changed = False, rr_reject_hint = 0, rr_truncate_from = 0,
     rr_append_from = 0, rr_append_count = 0\<rparr>"

text \<open>A byte pointer with its length, and a proposal of the caller.\<close>

datatype byte_array = Byte_null nat | Byte_array "u8 list"

fun byte_is_null :: "byte_array \<Rightarrow> bool" where
  "byte_is_null (Byte_null n) = True"
| "byte_is_null (Byte_array xs) = False"

fun byte_count :: "byte_array \<Rightarrow> nat" where
  "byte_count (Byte_null n) = n"
| "byte_count (Byte_array xs) = length xs"

fun byte_list :: "byte_array \<Rightarrow> u8 list" where
  "byte_list (Byte_null n) = []"
| "byte_list (Byte_array xs) = xs"

record proposal =
  pr_command_id :: u64
  pr_data :: byte_array

section \<open>Operations\<close>

definition tr_raft_log_base_valid :: "raft_index \<Rightarrow> raft_term \<Rightarrow> bool" where
  "tr_raft_log_base_valid index trm \<longleftrightarrow> (index = 0 \<and> trm = 0) \<or> (index \<noteq> 0 \<and> trm \<noteq> 0)"

definition tr_raft_log_entry_equal :: "entry \<Rightarrow> entry \<Rightarrow> bool" where
  "tr_raft_log_entry_equal l r \<longleftrightarrow>
     e_index l = e_index r \<and> e_term l = e_term r \<and> e_command_id l = e_command_id r
     \<and> length (e_data l) = length (e_data r) \<and> e_data l = e_data r"

definition tr_raft_log_init ::
    "vec_ops \<Rightarrow> nat \<Rightarrow> raft_index \<Rightarrow> raft_term \<Rightarrow> salts_status + raft_log" where
  "tr_raft_log_init V max_entries base_index base_term =
     (if max_entries = 0 \<or> \<not> tr_raft_log_base_valid base_index base_term
         \<or> max_entries > unat (UINT64_MAX - base_index)
      then Inl SALTS_EINVAL
      else
        let result = tr_raft_stl_status_to_error (vec_init_bytes V max_entries)
        in if result \<noteq> SALTS_OK then Inl result
           else
             let result = tr_raft_stl_status_to_error (vec_reserve V max_entries)
             in if result \<noteq> SALTS_OK then Inl result
                else Inr \<lparr>log_entries = [], log_max_entries = max_entries,
                          log_base_index = base_index, log_base_term = base_term\<rparr>)"

definition tr_raft_log_destroy :: "raft_log \<Rightarrow> raft_log" where
  "tr_raft_log_destroy l = \<lparr>log_entries = [], log_max_entries = 0, log_base_index = 0, log_base_term = 0\<rparr>"

definition tr_raft_log_count :: "raft_log \<Rightarrow> nat" where
  "tr_raft_log_count l = length (log_entries l)"

definition tr_raft_log_last_index :: "raft_log \<Rightarrow> raft_index" where
  "tr_raft_log_last_index l = log_base_index l + of_nat (tr_raft_log_count l)"

definition tr_raft_log_last_term :: "raft_log \<Rightarrow> raft_term" where
  "tr_raft_log_last_term l =
     (if tr_raft_log_count l = 0 then log_base_term l
      else e_term (log_entries l ! (tr_raft_log_count l - 1)))"

text \<open>\<open>vec_at_const\<close> gives a null pointer past the end.\<close>

definition vec_at :: "entry list \<Rightarrow> nat \<Rightarrow> entry option" where
  "vec_at xs i = (if i < length xs then Some (xs ! i) else None)"

definition tr_raft_log_get :: "raft_log \<Rightarrow> raft_index \<Rightarrow> entry option" where
  "tr_raft_log_get l index =
     (if index \<le> log_base_index l \<or> index > tr_raft_log_last_index l then None
      else vec_at (log_entries l) (unat (index - log_base_index l - 1)))"

definition tr_raft_log_matches :: "raft_log \<Rightarrow> raft_index \<Rightarrow> raft_term \<Rightarrow> bool" where
  "tr_raft_log_matches l index trm =
     (if index = log_base_index l then trm = log_base_term l
      else case tr_raft_log_get l index of None \<Rightarrow> False | Some e \<Rightarrow> e_term e = trm)"

function reject_hint_loop :: "raft_log \<Rightarrow> raft_term \<Rightarrow> raft_index \<Rightarrow> salts_status + raft_index" where
  "reject_hint_loop l conflict_term previous_index =
     (if previous_index > log_base_index l + 1
      then case tr_raft_log_get l (previous_index - 1) of
             None \<Rightarrow> Inl C_FAULT
           | Some prior \<Rightarrow>
               if e_term prior \<noteq> conflict_term then Inr previous_index
               else reject_hint_loop l conflict_term (previous_index - 1)
      else Inr previous_index)"
  by pat_completeness auto
termination
  by (relation "measure (\<lambda>(l, t, i). unat i)") (auto intro!: measure_unat)

declare reject_hint_loop.simps [simp del]

definition tr_raft_log_reject_hint :: "raft_log \<Rightarrow> raft_index \<Rightarrow> salts_status + raft_index" where
  "tr_raft_log_reject_hint l previous_index =
     (let last_index = tr_raft_log_last_index l
      in if previous_index > last_index then Inr (last_index + 1)
         else if previous_index \<le> log_base_index l then Inr (log_base_index l + 1)
         else case tr_raft_log_get l previous_index of
                None \<Rightarrow> Inl C_FAULT
              | Some conflict \<Rightarrow> reject_hint_loop l (e_term conflict) previous_index)"

definition tr_raft_log_compact ::
    "vec_ops \<Rightarrow> raft_log \<Rightarrow> raft_index \<Rightarrow> raft_term \<Rightarrow> salts_status \<times> raft_log" where
  "tr_raft_log_compact V l index trm =
     (if index \<le> log_base_index l \<or> trm = 0 \<or> index > tr_raft_log_last_index l then (SALTS_EINVAL, l)
      else if \<not> tr_raft_log_matches l index trm then (SALTS_EPROTO, l)
      else
        let removed_count = unat (index - log_base_index l);
            retained_count = tr_raft_log_count l - removed_count;
            moved = drop removed_count (log_entries l) @ drop retained_count (log_entries l);
            (status, entries) = vec_resize V moved retained_count;
            result = tr_raft_stl_status_to_error status
        in if result \<noteq> SALTS_OK then (result, l\<lparr>log_entries := entries\<rparr>)
           else (SALTS_OK, l\<lparr>log_entries := entries, log_base_index := index, log_base_term := trm\<rparr>))"

definition tr_raft_log_append_local ::
    "vec_ops \<Rightarrow> raft_log \<Rightarrow> raft_term \<Rightarrow> u64 \<Rightarrow> byte_array \<Rightarrow> salts_status \<times> raft_log \<times> entry option" where
  "tr_raft_log_append_local V l trm command_id data =
     (if trm = 0 \<or> command_id = 0 \<or> (byte_count data \<noteq> 0 \<and> byte_is_null data)
      then (SALTS_EINVAL, l, None)
      else if byte_count data > TR_RAFT_MAX_ENTRY_BYTES \<or> tr_raft_log_count l \<ge> log_max_entries l
      then (SALTS_ENOSPC, l, None)
      else
        let entry = \<lparr>e_index = tr_raft_log_last_index l + 1, e_term = trm, e_command_id = command_id,
                     e_data = byte_list data\<rparr>;
            (status, entries) = vec_push V (log_entries l) entry;
            result = tr_raft_stl_status_to_error status;
            l' = l\<lparr>log_entries := entries\<rparr>
        in if result \<noteq> SALTS_OK then (result, l', None)
           else (SALTS_OK, l', tr_raft_log_get l' (e_index entry)))"

definition batch_entries :: "raft_index \<Rightarrow> raft_term \<Rightarrow> proposal list \<Rightarrow> entry list" where
  "batch_entries first_index trm proposals =
     map (\<lambda>(i, p). \<lparr>e_index = first_index + of_nat i, e_term = trm, e_command_id = pr_command_id p,
                    e_data = byte_list (pr_data p)\<rparr>)
       (enumerate 0 proposals)"

definition proposal_bad :: "proposal \<Rightarrow> bool" where
  "proposal_bad p \<longleftrightarrow>
     pr_command_id p = 0 \<or> byte_count (pr_data p) > TR_RAFT_MAX_ENTRY_BYTES
     \<or> (byte_count (pr_data p) \<noteq> 0 \<and> byte_is_null (pr_data p))"

definition tr_raft_log_append_local_batch ::
    "vec_ops \<Rightarrow> raft_log \<Rightarrow> raft_term \<Rightarrow> proposal list option \<Rightarrow> salts_status \<times> raft_log \<times> entry list" where
  "tr_raft_log_append_local_batch V l trm proposals =
     (case proposals of
        None \<Rightarrow> (SALTS_EINVAL, l, [])
      | Some ps \<Rightarrow>
          if trm = 0 \<or> ps = [] \<or> length ps > TR_RAFT_MAX_PROPOSAL_BATCH then (SALTS_EINVAL, l, [])
          else
            let old_count = tr_raft_log_count l
            in if old_count > log_max_entries l \<or> length ps > log_max_entries l - old_count
               then (SALTS_ENOSPC, l, [])
               else if list_ex proposal_bad ps then (SALTS_EINVAL, l, [])
               else
                 let first_index = tr_raft_log_last_index l + 1;
                     (status, entries) = vec_resize V (log_entries l) (old_count + length ps);
                     result = tr_raft_stl_status_to_error status
                 in if result \<noteq> SALTS_OK then (result, l\<lparr>log_entries := entries\<rparr>, [])
                    else if vec_at entries old_count = None
                    then (SALTS_EPROTO, l\<lparr>log_entries := snd (vec_resize V entries old_count)\<rparr>, [])
                    else
                      let new = batch_entries first_index trm ps
                      in (SALTS_OK,
                          l\<lparr>log_entries := take old_count entries @ new
                              @ drop (old_count + length ps) entries\<rparr>,
                          new))"

definition tr_raft_log_append_configuration ::
    "vec_ops \<Rightarrow> raft_log \<Rightarrow> raft_term \<Rightarrow> conf \<Rightarrow> salts_status \<times> raft_log \<times> entry option" where
  "tr_raft_log_append_configuration V l trm configuration =
     (if trm = 0 then (SALTS_EINVAL, l, None)
      else if tr_raft_log_count l \<ge> log_max_entries l then (SALTS_ENOSPC, l, None)
      else
        case tr_raft_conf_entry_encode configuration (tr_raft_log_last_index l + 1) trm of
          Inl result \<Rightarrow> (result, l, None)
        | Inr entry \<Rightarrow>
            let (status, entries) = vec_push V (log_entries l) entry;
                result = tr_raft_stl_status_to_error status;
                l' = l\<lparr>log_entries := entries\<rparr>
            in if result \<noteq> SALTS_OK then (result, l', None)
               else (SALTS_OK, l', tr_raft_log_get l' (e_index entry)))"

text \<open>
  The comparison loop of \<open>tr_raft_log_reconcile\<close>: an error, or the position of the first entry to
  write (the number of entries when there is none) and whether it replaces a local entry.
\<close>

fun reconcile_scan :: "raft_log \<Rightarrow> raft_index \<Rightarrow> nat \<Rightarrow> entry list \<Rightarrow> salts_status + (nat \<times> bool)" where
  "reconcile_scan l previous_index i [] = Inr (i, False)"
| "reconcile_scan l previous_index i (e # es) =
     (let expected_index = previous_index + of_nat i + 1
      in if e_index e \<noteq> expected_index \<or> e_term e = 0 \<or> length (e_data e) > TR_RAFT_MAX_ENTRY_BYTES
         then Inl SALTS_EINVAL
         else if e_command_id e = 0 \<and> isl (tr_raft_conf_entry_decode e) then Inl SALTS_EPROTO
         else case tr_raft_log_get l expected_index of
                None \<Rightarrow> Inr (i, False)
              | Some local \<Rightarrow>
                  if e_term local \<noteq> e_term e then Inr (i, True)
                  else if \<not> tr_raft_log_entry_equal local e then Inl SALTS_EPROTO
                  else reconcile_scan l previous_index (Suc i) es)"

text \<open>The copy loop: every entry is written at the place its own index names.\<close>

fun reconcile_write :: "raft_index \<Rightarrow> entry list \<Rightarrow> entry list \<Rightarrow> entry list option" where
  "reconcile_write base_index vec [] = Some vec"
| "reconcile_write base_index vec (e # es) =
     (let offset = unat (e_index e - base_index - 1)
      in if offset < length vec then reconcile_write base_index (vec[offset := e]) es else None)"

definition tr_raft_log_reconcile ::
    "vec_ops \<Rightarrow> raft_log \<Rightarrow> raft_index \<Rightarrow> raft_term \<Rightarrow> entry list \<Rightarrow> raft_index
       \<Rightarrow> salts_status \<times> raft_log \<times> reconcile_result" where
  "tr_raft_log_reconcile V l previous_index previous_term incoming protected_index =
     (if length incoming > unat (UINT64_MAX - previous_index) then (SALTS_EINVAL, l, reconcile_zero)
      else if \<not> tr_raft_log_matches l previous_index previous_term
      then case tr_raft_log_reject_hint l previous_index of
             Inl e \<Rightarrow> (e, l, reconcile_zero)
           | Inr hint \<Rightarrow> (SALTS_OK, l, reconcile_zero\<lparr>rr_reject_hint := hint\<rparr>)
      else
        let r = reconcile_zero\<lparr>rr_matched := True\<rparr>
        in case reconcile_scan l previous_index 0 incoming of
             Inl e \<Rightarrow> (e, l, r)
           | Inr (first_change, truncates_existing) \<Rightarrow>
               if first_change = length incoming then (SALTS_OK, l, r)
               else
                 let retained_count = unat (previous_index - log_base_index l) + first_change;
                     first_index = e_index (incoming ! first_change)
                 in if truncates_existing \<and> first_index \<le> protected_index then (SALTS_EPROTO, l, r)
                    else if retained_count > log_max_entries l
                            \<or> length incoming - first_change > log_max_entries l - retained_count
                    then (SALTS_ENOSPC, l, r)
                    else
                      let final_count = retained_count + length incoming - first_change;
                          (status, entries) = vec_resize V (log_entries l) final_count;
                          resize_result = tr_raft_stl_status_to_error status
                      in if resize_result \<noteq> SALTS_OK then (resize_result, l\<lparr>log_entries := entries\<rparr>, r)
                         else case reconcile_write (log_base_index l) entries (drop first_change incoming) of
                                None \<Rightarrow> (C_FAULT, l\<lparr>log_entries := entries\<rparr>, r)
                              | Some entries' \<Rightarrow>
                                  (SALTS_OK, l\<lparr>log_entries := entries'\<rparr>,
                                   r\<lparr>rr_changed := True,
                                     rr_truncate_from := (if truncates_existing then first_index else 0),
                                     rr_append_from := first_index,
                                     rr_append_count := length incoming - first_change\<rparr>))"

section \<open>The log invariant\<close>

definition entry_ok :: "entry \<Rightarrow> bool" where
  "entry_ok e \<longleftrightarrow> e_term e \<noteq> 0 \<and> length (e_data e) \<le> TR_RAFT_MAX_ENTRY_BYTES
     \<and> (e_command_id e = 0 \<longrightarrow> \<not> isl (tr_raft_conf_entry_decode e))"

definition entries_at :: "raft_index \<Rightarrow> entry list \<Rightarrow> bool" where
  "entries_at base es \<longleftrightarrow> (\<forall>i < length es. e_index (es ! i) = base + of_nat (Suc i))"

definition log_wf :: "raft_log \<Rightarrow> bool" where
  "log_wf l \<longleftrightarrow>
     length (log_entries l) \<le> log_max_entries l
     \<and> unat (log_base_index l) + length (log_entries l) < 2 ^ 64
     \<and> entries_at (log_base_index l) (log_entries l)
     \<and> list_all entry_ok (log_entries l)
     \<and> tr_raft_log_base_valid (log_base_index l) (log_base_term l)"

text \<open>Room for \<open>n\<close> more indices below \<open>UINT64_MAX\<close>.\<close>

definition log_room :: "raft_log \<Rightarrow> nat \<Rightarrow> bool" where
  "log_room l n \<longleftrightarrow> unat (tr_raft_log_last_index l) + n < 2 ^ 64"

lemma tr_raft_log_entry_equal_iff [simp]: "tr_raft_log_entry_equal l r \<longleftrightarrow> l = r"
  by (auto simp: tr_raft_log_entry_equal_def)

lemma entries_at_Nil [simp]: "entries_at base []"
  by (simp add: entries_at_def)

lemma entries_at_append:
  "entries_at base (xs @ ys) \<longleftrightarrow> entries_at base xs \<and> entries_at (base + of_nat (length xs)) ys"
proof
  assume all: "entries_at base (xs @ ys)"
  have "e_index (xs ! i) = base + of_nat (Suc i)" if "i < length xs" for i
    using all [unfolded entries_at_def, rule_format, of i] that by (simp add: nth_append)
  moreover have "e_index (ys ! i) = base + of_nat (length xs) + of_nat (Suc i)" if "i < length ys" for i
    using all [unfolded entries_at_def, rule_format, of "length xs + i"] that
    by (simp add: nth_append algebra_simps)
  ultimately show "entries_at base xs \<and> entries_at (base + of_nat (length xs)) ys"
    by (simp add: entries_at_def)
next
  assume both: "entries_at base xs \<and> entries_at (base + of_nat (length xs)) ys"
  have "e_index ((xs @ ys) ! i) = base + of_nat (Suc i)" if "i < length (xs @ ys)" for i
  proof (cases "i < length xs")
    case True
    with both show ?thesis by (simp add: entries_at_def nth_append)
  next
    case False
    with that have "i - length xs < length ys" by simp
    with both have "e_index (ys ! (i - length xs))
        = base + of_nat (length xs) + of_nat (Suc (i - length xs))"
      by (simp add: entries_at_def)
    also have "\<dots> = base + of_nat (Suc i)"
      using False by (metis add.assoc add_Suc_right le_add_diff_inverse not_less of_nat_add)
    finally show ?thesis using False by (simp add: nth_append)
  qed
  then show "entries_at base (xs @ ys)" by (simp add: entries_at_def)
qed

lemma entries_at_take: "entries_at base es \<Longrightarrow> entries_at base (take n es)"
  by (simp add: entries_at_def)

lemma entries_at_drop: "entries_at base es \<Longrightarrow> n \<le> length es \<Longrightarrow> entries_at (base + of_nat n) (drop n es)"
  using entries_at_append [of base "take n es" "drop n es"] by (simp add: min_absorb2)

lemma unat_last_index:
  "log_wf l \<Longrightarrow> unat (tr_raft_log_last_index l) = unat (log_base_index l) + length (log_entries l)"
  unfolding tr_raft_log_last_index_def tr_raft_log_count_def
  by (rule unat_plus_nat) (simp add: log_wf_def)

lemma log_get_eq:
  assumes "log_wf l"
  shows "tr_raft_log_get l i =
           (if unat i \<le> unat (log_base_index l) then None
            else vec_at (log_entries l) (unat i - unat (log_base_index l) - 1))"
proof (cases "log_base_index l < i")
  case True
  then have diff: "unat (i - log_base_index l) = unat i - unat (log_base_index l)"
    by (intro unat_minus_le) simp
  with True have "1 \<le> i - log_base_index l"
    by (simp add: word_le_nat_alt word_less_nat_alt)
  then have "unat (i - log_base_index l - 1) = unat i - unat (log_base_index l) - 1"
    using diff by (simp add: unat_minus_le)
  with True unat_last_index [OF assms] show ?thesis
    by (auto simp: tr_raft_log_get_def word_less_nat_alt word_le_nat_alt vec_at_def)
next
  case False
  then show ?thesis by (auto simp: tr_raft_log_get_def word_le_nat_alt not_less)
qed

lemma log_get_None_iff:
  assumes "log_wf l"
  shows "tr_raft_log_get l i = None \<longleftrightarrow> i \<le> log_base_index l \<or> i > tr_raft_log_last_index l"
  using unat_last_index [OF assms]
  by (auto simp: log_get_eq [OF assms] vec_at_def word_le_nat_alt word_less_nat_alt)

lemma log_get_Some:
  assumes "log_wf l" and "tr_raft_log_get l i = Some e"
  shows "e_index e = i" and "entry_ok e" and "e \<in> set (log_entries l)"
    and "log_base_index l < i" and "i \<le> tr_raft_log_last_index l"
proof -
  let ?b = "unat (log_base_index l)"
  from assms have i: "?b < unat i" "unat i - ?b - 1 < length (log_entries l)"
    and e: "e = log_entries l ! (unat i - ?b - 1)"
    by (auto simp: log_get_eq vec_at_def split: if_splits)
  from i(2) e show mem: "e \<in> set (log_entries l)" by simp
  with assms(1) show "entry_ok e" by (simp add: log_wf_def list_all_iff)
  have "e_index e = log_base_index l + of_nat (Suc (unat i - ?b - 1))"
    using assms(1) i(2) unfolding e by (simp add: log_wf_def entries_at_def)
  also have "\<dots> = log_base_index l + of_nat (unat i - ?b)" using i(1) by simp
  also have "\<dots> = i"
  proof (rule word_unat_eq_iff [THEN iffD2])
    have "?b + (unat i - ?b) < 2 ^ 64" using i(1) unat_u64_less [of i] by simp
    from unat_plus_nat [OF this] i(1) show "unat (log_base_index l + of_nat (unat i - ?b)) = unat i"
      by simp
  qed
  finally show "e_index e = i" .
  from i unat_last_index [OF assms(1)] show "log_base_index l < i" "i \<le> tr_raft_log_last_index l"
    by (auto simp: word_less_nat_alt word_le_nat_alt)
qed

lemma log_get_prefix:
  assumes "log_wf l" and "log_wf l'" and "log_base_index l' = log_base_index l"
    and "take n (log_entries l') = take n (log_entries l)"
    and "unat i \<le> unat (log_base_index l) + n"
  shows "tr_raft_log_get l' i = tr_raft_log_get l i"
proof -
  let ?k = "unat i - unat (log_base_index l) - 1"
  have "vec_at (log_entries l') ?k = vec_at (log_entries l) ?k" if "unat (log_base_index l) < unat i"
  proof -
    from that assms(5) have k: "?k < n" by simp
    have "vec_at es ?k = vec_at (take n es) ?k" for es
      using k by (simp add: vec_at_def)
    with assms(4) show ?thesis by metis
  qed
  with assms(1-3) show ?thesis by (simp add: log_get_eq)
qed

lemma vec_push_ok:
  "vec_contract V cap \<Longrightarrow> length xs < cap \<Longrightarrow> vec_push V xs e = (STL_OK, xs @ [e])"
  by (simp add: vec_contract_def)

lemma vec_resize_ok:
  assumes "vec_contract V cap" and "length xs \<le> cap" and "n \<le> cap"
  obtains ys where "vec_resize V xs n = (STL_OK, ys)" and "length ys = n"
    and "take (min n (length xs)) ys = take (min n (length xs)) xs"
  using assms unfolding vec_contract_def by blast

section \<open>Appending\<close>

definition log_append :: "raft_log \<Rightarrow> entry list \<Rightarrow> raft_log" where
  "log_append l es = l\<lparr>log_entries := log_entries l @ es\<rparr>"

text \<open>New entries that continue a log.\<close>

definition log_continues :: "raft_log \<Rightarrow> entry list \<Rightarrow> bool" where
  "log_continues l es \<longleftrightarrow> entries_at (tr_raft_log_last_index l) es \<and> list_all entry_ok es
     \<and> length (log_entries l) + length es \<le> log_max_entries l"

text \<open>What a change of the log keeps up to an index: the base does not go back, and the entries
  behind the new base and up to the index are the same.\<close>

definition log_keeps :: "raft_index \<Rightarrow> raft_log \<Rightarrow> raft_log \<Rightarrow> bool" where
  "log_keeps p l l' \<longleftrightarrow> log_base_index l \<le> log_base_index l' \<and> log_max_entries l' = log_max_entries l
     \<and> (\<forall>i. log_base_index l' < i \<longrightarrow> i \<le> p \<longrightarrow> tr_raft_log_get l' i = tr_raft_log_get l i)"

lemma log_keeps_refl [simp, intro]: "log_keeps p l l"
  by (simp add: log_keeps_def)

lemma log_keeps_trans: "log_keeps p l l' \<Longrightarrow> log_keeps p l' l'' \<Longrightarrow> log_keeps p l l''"
  by (auto simp: log_keeps_def intro: order_trans)

lemma log_keeps_mono: "log_keeps p l l' \<Longrightarrow> q \<le> p \<Longrightarrow> log_keeps q l l'"
  by (auto simp: log_keeps_def)

lemma log_wf_append:
  assumes "log_wf l" and "log_continues l es" and "log_room l (length es)"
  shows "log_wf (log_append l es)"
  using assms unat_last_index [OF assms(1)]
  by (auto simp: log_wf_def log_append_def log_continues_def entries_at_append log_room_def
      tr_raft_log_last_index_def tr_raft_log_count_def)

lemma last_index_append:
  "tr_raft_log_last_index (log_append l es) = tr_raft_log_last_index l + of_nat (length es)"
  by (simp add: tr_raft_log_last_index_def tr_raft_log_count_def log_append_def)

lemma log_get_append_old:
  assumes "log_wf l" and "log_continues l es" and "log_room l (length es)"
    and "i \<le> tr_raft_log_last_index l"
  shows "tr_raft_log_get (log_append l es) i = tr_raft_log_get l i"
  using assms unat_last_index [OF assms(1)]
  by (intro log_get_prefix [OF assms(1) log_wf_append [OF assms(1-3)], of "length (log_entries l)"])
     (simp_all add: log_append_def word_le_nat_alt)

lemma log_get_append_new:
  assumes "log_wf l" and "log_continues l es" and "log_room l (length es)" and "k < length es"
  shows "tr_raft_log_get (log_append l es) (tr_raft_log_last_index l + of_nat k + 1) = Some (es ! k)"
proof -
  have "unat (tr_raft_log_last_index l + of_nat (Suc k))
      = unat (log_base_index l) + length (log_entries l) + Suc k"
    using assms(3,4) unat_last_index [OF assms(1)] unat_plus_nat [of "tr_raft_log_last_index l" "Suc k"]
    by (simp add: log_room_def)
  then show ?thesis
    using assms(4) log_get_eq [OF log_wf_append [OF assms(1-3)]]
    by (simp add: algebra_simps vec_at_def log_append_def nth_append)
qed

text \<open>The contract shared by the three local append operations.\<close>

locale log_append_op =
  fixes op :: "raft_log \<Rightarrow> salts_status \<times> raft_log \<times> 'o"
    and n :: nat
    and ready :: "raft_log \<Rightarrow> bool"
  assumes op_cases: "log_wf l \<Longrightarrow> ready l \<Longrightarrow> log_room l n \<Longrightarrow> op l = (s, l', out) \<Longrightarrow>
      (s \<notin> {SALTS_OK, C_FAULT} \<and> l' = l)
      \<or> (s = SALTS_OK \<and> (\<exists>es. l' = log_append l es \<and> es \<noteq> [] \<and> length es \<le> n \<and> log_continues l es))"
begin

lemma op_wf:
  assumes "log_wf l" and "ready l" and "log_room l n" and "op l = (s, l', out)"
  shows "log_wf l'" and "log_keeps (tr_raft_log_last_index l) l l'" and "s \<noteq> C_FAULT"
    and "tr_raft_log_last_index l \<le> tr_raft_log_last_index l'"
    and "s = SALTS_OK \<longleftrightarrow> tr_raft_log_last_index l < tr_raft_log_last_index l'"
proof -
  consider (same) "s \<notin> {SALTS_OK, C_FAULT}" "l' = l"
    | (grow) es where "s = SALTS_OK" "l' = log_append l es" "es \<noteq> []" "length es \<le> n" "log_continues l es"
    using op_cases [OF assms] by blast
  then have "log_wf l' \<and> log_keeps (tr_raft_log_last_index l) l l' \<and> s \<noteq> C_FAULT
      \<and> tr_raft_log_last_index l \<le> tr_raft_log_last_index l'
      \<and> (s = SALTS_OK \<longleftrightarrow> tr_raft_log_last_index l < tr_raft_log_last_index l')"
  proof cases
    case same
    with assms(1) show ?thesis by simp
  next
    case grow
    then have room: "log_room l (length es)" using assms(3) by (simp add: log_room_def)
    have "unat (tr_raft_log_last_index l') = unat (tr_raft_log_last_index l) + length es"
      using room unat_plus_nat [of "tr_raft_log_last_index l" "length es"]
      by (simp add: grow(2) last_index_append log_room_def)
    with grow(1,3) log_wf_append [OF assms(1) grow(5) room] log_get_append_old [OF assms(1) grow(5) room]
    show ?thesis
      by (auto simp: grow(2) log_keeps_def log_append_def word_le_nat_alt word_less_nat_alt)
  qed
  then show "log_wf l'" "log_keeps (tr_raft_log_last_index l) l l'" "s \<noteq> C_FAULT"
    "tr_raft_log_last_index l \<le> tr_raft_log_last_index l'"
    "s = SALTS_OK \<longleftrightarrow> tr_raft_log_last_index l < tr_raft_log_last_index l'" by blast+
qed

end

abbreviation log_vec_ok :: "vec_ops \<Rightarrow> raft_log \<Rightarrow> bool" where
  "log_vec_ok V l \<equiv> vec_contract V (log_max_entries l)"

lemma append_local_eq:
  assumes "log_wf l" and "log_vec_ok V l" and "log_room l 1" and e_def: "e = \<lparr>e_index = tr_raft_log_last_index l + 1,
      e_term = trm, e_command_id = cid, e_data = byte_list data\<rparr>"
  shows "tr_raft_log_append_local V l trm cid data =
           (if trm = 0 \<or> cid = 0 \<or> (byte_count data \<noteq> 0 \<and> byte_is_null data) then (SALTS_EINVAL, l, None)
            else if byte_count data > 512 \<or> length (log_entries l) \<ge> log_max_entries l
            then (SALTS_ENOSPC, l, None)
            else (SALTS_OK, log_append l [e], Some e))"
    and "trm \<noteq> 0 \<Longrightarrow> cid \<noteq> 0 \<Longrightarrow> byte_count data \<le> 512 \<Longrightarrow> length (log_entries l) < log_max_entries l
           \<Longrightarrow> log_continues l [e]"
proof -
  have len: "length (byte_list data) \<le> byte_count data" by (cases data) simp_all
  show cont: "log_continues l [e]"
    if "trm \<noteq> 0" "cid \<noteq> 0" "byte_count data \<le> 512" "length (log_entries l) < log_max_entries l"
    using that len by (simp add: log_continues_def e_def entries_at_def entry_ok_def)
  show "tr_raft_log_append_local V l trm cid data =
           (if trm = 0 \<or> cid = 0 \<or> (byte_count data \<noteq> 0 \<and> byte_is_null data) then (SALTS_EINVAL, l, None)
            else if byte_count data > 512 \<or> length (log_entries l) \<ge> log_max_entries l
            then (SALTS_ENOSPC, l, None)
            else (SALTS_OK, log_append l [e], Some e))"
  proof (cases "trm = 0 \<or> cid = 0 \<or> (byte_count data \<noteq> 0 \<and> byte_is_null data)
      \<or> byte_count data > 512 \<or> length (log_entries l) \<ge> log_max_entries l")
    case True
    then show ?thesis by (auto simp: tr_raft_log_append_local_def tr_raft_log_count_def)
  next
    case False
    then have push: "vec_push V (log_entries l) e = (STL_OK, log_entries l @ [e])"
      by (intro vec_push_ok [OF assms(2)]) simp
    have "log_continues l [e]" using False by (intro cont) auto
    with log_get_append_new [OF assms(1) this] assms(3)
    have "tr_raft_log_get (log_append l [e]) (tr_raft_log_last_index l + 1) = Some e"
      by simp
    with False push show ?thesis
      by (simp add: tr_raft_log_append_local_def tr_raft_log_count_def Let_def e_def log_append_def)
  qed
qed

interpretation app_local: log_append_op "\<lambda>l. tr_raft_log_append_local V l trm cid data" 1 "log_vec_ok V"
  for V trm cid data
proof unfold_locales
  fix l s l' out
  assume l: "log_wf l" "log_vec_ok V l" "log_room l 1"
    and eq: "tr_raft_log_append_local V l trm cid data = (s, l', out)"
  show "(s \<notin> {SALTS_OK, C_FAULT} \<and> l' = l) \<or>
      (s = SALTS_OK \<and> (\<exists>es. l' = log_append l es \<and> es \<noteq> [] \<and> length es \<le> 1 \<and> log_continues l es))"
    using eq append_local_eq(2) [OF l refl, of trm cid data] unfolding append_local_eq(1) [OF l refl]
    by (auto split: if_splits)
qed

lemma length_batch_entries [simp]: "length (batch_entries i trm ps) = length ps"
  by (simp add: batch_entries_def)

lemma nth_batch_entries:
  "k < length ps \<Longrightarrow> batch_entries i trm ps ! k =
     \<lparr>e_index = i + of_nat k, e_term = trm, e_command_id = pr_command_id (ps ! k),
      e_data = byte_list (pr_data (ps ! k))\<rparr>"
  by (simp add: batch_entries_def nth_enumerate_eq)

lemma batch_entries_continue:
  assumes "\<not> list_ex proposal_bad ps" and "trm \<noteq> 0"
    and "length (log_entries l) + length ps \<le> log_max_entries l"
  shows "log_continues l (batch_entries (tr_raft_log_last_index l + 1) trm ps)"
proof -
  have "entry_ok (batch_entries (tr_raft_log_last_index l + 1) trm ps ! k)" if "k < length ps" for k
  proof -
    from assms(1) that have "\<not> proposal_bad (ps ! k)" by (auto simp: list_ex_iff)
    then show ?thesis
      using that assms(2) by (cases "pr_data (ps ! k)") (auto simp: nth_batch_entries entry_ok_def proposal_bad_def)
  qed
  then show ?thesis
    using assms(3) by (auto simp: log_continues_def entries_at_def list_all_length nth_batch_entries)
qed

lemma append_batch_eq:
  assumes "log_wf l" and "log_vec_ok V l"
  shows "tr_raft_log_append_local_batch V l trm (Some ps) =
           (if trm = 0 \<or> ps = [] \<or> length ps > 16 then (SALTS_EINVAL, l, [])
            else if length ps > log_max_entries l - length (log_entries l) then (SALTS_ENOSPC, l, [])
            else if list_ex proposal_bad ps then (SALTS_EINVAL, l, [])
            else (SALTS_OK, log_append l (batch_entries (tr_raft_log_last_index l + 1) trm ps),
                  batch_entries (tr_raft_log_last_index l + 1) trm ps))"
proof (cases "trm = 0 \<or> ps = [] \<or> length ps > 16
    \<or> length ps > log_max_entries l - length (log_entries l) \<or> list_ex proposal_bad ps")
  case True
  with assms(1) show ?thesis
    by (auto simp: tr_raft_log_append_local_batch_def tr_raft_log_count_def log_wf_def)
next
  case False
  let ?n = "length (log_entries l)"
  from assms(1) have len: "?n \<le> log_max_entries l" by (simp add: log_wf_def)
  with False have "?n + length ps \<le> log_max_entries l" by auto
  then obtain ys where ys: "vec_resize V (log_entries l) (?n + length ps) = (STL_OK, ys)"
    "length ys = ?n + length ps"
    "take (min (?n + length ps) ?n) ys = take (min (?n + length ps) ?n) (log_entries l)"
    using vec_resize_ok [OF assms(2) len] by blast
  from ys(3) have "take ?n ys = log_entries l" by simp
  with False ys(1,2) len show ?thesis
    by (auto simp: tr_raft_log_append_local_batch_def tr_raft_log_count_def Let_def vec_at_def log_append_def)
qed

interpretation app_batch: log_append_op "\<lambda>l. tr_raft_log_append_local_batch V l trm ps" 16 "log_vec_ok V"
  for V trm ps
proof unfold_locales
  fix l s l' out
  assume l: "log_wf l" "log_vec_ok V l" "log_room l 16"
    and eq: "tr_raft_log_append_local_batch V l trm ps = (s, l', out)"
  show "(s \<notin> {SALTS_OK, C_FAULT} \<and> l' = l) \<or>
      (s = SALTS_OK \<and> (\<exists>es. l' = log_append l es \<and> es \<noteq> [] \<and> length es \<le> 16 \<and> log_continues l es))"
  proof (cases ps)
    case None
    with eq show ?thesis by (simp add: tr_raft_log_append_local_batch_def)
  next
    case (Some qs)
    have ne: "batch_entries i trm qs = [] \<longleftrightarrow> qs = []" for i
      by (metis length_0_conv length_batch_entries)
    have cont: "log_continues l (batch_entries (tr_raft_log_last_index l + 1) trm qs)"
      if "\<not> list_ex proposal_bad qs" "trm \<noteq> 0" "\<not> length qs > log_max_entries l - length (log_entries l)"
      using that l(1) by (intro batch_entries_continue) (auto simp: log_wf_def)
    from eq cont ne show ?thesis
      unfolding Some append_batch_eq [OF l(1,2)] by (auto split: if_splits)
  qed
qed

lemma append_configuration_eq:
  assumes "log_wf l" and "log_vec_ok V l" and "log_room l 1" and "conf_valid c" and "trm \<noteq> 0"
    and "length (log_entries l) < log_max_entries l"
  obtains e where "tr_raft_log_append_configuration V l trm c = (SALTS_OK, log_append l [e], Some e)"
    and "log_continues l [e]" and "tr_raft_conf_entry_decode e = Inr c" and "e_term e = trm"
    and "e_index e = tr_raft_log_last_index l + 1" and "e_command_id e = 0"
proof -
  have "tr_raft_log_last_index l \<noteq> UINT64_MAX"
    using assms(3) by (auto simp: log_room_def unat_UINT64_MAX)
  then have "tr_raft_log_last_index l + 1 \<noteq> 0" by simp
  from conf_entry_roundtrip_ex [OF assms(4) this assms(5)] obtain e where
    e: "tr_raft_conf_entry_encode c (tr_raft_log_last_index l + 1) trm = Inr e"
    "e_index e = tr_raft_log_last_index l + 1" "e_term e = trm" "e_command_id e = 0" "length (e_data e) \<le> 512"
    "tr_raft_conf_entry_decode e = Inr c" by blast
  have cont: "log_continues l [e]"
    using e assms(5,6) by (simp add: log_continues_def entries_at_def entry_ok_def)
  from log_get_append_new [OF assms(1) cont, of 0] assms(3)
  have "tr_raft_log_get (log_append l [e]) (tr_raft_log_last_index l + 1) = Some e" by simp
  then have "tr_raft_log_append_configuration V l trm c = (SALTS_OK, log_append l [e], Some e)"
    using assms(5,6) e(1,2) vec_push_ok [OF assms(2,6), of e]
    by (simp add: tr_raft_log_append_configuration_def tr_raft_log_count_def Let_def log_append_def)
  from that [OF this cont e(6,3,2,4)] show thesis .
qed

lemma append_configuration_error:
  assumes "log_wf l" and "log_vec_ok V l" and "\<not> (conf_valid c \<and> trm \<noteq> 0 \<and> length (log_entries l) < log_max_entries l)"
    and "log_room l 1"
  shows "\<exists>s. tr_raft_log_append_configuration V l trm c = (s, l, None) \<and> s \<in> {SALTS_EINVAL, SALTS_ENOSPC}"
proof -
  have "tr_raft_conf_entry_encode c i trm = Inl SALTS_EINVAL" if "\<not> conf_valid c" for i
    using that by (auto simp: tr_raft_conf_entry_encode_def tr_raft_conf_encode_def tr_raft_conf_validate_iff)
  with assms(3) show ?thesis
    by (auto simp: tr_raft_log_append_configuration_def tr_raft_log_count_def)
qed

interpretation app_conf: log_append_op "\<lambda>l. tr_raft_log_append_configuration V l trm c" 1 "log_vec_ok V"
  for V trm c
proof unfold_locales
  fix l s l' out
  assume l: "log_wf l" "log_vec_ok V l" "log_room l 1"
    and eq: "tr_raft_log_append_configuration V l trm c = (s, l', out)"
  show "(s \<notin> {SALTS_OK, C_FAULT} \<and> l' = l) \<or>
      (s = SALTS_OK \<and> (\<exists>es. l' = log_append l es \<and> es \<noteq> [] \<and> length es \<le> 1 \<and> log_continues l es))"
  proof (cases "conf_valid c \<and> trm \<noteq> 0 \<and> length (log_entries l) < log_max_entries l")
    case True
    then obtain e where "tr_raft_log_append_configuration V l trm c = (SALTS_OK, log_append l [e], Some e)"
      "log_continues l [e]"
      using append_configuration_eq [OF l] by blast
    with eq show ?thesis by auto
  next
    case False
    from append_configuration_error [OF l(1,2) this l(3)] eq show ?thesis by auto
  qed
qed

section \<open>Compaction\<close>

lemma log_compact_eq:
  assumes "log_wf l" and "log_vec_ok V l"
  shows "tr_raft_log_compact V l index trm =
           (if index \<le> log_base_index l \<or> trm = 0 \<or> index > tr_raft_log_last_index l then (SALTS_EINVAL, l)
            else if \<not> tr_raft_log_matches l index trm then (SALTS_EPROTO, l)
            else (SALTS_OK, l\<lparr>log_entries := drop (unat index - unat (log_base_index l)) (log_entries l),
                              log_base_index := index, log_base_term := trm\<rparr>))"
proof (cases "index \<le> log_base_index l \<or> trm = 0 \<or> index > tr_raft_log_last_index l
    \<or> \<not> tr_raft_log_matches l index trm")
  case True
  then show ?thesis by (auto simp: tr_raft_log_compact_def)
next
  case False
  define d where "d = unat index - unat (log_base_index l)"
  define n where "n = length (log_entries l)"
  from False have d: "unat (index - log_base_index l) = d"
    unfolding d_def by (intro unat_minus_le) (simp add: not_le less_imp_le)
  from False unat_last_index [OF assms(1)] have dn: "d \<le> n"
    by (auto simp: d_def n_def word_le_nat_alt not_less)
  define moved where "moved = drop d (log_entries l) @ drop (n - d) (log_entries l)"
  have "length moved \<le> log_max_entries l" "n - d \<le> log_max_entries l"
    using assms(1) dn by (auto simp: moved_def n_def log_wf_def)
  then obtain ys where ys: "vec_resize V moved (n - d) = (STL_OK, ys)" "length ys = n - d"
    "take (min (n - d) (length moved)) ys = take (min (n - d) (length moved)) moved"
    using vec_resize_ok [OF assms(2)] by blast
  have "length moved = n" using dn by (simp add: moved_def n_def)
  with ys(2,3) have "ys = take (n - d) moved" by simp
  also have "\<dots> = drop d (log_entries l)" by (simp add: moved_def n_def)
  finally have "ys = drop d (log_entries l)" .
  with False ys(1) d show ?thesis
    by (auto simp: tr_raft_log_compact_def Let_def tr_raft_log_count_def moved_def n_def d_def)
qed

lemma log_compact_wf:
  assumes "log_wf l" and "log_vec_ok V l" and "tr_raft_log_compact V l index trm = (s, l')"
  shows "log_wf l'" and "log_keeps p l l'" and "tr_raft_log_last_index l' = tr_raft_log_last_index l"
    and "s \<noteq> SALTS_OK \<Longrightarrow> l' = l" and "s \<noteq> C_FAULT"
    and "s = SALTS_OK \<Longrightarrow> log_base_index l' = index \<and> log_base_term l' = trm
           \<and> log_base_index l < index \<and> index \<le> tr_raft_log_last_index l \<and> tr_raft_log_matches l index trm"
proof -
  note eq = assms(3) [unfolded log_compact_eq [OF assms(1,2)]]
  from eq show "s \<noteq> SALTS_OK \<Longrightarrow> l' = l" and "s \<noteq> C_FAULT"
    and "s = SALTS_OK \<Longrightarrow> log_base_index l' = index \<and> log_base_term l' = trm
           \<and> log_base_index l < index \<and> index \<le> tr_raft_log_last_index l \<and> tr_raft_log_matches l index trm"
    by (auto split: if_splits)
  have "log_wf l' \<and> log_keeps p l l' \<and> tr_raft_log_last_index l' = tr_raft_log_last_index l"
  proof (cases "s = SALTS_OK")
    case False
    with eq assms(1) show ?thesis by (auto split: if_splits)
  next
    case True
    define d where "d = unat index - unat (log_base_index l)"
    from True eq have c: "log_base_index l < index" "index \<le> tr_raft_log_last_index l" "trm \<noteq> 0"
      and l': "l' = l\<lparr>log_entries := drop d (log_entries l), log_base_index := index, log_base_term := trm\<rparr>"
      by (auto simp: d_def split: if_splits)
    have d: "unat index = unat (log_base_index l) + d" "d \<le> length (log_entries l)"
      using c unat_last_index [OF assms(1)] by (auto simp: d_def word_less_nat_alt word_le_nat_alt)
    have idx: "index = log_base_index l + of_nat d"
      using d(1) unat_u64_less [of index] unat_plus_nat [of "log_base_index l" d]
      by (intro word_unat_eq_iff [THEN iffD2]) simp
    have base: "index \<noteq> 0" using c(1) by auto
    have wf: "log_wf l'"
      using assms(1) d c(3) base entries_at_drop [of "log_base_index l" "log_entries l" d]
      by (auto simp: l' log_wf_def idx [symmetric] tr_raft_log_base_valid_def list_all_iff dest: in_set_dropD)
    have "tr_raft_log_get l' i = tr_raft_log_get l i" if "index < i" for i
      using that c(1) d log_get_eq [OF wf] log_get_eq [OF assms(1)]
      by (simp add: l' vec_at_def word_less_nat_alt not_le algebra_simps) (auto simp: algebra_simps)
    moreover have "tr_raft_log_last_index l' = tr_raft_log_last_index l"
      using d unat_last_index [OF assms(1)] unat_last_index [OF wf]
      by (intro word_unat_eq_iff [THEN iffD2]) (simp add: l')
    ultimately show ?thesis using wf c by (auto simp: log_keeps_def l')
  qed
  then show "log_wf l'" "log_keeps p l l'" "tr_raft_log_last_index l' = tr_raft_log_last_index l" by blast+
qed

section \<open>Reconciliation\<close>

text \<open>The entries of a message that passed validation: consecutive indices behind the previous one
  and well-formed contents.\<close>

definition incoming_ok :: "raft_index \<Rightarrow> entry list \<Rightarrow> bool" where
  "incoming_ok previous_index es \<longleftrightarrow> entries_at previous_index es \<and> list_all entry_ok es"

text \<open>The number of entries between the base and the previous index.\<close>

definition log_offset :: "raft_log \<Rightarrow> raft_index \<Rightarrow> nat" where
  "log_offset l i = unat i - unat (log_base_index l)"

lemma log_matches_range:
  assumes "log_wf l" and "tr_raft_log_matches l i trm"
  shows "unat i = unat (log_base_index l) + log_offset l i" and "log_offset l i \<le> length (log_entries l)"
    and "log_base_index l \<le> i" and "i \<le> tr_raft_log_last_index l"
proof -
  have "log_base_index l \<le> i \<and> i \<le> tr_raft_log_last_index l"
    using assms log_get_Some(4,5) [OF assms(1), of i] unat_last_index [OF assms(1)]
    by (auto simp: tr_raft_log_matches_def u64_le_unat u64_less_unat split: if_splits option.splits)
  then show "unat i = unat (log_base_index l) + log_offset l i" "log_offset l i \<le> length (log_entries l)"
    "log_base_index l \<le> i" "i \<le> tr_raft_log_last_index l"
    using unat_last_index [OF assms(1)] by (auto simp: log_offset_def u64_le_unat)
qed

lemma log_get_offset:
  assumes "log_wf l" and "unat i = unat (log_base_index l) + p" and "unat i + k + 1 < 2 ^ 64"
  shows "tr_raft_log_get l (i + of_nat k + 1) = vec_at (log_entries l) (p + k)"
proof -
  have "unat (i + of_nat (Suc k)) = unat i + Suc k" using assms(3) by (intro unat_plus_nat) simp
  then show ?thesis using assms(2) log_get_eq [OF assms(1)] by (simp add: algebra_simps)
qed

lemma reconcile_scan_Inr:
  assumes wf: "log_wf l" and base: "unat prev = unat (log_base_index l) + p"
  shows "reconcile_scan l prev i es = Inr (m, tr) \<Longrightarrow> unat prev + i + length es < 2 ^ 64 \<Longrightarrow>
     p + i \<le> length (log_entries l) \<Longrightarrow>
     \<exists>k. m = i + k \<and> k \<le> length es \<and> p + i + k \<le> length (log_entries l)
       \<and> take k es = take k (drop (p + i) (log_entries l))
       \<and> (k = length es \<longrightarrow> \<not> tr)
       \<and> (k < length es \<longrightarrow>
            (if tr then p + i + k < length (log_entries l)
                        \<and> e_term (log_entries l ! (p + i + k)) \<noteq> e_term (es ! k)
             else p + i + k = length (log_entries l)))"
proof (induction es arbitrary: i)
  case Nil
  then show ?case by simp
next
  case (Cons e es)
  note get = log_get_offset [OF wf base, of i]
  have range: "unat prev + i + 1 < 2 ^ 64" using Cons.prems(2) by simp
  show ?case
  proof (cases "p + i < length (log_entries l) \<and> log_entries l ! (p + i) = e")
    case True
    then have "reconcile_scan l prev (Suc i) es = Inr (m, tr)"
      using Cons.prems(1) get [OF range] by (auto simp: Let_def vec_at_def split: if_splits)
    with Cons.IH [of "Suc i"] Cons.prems True obtain k where
      k: "m = Suc i + k" "k \<le> length es" "p + Suc i + k \<le> length (log_entries l)"
      "take k es = take k (drop (p + Suc i) (log_entries l))" "k = length es \<longrightarrow> \<not> tr"
      "k < length es \<longrightarrow> (if tr then p + Suc i + k < length (log_entries l)
                        \<and> e_term (log_entries l ! (p + Suc i + k)) \<noteq> e_term (es ! k)
             else p + Suc i + k = length (log_entries l))"
      by auto
    have "drop (p + i) (log_entries l) = e # drop (p + Suc i) (log_entries l)"
      using True by (metis Cons_nth_drop_Suc add_Suc_right)
    with k show ?thesis by (intro exI [of _ "Suc k"]) (auto split: if_splits)
  next
    case False
    with Cons.prems get [OF range] show ?thesis
      by (intro exI [of _ 0]) (auto simp: Let_def vec_at_def split: if_splits)
  qed
qed

lemma reconcile_scan_error: "reconcile_scan l prev i es = Inl e \<Longrightarrow> e \<in> {SALTS_EINVAL, SALTS_EPROTO}"
  by (induction l prev i es rule: reconcile_scan.induct)
     (auto simp: Let_def split: if_splits option.splits)

lemma list_update_block:
  assumes "m < length vec"
  shows "take m (vec[m := e]) = take m vec" "drop (Suc m) (vec[m := e]) = drop (Suc m) vec"
    "vec[m := e] ! m = e"
  using assms by simp_all

lemma reconcile_write_eq:
  "entries_at (base + of_nat m) es \<Longrightarrow> m + length es \<le> length vec \<Longrightarrow> unat base + m + length es < 2 ^ 64 \<Longrightarrow>
     reconcile_write base vec es = Some (take m vec @ es @ drop (m + length es) vec)"
proof (induction es arbitrary: m vec)
  case Nil
  then show ?case by simp
next
  case (Cons e es)
  have idx: "e_index e = base + of_nat m + 1" and tl: "entries_at (base + of_nat (Suc m)) es"
    using Cons.prems(1) entries_at_append [of "base + of_nat m" "[e]" es]
    by (auto simp: entries_at_def algebra_simps)
  have "e_index e - base - 1 = of_nat m" by (simp add: idx)
  moreover have "unat (of_nat m :: u64) = m" using Cons.prems(3) by (simp add: unat_of_nat)
  ultimately have off: "unat (e_index e - base - 1) = m" by simp
  let ?vec = "vec[m := e]"
  have "reconcile_write base ?vec es = Some (take (Suc m) ?vec @ es @ drop (Suc m + length es) ?vec)"
    using Cons.IH [OF tl, of ?vec] Cons.prems by simp
  also have "take (Suc m) ?vec = take m vec @ [e]"
    using Cons.prems(2) by (simp add: take_Suc_conv_app_nth)
  also have "drop (Suc m + length es) ?vec = drop (m + length (e # es)) vec" by simp
  finally show ?case using off Cons.prems(2) by simp
qed

lemma reject_hint_loop_ok:
  "log_wf l \<Longrightarrow> log_base_index l < i \<Longrightarrow> i \<le> tr_raft_log_last_index l \<Longrightarrow>
     (\<exists>e. tr_raft_log_get l i = Some e \<and> e_term e = trm) \<Longrightarrow>
     \<exists>h. reject_hint_loop l trm i = Inr h \<and> log_base_index l < h \<and> h \<le> i
       \<and> (\<forall>j. h \<le> j \<longrightarrow> j \<le> i \<longrightarrow> (\<exists>e. tr_raft_log_get l j = Some e \<and> e_term e = trm))
       \<and> (h = log_base_index l + 1 \<or> (\<exists>e. tr_raft_log_get l (h - 1) = Some e \<and> e_term e \<noteq> trm))"
proof (induction l trm i rule: reject_hint_loop.induct)
  case (1 l trm i)
  note step = reject_hint_loop.simps [of l trm i]
  show ?case
  proof (cases "i > log_base_index l + 1")
    case False
    have "log_base_index l \<noteq> UINT64_MAX" using 1(3) by auto
    with False 1(3) have i: "i = log_base_index l + 1"
      by (intro u64_eqI) (simp add: u64_less_unat unat_plus_1)
    with 1(3,5) False step show ?thesis by (auto intro: antisym)
  next
    case True
    have below: "unat (i - 1) = unat i - 1" using 1(3) by (subst unat_minus_le) (auto simp: u64_le_unat u64_less_unat)
    have nomax: "log_base_index l \<noteq> UINT64_MAX" using 1(3) by auto
    have rng: "log_base_index l < i - 1" "i - 1 \<le> tr_raft_log_last_index l"
      using True 1(4) below unat_plus_1 [OF nomax] by (auto simp: u64_less_unat u64_le_unat)
    then obtain e where e: "tr_raft_log_get l (i - 1) = Some e"
      using log_get_None_iff [OF 1(2), of "i - 1"] by (cases "tr_raft_log_get l (i - 1)") auto
    show ?thesis
    proof (cases "e_term e = trm")
      case False
      with e True 1(3,5) step show ?thesis by (auto intro: antisym)
    next
      case same: True
      with 1(1) [OF True e] 1(2) rng e obtain h where h: "reject_hint_loop l trm (i - 1) = Inr h"
        "log_base_index l < h" "h \<le> i - 1"
        "\<forall>j. h \<le> j \<longrightarrow> j \<le> i - 1 \<longrightarrow> (\<exists>e. tr_raft_log_get l j = Some e \<and> e_term e = trm)"
        "h = log_base_index l + 1 \<or> (\<exists>e. tr_raft_log_get l (h - 1) = Some e \<and> e_term e \<noteq> trm)"
        by auto
      have "j \<le> i - 1 \<or> j = i" if "j \<le> i" for j
        using that below by (auto simp: u64_le_unat intro: u64_eqI)
      moreover have "h \<le> i" using h(3) below by (simp add: u64_le_unat)
      ultimately show ?thesis using h e same True step 1(5) by auto
    qed
  qed
qed

lemma reject_hint_ok:
  assumes "log_wf l" and "\<not> tr_raft_log_matches l prev trm" and "log_room l 1"
  shows "\<exists>h. tr_raft_log_reject_hint l prev = Inr h \<and> log_base_index l < h
           \<and> h \<le> tr_raft_log_last_index l + 1 \<and> (log_base_index l < prev \<longrightarrow> h \<le> prev)"
proof -
  have nomax: "tr_raft_log_last_index l \<noteq> UINT64_MAX"
    using assms(3) by (auto simp: log_room_def unat_UINT64_MAX)
  have last: "unat (tr_raft_log_last_index l + 1) = Suc (unat (tr_raft_log_last_index l))"
    by (rule unat_plus_1 [OF nomax])
  have le: "unat (log_base_index l) \<le> unat (tr_raft_log_last_index l)"
    using unat_last_index [OF assms(1)] by simp
  then have base: "unat (log_base_index l + 1) = Suc (unat (log_base_index l))"
    using nomax by (intro unat_plus_1) (auto simp: unat_UINT64_MAX log_room_def dest: arg_cong [of _ _ unat]
        intro!: u64_eqI le_antisym [OF unat_u64_less [THEN Suc_leI, simplified]])
  show ?thesis
  proof (cases "prev > tr_raft_log_last_index l \<or> prev \<le> log_base_index l")
    case True
    then show ?thesis using last base le
      by (auto simp: tr_raft_log_reject_hint_def Let_def u64_less_unat u64_le_unat)
  next
    case False
    then obtain e where e: "tr_raft_log_get l prev = Some e"
      using log_get_None_iff [OF assms(1), of prev] by (cases "tr_raft_log_get l prev") auto
    from False reject_hint_loop_ok [OF assms(1), of prev "e_term e"] e obtain h where
      "reject_hint_loop l (e_term e) prev = Inr h" "log_base_index l < h" "h \<le> prev"
      by (auto simp: not_le not_less)
    with e False last show ?thesis
      by (auto simp: tr_raft_log_reject_hint_def Let_def u64_less_unat u64_le_unat)
  qed
qed

lemma reconcile_write_ok:
  assumes wf: "log_wf l" and vec: "log_vec_ok V l" and match: "tr_raft_log_matches l prev trm"
    and inc: "incoming_ok prev es" and fit: "unat prev + length es < 2 ^ 64" and less: "k < length es"
    and k: "log_offset l prev + k \<le> length (log_entries l)"
    and cap: "log_offset l prev + length es \<le> log_max_entries l"
  obtains ys where "vec_resize V (log_entries l) (log_offset l prev + k + length es - k) = (STL_OK, ys)"
    and "reconcile_write (log_base_index l) ys (drop k es)
           = Some (take (log_offset l prev + k) (log_entries l) @ drop k es)"
proof -
  let ?p = "log_offset l prev"
  let ?n = "?p + k + length es - k"
  note rng = log_matches_range [OF wf match]
  have n: "?n = ?p + length es" by simp
  have "length (log_entries l) \<le> log_max_entries l" using wf by (simp add: log_wf_def)
  then obtain ys where ys: "vec_resize V (log_entries l) ?n = (STL_OK, ys)" "length ys = ?n"
    "take (min ?n (length (log_entries l))) ys = take (min ?n (length (log_entries l))) (log_entries l)"
    using vec_resize_ok [OF vec] cap n by metis
  have "?p + k \<le> min ?n (length (log_entries l))" using k less by simp
  then have keep: "take (?p + k) ys = take (?p + k) (log_entries l)"
    using arg_cong [OF ys(3), of "take (?p + k)"] by (simp add: min_absorb1)
  have "unat (log_base_index l) + ?p < 2 ^ 64" using rng(1) unat_u64_less [of prev] by simp
  then have "prev = log_base_index l + of_nat ?p"
    using rng(1) by (intro u64_eqI) (simp add: unat_plus_nat)
  then have at: "prev + of_nat k = log_base_index l + of_nat (?p + k)" by simp
  have "entries_at (prev + of_nat k) (drop k es)"
    using inc less by (intro entries_at_drop) (simp_all add: incoming_ok_def)
  then have "reconcile_write (log_base_index l) ys (drop k es)
      = Some (take (?p + k) ys @ drop k es @ drop (?p + k + length (drop k es)) ys)"
    unfolding at using fit rng(1) less ys(2) by (intro reconcile_write_eq) simp_all
  also have "\<dots> = Some (take (?p + k) (log_entries l) @ drop k es)"
    using ys(2) less by (simp add: keep)
  finally show thesis using that ys(1) by blast
qed

lemma reconcile_cases:
  assumes wf: "log_wf l" and vec: "log_vec_ok V l" and inc: "incoming_ok prev es" and room: "log_room l 1"
    and eq: "tr_raft_log_reconcile V l prev trm es prot = (s, l', r)"
  obtains (error) "s \<in> {SALTS_EINVAL, SALTS_EPROTO, SALTS_ENOSPC}" "l' = l"
  | (unmatched) h where "s = SALTS_OK" "l' = l" "\<not> tr_raft_log_matches l prev trm"
      "r = reconcile_zero\<lparr>rr_reject_hint := h\<rparr>" "tr_raft_log_reject_hint l prev = Inr h"
  | (unchanged) "s = SALTS_OK" "l' = l" "tr_raft_log_matches l prev trm"
      "r = reconcile_zero\<lparr>rr_matched := True\<rparr>" "unat prev + length es < 2 ^ 64"
      "take (length es) (drop (log_offset l prev) (log_entries l)) = es"
  | (changed) k where "s = SALTS_OK" "tr_raft_log_matches l prev trm" "k < length es"
      "l' = l\<lparr>log_entries := take (log_offset l prev + k) (log_entries l) @ drop k es\<rparr>"
      "take (log_offset l prev + k) (log_entries l) = take (log_offset l prev) (log_entries l) @ take k es"
      "log_offset l prev + k \<le> length (log_entries l)"
      "log_offset l prev + k < length (log_entries l) \<longrightarrow>
         prot < prev + of_nat k + 1 \<and> e_term (log_entries l ! (log_offset l prev + k)) \<noteq> e_term (es ! k)"
      "r = \<lparr>rr_matched = True, rr_changed = True, rr_reject_hint = 0,
            rr_truncate_from = (if log_offset l prev + k < length (log_entries l) then prev + of_nat k + 1 else 0),
            rr_append_from = prev + of_nat k + 1, rr_append_count = length es - k\<rparr>"
      "unat prev + length es < 2 ^ 64"
      "log_offset l prev + length es \<le> log_max_entries l"
proof -
  let ?p = "log_offset l prev"
  show thesis
  proof (cases "length es > unat (UINT64_MAX - prev)")
    case True
    with eq that(1) show thesis by (simp add: tr_raft_log_reconcile_def)
  next
    case fits: False
    then have fit: "unat prev + length es < 2 ^ 64"
      using unat_u64_less [of prev] by (simp add: unat_MAX_minus)
    show thesis
    proof (cases "tr_raft_log_matches l prev trm")
      case False
      from reject_hint_ok [OF wf False room] obtain h where h: "tr_raft_log_reject_hint l prev = Inr h" by blast
      with eq fits False that(2) show thesis by (auto simp: tr_raft_log_reconcile_def)
    next
      case match: True
      note rng = log_matches_range [OF wf match]
      show thesis
      proof (cases "reconcile_scan l prev 0 es")
        case (Inl e)
        with reconcile_scan_error [OF Inl] eq fits match that(1) show thesis
          by (auto simp: tr_raft_log_reconcile_def Let_def)
      next
        case (Inr m)
        then obtain k tr where scan: "reconcile_scan l prev 0 es = Inr (k, tr)" by (cases m) auto
        from reconcile_scan_Inr [OF wf rng(1) scan] fit rng(2)
        have k: "k \<le> length es" "?p + k \<le> length (log_entries l)"
          "take k es = take k (drop ?p (log_entries l))" "k = length es \<longrightarrow> \<not> tr"
          "k < length es \<longrightarrow> (if tr then ?p + k < length (log_entries l)
                        \<and> e_term (log_entries l ! (?p + k)) \<noteq> e_term (es ! k)
             else ?p + k = length (log_entries l))" by auto
        have pre: "take (?p + k) (log_entries l) = take ?p (log_entries l) @ take k es"
          unfolding k(3) by (rule take_add)
        show thesis
        proof (cases "k = length es")
          case True
          with eq fits match scan that(3) fit k(3) show thesis by (simp add: tr_raft_log_reconcile_def Let_def)
        next
          case False
          with k(1) have less: "k < length es" by simp
          have tr: "tr \<longleftrightarrow> ?p + k < length (log_entries l)" using k(2,5) less by (auto split: if_splits)
          have off: "unat (prev - log_base_index l) = ?p"
            using rng(3) by (simp add: unat_minus_le log_offset_def)
          have first: "e_index (es ! k) = prev + of_nat k + 1"
            using inc less by (simp add: incoming_ok_def entries_at_def algebra_simps)
          show thesis
          proof (cases "(tr \<and> e_index (es ! k) \<le> prot) \<or> ?p + k > log_max_entries l
              \<or> length es - k > log_max_entries l - (?p + k)")
            case True
            with eq fits match scan False off that(1) show thesis
              by (auto simp: tr_raft_log_reconcile_def Let_def split: if_splits)
          next
            case ok: False
            then have cap: "?p + length es \<le> log_max_entries l" using k(1) by auto
            from reconcile_write_ok [OF wf vec match inc fit less k(2) cap]
            obtain ys where ys: "vec_resize V (log_entries l) (?p + k + length es - k) = (STL_OK, ys)"
              and wr: "reconcile_write (log_base_index l) ys (drop k es)
                = Some (take (?p + k) (log_entries l) @ drop k es)"
              by blast
            have res: "s = SALTS_OK \<and> l' = l\<lparr>log_entries := take (?p + k) (log_entries l) @ drop k es\<rparr>
              \<and> r = \<lparr>rr_matched = True, rr_changed = True, rr_reject_hint = 0,
                     rr_truncate_from = (if tr then prev + of_nat k + 1 else 0),
                     rr_append_from = prev + of_nat k + 1, rr_append_count = length es - k\<rparr>"
              using eq fits match scan False ok off ys wr first
              by (auto simp: tr_raft_log_reconcile_def Let_def reconcile_zero_def split: if_splits)
            have side: "?p + k < length (log_entries l) \<longrightarrow>
                prot < prev + of_nat k + 1 \<and> e_term (log_entries l ! (?p + k)) \<noteq> e_term (es ! k)"
              using tr k(5) less ok first by (auto simp: not_le)
            show thesis
              by (rule that(4) [OF _ match less _ pre k(2) side _ fit cap]) (use res tr in simp_all)
          qed
        qed
      qed
    qed
  qed
qed

lemma reconcile_result_wf:
  assumes wf: "log_wf l" and es: "incoming_ok prev es" and "k < length es"
    and k: "take (log_offset l prev + k) (log_entries l) = take (log_offset l prev) (log_entries l) @ take k es"
    and match: "tr_raft_log_matches l prev trm" and fit: "unat prev + length es < 2 ^ 64"
    and cap: "log_offset l prev + length es \<le> log_max_entries l"
  shows "log_wf (l\<lparr>log_entries := take (log_offset l prev + k) (log_entries l) @ drop k es\<rparr>)"
    and "take (log_offset l prev + k) (log_entries l) @ drop k es = take (log_offset l prev) (log_entries l) @ es"
proof -
  let ?p = "log_offset l prev"
  note rng = log_matches_range [OF wf match]
  show eq: "take (?p + k) (log_entries l) @ drop k es = take ?p (log_entries l) @ es"
    by (simp add: k)
  have "unat (log_base_index l) + ?p < 2 ^ 64" using rng(1) unat_u64_less [of prev] by simp
  then have "prev = log_base_index l + of_nat ?p"
    using rng(1) by (intro u64_eqI) (simp add: unat_plus_nat)
  then show "log_wf (l\<lparr>log_entries := take (?p + k) (log_entries l) @ drop k es\<rparr>)"
    unfolding eq using wf es rng fit cap
    by (auto simp: log_wf_def incoming_ok_def entries_at_append list_all_iff min_absorb2
        dest: in_set_takeD intro: entries_at_take)
qed

lemma reconcile_wf:
  assumes "log_wf l" and "log_vec_ok V l" and "incoming_ok prev es" and "log_room l 1"
    and "tr_raft_log_reconcile V l prev trm es prot = (s, l', r)"
  shows "log_wf l'" and "s \<in> {SALTS_OK, SALTS_EINVAL, SALTS_EPROTO, SALTS_ENOSPC}" and "s \<noteq> SALTS_OK \<Longrightarrow> l' = l"
    and "log_base_index l' = log_base_index l" and "log_base_term l' = log_base_term l"
    and "log_max_entries l' = log_max_entries l"
    and "prot \<le> tr_raft_log_last_index l \<Longrightarrow> log_keeps prot l l'"
    and "prot \<le> tr_raft_log_last_index l \<Longrightarrow> prot \<le> tr_raft_log_last_index l'"
proof -
  have "log_wf l' \<and> s \<in> {SALTS_OK, SALTS_EINVAL, SALTS_EPROTO, SALTS_ENOSPC} \<and> (s \<noteq> SALTS_OK \<longrightarrow> l' = l)
      \<and> log_base_index l' = log_base_index l \<and> log_base_term l' = log_base_term l
      \<and> log_max_entries l' = log_max_entries l
      \<and> (prot \<le> tr_raft_log_last_index l \<longrightarrow> log_keeps prot l l' \<and> prot \<le> tr_raft_log_last_index l')"
  proof (cases rule: reconcile_cases [OF assms, case_names error unmatched unchanged changed])
    case (changed k)
    let ?p = "log_offset l prev"
    note rng = log_matches_range [OF assms(1) changed(2)]
    have wf': "log_wf l'"
      using reconcile_result_wf(1) [OF assms(1,3) changed(3,5,2,9,10)] by (simp add: changed(4))
    have at: "unat (prev + of_nat k + 1) = unat (log_base_index l) + ?p + k + 1"
      using unat_plus_nat [of prev "Suc k"] changed(3,9) rng(1) by (simp add: algebra_simps)
    have bound: "unat prot \<le> unat (log_base_index l) + (?p + k)" if "prot \<le> tr_raft_log_last_index l"
      using changed(6,7) that at unat_last_index [OF assms(1)]
      by (cases "?p + k < length (log_entries l)") (auto simp: u64_less_unat u64_le_unat)
    have len: "?p + k \<le> length (log_entries l')"
      using changed(3,6) by (simp add: changed(4))
    have "tr_raft_log_get l' i = tr_raft_log_get l i" if "prot \<le> tr_raft_log_last_index l" "i \<le> prot" for i
      using that bound [OF that(1)] changed(6)
      by (intro log_get_prefix [OF assms(1) wf', of "?p + k"]) (simp_all add: changed(4) u64_le_unat)
    then have "prot \<le> tr_raft_log_last_index l \<longrightarrow> log_keeps prot l l' \<and> prot \<le> tr_raft_log_last_index l'"
      using bound len unat_last_index [OF wf'] by (auto simp: log_keeps_def changed(4) u64_le_unat)
    with wf' changed(1) show ?thesis by (simp add: changed(4))
  qed (use assms(1) in auto)
  then show "log_wf l'" "s \<in> {SALTS_OK, SALTS_EINVAL, SALTS_EPROTO, SALTS_ENOSPC}" "s \<noteq> SALTS_OK \<Longrightarrow> l' = l"
    "log_base_index l' = log_base_index l" "log_base_term l' = log_base_term l"
    "log_max_entries l' = log_max_entries l"
    "prot \<le> tr_raft_log_last_index l \<Longrightarrow> log_keeps prot l l'"
    "prot \<le> tr_raft_log_last_index l \<Longrightarrow> prot \<le> tr_raft_log_last_index l'" by blast+
qed

lemma reconcile_agreement:
  assumes "log_wf l" and "log_vec_ok V l" and "incoming_ok prev es" and "log_room l 1"
    and "tr_raft_log_reconcile V l prev trm es prot = (SALTS_OK, l', r)" and "rr_matched r"
  shows "tr_raft_log_matches l prev trm"
    and "k < length es \<Longrightarrow> tr_raft_log_get l' (prev + of_nat k + 1) = Some (es ! k)"
    and "i \<le> prev \<Longrightarrow> tr_raft_log_get l' i = tr_raft_log_get l i"
    and "unat prev + length es \<le> unat (tr_raft_log_last_index l')"
    and "rr_changed r \<Longrightarrow> unat (tr_raft_log_last_index l') = unat prev + length es"
    and "\<not> rr_changed r \<Longrightarrow> l' = l"
proof -
  let ?p = "log_offset l prev"
  note wf' = reconcile_wf(1) [OF assms(1-5)]
  have "tr_raft_log_matches l prev trm \<and> unat prev + length es < 2 ^ 64
      \<and> take (?p + length es) (log_entries l') = take ?p (log_entries l) @ es
      \<and> (rr_changed r \<longrightarrow> log_entries l' = take ?p (log_entries l) @ es) \<and> (\<not> rr_changed r \<longrightarrow> l' = l)"
  proof (cases rule: reconcile_cases [OF assms(1-5), case_names error unmatched unchanged changed])
    case (unmatched h)
    with assms(6) show ?thesis by (simp add: reconcile_zero_def)
  next
    case unchanged
    then show ?thesis by (simp add: take_add reconcile_zero_def)
  next
    case (changed k)
    with log_matches_range(2) [OF assms(1) changed(2)]
      reconcile_result_wf(2) [OF assms(1,3) changed(3,5,2,9,10)]
    show ?thesis by (simp add: min_absorb2)
  qed simp
  then have match: "tr_raft_log_matches l prev trm" and fit: "unat prev + length es < 2 ^ 64"
    and take: "take (?p + length es) (log_entries l') = take ?p (log_entries l) @ es"
    and ch: "rr_changed r \<Longrightarrow> log_entries l' = take ?p (log_entries l) @ es"
    and unch: "\<not> rr_changed r \<Longrightarrow> l' = l" by auto
  note rng = log_matches_range [OF assms(1) match]
  show "tr_raft_log_matches l prev trm" by (rule match)
  show "l' = l" if "\<not> rr_changed r" by (rule unch [OF that])
  have base: "log_base_index l' = log_base_index l" by (rule reconcile_wf(4) [OF assms(1-5)])
  have "length (take (?p + length es) (log_entries l')) = ?p + length es"
    using rng(2) by (simp add: take min_absorb2)
  then have len: "?p + length es \<le> length (log_entries l')" by simp
  show "unat prev + length es \<le> unat (tr_raft_log_last_index l')"
    using len rng(1) unat_last_index [OF wf'] base by simp
  show "unat (tr_raft_log_last_index l') = unat prev + length es" if "rr_changed r"
    using ch [OF that] rng(1,2) unat_last_index [OF wf'] base by (simp add: min_absorb2)
  have "take ?p (take (?p + length es) (log_entries l')) = take ?p (log_entries l)"
    unfolding take using rng(2) by simp
  then show "tr_raft_log_get l' i = tr_raft_log_get l i" if "i \<le> prev"
    using that rng(1) by (intro log_get_prefix [OF assms(1) wf' base, of ?p]) (simp_all add: u64_le_unat min_absorb1)
  show "tr_raft_log_get l' (prev + of_nat k + 1) = Some (es ! k)" if k: "k < length es"
  proof -
    have "log_entries l' ! (?p + k) = take (?p + length es) (log_entries l') ! (?p + k)" using k by simp
    also have "\<dots> = es ! k" unfolding take using rng(2) by (simp add: nth_append min_absorb2)
    finally show ?thesis
      using log_get_offset [OF wf', of prev ?p k] rng(1) base fit len k by (simp add: vec_at_def)
  qed
qed

declare log_wf_append [raft_wf] log_compact_wf(1) [raft_wf] reconcile_wf(1) [raft_wf]
  app_local.op_wf(1) [raft_wf] app_batch.op_wf(1) [raft_wf] app_conf.op_wf(1) [raft_wf]

section \<open>A concrete container and log\<close>

text \<open>A container that keeps the contract, to evaluate the operations on concrete logs.\<close>

definition zero_entry :: entry where
  "zero_entry = \<lparr>e_index = 0, e_term = 0, e_command_id = 0, e_data = []\<rparr>"

definition list_vec :: vec_ops where
  "list_vec = \<lparr>vec_init_bytes = (\<lambda>n. STL_OK), vec_reserve = (\<lambda>n. STL_OK),
     vec_push = (\<lambda>xs e. (STL_OK, xs @ [e])),
     vec_resize = (\<lambda>xs n. (STL_OK, take n xs @ replicate (n - length xs) zero_entry))\<rparr>"

lemma list_vec_contract [simp]: "vec_contract list_vec cap"
  by (auto simp: vec_contract_def list_vec_def min_def)

definition ex_entry :: "raft_index \<Rightarrow> raft_term \<Rightarrow> entry" where
  "ex_entry i t = \<lparr>e_index = i, e_term = t, e_command_id = 7, e_data = [1, 2]\<rparr>"

definition ex_log :: raft_log where
  "ex_log = \<lparr>log_entries = [ex_entry 3 1, ex_entry 4 1, ex_entry 5 2], log_max_entries = 6,
     log_base_index = 2, log_base_term = 1\<rparr>"

lemma ex_entry_sel [simp]: "e_index (ex_entry i t) = i" "e_term (ex_entry i t) = t"
  "e_command_id (ex_entry i t) = 7" "e_data (ex_entry i t) = [1, 2]"
  by (simp_all add: ex_entry_def)

lemma ex_entry_ok [simp]: "t \<noteq> 0 \<Longrightarrow> entry_ok (ex_entry i t)"
  by (simp add: entry_ok_def)

lemma all_less_Suc: "(\<forall>i < Suc n. P i) \<longleftrightarrow> P 0 \<and> (\<forall>i < n. P (Suc i))"
  by (metis less_Suc_eq_0_disj)

lemma ex_log_wf [simp]: "log_wf ex_log"
  by (simp add: log_wf_def ex_log_def entries_at_def all_less_Suc tr_raft_log_base_valid_def)

lemma ex_log_last [simp]: "tr_raft_log_last_index ex_log = 5"
  by (simp add: tr_raft_log_last_index_def tr_raft_log_count_def ex_log_def)

lemma ex_log_room [simp]: "log_room ex_log 1" "log_room ex_log 16"
  by (simp_all add: log_room_def)

lemma ex_incoming_ok [simp]: "incoming_ok 3 [ex_entry 4 1, ex_entry 5 3, ex_entry 6 3]"
  by (simp add: incoming_ok_def entries_at_def all_less_Suc)

section \<open>Properties\<close>

text \<open>C29 (functional). A proposal batch is admitted whole or not at all. With the documented container
  behaviour, \<open>tr_raft_log_append_local_batch\<close> rejects a zero term, an empty or too long batch, a
  batch with an invalid proposal (\<open>SALTS_EINVAL\<close>) or without room (\<open>SALTS_ENOSPC\<close>) and then leaves
  the log as it was; otherwise it appends one entry per proposal with consecutive indices, keeps
  the invariant, reads every earlier index as before and every new index as its proposal.\<close>

theorem log_batch_append_correct:
  assumes "log_wf l" and "log_vec_ok V l" and "log_room l 16"
    and "tr_raft_log_append_local_batch V l trm (Some ps) = (s, l', out)"
  shows "log_wf l'
    \<and> s = (if trm = 0 \<or> ps = [] \<or> length ps > 16 then SALTS_EINVAL
           else if length ps > log_max_entries l - length (log_entries l) then SALTS_ENOSPC
           else if list_ex proposal_bad ps then SALTS_EINVAL
           else SALTS_OK)
    \<and> (s \<noteq> SALTS_OK \<longrightarrow> l' = l \<and> out = [])
    \<and> (s = SALTS_OK \<longrightarrow>
         tr_raft_log_last_index l' = tr_raft_log_last_index l + of_nat (length ps)
         \<and> (\<forall>i \<le> tr_raft_log_last_index l. tr_raft_log_get l' i = tr_raft_log_get l i)
         \<and> (\<forall>k < length ps. tr_raft_log_get l' (tr_raft_log_last_index l + of_nat k + 1)
              = Some \<lparr>e_index = tr_raft_log_last_index l + of_nat k + 1, e_term = trm,
                      e_command_id = pr_command_id (ps ! k), e_data = byte_list (pr_data (ps ! k))\<rparr>))"
proof (cases "s = SALTS_OK")
  case False
  with assms(4) app_batch.op_wf(1) [OF assms] show ?thesis
    unfolding append_batch_eq [OF assms(1,2)] by (auto split: if_splits)
next
  case True
  let ?es = "batch_entries (tr_raft_log_last_index l + 1) trm ps"
  from True assms(4) have ok: "trm \<noteq> 0" "ps \<noteq> []" "length ps \<le> 16"
    "\<not> length ps > log_max_entries l - length (log_entries l)" "\<not> list_ex proposal_bad ps"
    and l': "l' = log_append l ?es"
    unfolding append_batch_eq [OF assms(1,2)] by (auto split: if_splits)
  have cont: "log_continues l ?es"
    using ok assms(1) by (intro batch_entries_continue) (auto simp: log_wf_def)
  have room: "log_room l (length ?es)" using ok(3) assms(3) by (simp add: log_room_def)
  have new: "tr_raft_log_get l' (tr_raft_log_last_index l + of_nat k + 1)
      = Some \<lparr>e_index = tr_raft_log_last_index l + of_nat k + 1, e_term = trm,
              e_command_id = pr_command_id (ps ! k), e_data = byte_list (pr_data (ps ! k))\<rparr>"
    if "k < length ps" for k
    using log_get_append_new [OF assms(1) cont room, of k] that by (simp add: l' nth_batch_entries)
  have old: "tr_raft_log_get l' i = tr_raft_log_get l i" if "i \<le> tr_raft_log_last_index l" for i
    unfolding l' by (rule log_get_append_old [OF assms(1) cont room that])
  from True ok new old app_batch.op_wf(1) [OF assms] last_index_append [of l ?es] show ?thesis
    by (simp add: l')
qed

theorem log_batch_append_correct_witness:
  "\<exists>l' out. tr_raft_log_append_local_batch list_vec ex_log 4
       (Some [\<lparr>pr_command_id = 8, pr_data = Byte_array [5]\<rparr>]) = (SALTS_OK, l', out)
     \<and> log_wf l' \<and> tr_raft_log_last_index l' = 6 \<and> tr_raft_log_get l' 4 = tr_raft_log_get ex_log 4"
proof -
  obtain s l' out where eq: "tr_raft_log_append_local_batch list_vec ex_log 4
       (Some [\<lparr>pr_command_id = 8, pr_data = Byte_array [5]\<rparr>]) = (s, l', out)"
    by (cases "tr_raft_log_append_local_batch list_vec ex_log 4
       (Some [\<lparr>pr_command_id = 8, pr_data = Byte_array [5]\<rparr>])")
  from log_batch_append_correct [OF ex_log_wf list_vec_contract ex_log_room(2) eq] eq show ?thesis
    by (simp add: proposal_bad_def) (simp add: ex_log_def)
qed

text \<open>C21 (equivalence). Reconciling with a leader's entries implements the log-matching rule. For
  validated entries behind \<open>previous_index\<close>: the outcome is a defined status; an error or a failed
  previous-entry check leaves the log untouched; when the check succeeds, the log afterwards holds
  exactly the leader's entries at their indices, everything up to \<open>previous_index\<close> is unchanged, and
  either nothing was written (all of them were already there, so a stale message never truncates a
  longer log) or the log ends with the last of them. Entries at or below the protected index
  always stay.\<close>

theorem log_reconcile_correct:
  assumes "log_wf l" and "log_vec_ok V l" and "incoming_ok prev es" and "log_room l 1"
    and "prot \<le> tr_raft_log_last_index l"
    and "tr_raft_log_reconcile V l prev trm es prot = (s, l', r)"
  shows "log_wf l' \<and> s \<in> {SALTS_OK, SALTS_EINVAL, SALTS_EPROTO, SALTS_ENOSPC}
    \<and> (s \<noteq> SALTS_OK \<or> \<not> rr_matched r \<longrightarrow> l' = l)
    \<and> (s = SALTS_OK \<longrightarrow> (rr_matched r \<longleftrightarrow> tr_raft_log_matches l prev trm))
    \<and> (s = SALTS_OK \<and> rr_matched r \<longrightarrow>
         (\<forall>k < length es. tr_raft_log_get l' (prev + of_nat k + 1) = Some (es ! k))
         \<and> (\<forall>i \<le> prev. tr_raft_log_get l' i = tr_raft_log_get l i)
         \<and> (if rr_changed r then unat (tr_raft_log_last_index l') = unat prev + length es else l' = l))
    \<and> (\<forall>i \<le> prot. tr_raft_log_get l' i = tr_raft_log_get l i)"
proof -
  note wf = reconcile_wf [OF assms(1-4,6)]
  note agree = reconcile_agreement [OF assms(1-4)]
  have keep: "\<forall>i \<le> prot. tr_raft_log_get l' i = tr_raft_log_get l i"
  proof (intro allI impI)
    fix i
    assume "i \<le> prot"
    then show "tr_raft_log_get l' i = tr_raft_log_get l i"
      using wf(7) [OF assms(5)] wf(4) log_get_None_iff [OF assms(1), of i] log_get_None_iff [OF wf(1), of i]
      by (cases "i \<le> log_base_index l") (auto simp: log_keeps_def not_le)
  qed
  have m: "rr_matched r \<longleftrightarrow> tr_raft_log_matches l prev trm" "\<not> rr_matched r \<longrightarrow> l' = l" if "s = SALTS_OK"
    using that
    by (cases rule: reconcile_cases [OF assms(1-4,6), case_names error unmatched unchanged changed];
        simp add: reconcile_zero_def)+
  show ?thesis
    using wf(1-3) keep m agree assms(6) by (cases "s = SALTS_OK") auto
qed

lemma ex_reconcile:
  "tr_raft_log_reconcile list_vec ex_log 3 1 [ex_entry 4 1, ex_entry 5 3, ex_entry 6 3] 4
     = (SALTS_OK, ex_log\<lparr>log_entries := [ex_entry 3 1, ex_entry 4 1, ex_entry 5 3, ex_entry 6 3]\<rparr>,
        \<lparr>rr_matched = True, rr_changed = True, rr_reject_hint = 0, rr_truncate_from = 5,
         rr_append_from = 5, rr_append_count = 2\<rparr>)"
  by code_simp

theorem log_reconcile_correct_witness:
  "\<exists>l' r. tr_raft_log_reconcile list_vec ex_log 3 1 [ex_entry 4 1, ex_entry 5 3, ex_entry 6 3] 4
       = (SALTS_OK, l', r)
     \<and> log_wf l' \<and> rr_matched r \<and> unat (tr_raft_log_last_index l') = 6
     \<and> (\<forall>i \<le> 4. tr_raft_log_get l' i = tr_raft_log_get ex_log i)"
proof -
  have "4 \<le> tr_raft_log_last_index ex_log" by simp
  from log_reconcile_correct [OF ex_log_wf list_vec_contract ex_incoming_ok ex_log_room(1) this ex_reconcile]
  show ?thesis using ex_reconcile by simp
qed

lemma log_matches_prefix:
  assumes "tr_raft_log_get l' i = tr_raft_log_get l i" and "log_base_index l' = log_base_index l"
    and "log_base_term l' = log_base_term l"
  shows "tr_raft_log_matches l' i trm \<longleftrightarrow> tr_raft_log_matches l i trm"
  by (simp add: tr_raft_log_matches_def assms)

text \<open>C30 (functional). Delivering the same entries twice is harmless: after a successful reconciliation,
  repeating it reports a match, writes nothing and leaves the log as it is.\<close>

theorem log_reconcile_idempotent:
  assumes "log_wf l" and "log_vec_ok V l" and "incoming_ok prev es" and "log_room l 1"
    and "tr_raft_log_reconcile V l prev trm es prot = (SALTS_OK, l', r)" and "rr_matched r"
  shows "tr_raft_log_reconcile V l' prev trm es prot' = (SALTS_OK, l', reconcile_zero\<lparr>rr_matched := True\<rparr>)"
proof -
  note wf = reconcile_wf [OF assms(1-5)]
  note agree = reconcile_agreement [OF assms(1-6)]
  have match: "tr_raft_log_matches l' prev trm"
    using log_matches_prefix [OF agree(3) [OF order_refl] wf(4,5)] agree(1) by simp
  have fit: "length es \<le> unat (UINT64_MAX - prev)"
    using agree(4) unat_u64_less [of "tr_raft_log_last_index l'"] by (simp add: unat_MAX_minus)
  have "reconcile_scan l' prev i (drop i es) = Inr (length es, False)" if "i \<le> length es" for i
    using that
  proof (induction i rule: inc_induct)
    case (step i)
    have drop: "drop i es = es ! i # drop (Suc i) es" using step(2) by (simp add: Cons_nth_drop_Suc)
    have "e_index (es ! i) = prev + of_nat i + 1" "entry_ok (es ! i)"
      using assms(3) step(2) by (auto simp: incoming_ok_def entries_at_def list_all_length algebra_simps)
    with step agree(2) [of i] show ?case
      unfolding drop by (auto simp: Let_def entry_ok_def)
  qed simp
  from this [of 0] match fit show ?thesis by (simp add: tr_raft_log_reconcile_def Let_def)
qed

theorem log_reconcile_idempotent_witness:
  "\<exists>l'. tr_raft_log_reconcile list_vec ex_log 3 1 [ex_entry 4 1, ex_entry 5 3, ex_entry 6 3] 4
       = (SALTS_OK, l', \<lparr>rr_matched = True, rr_changed = True, rr_reject_hint = 0, rr_truncate_from = 5,
         rr_append_from = 5, rr_append_count = 2\<rparr>)
     \<and> tr_raft_log_reconcile list_vec l' 3 1 [ex_entry 4 1, ex_entry 5 3, ex_entry 6 3] 4
       = (SALTS_OK, l', reconcile_zero\<lparr>rr_matched := True\<rparr>)"
  using log_reconcile_idempotent [OF ex_log_wf list_vec_contract ex_incoming_ok ex_log_room(1) ex_reconcile]
    ex_reconcile by simp

text \<open>C32 (bounds). The reject hint of a failed previous-entry check is always a usable next index: it is
  behind the base and at most one past the last index, it never reads outside the log, and when
  the previous index is behind the base the hint does not exceed it; inside the log it names the
  first entry of the run of entries that carry the conflicting term.\<close>

theorem log_reject_hint_correct:
  assumes "log_wf l" and "log_room l 1" and "\<not> tr_raft_log_matches l prev trm"
  shows "\<exists>h. tr_raft_log_reject_hint l prev = Inr h \<and> log_base_index l < h
           \<and> h \<le> tr_raft_log_last_index l + 1 \<and> (log_base_index l < prev \<longrightarrow> h \<le> prev)
           \<and> (\<forall>e. tr_raft_log_get l prev = Some e \<longrightarrow>
                (\<forall>j. h \<le> j \<longrightarrow> j \<le> prev \<longrightarrow> map_option e_term (tr_raft_log_get l j) = Some (e_term e))
                \<and> (h = log_base_index l + 1
                   \<or> map_option e_term (tr_raft_log_get l (h - 1)) \<notin> {None, Some (e_term e)}))"
proof -
  from reject_hint_ok [OF assms(1,3,2)] obtain h where h: "tr_raft_log_reject_hint l prev = Inr h"
    "log_base_index l < h" "h \<le> tr_raft_log_last_index l + 1" "log_base_index l < prev \<longrightarrow> h \<le> prev" by blast
  have "(\<forall>j. h \<le> j \<longrightarrow> j \<le> prev \<longrightarrow> map_option e_term (tr_raft_log_get l j) = Some (e_term e))
      \<and> (h = log_base_index l + 1 \<or> map_option e_term (tr_raft_log_get l (h - 1)) \<notin> {None, Some (e_term e)})"
    if e: "tr_raft_log_get l prev = Some e" for e
  proof -
    note rng = log_get_Some(4,5) [OF assms(1) e]
    have "tr_raft_log_reject_hint l prev = reject_hint_loop l (e_term e) prev"
      using rng e by (auto simp: tr_raft_log_reject_hint_def Let_def)
    with reject_hint_loop_ok [OF assms(1) rng, of "e_term e"] e h(1) show ?thesis
      by fastforce
  qed
  with h show ?thesis by blast
qed

theorem log_reject_hint_correct_witness:
  "\<not> tr_raft_log_matches ex_log 4 2 \<and> tr_raft_log_reject_hint ex_log 4 = Inr 3
   \<and> (\<exists>h. tr_raft_log_reject_hint ex_log 4 = Inr h \<and> h \<le> 4)"
proof -
  have m: "\<not> tr_raft_log_matches ex_log 4 2" and h: "tr_raft_log_reject_hint ex_log 4 = Inr 3"
    by code_simp+
  have "log_base_index ex_log < 4" by (simp add: ex_log_def)
  with log_reject_hint_correct [OF ex_log_wf ex_log_room(1) m] m h show ?thesis by blast
qed

text \<open>C31 (safety). Compaction only forgets: with the documented container behaviour
  \<open>tr_raft_log_compact\<close> either fails and leaves the log as it was, or moves the base to the given
  index, which the log held with the given term; the invariant stays, the last index and last
  term do not move, and every index behind the new base reads as before.\<close>

theorem log_compact_correct:
  assumes "log_wf l" and "log_vec_ok V l" and "tr_raft_log_compact V l index trm = (s, l')"
  shows "log_wf l' \<and> tr_raft_log_last_index l' = tr_raft_log_last_index l
    \<and> tr_raft_log_last_term l' = tr_raft_log_last_term l
    \<and> (if s = SALTS_OK
       then log_base_index l' = index \<and> log_base_term l' = trm \<and> tr_raft_log_matches l index trm
            \<and> (\<forall>i > index. tr_raft_log_get l' i = tr_raft_log_get l i)
       else s \<in> {SALTS_EINVAL, SALTS_EPROTO} \<and> l' = l)"
proof -
  note wf = log_compact_wf [OF assms]
  have err: "s \<in> {SALTS_OK, SALTS_EINVAL, SALTS_EPROTO}"
    using assms(3) unfolding log_compact_eq [OF assms(1,2)] by (auto split: if_splits)
  have keep: "tr_raft_log_get l' i = tr_raft_log_get l i" if "s = SALTS_OK" "index < i" for i
    using wf(2) [of i] wf(6) [OF that(1)] that(2) by (simp add: log_keeps_def)
  have "tr_raft_log_last_term l' = tr_raft_log_last_term l"
  proof (cases "s = SALTS_OK")
    case True
    then have match: "tr_raft_log_matches l index trm" and rng: "log_base_index l < index" "index \<le> tr_raft_log_last_index l"
      and l': "l' = l\<lparr>log_entries := drop (unat index - unat (log_base_index l)) (log_entries l),
                     log_base_index := index, log_base_term := trm\<rparr>"
      using assms(3) unfolding log_compact_eq [OF assms(1,2)] by (auto split: if_splits)
    have "e_term (log_entries l ! (unat index - unat (log_base_index l) - 1)) = trm"
      using match rng by (auto simp: tr_raft_log_matches_def log_get_eq [OF assms(1)] vec_at_def u64_less_unat
          split: if_splits)
    moreover have "unat index - Suc (unat (log_base_index l)) = length (log_entries l) - Suc 0"
      if "length (log_entries l) + unat (log_base_index l) \<le> unat index"
      using that rng unat_last_index [OF assms(1)] by (auto simp: u64_less_unat u64_le_unat)
    ultimately show ?thesis
      using rng unat_last_index [OF assms(1)]
      by (auto simp: l' tr_raft_log_last_term_def tr_raft_log_count_def u64_less_unat u64_le_unat)
  qed (use wf(4) in simp)
  with wf err keep show ?thesis by auto
qed

theorem log_compact_correct_witness:
  "\<exists>l'. tr_raft_log_compact list_vec ex_log 4 1 = (SALTS_OK, l') \<and> log_wf l'
     \<and> tr_raft_log_last_index l' = 5 \<and> tr_raft_log_get l' 5 = tr_raft_log_get ex_log 5"
proof -
  obtain s l' where eq: "tr_raft_log_compact list_vec ex_log 4 1 = (s, l')" by fastforce
  have "fst (tr_raft_log_compact list_vec ex_log 4 1) = SALTS_OK" by code_simp
  with eq have s: "s = SALTS_OK" by simp
  from log_compact_correct [OF ex_log_wf list_vec_contract eq] eq s show ?thesis by simp
qed


end
