(* ===== verification/Raft_Append_Window.thy ===== *)
theory Raft_Append_Window
  imports TR_Prelude
begin

text \<open>
  The per-peer window of unacknowledged append requests of \<open>src/core/raft_core.c\<close>: a ring buffer of 64
  slots with a head position and a count. The lemmas show that it refines a plain first-in
  first-out list of the requests in flight: every operation on the ring is the list operation on
  its contents, and the ring invariant is kept.
\<close>

section \<open>State and operations\<close>

record inflight =
  if_previous_index :: raft_index
  if_last_index :: raft_index
  if_elapsed_ticks :: u32

record append_window =
  w_items :: "inflight list"
  w_head :: nat
  w_count :: nat
  w_probe :: bool

definition inflight_zero :: inflight where
  "inflight_zero = \<lparr>if_previous_index = 0, if_last_index = 0, if_elapsed_ticks = 0\<rparr>"

text \<open>The window after \<open>memset\<close>, and \<open>tr_append_window_reset\<close>.\<close>

definition window_zero :: append_window where
  "window_zero = \<lparr>w_items = replicate 64 inflight_zero, w_head = 0, w_count = 0, w_probe = False\<rparr>"

definition tr_append_window_reset :: "append_window \<Rightarrow> bool \<Rightarrow> append_window" where
  "tr_append_window_reset w probe = window_zero\<lparr>w_probe := probe\<rparr>"

definition window_slot :: "append_window \<Rightarrow> nat \<Rightarrow> nat" where
  "window_slot w logical_index = (w_head w + logical_index) mod TR_RAFT_MAX_INFLIGHT_APPEND_REQUESTS"

definition tr_append_window_at :: "append_window \<Rightarrow> nat \<Rightarrow> inflight" where
  "tr_append_window_at w logical_index = w_items w ! window_slot w logical_index"

definition tr_append_window_push :: "append_window \<Rightarrow> raft_index \<Rightarrow> raft_index \<Rightarrow> bool \<times> append_window" where
  "tr_append_window_push w previous_index last_index =
     (if w_count w \<ge> TR_RAFT_MAX_INFLIGHT_APPEND_REQUESTS then (False, w)
      else (True, w\<lparr>w_items := (w_items w)[window_slot w (w_count w) :=
                      \<lparr>if_previous_index = previous_index, if_last_index = last_index,
                       if_elapsed_ticks = 0\<rparr>],
                    w_count := w_count w + 1\<rparr>))"

fun window_find_loop :: "append_window \<Rightarrow> raft_index \<Rightarrow> nat list \<Rightarrow> int" where
  "window_find_loop w previous_index [] = - 1"
| "window_find_loop w previous_index (i # is) =
     (if if_previous_index (tr_append_window_at w i) = previous_index then int i
      else window_find_loop w previous_index is)"

definition tr_append_window_find :: "append_window \<Rightarrow> raft_index \<Rightarrow> int" where
  "tr_append_window_find w previous_index = window_find_loop w previous_index [0..<w_count w]"

function window_release_loop :: "append_window \<Rightarrow> raft_index \<Rightarrow> append_window" where
  "window_release_loop w match_index =
     (if w_count w = 0 then w
      else if if_last_index (tr_append_window_at w 0) > match_index then w
      else window_release_loop
             (w\<lparr>w_items := (w_items w)[w_head w := inflight_zero],
                w_head := (w_head w + 1) mod TR_RAFT_MAX_INFLIGHT_APPEND_REQUESTS,
                w_count := w_count w - 1\<rparr>) match_index)"
  by pat_completeness auto
termination
  by (relation "measure (\<lambda>(w, m). w_count w)") auto

declare window_release_loop.simps [simp del]

definition tr_append_window_release_through :: "append_window \<Rightarrow> raft_index \<Rightarrow> append_window" where
  "tr_append_window_release_through w match_index =
     (let w' = window_release_loop w match_index
      in if w_count w' = 0 then w'\<lparr>w_head := 0\<rparr> else w')"

definition tr_append_window_oldest_elapsed :: "append_window \<Rightarrow> u32" where
  "tr_append_window_oldest_elapsed w =
     (if w_count w = 0 then 0 else if_elapsed_ticks (tr_append_window_at w 0))"

text \<open>
  The ageing loop of \<open>tr_raft_core_tick\<close> over one window: adds the elapsed ticks to the requests in
  order and stops at the first one that reaches the limit, which it reports.
\<close>

fun window_age_loop :: "append_window \<Rightarrow> u32 \<Rightarrow> u32 \<Rightarrow> nat list \<Rightarrow> bool \<times> append_window" where
  "window_age_loop w elapsed limit [] = (False, w)"
| "window_age_loop w elapsed limit (i # is) =
     (let item = tr_append_window_at w i
      in if UINT32_MAX - if_elapsed_ticks item < elapsed
            \<or> if_elapsed_ticks item + elapsed \<ge> limit
         then (True, w)
         else window_age_loop
                (w\<lparr>w_items := (w_items w)[window_slot w i :=
                     item\<lparr>if_elapsed_ticks := if_elapsed_ticks item + elapsed\<rparr>]\<rparr>)
                elapsed limit is)"

definition tr_append_window_age :: "append_window \<Rightarrow> u32 \<Rightarrow> u32 \<Rightarrow> bool \<times> append_window" where
  "tr_append_window_age w elapsed limit = window_age_loop w elapsed limit [0..<w_count w]"

section \<open>Refinement to a list\<close>

definition window_wf :: "append_window \<Rightarrow> bool" where
  "window_wf w \<longleftrightarrow> length (w_items w) = 64 \<and> w_head w < 64 \<and> w_count w \<le> 64"

definition window_list :: "append_window \<Rightarrow> inflight list" where
  "window_list w = map (tr_append_window_at w) [0..<w_count w]"

text \<open>The interface of a bounded queue of requests, as the leader uses it.\<close>

locale inflight_queue =
  fixes wf :: "'q \<Rightarrow> bool"
    and contents :: "'q \<Rightarrow> inflight list"
    and push :: "'q \<Rightarrow> raft_index \<Rightarrow> raft_index \<Rightarrow> bool \<times> 'q"
    and find :: "'q \<Rightarrow> raft_index \<Rightarrow> int"
    and release :: "'q \<Rightarrow> raft_index \<Rightarrow> 'q"
    and reset :: "'q \<Rightarrow> bool \<Rightarrow> 'q"
    and cap :: nat
  assumes push_spec: "wf q \<Longrightarrow>
      wf (snd (push q p l))
      \<and> (fst (push q p l) \<longleftrightarrow> length (contents q) < cap)
      \<and> contents (snd (push q p l)) =
          (if length (contents q) < cap
           then contents q @ [\<lparr>if_previous_index = p, if_last_index = l, if_elapsed_ticks = 0\<rparr>]
           else contents q)"
    and find_spec: "wf q \<Longrightarrow>
      find q p = (if \<exists>x \<in> set (contents q). if_previous_index x = p
                  then int (length (takeWhile (\<lambda>x. if_previous_index x \<noteq> p) (contents q))) else - 1)"
    and release_spec: "wf q \<Longrightarrow>
      wf (release q m) \<and> contents (release q m) = dropWhile (\<lambda>x. if_last_index x \<le> m) (contents q)"
    and reset_spec: "wf (reset q b) \<and> contents (reset q b) = []"
    and bounded: "wf q \<Longrightarrow> length (contents q) \<le> cap"
begin

lemma find_in_range:
  assumes "wf q" and "0 \<le> find q p"
  shows "nat (find q p) < length (contents q)"
    and "if_previous_index (contents q ! nat (find q p)) = p"
proof -
  let ?P = "\<lambda>x. if_previous_index x \<noteq> p"
  from assms have ex: "\<exists>x \<in> set (contents q). if_previous_index x = p"
    and f: "nat (find q p) = length (takeWhile ?P (contents q))"
    by (auto simp: find_spec split: if_splits)
  from ex have less: "length (takeWhile ?P (contents q)) < length (contents q)"
    by (metis (mono_tags, lifting) length_takeWhile_le nat_less_le takeWhile_eq_all_conv takeWhile_eq_take take_all_iff)
  then show "nat (find q p) < length (contents q)" by (simp add: f)
  from nth_length_takeWhile [OF less] show "if_previous_index (contents q ! nat (find q p)) = p"
    by (simp add: f)
qed

lemma release_keeps_unconfirmed:
  assumes "wf q" and "x \<in> set (contents q)" and "m < if_last_index x"
  shows "x \<in> set (contents (release q m))"
proof -
  from assms(2) have "x \<in> set (takeWhile (\<lambda>x. if_last_index x \<le> m) (contents q))
      \<or> x \<in> set (dropWhile (\<lambda>x. if_last_index x \<le> m) (contents q))"
    by (metis UnE set_append takeWhile_dropWhile_id)
  with assms(3) release_spec [OF assms(1), of m] show ?thesis
    by (auto dest: set_takeWhileD)
qed

end

lemma window_slot_less [simp]: "window_slot w i < 64"
  by (simp add: window_slot_def)

lemma add_mod_64_inj:
  assumes "i \<le> j" and "j < 64" and "(h + i) mod 64 = (h + j) mod (64 :: nat)"
  shows "i = j"
proof -
  have "64 dvd (h + j) - (h + i)"
    using assms(1,3) mod_eq_dvd_iff_nat [of "h + i" "h + j" 64] by simp
  then have "64 dvd j - i" by simp
  moreover have "j - i < 64" using assms(2) by simp
  ultimately have "j - i = 0" by (meson dvd_imp_le linorder_not_le neq0_conv)
  with assms(1) show ?thesis by simp
qed

lemma window_slot_inj:
  assumes "i < 64" and "j < 64"
  shows "window_slot w i = window_slot w j \<longleftrightarrow> i = j"
proof
  assume eq: "window_slot w i = window_slot w j"
  show "i = j"
  proof (cases "i \<le> j")
    case True
    with eq assms add_mod_64_inj [of i j "w_head w"] show ?thesis by (simp add: window_slot_def)
  next
    case False
    with eq assms add_mod_64_inj [of j i "w_head w"] show ?thesis by (simp add: window_slot_def)
  qed
qed simp

lemma window_slot_cong: "w_head w' = w_head w \<Longrightarrow> window_slot w' i = window_slot w i"
  by (simp add: window_slot_def)

lemma length_window_list [simp]: "length (window_list w) = w_count w"
  by (simp add: window_list_def)

lemma window_push_wf:
  assumes "window_wf w"
  shows "window_wf (snd (tr_append_window_push w p l))"
    and "fst (tr_append_window_push w p l) \<longleftrightarrow> w_count w < 64"
    and "window_list (snd (tr_append_window_push w p l)) =
           (if w_count w < 64
            then window_list w @ [\<lparr>if_previous_index = p, if_last_index = l, if_elapsed_ticks = 0\<rparr>]
            else window_list w)"
proof -
  show "window_wf (snd (tr_append_window_push w p l))"
    and "fst (tr_append_window_push w p l) \<longleftrightarrow> w_count w < 64"
    using assms by (auto simp: window_wf_def tr_append_window_push_def)
  have len: "length (w_items w) = 64" using assms by (simp add: window_wf_def)
  let ?new = "\<lparr>if_previous_index = p, if_last_index = l, if_elapsed_ticks = 0\<rparr>"
  define w' where "w' = w\<lparr>w_items := (w_items w)[window_slot w (w_count w) := ?new],
    w_count := w_count w + 1\<rparr>"
  have slot: "window_slot w' i = window_slot w i" for i by (rule window_slot_cong) (simp add: w'_def)
  have items: "w_items w' = (w_items w)[window_slot w (w_count w) := ?new]" "w_count w' = Suc (w_count w)"
    by (simp_all add: w'_def)
  have at: "tr_append_window_at w' i = (if i = w_count w then ?new else tr_append_window_at w i)"
    if "i \<le> w_count w" "w_count w < 64" for i
    using that len by (simp add: tr_append_window_at_def slot items nth_list_update window_slot_inj)
  show "window_list (snd (tr_append_window_push w p l)) =
           (if w_count w < 64 then window_list w @ [?new] else window_list w)"
  proof (cases "w_count w < 64")
    case True
    then have "snd (tr_append_window_push w p l) = w'" by (simp add: tr_append_window_push_def w'_def)
    then show ?thesis using True at by (simp add: window_list_def items)
  qed (simp add: tr_append_window_push_def)
qed

lemma window_find_loop_eq:
  "window_find_loop w p is =
     (if \<exists>i \<in> set is. if_previous_index (tr_append_window_at w i) = p
      then int (is ! length (takeWhile (\<lambda>i. if_previous_index (tr_append_window_at w i) \<noteq> p) is)) else - 1)"
  by (induction "is") auto

lemma window_find_eq:
  "tr_append_window_find w p =
     (if \<exists>x \<in> set (window_list w). if_previous_index x = p
      then int (length (takeWhile (\<lambda>x. if_previous_index x \<noteq> p) (window_list w))) else - 1)"
proof -
  let ?P = "\<lambda>i. if_previous_index (tr_append_window_at w i) \<noteq> p"
  have "[0..<w_count w] ! length (takeWhile ?P [0..<w_count w]) = length (takeWhile ?P [0..<w_count w])"
    if "\<exists>i \<in> set [0..<w_count w]. \<not> ?P i"
  proof -
    from that have "takeWhile ?P [0..<w_count w] \<noteq> [0..<w_count w]"
      by (metis (mono_tags, lifting) takeWhile_eq_all_conv)
    then have "length (takeWhile ?P [0..<w_count w]) < w_count w"
      by (metis (no_types, lifting) diff_zero length_takeWhile_le length_upt nat_less_le takeWhile_eq_take take_all_iff)
    then show ?thesis by simp
  qed
  then show ?thesis
    by (auto simp: tr_append_window_find_def window_find_loop_eq window_list_def takeWhile_map comp_def)
qed

lemma window_pop:
  assumes "window_wf w" and "w_count w \<noteq> 0"
  defines "w' \<equiv> w\<lparr>w_items := (w_items w)[w_head w := inflight_zero],
     w_head := (w_head w + 1) mod 64, w_count := w_count w - 1\<rparr>"
  shows "window_wf w'" and "window_list w = tr_append_window_at w 0 # window_list w'"
proof -
  show "window_wf w'" using assms(1) by (auto simp: window_wf_def w'_def)
  have len: "length (w_items w) = 64" "w_head w < 64" "w_count w \<le> 64" using assms(1) by (simp_all add: window_wf_def)
  have slot: "window_slot w' i = window_slot w (Suc i)" for i
    by (simp add: w'_def window_slot_def mod_add_left_eq)
  have head: "w_head w = window_slot w 0" using len(2) by (simp add: window_slot_def)
  have "tr_append_window_at w' i = tr_append_window_at w (Suc i)" if "Suc i < w_count w" for i
  proof -
    have "window_slot w (Suc i) \<noteq> w_head w"
      unfolding head using that len(3) by (subst window_slot_inj) simp_all
    then show ?thesis using len by (simp add: tr_append_window_at_def slot) (simp add: w'_def)
  qed
  then have "map (tr_append_window_at w') [0..<w_count w - 1] = map (tr_append_window_at w) [1..<w_count w]"
    by (intro nth_equalityI) auto
  moreover have "[0..<w_count w] = 0 # [1..<w_count w]" using assms(2) by (simp add: upt_conv_Cons)
  ultimately show "window_list w = tr_append_window_at w 0 # window_list w'"
    by (simp add: window_list_def w'_def)
qed

lemma window_release_loop_eq:
  "window_wf w \<Longrightarrow> window_wf (window_release_loop w m)
     \<and> window_list (window_release_loop w m) = dropWhile (\<lambda>x. if_last_index x \<le> m) (window_list w)
     \<and> w_probe (window_release_loop w m) = w_probe w"
proof (induction w m rule: window_release_loop.induct)
  case (1 w m)
  show ?case
  proof (cases "w_count w = 0")
    case True
    with 1(2) show ?thesis by (simp add: window_release_loop.simps window_list_def)
  next
    case False
    note pop = window_pop [OF 1(2) False]
    show ?thesis
    proof (cases "if_last_index (tr_append_window_at w 0) > m")
      case True
      with False 1(2) pop(2) show ?thesis by (simp add: window_release_loop.simps)
    next
      case below: False
      with False 1(1) [OF False below pop(1)] pop(2) show ?thesis
        by (simp add: window_release_loop.simps [of w m])
    qed
  qed
qed

lemma window_release_eq:
  assumes "window_wf w"
  shows "window_wf (tr_append_window_release_through w m)"
    and "window_list (tr_append_window_release_through w m) = dropWhile (\<lambda>x. if_last_index x \<le> m) (window_list w)"
proof -
  note loop = window_release_loop_eq [OF assms, of m]
  have "window_list (w'\<lparr>w_head := 0\<rparr>) = window_list w'" if "w_count w' = 0" for w' :: append_window
    using that by (simp add: window_list_def)
  with loop show "window_list (tr_append_window_release_through w m) = dropWhile (\<lambda>x. if_last_index x \<le> m) (window_list w)"
    by (simp add: tr_append_window_release_through_def Let_def)
  from loop show "window_wf (tr_append_window_release_through w m)"
    by (simp add: tr_append_window_release_through_def Let_def window_wf_def)
qed

lemma window_reset_wf [simp]:
  "window_wf (tr_append_window_reset w b)" "window_list (tr_append_window_reset w b) = []"
  "w_count (tr_append_window_reset w b) = 0" "w_probe (tr_append_window_reset w b) = b"
  by (simp_all add: tr_append_window_reset_def window_zero_def window_wf_def window_list_def)

lemma window_zero_wf [simp]: "window_wf window_zero" "window_wf (window_zero\<lparr>w_probe := b\<rparr>)"
  by (simp_all add: window_zero_def window_wf_def)

interpretation ring: inflight_queue window_wf window_list tr_append_window_push tr_append_window_find
    tr_append_window_release_through tr_append_window_reset 64
proof unfold_locales
  fix w p l m b
  show "window_wf (tr_append_window_reset w b) \<and> window_list (tr_append_window_reset w b) = []" by simp
  assume wf: "window_wf w"
  show "window_wf (snd (tr_append_window_push w p l))
      \<and> (fst (tr_append_window_push w p l) \<longleftrightarrow> length (window_list w) < 64)
      \<and> window_list (snd (tr_append_window_push w p l)) =
          (if length (window_list w) < 64
           then window_list w @ [\<lparr>if_previous_index = p, if_last_index = l, if_elapsed_ticks = 0\<rparr>]
           else window_list w)"
    using window_push_wf [OF wf, of p l] by simp
  show "tr_append_window_find w p = (if \<exists>x \<in> set (window_list w). if_previous_index x = p
      then int (length (takeWhile (\<lambda>x. if_previous_index x \<noteq> p) (window_list w))) else - 1)"
    by (rule window_find_eq)
  show "window_wf (tr_append_window_release_through w m)
      \<and> window_list (tr_append_window_release_through w m) = dropWhile (\<lambda>x. if_last_index x \<le> m) (window_list w)"
    using window_release_eq [OF wf, of m] by simp
  show "length (window_list w) \<le> 64" using wf by (simp add: window_wf_def)
qed

lemma window_age_wf:
  assumes "window_wf w"
  shows "window_wf (snd (tr_append_window_age w e lim))"
    and "w_count (snd (tr_append_window_age w e lim)) = w_count w"
    and "w_probe (snd (tr_append_window_age w e lim)) = w_probe w"
proof -
  have "window_wf w \<longrightarrow> window_wf (snd (window_age_loop w e lim is))
      \<and> w_count (snd (window_age_loop w e lim is)) = w_count w
      \<and> w_probe (snd (window_age_loop w e lim is)) = w_probe w" for "is"
    by (induction w e lim "is" rule: window_age_loop.induct) (auto simp: Let_def window_wf_def)
  with assms show "window_wf (snd (tr_append_window_age w e lim))"
    "w_count (snd (tr_append_window_age w e lim)) = w_count w"
    "w_probe (snd (tr_append_window_age w e lim)) = w_probe w"
    by (simp_all add: tr_append_window_age_def)
qed

lemmas window_wf_intros [raft_wf] = window_push_wf(1) window_release_eq(1) window_reset_wf(1)
  window_zero_wf window_age_wf(1)

section \<open>Properties\<close>

text \<open>C25 (refinement). The ring buffer of append requests in flight refines a first-in first-out list
  of at most 64 requests. On a well-formed window: pushing appends the request, or reports a full
  window and changes nothing; searching finds the position of the first request with the given
  previous index, or \<open>-1\<close>; releasing through a match index drops exactly the longest confirmed prefix,
  so that no request with a later last index is lost; a reset empties the window; and all of them
  keep the ring invariant.\<close>

theorem append_window_refines_list:
  assumes "window_wf w"
  shows "window_wf (snd (tr_append_window_push w p l))
    \<and> (fst (tr_append_window_push w p l) \<longleftrightarrow> length (window_list w) < 64)
    \<and> window_list (snd (tr_append_window_push w p l)) =
        (if length (window_list w) < 64
         then window_list w @ [\<lparr>if_previous_index = p, if_last_index = l, if_elapsed_ticks = 0\<rparr>]
         else window_list w)
    \<and> tr_append_window_find w p =
        (if \<exists>x \<in> set (window_list w). if_previous_index x = p
         then int (length (takeWhile (\<lambda>x. if_previous_index x \<noteq> p) (window_list w))) else - 1)
    \<and> window_wf (tr_append_window_release_through w m)
    \<and> window_list (tr_append_window_release_through w m) =
        dropWhile (\<lambda>x. if_last_index x \<le> m) (window_list w)
    \<and> (\<forall>x \<in> set (window_list w). m < if_last_index x \<longrightarrow>
         x \<in> set (window_list (tr_append_window_release_through w m)))
    \<and> window_list (tr_append_window_reset w b) = [] \<and> window_wf (tr_append_window_reset w b)"
  using ring.push_spec [OF assms, of p l] ring.find_spec [OF assms, of p] ring.release_spec [OF assms, of m]
    ring.release_keeps_unconfirmed [OF assms, of _ m] by simp

theorem append_window_refines_list_witness:
  "window_wf (snd (tr_append_window_push window_zero 4 9))
   \<and> window_list (snd (tr_append_window_push window_zero 4 9))
     = [\<lparr>if_previous_index = 4, if_last_index = 9, if_elapsed_ticks = 0\<rparr>]"
proof -
  have "window_list window_zero = []" by (simp add: window_list_def window_zero_def)
  with append_window_refines_list [OF window_zero_wf(1), of 4 9] show ?thesis by simp
qed

end
