(* ===== verification/Raft_Core_State.thy ===== *)
theory Raft_Core_State
  imports Raft_Log Raft_Append_Window
begin

text \<open>
  The state of the Raft core (\<open>src/core/raft_core.c\<close> and \<open>include/turboraft/raft_core.h\<close>): messages,
  the Ready record the caller consumes, the core itself, and the helpers that look up peers, count
  them, test quorums, rebuild the peer tables after a membership change and open and close a call.
\<close>

section \<open>Data\<close>

datatype raft_role = TR_RAFT_FOLLOWER | TR_RAFT_PRE_CANDIDATE | TR_RAFT_CANDIDATE | TR_RAFT_LEADER

text \<open>\<open>TR_RAFT_MSG_OTHER\<close> stands for a value outside the enumeration, which the code handles in the
  \<open>default\<close> branch of its switches.\<close>

datatype message_type =
    TR_RAFT_MSG_PRE_VOTE_REQUEST
  | TR_RAFT_MSG_PRE_VOTE_RESPONSE
  | TR_RAFT_MSG_VOTE_REQUEST
  | TR_RAFT_MSG_VOTE_RESPONSE
  | TR_RAFT_MSG_HEARTBEAT_REQUEST
  | TR_RAFT_MSG_HEARTBEAT_RESPONSE
  | TR_RAFT_MSG_APPEND_REQUEST
  | TR_RAFT_MSG_APPEND_RESPONSE
  | TR_RAFT_MSG_TIMEOUT_NOW
  | TR_RAFT_MSG_READ_INDEX_REQUEST
  | TR_RAFT_MSG_READ_INDEX_RESPONSE
  | TR_RAFT_MSG_OTHER

text \<open>\<open>m_entries\<close> is the list of the first \<open>entry_count\<close> entries.\<close>

record message =
  m_type :: message_type
  m_from :: node_id
  m_to :: node_id
  m_term :: raft_term
  m_campaign_term :: raft_term
  m_last_log_index :: raft_index
  m_last_log_term :: raft_term
  m_leader_commit :: raft_index
  m_previous_log_index :: raft_index
  m_previous_log_term :: raft_term
  m_match_index :: raft_index
  m_reject_hint :: raft_index
  m_entries :: "entry list"
  m_granted :: bool
  m_context_id :: u64

record read_state =
  rs_context_id :: u64
  rs_index :: raft_index

record snapshot_request =
  sr_peer_id :: node_id
  sr_leader_term :: raft_term
  sr_snapshot_index :: raft_index
  sr_snapshot_term :: raft_term

text \<open>
  The caller's Ready record. The message buffer is the list of the messages written so far, whose
  length is \<open>message_count\<close>; nothing stops the list from growing past \<open>r_message_capacity\<close>, so that a
  write outside the caller's buffer is visible in the model. A pointer into the log together with
  its count is the list of the entries it covers.
\<close>

record ready =
  r_messages_null :: bool
  r_messages :: "message list"
  r_message_capacity :: nat
  r_hard_state_changed :: bool
  r_term :: raft_term
  r_voted_for :: node_id
  r_role_changed :: bool
  r_role :: raft_role
  r_log_changed :: bool
  r_log_truncate_from :: raft_index
  r_log_entries :: "entry list"
  r_log_entry_count :: nat
  r_commit_changed :: bool
  r_commit_index :: raft_index
  r_committed_entries :: "entry list"
  r_committed_entry_count :: nat
  r_read_state_ready :: bool
  r_read_state :: read_state
  r_read_states :: "read_state list"
  r_snapshot_requests :: "snapshot_request list"

record raft_core =
  c_self_id :: node_id
  c_transition :: transition
  c_peers :: peer_set
  c_self_is_voter :: bool
  c_role :: raft_role
  c_leader_id :: node_id
  c_term :: raft_term
  c_voted_for :: node_id
  c_log :: raft_log
  c_commit_index :: raft_index
  c_applied_index :: raft_index
  c_apply_admitted_index :: raft_index
  c_pending_apply_index :: raft_index
  c_campaign_term :: raft_term
  c_heartbeat_ticks :: u32
  c_election_min_ticks :: u32
  c_election_max_ticks :: u32
  c_election_timeout_ticks :: u32
  c_election_elapsed_ticks :: u32
  c_heartbeat_elapsed_ticks :: u32
  c_check_quorum_elapsed_ticks :: u32
  c_recent_active :: u32
  c_paused_peers :: u32
  c_transfer_target :: node_id
  c_transfer_elapsed_ticks :: u32
  c_transfer_sent :: bool
  c_pending_read_context_id :: u64
  c_pending_read_contexts :: "u64 list"
  c_pending_read_index :: raft_index
  c_pending_read_acks :: u32
  c_waiting_read_contexts :: "u64 list"
  c_max_pending_reads :: nat
  c_pre_votes :: u32
  c_votes :: u32
  c_next_index :: "raft_index list"
  c_match_index :: "raft_index list"
  c_append_windows :: "append_window list"
  c_max_inflight :: nat
  c_ready_outstanding :: bool
  c_in_call :: bool

record prior =
  b_role :: raft_role
  b_term :: raft_term
  b_voted_for :: node_id

section \<open>Lookups and counts\<close>

definition tr_timeout_valid :: "raft_core \<Rightarrow> u32 \<Rightarrow> bool" where
  "tr_timeout_valid core timeout \<longleftrightarrow>
     timeout \<ge> c_election_min_ticks core \<and> timeout \<le> c_election_max_ticks core"

definition tr_core_membership :: "raft_core \<Rightarrow> conf" where
  "tr_core_membership core = tr_raft_membership_transition_committed (c_transition core)"

definition tr_voter_index :: "raft_core \<Rightarrow> node_id \<Rightarrow> int" where
  "tr_voter_index core node_id =
     (let index = tr_raft_peer_set_index (c_peers core) node_id
      in if index \<ge> 0 \<and> tr_raft_membership_is_voter (tr_core_membership core) node_id then index else - 1)"

definition tr_peer_count :: "raft_core \<Rightarrow> nat" where
  "tr_peer_count core = length (c_peers core)"

text \<open>The identifier array behind the count is zero.\<close>

definition tr_peer_id :: "raft_core \<Rightarrow> nat \<Rightarrow> node_id" where
  "tr_peer_id core peer_index = (if peer_index < length (c_peers core) then c_peers core ! peer_index else 0)"

definition tr_peer_index :: "raft_core \<Rightarrow> node_id \<Rightarrow> int" where
  "tr_peer_index core node_id = tr_raft_peer_set_index (c_peers core) node_id"

definition tr_peer_index_paused :: "raft_core \<Rightarrow> nat \<Rightarrow> bool" where
  "tr_peer_index_paused core peer_index \<longleftrightarrow>
     peer_index < tr_peer_count core \<and> u32_test (c_paused_peers core) (int peer_index)"

definition tr_peer_paused :: "raft_core \<Rightarrow> node_id \<Rightarrow> bool" where
  "tr_peer_paused core node_id \<longleftrightarrow>
     (let peer_index = tr_peer_index core node_id
      in peer_index \<ge> 0 \<and> tr_peer_index_paused core (nat peer_index))"

definition tr_unpaused_remote_peer_count :: "raft_core \<Rightarrow> nat" where
  "tr_unpaused_remote_peer_count core =
     length (filter (\<lambda>i. tr_peer_id core i \<noteq> c_self_id core \<and> \<not> tr_peer_index_paused core i)
       [0..<tr_peer_count core])"

definition tr_unpaused_remote_voter_count :: "raft_core \<Rightarrow> nat" where
  "tr_unpaused_remote_voter_count core =
     length (filter (\<lambda>i. tr_peer_id core i \<noteq> c_self_id core
                        \<and> tr_raft_membership_is_voter (tr_core_membership core) (tr_peer_id core i)
                        \<and> \<not> tr_peer_index_paused core i)
       [0..<tr_peer_count core])"

definition tr_peer_set_unpaused_remote_count :: "raft_core \<Rightarrow> peer_set \<Rightarrow> nat" where
  "tr_peer_set_unpaused_remote_count core peers =
     length (filter (\<lambda>n. n \<noteq> c_self_id core \<and> \<not> tr_peer_paused core n) peers)"

definition tr_core_voter_count :: "raft_core \<Rightarrow> nat" where
  "tr_core_voter_count core =
     (let membership = tr_core_membership core
      in length (filter (\<lambda>m. tr_raft_membership_is_voter membership (cm_node_id m)) (conf_members membership)))"

definition tr_core_learner_count :: "raft_core \<Rightarrow> nat" where
  "tr_core_learner_count core =
     length (filter (\<lambda>m. cm_roles m = 4) (conf_members (tr_core_membership core)))"

text \<open>The translation of a mask over peers into a mask over the members of the configuration.\<close>

fun member_acks_loop :: "raft_core \<Rightarrow> u32 \<Rightarrow> nat \<Rightarrow> conf_member list \<Rightarrow> u32 \<Rightarrow> u32" where
  "member_acks_loop core peer_acks i [] acks = acks"
| "member_acks_loop core peer_acks i (m # ms) acks =
     (let peer_index = tr_peer_index core (cm_node_id m)
      in member_acks_loop core peer_acks (Suc i) ms
           (if peer_index \<ge> 0 \<and> u32_test peer_acks peer_index then acks OR u32_shl1 (int i) else acks))"

definition tr_core_has_quorum :: "raft_core \<Rightarrow> u32 \<Rightarrow> bool" where
  "tr_core_has_quorum core peer_acknowledgements =
     (let membership = tr_core_membership core
      in tr_raft_membership_has_quorum membership
           (member_acks_loop core peer_acknowledgements 0 (conf_members membership) 0))"

definition tr_core_match_quorum :: "raft_core \<Rightarrow> raft_index \<Rightarrow> bool" where
  "tr_core_match_quorum core candidate_index =
     (let membership = tr_core_membership core;
          matches = map (\<lambda>m. let peer_index = tr_peer_index core (cm_node_id m)
                              in if peer_index \<ge> 0 then arr_get 0 (c_match_index core) peer_index else 0)
                      (conf_members membership)
      in tr_raft_membership_match_quorum membership matches candidate_index)"

section \<open>Peer tables\<close>

definition tr_core_build_peer_set :: "transition \<Rightarrow> salts_status + peer_set" where
  "tr_core_build_peer_set t =
     tr_raft_peer_set_build (tr_raft_membership_transition_committed t # map fst (tr_pending t))"

definition refresh_mask :: "peer_set \<Rightarrow> u32 \<Rightarrow> peer_set \<Rightarrow> u32" where
  "refresh_mask old_peers old_mask peers =
     foldl (\<lambda>mask i. let old_index = tr_raft_peer_set_index old_peers (peers ! i)
                     in if old_index \<ge> 0 \<and> u32_test old_mask old_index then mask OR u32_shl1 (int i) else mask)
       0 [0..<length peers]"

definition refresh_match :: "peer_set \<Rightarrow> raft_index list \<Rightarrow> peer_set \<Rightarrow> nat \<Rightarrow> raft_index" where
  "refresh_match old_peers old_match peers i =
     (if i < length peers
      then let old_index = tr_raft_peer_set_index old_peers (peers ! i)
           in if old_index < 0 then 0 else arr_get 0 old_match old_index
      else 0)"

definition refresh_next :: "peer_set \<Rightarrow> raft_index list \<Rightarrow> raft_index \<Rightarrow> peer_set \<Rightarrow> nat \<Rightarrow> raft_index" where
  "refresh_next old_peers old_match last_index peers i =
     (if i < length peers
      then let old_index = tr_raft_peer_set_index old_peers (peers ! i)
           in if old_index < 0 then last_index + 1 else arr_get 0 old_match old_index + 1
      else 0)"

definition tr_core_refresh_peers :: "raft_core \<Rightarrow> peer_set \<Rightarrow> raft_core" where
  "tr_core_refresh_peers core next_peers =
     (let old_peers = c_peers core;
          last_index = tr_raft_log_last_index (c_log core)
      in if old_peers = next_peers then core
         else
           let core = core\<lparr>c_peers := next_peers,
                 c_next_index := map (refresh_next old_peers (c_match_index core) last_index next_peers) [0..<31],
                 c_match_index := map (refresh_match old_peers (c_match_index core) next_peers) [0..<31],
                 c_append_windows := map (\<lambda>i. window_zero\<lparr>w_probe := i < length next_peers\<rparr>) [0..<31],
                 c_recent_active := refresh_mask old_peers (c_recent_active core) next_peers,
                 c_paused_peers := refresh_mask old_peers (c_paused_peers core) next_peers\<rparr>;
               self_index = tr_peer_index core (c_self_id core)
           in if c_role core = TR_RAFT_LEADER \<and> self_index \<ge> 0
              then core\<lparr>c_match_index := arr_set (c_match_index core) self_index last_index,
                     c_next_index := arr_set (c_next_index core) self_index (last_index + 1),
                     c_append_windows := arr_set (c_append_windows core) self_index
                       (tr_append_window_reset (arr_get window_zero (c_append_windows core) self_index) False),
                     c_recent_active := c_recent_active core OR u32_shl1 self_index\<rparr>
              else core)"

section \<open>Pending reads\<close>

definition tr_read_total_count :: "raft_core \<Rightarrow> nat" where
  "tr_read_total_count core = length (c_pending_read_contexts core) + length (c_waiting_read_contexts core)"

definition tr_read_context_exists :: "raft_core \<Rightarrow> u64 \<Rightarrow> bool" where
  "tr_read_context_exists core context_id \<longleftrightarrow>
     context_id \<in> set (c_pending_read_contexts core) \<or> context_id \<in> set (c_waiting_read_contexts core)"

definition tr_read_clear_active :: "raft_core \<Rightarrow> raft_core" where
  "tr_read_clear_active core =
     core\<lparr>c_pending_read_context_id := 0, c_pending_read_index := 0, c_pending_read_acks := 0,
          c_pending_read_contexts := []\<rparr>"

definition tr_read_reset_all :: "raft_core \<Rightarrow> raft_core" where
  "tr_read_reset_all core = (tr_read_clear_active core)\<lparr>c_waiting_read_contexts := []\<rparr>"

definition tr_read_emit_active :: "raft_core \<Rightarrow> ready \<Rightarrow> raft_core \<times> ready" where
  "tr_read_emit_active core ready =
     (let states = map (\<lambda>c. \<lparr>rs_context_id = c, rs_index = c_pending_read_index core\<rparr>)
                     (c_pending_read_contexts core);
          ready = ready\<lparr>r_read_states := states\<rparr>;
          ready = (if states \<noteq> [] then ready\<lparr>r_read_state_ready := True, r_read_state := hd states\<rparr> else ready)
      in (tr_read_clear_active core, ready))"

definition tr_read_move_waiting_to_active :: "raft_core \<Rightarrow> raft_core" where
  "tr_read_move_waiting_to_active core =
     core\<lparr>c_pending_read_contexts := c_waiting_read_contexts core, c_waiting_read_contexts := []\<rparr>"

section \<open>Stepping down and membership changes\<close>

definition tr_become_follower :: "raft_core \<Rightarrow> raft_term \<Rightarrow> raft_core" where
  "tr_become_follower core trm =
     (let core = (if trm > c_term core then core\<lparr>c_term := trm, c_voted_for := 0\<rparr> else core);
          core = core\<lparr>c_role := TR_RAFT_FOLLOWER, c_leader_id := 0, c_campaign_term := 0, c_pre_votes := 0,
                   c_votes := 0, c_election_elapsed_ticks := 0, c_heartbeat_elapsed_ticks := 0,
                   c_check_quorum_elapsed_ticks := 0, c_recent_active := 0, c_transfer_target := 0,
                   c_transfer_elapsed_ticks := 0, c_transfer_sent := False\<rparr>
      in (tr_read_reset_all core)
           \<lparr>c_append_windows := map (\<lambda>w. tr_append_window_reset w True) (c_append_windows core)\<rparr>)"

definition tr_core_sync_membership :: "raft_core \<Rightarrow> salts_status \<times> raft_core" where
  "tr_core_sync_membership core =
     (case tr_core_build_peer_set (c_transition core) of
        Inl result \<Rightarrow> (result, core)
      | Inr peers \<Rightarrow>
          let core = tr_core_refresh_peers core peers;
              core = core\<lparr>c_self_is_voter :=
                       tr_raft_membership_is_voter (tr_core_membership core) (c_self_id core)\<rparr>
          in (SALTS_OK,
              if \<not> c_self_is_voter core \<and> c_role core = TR_RAFT_LEADER
              then tr_become_follower core (c_term core) else core))"

text \<open>The indices of a C loop \<open>for (i = a + 1; i <= b; ++i)\<close>. (With \<open>b = UINT64_MAX\<close> the C loop never
  ends; the log invariant excludes it whenever one more entry fits.)\<close>

definition index_range :: "raft_index \<Rightarrow> raft_index \<Rightarrow> raft_index list" where
  "index_range a b = map of_nat [Suc (unat a)..<Suc (unat b)]"

fun stage_log_entries :: "raft_log \<Rightarrow> transition \<Rightarrow> raft_index list \<Rightarrow> salts_status \<times> transition" where
  "stage_log_entries l t [] = (SALTS_OK, t)"
| "stage_log_entries l t (i # is) =
     (case tr_raft_log_get l i of
        None \<Rightarrow> stage_log_entries l t is
      | Some e \<Rightarrow>
          if \<not> tr_raft_conf_entry_is_configuration e then stage_log_entries l t is
          else case tr_raft_membership_transition_stage_entry t e of
                 (result, t') \<Rightarrow> if result \<noteq> SALTS_OK then (result, t') else stage_log_entries l t' is)"

definition tr_core_replay_membership_log :: "raft_core \<Rightarrow> salts_status \<times> raft_core" where
  "tr_core_replay_membership_log core =
     (case stage_log_entries (c_log core) (c_transition core)
             (index_range (log_base_index (c_log core)) (tr_raft_log_last_index (c_log core))) of
        (result, t) \<Rightarrow>
          if result \<noteq> SALTS_OK then (result, core\<lparr>c_transition := t\<rparr>)
          else tr_core_sync_membership
                 (core\<lparr>c_transition := tr_raft_membership_transition_apply t (c_commit_index core)\<rparr>))"

fun stage_incoming :: "raft_index \<Rightarrow> transition \<Rightarrow> entry list \<Rightarrow> salts_status \<times> transition" where
  "stage_incoming commit_index t [] = (SALTS_OK, t)"
| "stage_incoming commit_index t (e # es) =
     (if e_index e \<le> commit_index \<or> \<not> tr_raft_conf_entry_is_configuration e
      then stage_incoming commit_index t es
      else case tr_raft_membership_transition_stage_entry t e of
             (result, t') \<Rightarrow> if result \<noteq> SALTS_OK then (result, t') else stage_incoming commit_index t' es)"

definition tr_core_rebuild_pending_transition ::
    "raft_core \<Rightarrow> raft_index \<Rightarrow> entry list \<Rightarrow> salts_status \<times> transition" where
  "tr_core_rebuild_pending_transition core retained_through incoming =
     (let rebuilt = (c_transition core)\<lparr>tr_pending := []\<rparr>;
          last_index = tr_raft_log_last_index (c_log core);
          upto = (if retained_through \<le> last_index then retained_through else last_index)
      in case stage_log_entries (c_log core) rebuilt (index_range (c_commit_index core) upto) of
           (result, t) \<Rightarrow>
             if result \<noteq> SALTS_OK then (result, t)
             else stage_incoming (c_commit_index core) t incoming)"

definition tr_log_is_up_to_date :: "raft_core \<Rightarrow> message \<Rightarrow> bool" where
  "tr_log_is_up_to_date core message =
     (let last_term = tr_raft_log_last_term (c_log core)
      in if m_last_log_term message \<noteq> last_term then m_last_log_term message > last_term
         else m_last_log_index message \<ge> tr_raft_log_last_index (c_log core))"

section \<open>Opening and closing a call\<close>

definition read_state_zero :: read_state where
  "read_state_zero = \<lparr>rs_context_id = 0, rs_index = 0\<rparr>"

definition tr_reset_ready :: "ready \<Rightarrow> ready" where
  "tr_reset_ready ready =
     \<lparr>r_messages_null = r_messages_null ready, r_messages = [], r_message_capacity = r_message_capacity ready,
      r_hard_state_changed = False, r_term = 0, r_voted_for = 0, r_role_changed = False,
      r_role = TR_RAFT_FOLLOWER, r_log_changed = False, r_log_truncate_from = 0, r_log_entries = [],
      r_log_entry_count = 0, r_commit_changed = False, r_commit_index = 0, r_committed_entries = [],
      r_committed_entry_count = 0, r_read_state_ready = False, r_read_state = read_state_zero,
      r_read_states = [], r_snapshot_requests = []\<rparr>"

definition tr_begin :: "raft_core \<Rightarrow> ready \<Rightarrow> salts_status \<times> raft_core \<times> ready \<times> prior" where
  "tr_begin core ready =
     (let prior = \<lparr>b_role = c_role core, b_term = c_term core, b_voted_for = c_voted_for core\<rparr>
      in if r_message_capacity ready \<noteq> 0 \<and> r_messages_null ready then (SALTS_EINVAL, core, ready, prior)
         else if c_in_call core \<or> c_ready_outstanding core then (SALTS_EPROTO, core, ready, prior)
         else (SALTS_OK, core\<lparr>c_in_call := True\<rparr>, tr_reset_ready ready, prior))"

definition tr_require_capacity ::
    "raft_core \<Rightarrow> ready \<Rightarrow> nat \<Rightarrow> salts_status \<times> raft_core \<times> ready" where
  "tr_require_capacity core ready required =
     (if required \<le> r_message_capacity ready then (SALTS_OK, core, ready)
      else (SALTS_ENOSPC, core\<lparr>c_in_call := False\<rparr>, tr_reset_ready ready))"

definition log_slice :: "raft_log \<Rightarrow> raft_index \<Rightarrow> nat \<Rightarrow> entry list" where
  "log_slice l index n =
     (case tr_raft_log_get l index of
        None \<Rightarrow> []
      | Some e \<Rightarrow> take n (drop (unat (index - log_base_index l - 1)) (log_entries l)))"

definition tr_finish :: "raft_core \<Rightarrow> ready \<Rightarrow> prior \<Rightarrow> salts_status \<times> raft_core \<times> ready" where
  "tr_finish core ready prior =
     (let (core, ready) =
            (if c_commit_index core > c_apply_admitted_index core
             then let n = unat (c_commit_index core - c_apply_admitted_index core)
                  in (core\<lparr>c_pending_apply_index := c_commit_index core\<rparr>,
                      ready\<lparr>r_committed_entries := log_slice (c_log core) (c_apply_admitted_index core + 1) n,
                            r_committed_entry_count := n\<rparr>)
             else (core, ready));
          ready = ready\<lparr>r_hard_state_changed := (b_term prior \<noteq> c_term core \<or> b_voted_for prior \<noteq> c_voted_for core),
                        r_term := c_term core, r_voted_for := c_voted_for core,
                        r_role_changed := (b_role prior \<noteq> c_role core), r_role := c_role core\<rparr>;
          outstanding = (r_messages ready \<noteq> [] \<or> r_hard_state_changed ready \<or> r_role_changed ready
                         \<or> r_log_changed ready \<or> r_commit_changed ready
                         \<or> r_committed_entry_count ready \<noteq> 0 \<or> r_read_states ready \<noteq> []
                         \<or> r_snapshot_requests ready \<noteq> [])
      in (SALTS_OK, core\<lparr>c_ready_outstanding := outstanding, c_in_call := False\<rparr>, ready))"

definition tr_emit :: "raft_core \<Rightarrow> ready \<Rightarrow> message_type \<Rightarrow> node_id \<Rightarrow> bool \<Rightarrow> bool \<times> ready" where
  "tr_emit core ready type to granted =
     (if tr_peer_paused core to then (False, ready)
      else (True, ready\<lparr>r_messages := r_messages ready @
              [\<lparr>m_type = type, m_from = c_self_id core, m_to = to, m_term = c_term core,
                m_campaign_term = c_campaign_term core,
                m_last_log_index = tr_raft_log_last_index (c_log core),
                m_last_log_term = tr_raft_log_last_term (c_log core),
                m_leader_commit = 0, m_previous_log_index = 0, m_previous_log_term = 0, m_match_index = 0,
                m_reject_hint = 0, m_entries = [], m_granted = granted, m_context_id = 0\<rparr>]\<rparr>))"

text \<open>A write to \<open>ready->messages[ready->message_count - 1]\<close> after an emission.\<close>

definition update_last_message :: "(message \<Rightarrow> message) \<Rightarrow> ready \<Rightarrow> ready" where
  "update_last_message f ready =
     ready\<lparr>r_messages := butlast (r_messages ready) @ [f (last (r_messages ready))]\<rparr>"

end
