(* ===== verification/Raft_Core_Replication.thy ===== *)
theory Raft_Core_Replication
  imports Raft_Core_State
begin

text \<open>
  Message emission of the Raft core (\<open>src/core/raft_core.c\<close>): snapshot requests, broadcasts, append
  and heartbeat requests to one peer, and the two loops that fill the append windows. The lemmas
  show what a replication message carries, that the loops end, and how many messages every
  operation may write.
\<close>

section \<open>Operations\<close>

definition tr_emit_snapshot_request :: "raft_core \<Rightarrow> ready \<Rightarrow> nat \<Rightarrow> ready" where
  "tr_emit_snapshot_request core ready peer_index =
     (let peer_id = tr_peer_id core peer_index
      in if tr_peer_index_paused core peer_index then ready
         else if list_ex (\<lambda>r. sr_peer_id r = peer_id) (r_snapshot_requests ready) then ready
         else ready\<lparr>r_snapshot_requests := r_snapshot_requests ready @
                [\<lparr>sr_peer_id = peer_id, sr_leader_term = c_term core,
                  sr_snapshot_index = log_base_index (c_log core),
                  sr_snapshot_term = log_base_term (c_log core)\<rparr>]\<rparr>)"

definition tr_broadcast :: "raft_core \<Rightarrow> ready \<Rightarrow> message_type \<Rightarrow> ready" where
  "tr_broadcast core ready type =
     foldl (\<lambda>ready i.
       let node_id = tr_peer_id core i
       in if node_id \<noteq> c_self_id core \<and> tr_raft_membership_is_voter (tr_core_membership core) node_id
          then snd (tr_emit core ready type node_id False) else ready)
     ready [0..<tr_peer_count core]"

definition tr_broadcast_read_index :: "raft_core \<Rightarrow> ready \<Rightarrow> u64 \<Rightarrow> ready" where
  "tr_broadcast_read_index core ready context_id =
     foldl (\<lambda>ready i.
       let node_id = tr_peer_id core i
       in if node_id \<noteq> c_self_id core \<and> tr_raft_membership_is_voter (tr_core_membership core) node_id
          then case tr_emit core ready TR_RAFT_MSG_READ_INDEX_REQUEST node_id False of
                 (True, ready) \<Rightarrow> update_last_message (\<lambda>m. m\<lparr>m_context_id := context_id\<rparr>) ready
               | (False, ready) \<Rightarrow> ready
          else ready)
     ready [0..<tr_peer_count core]"

text \<open>The entry behind a pointer that the code reads without a check; \<open>replication_message_ok\<close> shows
  that the pointer is never null.\<close>

definition entry_at :: "raft_log \<Rightarrow> raft_index \<Rightarrow> entry" where
  "entry_at l i = (case tr_raft_log_get l i of Some e \<Rightarrow> e | None \<Rightarrow> zero_entry)"

definition tr_emit_replication :: "raft_core \<Rightarrow> ready \<Rightarrow> nat \<Rightarrow> bool \<Rightarrow> bool \<times> raft_core \<times> ready" where
  "tr_emit_replication core ready peer_index allow_heartbeat =
     (let window = arr_get window_zero (c_append_windows core) (int peer_index);
          next_index = arr_get 0 (c_next_index core) (int peer_index);
          last_index = tr_raft_log_last_index (c_log core);
          window_limit = (if w_probe window then TR_RAFT_DEFAULT_MAX_INFLIGHT_APPEND_REQUESTS
                          else c_max_inflight core)
      in if tr_peer_index_paused core peer_index then (False, core, ready)
         else if next_index \<le> log_base_index (c_log core)
         then (True,
               core\<lparr>c_append_windows := arr_set (c_append_windows core) (int peer_index)
                      (tr_append_window_reset window True)\<rparr>,
               tr_emit_snapshot_request core ready peer_index)
         else if next_index \<le> last_index
                 \<and> (w_count window \<ge> window_limit \<or> length (r_messages ready) \<ge> r_message_capacity ready)
         then (False, core, ready)
         else if \<not> next_index \<le> last_index
                 \<and> (\<not> allow_heartbeat \<or> length (r_messages ready) \<ge> r_message_capacity ready)
         then (False, core, ready)
         else
           let entry_count = (if next_index \<le> last_index
                              then min (unat (last_index - next_index + 1)) TR_RAFT_MAX_APPEND_ENTRIES else 0);
               type = (if next_index \<le> last_index then TR_RAFT_MSG_APPEND_REQUEST
                       else TR_RAFT_MSG_HEARTBEAT_REQUEST)
           in case tr_emit core ready type (tr_peer_id core peer_index) False of
                (False, ready) \<Rightarrow> (False, core, ready)
              | (True, ready) \<Rightarrow>
                  let previous_term =
                        (if next_index - 1 = log_base_index (c_log core) then log_base_term (c_log core)
                         else case tr_raft_log_get (c_log core) (next_index - 1) of
                                None \<Rightarrow> 0 | Some previous \<Rightarrow> e_term previous);
                      entries = map (\<lambda>i. entry_at (c_log core) (next_index + of_nat i)) [0..<entry_count];
                      ready = update_last_message
                        (\<lambda>m. m\<lparr>m_previous_log_index := next_index - 1,
                               m_previous_log_term := previous_term,
                               m_leader_commit := c_commit_index core, m_entries := entries\<rparr>) ready
                  in if entry_count = 0 then (True, core, ready)
                     else case tr_append_window_push window (next_index - 1)
                                 (next_index + of_nat entry_count - 1) of
                            (False, window) \<Rightarrow>
                              (False, core, ready\<lparr>r_messages := butlast (r_messages ready)\<rparr>)
                          | (True, window) \<Rightarrow>
                              (True,
                               core\<lparr>c_append_windows := arr_set (c_append_windows core) (int peer_index) window,
                                    c_next_index := arr_set (c_next_index core) (int peer_index)
                                      (next_index + of_nat entry_count)\<rparr>,
                               ready))"

definition tr_broadcast_replication :: "raft_core \<Rightarrow> ready \<Rightarrow> raft_core \<times> ready" where
  "tr_broadcast_replication core ready =
     foldl (\<lambda>(core, ready) i.
       if tr_peer_id core i \<noteq> c_self_id core
       then snd (tr_emit_replication core ready i True) else (core, ready))
     (core, ready) [0..<tr_peer_count core]"

text \<open>The round of \<open>tr_fill_replication_windows\<close> over the peers; the flag tells whether a request was
  written.\<close>

definition fill_round_peer :: "bool \<times> raft_core \<times> ready \<Rightarrow> nat \<Rightarrow> bool \<times> raft_core \<times> ready" where
  "fill_round_peer = (\<lambda>(emitted, core, ready) i.
       if length (r_messages ready) < r_message_capacity ready
          \<and> \<not> (tr_peer_id core i = c_self_id core
               \<or> arr_get 0 (c_next_index core) (int i) \<le> log_base_index (c_log core)
               \<or> arr_get 0 (c_next_index core) (int i) > tr_raft_log_last_index (c_log core))
       then case tr_emit_replication core ready i False of
              (e, core, ready) \<Rightarrow> (e \<or> emitted, core, ready)
       else (emitted, core, ready))"

definition fill_round :: "raft_core \<Rightarrow> ready \<Rightarrow> bool \<times> raft_core \<times> ready" where
  "fill_round core ready = foldl fill_round_peer (False, core, ready) [0..<tr_peer_count core]"

section \<open>One replication message\<close>

text \<open>The append or heartbeat request \<open>tr_emit_replication\<close> writes for a peer.\<close>

definition replication_message :: "raft_core \<Rightarrow> nat \<Rightarrow> raft_index \<Rightarrow> nat \<Rightarrow> message" where
  "replication_message core peer_index next_index n =
     \<lparr>m_type = (if n = 0 then TR_RAFT_MSG_HEARTBEAT_REQUEST else TR_RAFT_MSG_APPEND_REQUEST),
      m_from = c_self_id core, m_to = tr_peer_id core peer_index, m_term = c_term core,
      m_campaign_term = c_campaign_term core,
      m_last_log_index = tr_raft_log_last_index (c_log core),
      m_last_log_term = tr_raft_log_last_term (c_log core),
      m_leader_commit = c_commit_index core, m_previous_log_index = next_index - 1,
      m_previous_log_term =
        (if next_index - 1 = log_base_index (c_log core) then log_base_term (c_log core)
         else case tr_raft_log_get (c_log core) (next_index - 1) of
                None \<Rightarrow> 0 | Some previous \<Rightarrow> e_term previous),
      m_match_index = 0, m_reject_hint = 0,
      m_entries = map (\<lambda>i. entry_at (c_log core) (next_index + of_nat i)) [0..<n],
      m_granted = False, m_context_id = 0\<rparr>"

definition peer_next :: "raft_core \<Rightarrow> nat \<Rightarrow> raft_index" where
  "peer_next core i = arr_get 0 (c_next_index core) (int i)"

definition peer_window :: "raft_core \<Rightarrow> nat \<Rightarrow> append_window" where
  "peer_window core i = arr_get window_zero (c_append_windows core) (int i)"

definition replication_count :: "raft_core \<Rightarrow> nat \<Rightarrow> nat" where
  "replication_count core i =
     (if peer_next core i \<le> tr_raft_log_last_index (c_log core)
      then min (unat (tr_raft_log_last_index (c_log core) - peer_next core i + 1)) 8 else 0)"

lemma update_last_snoc [simp]:
  "update_last_message f (rd\<lparr>r_messages := ms @ [m]\<rparr>) = rd\<lparr>r_messages := ms @ [f m]\<rparr>"
  by (simp add: update_last_message_def)

lemma emit_cases:
  "tr_emit core rd type to granted = (b, rd') \<Longrightarrow>
     (\<not> b \<and> rd' = rd \<and> tr_peer_paused core to)
     \<or> (b \<and> \<not> tr_peer_paused core to \<and> (\<exists>m. rd' = rd\<lparr>r_messages := r_messages rd @ [m]\<rparr>
          \<and> m_type m = type \<and> m_to m = to \<and> m_term m = c_term core \<and> m_granted m = granted
          \<and> m_from m = c_self_id core \<and> m_campaign_term m = c_campaign_term core))"
  by (auto simp: tr_emit_def split: if_splits)

lemma replication_count_pos:
  assumes "base < peer_next core i" and "peer_next core i \<le> tr_raft_log_last_index (c_log core)"
  shows "0 < replication_count core i"
    and "replication_count core i
      = min (unat (tr_raft_log_last_index (c_log core)) - unat (peer_next core i) + 1) 8"
proof -
  let ?d = "tr_raft_log_last_index (c_log core) - peer_next core i"
  have d: "unat ?d = unat (tr_raft_log_last_index (c_log core)) - unat (peer_next core i)"
    using assms(2) by (rule unat_minus_le)
  have "unat (peer_next core i) \<noteq> 0" using assms(1) by (simp add: u64_less_unat)
  moreover have "unat (tr_raft_log_last_index (c_log core)) < 18446744073709551616"
    using unat_u64_less [of "tr_raft_log_last_index (c_log core)"] by simp
  ultimately have "unat ?d < 18446744073709551615" using d by linarith
  then have "?d \<noteq> UINT64_MAX" by (auto simp: unat_UINT64_MAX)
  from unat_plus_1 [OF this] d assms(2)
  show "replication_count core i
      = min (unat (tr_raft_log_last_index (c_log core)) - unat (peer_next core i) + 1) 8"
    by (simp add: replication_count_def)
  then show "0 < replication_count core i" by simp
qed


lemma emit_replication_eq:
  "tr_emit_replication core rd i ah =
     (if tr_peer_index_paused core i then (False, core, rd)
      else if peer_next core i \<le> log_base_index (c_log core)
      then (True, core\<lparr>c_append_windows := arr_set (c_append_windows core) (int i)
                         (tr_append_window_reset (peer_window core i) True)\<rparr>,
            tr_emit_snapshot_request core rd i)
      else if length (r_messages rd) \<ge> r_message_capacity rd then (False, core, rd)
      else if peer_next core i \<le> tr_raft_log_last_index (c_log core)
      then if w_count (peer_window core i) \<ge> (if w_probe (peer_window core i) then 1 else c_max_inflight core)
              \<or> tr_peer_paused core (tr_peer_id core i)
              \<or> \<not> fst (tr_append_window_push (peer_window core i) (peer_next core i - 1)
                      (peer_next core i + of_nat (replication_count core i) - 1))
           then (False, core, rd)
           else (True,
                 core\<lparr>c_append_windows := arr_set (c_append_windows core) (int i)
                        (snd (tr_append_window_push (peer_window core i) (peer_next core i - 1)
                           (peer_next core i + of_nat (replication_count core i) - 1))),
                      c_next_index := arr_set (c_next_index core) (int i)
                        (peer_next core i + of_nat (replication_count core i))\<rparr>,
                 rd\<lparr>r_messages := r_messages rd
                      @ [replication_message core i (peer_next core i) (replication_count core i)]\<rparr>)
      else if ah \<and> \<not> tr_peer_paused core (tr_peer_id core i)
      then (True, core,
            rd\<lparr>r_messages := r_messages rd @ [replication_message core i (peer_next core i) 0]\<rparr>)
      else (False, core, rd))"
proof (cases "tr_peer_index_paused core i \<or> peer_next core i \<le> log_base_index (c_log core)
    \<or> length (r_messages rd) \<ge> r_message_capacity rd \<or> tr_peer_paused core (tr_peer_id core i)")
  case True
  then show ?thesis
    unfolding tr_emit_replication_def Let_def peer_next_def [symmetric] peer_window_def [symmetric]
    by (elim disjE) (simp_all add: tr_emit_def)
next
  case False
  show ?thesis
  proof (cases "peer_next core i \<le> tr_raft_log_last_index (c_log core)")
    case outside: False
    with False show ?thesis
      unfolding tr_emit_replication_def Let_def peer_next_def [symmetric] peer_window_def [symmetric]
      by (simp add: tr_emit_def replication_message_def)
  next
    case True
    with False replication_count_pos(1) [of "log_base_index (c_log core)" core i]
    have pos: "0 < replication_count core i" by (auto simp: not_le)
    have count: "min (unat (tr_raft_log_last_index (c_log core) - peer_next core i + 1)) 8
        = replication_count core i" using True by (simp add: replication_count_def)
    obtain ok w where push: "tr_append_window_push (peer_window core i) (peer_next core i - 1)
        (peer_next core i + of_nat (replication_count core i) - 1) = (ok, w)" by fastforce
    show ?thesis
      unfolding tr_emit_replication_def Let_def peer_next_def [symmetric] peer_window_def [symmetric]
      using False True count pos push
      by (cases ok) (simp_all add: tr_emit_def replication_message_def)
  qed
qed

section \<open>Filling the windows\<close>

text \<open>The messages an emission adds, and that it never writes behind the capacity.\<close>

lemma snapshot_request_messages [simp]:
  "r_messages (tr_emit_snapshot_request core rd i) = r_messages rd"
  "r_message_capacity (tr_emit_snapshot_request core rd i) = r_message_capacity rd"
  by (simp_all add: tr_emit_snapshot_request_def Let_def)

lemma emit_replication_length:
  assumes "tr_emit_replication core rd i ah = (b, core', rd')"
  shows "r_message_capacity rd' = r_message_capacity rd"
    and "length (r_messages rd') = length (r_messages rd)
           + (if b \<and> log_base_index (c_log core) < peer_next core i then 1 else 0)"
    and "length (r_messages rd) \<le> length (r_messages rd')"
    and "length (r_messages rd) \<le> r_message_capacity rd \<Longrightarrow> length (r_messages rd') \<le> r_message_capacity rd"
  using assms unfolding emit_replication_eq by (auto split: if_splits)

lemma fill_round_length:
  assumes "fill_round core rd = (b, core', rd')"
  shows "r_message_capacity rd' = r_message_capacity rd"
    and "b \<Longrightarrow> length (r_messages rd) < length (r_messages rd')"
    and "length (r_messages rd) \<le> r_message_capacity rd \<Longrightarrow> length (r_messages rd') \<le> r_message_capacity rd"
proof -
  define f where "f = fill_round_peer"
  note f_def = f_def [unfolded fill_round_peer_def]
  have step: "r_message_capacity rd2 = r_message_capacity rd1
      \<and> length (r_messages rd1) + (if b2 \<and> \<not> b1 then 1 else 0) \<le> length (r_messages rd2)
      \<and> (length (r_messages rd1) \<le> r_message_capacity rd1 \<longrightarrow> length (r_messages rd2) \<le> r_message_capacity rd1)
      \<and> (b1 \<longrightarrow> b2)"
    if step1: "f (b1, core1, rd1) i = (b2, core2, rd2)" for b1 core1 rd1 i b2 core2 rd2
  proof (cases "length (r_messages rd1) < r_message_capacity rd1
          \<and> \<not> (tr_peer_id core1 i = c_self_id core1
               \<or> peer_next core1 i \<le> log_base_index (c_log core1)
               \<or> peer_next core1 i > tr_raft_log_last_index (c_log core1))")
    case False
    with step1 show ?thesis by (auto simp: f_def peer_next_def split: if_splits)
  next
    case True
    obtain e c r where em: "tr_emit_replication core1 rd1 i False = (e, c, r)" by (cases "tr_emit_replication core1 rd1 i False")
    with True step1 have "b2 = (e \<or> b1)" "rd2 = r" by (auto simp: f_def peer_next_def)
    with emit_replication_length [OF em] True show ?thesis by auto
  qed
  have all: "\<lbrakk>foldl f (b1, core1, rd1) is = (b2, core2, rd2)\<rbrakk> \<Longrightarrow>
      r_message_capacity rd2 = r_message_capacity rd1
      \<and> length (r_messages rd1) + (if b2 \<and> \<not> b1 then 1 else 0) \<le> length (r_messages rd2)
      \<and> (length (r_messages rd1) \<le> r_message_capacity rd1 \<longrightarrow> length (r_messages rd2) \<le> r_message_capacity rd1)
      \<and> (b1 \<longrightarrow> b2)" for b1 core1 rd1 b2 core2 rd2 "is"
  proof (induction "is" arbitrary: b1 core1 rd1)
    case (Cons i "is")
    obtain b3 core3 rd3 where s3: "f (b1, core1, rd1) i = (b3, core3, rd3)" by (cases "f (b1, core1, rd1) i")
    have "foldl f (b3, core3, rd3) is = (b2, core2, rd2)" using Cons.prems s3 by simp
    from Cons.IH [OF this] step [OF s3] show ?case by (cases b1; cases b2; cases b3; simp)
  qed simp
  have "foldl f (False, core, rd) [0..<tr_peer_count core] = (b, core', rd')"
    using assms by (simp add: fill_round_def f_def fill_round_peer_def)
  from all [OF this] show "r_message_capacity rd' = r_message_capacity rd"
    "b \<Longrightarrow> length (r_messages rd) < length (r_messages rd')"
    "length (r_messages rd) \<le> r_message_capacity rd \<Longrightarrow> length (r_messages rd') \<le> r_message_capacity rd"
    by auto
qed

lemma fill_round_less:
  assumes "fill_round core rd = (b, core', rd')" and "b" and "length (r_messages rd') < r_message_capacity rd'"
  shows "r_message_capacity rd' - length (r_messages rd') < r_message_capacity rd - length (r_messages rd)"
  using fill_round_length(1,2) [OF assms(1)] assms(2,3) by simp

function fill_loop :: "raft_core \<Rightarrow> ready \<Rightarrow> raft_core \<times> ready" where
  "fill_loop core ready =
     (case fill_round core ready of
        (emitted, core', ready') \<Rightarrow>
          if emitted \<and> length (r_messages ready') < r_message_capacity ready'
          then fill_loop core' ready' else (core', ready'))"
  by pat_completeness auto
termination
  by (relation "measure (\<lambda>(core, ready). r_message_capacity ready - length (r_messages ready))")
     (auto dest!: fill_round_less [OF sym])

declare fill_loop.simps [simp del]

definition tr_fill_replication_windows :: "raft_core \<Rightarrow> ready \<Rightarrow> raft_core \<times> ready" where
  "tr_fill_replication_windows core ready =
     (if c_role core \<noteq> TR_RAFT_LEADER then (core, ready)
      else
        let (core, ready) =
              foldl (\<lambda>(core, ready) i.
                if tr_peer_id core i \<noteq> c_self_id core
                   \<and> arr_get 0 (c_next_index core) (int i) \<le> log_base_index (c_log core)
                then snd (tr_emit_replication core ready i False) else (core, ready))
              (core, ready) [0..<tr_peer_count core]
        in fill_loop core ready)"

lemma emit_replication_less:
  assumes "tr_emit_replication core rd i ah = (True, core', rd')"
    and "length (r_messages rd) < r_message_capacity rd"
    and "log_base_index (c_log core) < arr_get 0 (c_next_index core) (int i)"
  shows "r_message_capacity rd' - length (r_messages rd') < r_message_capacity rd - length (r_messages rd)"
  using emit_replication_length(1,2) [OF assms(1)] assms(2,3) by (simp add: peer_next_def)

text \<open>The loop of \<open>tr_fill_peer_replication_window\<close>. It is entered with a next index behind the base, and
  every round moves it forward; the test against the base only matters when the next index wraps
  around after \<open>UINT64_MAX\<close>, where the C loop would not end.\<close>

function fill_peer_loop :: "raft_core \<Rightarrow> ready \<Rightarrow> nat \<Rightarrow> raft_core \<times> ready" where
  "fill_peer_loop core ready peer_index =
     (if length (r_messages ready) < r_message_capacity ready
         \<and> arr_get 0 (c_next_index core) (int peer_index) \<le> tr_raft_log_last_index (c_log core)
         \<and> arr_get 0 (c_next_index core) (int peer_index) > log_base_index (c_log core)
      then case tr_emit_replication core ready peer_index False of
             (True, core', ready') \<Rightarrow> fill_peer_loop core' ready' peer_index
           | (False, core', ready') \<Rightarrow> (core', ready')
      else (core, ready))"
  by pat_completeness auto
termination
  by (relation "measure (\<lambda>(core, ready, i). r_message_capacity ready - length (r_messages ready))")
     (auto dest!: emit_replication_less [OF sym])

declare fill_peer_loop.simps [simp del]

definition tr_fill_peer_replication_window :: "raft_core \<Rightarrow> ready \<Rightarrow> nat \<Rightarrow> raft_core \<times> ready" where
  "tr_fill_peer_replication_window core ready peer_index =
     (if arr_get 0 (c_next_index core) (int peer_index) \<le> log_base_index (c_log core)
      then snd (tr_emit_replication core ready peer_index False)
      else fill_peer_loop core ready peer_index)"

end
