(* ===== verification/Raft_Core_Election.thy ===== *)
theory Raft_Core_Election
  imports Raft_Core_Replication
begin

text \<open>
  Elections and read barriers of the Raft core (\<open>src/core/raft_core.c\<close>): becoming leader, starting an
  election or a pre-vote, the handlers of the four vote messages, of the timeout-now message and of
  the read-index messages.
\<close>

section \<open>Reads and leadership\<close>

definition tr_read_start_active_barrier :: "raft_core \<Rightarrow> ready \<Rightarrow> raft_core \<times> ready" where
  "tr_read_start_active_barrier core ready =
     (let self_index = tr_voter_index core (c_self_id core);
          core = core\<lparr>c_pending_read_context_id :=
                        (case c_pending_read_contexts core of [] \<Rightarrow> 0 | c # cs \<Rightarrow> c),
                      c_pending_read_index := c_commit_index core,
                      c_pending_read_acks := u32_shl1 self_index\<rparr>
      in if tr_core_has_quorum core (c_pending_read_acks core) then tr_read_emit_active core ready
         else (core, tr_broadcast_read_index core ready (c_pending_read_context_id core)))"

text \<open>The state of a new leader before it sends its first messages.\<close>

definition leader_state :: "raft_core \<Rightarrow> raft_core" where
  "leader_state core =
     (let next_index = tr_raft_log_last_index (c_log core) + 1;
          self_index = tr_voter_index core (c_self_id core);
          count = tr_peer_count core;
          core = core\<lparr>c_role := TR_RAFT_LEADER, c_leader_id := c_self_id core, c_campaign_term := 0,
                      c_pre_votes := 0, c_votes := 0, c_election_elapsed_ticks := 0,
                      c_heartbeat_elapsed_ticks := 0, c_check_quorum_elapsed_ticks := 0,
                      c_recent_active := u32_shl1 self_index, c_transfer_target := 0,
                      c_transfer_elapsed_ticks := 0, c_transfer_sent := False\<rparr>;
          core = tr_read_reset_all core;
          windows = map (\<lambda>i. if i < count then tr_append_window_reset (c_append_windows core ! i) True
                             else c_append_windows core ! i) [0..<length (c_append_windows core)];
          nexts = map (\<lambda>i. if i < count then next_index else c_next_index core ! i)
                    [0..<length (c_next_index core)];
          matches = map (\<lambda>i. if i < count then 0 else c_match_index core ! i)
                      [0..<length (c_match_index core)];
          core = core\<lparr>c_append_windows := arr_set windows self_index
                        ((arr_get window_zero windows self_index)\<lparr>w_probe := False\<rparr>),
                      c_next_index := nexts,
                      c_match_index := arr_set matches self_index (next_index - 1)\<rparr>
      in core)"

definition tr_become_leader :: "raft_core \<Rightarrow> ready \<Rightarrow> raft_core \<times> ready" where
  "tr_become_leader core ready = tr_broadcast_replication (leader_state core) ready"

definition tr_start_election :: "raft_core \<Rightarrow> ready \<Rightarrow> raft_core \<times> ready" where
  "tr_start_election core ready =
     (let self_index = tr_voter_index core (c_self_id core);
          core = core\<lparr>c_term := c_campaign_term core, c_campaign_term := 0, c_role := TR_RAFT_CANDIDATE,
                      c_leader_id := 0, c_voted_for := c_self_id core, c_pre_votes := 0,
                      c_votes := u32_shl1 self_index\<rparr>
      in if tr_core_has_quorum core (c_votes core) then tr_become_leader core ready
         else (core, tr_broadcast core ready TR_RAFT_MSG_VOTE_REQUEST))"

definition tr_start_pre_vote :: "raft_core \<Rightarrow> ready \<Rightarrow> raft_core \<times> ready" where
  "tr_start_pre_vote core ready =
     (let self_index = tr_voter_index core (c_self_id core);
          core = core\<lparr>c_role := TR_RAFT_PRE_CANDIDATE, c_leader_id := 0,
                      c_campaign_term := c_term core + 1, c_pre_votes := u32_shl1 self_index,
                      c_votes := 0\<rparr>
      in if tr_core_has_quorum core (c_pre_votes core) then tr_start_election core ready
         else (core, tr_broadcast core ready TR_RAFT_MSG_PRE_VOTE_REQUEST))"

section \<open>Votes\<close>

definition tr_will_pre_vote_win :: "raft_core \<Rightarrow> message \<Rightarrow> int \<Rightarrow> bool" where
  "tr_will_pre_vote_win core message voter_index \<longleftrightarrow>
     (let bit = u32_shl1 voter_index
      in c_role core = TR_RAFT_PRE_CANDIDATE \<and> m_term message \<le> c_term core
         \<and> m_campaign_term message = c_campaign_term core \<and> m_granted message
         \<and> c_pre_votes core AND bit = 0 \<and> tr_core_has_quorum core (c_pre_votes core OR bit))"

definition tr_will_vote_win :: "raft_core \<Rightarrow> message \<Rightarrow> int \<Rightarrow> bool" where
  "tr_will_vote_win core message voter_index \<longleftrightarrow>
     (let bit = u32_shl1 voter_index
      in c_role core = TR_RAFT_CANDIDATE \<and> m_term message = c_term core \<and> m_granted message
         \<and> c_votes core AND bit = 0 \<and> tr_core_has_quorum core (c_votes core OR bit))"

definition tr_step_pre_vote_request :: "raft_core \<Rightarrow> message \<Rightarrow> ready \<Rightarrow> raft_core \<times> ready" where
  "tr_step_pre_vote_request core request ready =
     (let term_available = (c_term core \<noteq> UINT64_MAX \<and> m_campaign_term request \<ge> c_term core + 1);
          granted = (c_self_is_voter core \<and> term_available \<and> tr_log_is_up_to_date core request);
          core = core\<lparr>c_campaign_term := m_campaign_term request\<rparr>;
          (sent, ready) = tr_emit core ready TR_RAFT_MSG_PRE_VOTE_RESPONSE (m_from request) granted
      in (core\<lparr>c_campaign_term := 0\<rparr>, ready))"

definition tr_step_pre_vote_response :: "raft_core \<Rightarrow> message \<Rightarrow> ready \<Rightarrow> int \<Rightarrow> raft_core \<times> ready" where
  "tr_step_pre_vote_response core response ready voter_index =
     (let bit = u32_shl1 voter_index
      in if m_term response > c_term core then (tr_become_follower core (m_term response), ready)
         else if c_role core \<noteq> TR_RAFT_PRE_CANDIDATE \<or> m_campaign_term response \<noteq> c_campaign_term core
                 \<or> \<not> m_granted response \<or> c_pre_votes core AND bit \<noteq> 0
         then (core, ready)
         else
           let core = core\<lparr>c_pre_votes := c_pre_votes core OR bit\<rparr>
           in if tr_core_has_quorum core (c_pre_votes core) then tr_start_election core ready
              else (core, ready))"

definition tr_step_vote_request :: "raft_core \<Rightarrow> message \<Rightarrow> ready \<Rightarrow> raft_core \<times> ready" where
  "tr_step_vote_request core request ready =
     (let core = (if m_term request > c_term core then tr_become_follower core (m_term request) else core);
          granted = (c_self_is_voter core \<and> m_term request = c_term core
                     \<and> (c_voted_for core = 0 \<or> c_voted_for core = m_from request)
                     \<and> tr_log_is_up_to_date core request);
          core = (if granted then core\<lparr>c_voted_for := m_from request, c_election_elapsed_ticks := 0\<rparr> else core);
          (sent, ready) = tr_emit core ready TR_RAFT_MSG_VOTE_RESPONSE (m_from request) granted
      in (core, ready))"

definition tr_step_vote_response :: "raft_core \<Rightarrow> message \<Rightarrow> ready \<Rightarrow> int \<Rightarrow> raft_core \<times> ready" where
  "tr_step_vote_response core response ready voter_index =
     (let bit = u32_shl1 voter_index
      in if m_term response > c_term core then (tr_become_follower core (m_term response), ready)
         else if c_role core \<noteq> TR_RAFT_CANDIDATE \<or> m_term response \<noteq> c_term core
                 \<or> \<not> m_granted response \<or> c_votes core AND bit \<noteq> 0
         then (core, ready)
         else
           let core = core\<lparr>c_votes := c_votes core OR bit\<rparr>
           in if tr_core_has_quorum core (c_votes core) then tr_become_leader core ready
              else (core, ready))"

definition tr_step_timeout_now :: "raft_core \<Rightarrow> message \<Rightarrow> ready \<Rightarrow> raft_core \<times> ready" where
  "tr_step_timeout_now core request ready =
     (if \<not> c_self_is_voter core \<or> c_role core \<noteq> TR_RAFT_FOLLOWER \<or> m_term request \<noteq> c_term core
         \<or> c_leader_id core \<noteq> m_from request \<or> c_term core = UINT64_MAX
      then (core, ready)
      else tr_start_election
             (core\<lparr>c_campaign_term := c_term core + 1, c_election_elapsed_ticks := 0\<rparr>) ready)"

section \<open>Read index\<close>

definition tr_step_read_index_request :: "raft_core \<Rightarrow> message \<Rightarrow> ready \<Rightarrow> raft_core \<times> ready" where
  "tr_step_read_index_request core request ready =
     (if \<not> c_self_is_voter core \<or> m_context_id request = 0 \<or> c_role core \<noteq> TR_RAFT_FOLLOWER
         \<or> m_term request \<noteq> c_term core \<or> c_leader_id core \<noteq> m_from request
      then (core, ready)
      else case tr_emit core ready TR_RAFT_MSG_READ_INDEX_RESPONSE (m_from request) False of
             (True, ready) \<Rightarrow>
               (core, update_last_message (\<lambda>m. m\<lparr>m_context_id := m_context_id request\<rparr>) ready)
           | (False, ready) \<Rightarrow> (core, ready))"

definition tr_step_read_index_response :: "raft_core \<Rightarrow> message \<Rightarrow> ready \<Rightarrow> int \<Rightarrow> raft_core \<times> ready" where
  "tr_step_read_index_response core response ready voter_index =
     (let bit = u32_shl1 voter_index
      in if m_term response > c_term core then (tr_become_follower core (m_term response), ready)
         else if c_role core \<noteq> TR_RAFT_LEADER \<or> m_term response \<noteq> c_term core
                 \<or> m_context_id response = 0
                 \<or> m_context_id response \<noteq> c_pending_read_context_id core
                 \<or> c_pending_read_contexts core = [] \<or> c_pending_read_acks core AND bit \<noteq> 0
         then (core, ready)
         else
           let core = core\<lparr>c_pending_read_acks := c_pending_read_acks core OR bit\<rparr>
           in if tr_core_has_quorum core (c_pending_read_acks core)
              then
                let required = tr_unpaused_remote_voter_count core;
                    (core, ready) = tr_read_emit_active core ready
                in if c_waiting_read_contexts core \<noteq> []
                      \<and> required \<le> r_message_capacity ready - length (r_messages ready)
                   then tr_read_start_active_barrier (tr_read_move_waiting_to_active core) ready
                   else (core, ready)
              else (core, ready))"

definition tr_has_committed_current_term :: "raft_core \<Rightarrow> bool" where
  "tr_has_committed_current_term core =
     (if c_commit_index core = 0 then False
      else if c_commit_index core = log_base_index (c_log core)
      then log_base_term (c_log core) = c_term core
      else case tr_raft_log_get (c_log core) (c_commit_index core) of
             None \<Rightarrow> False
           | Some e \<Rightarrow> e_term e = c_term core)"

end
