(* ===== verification/Raft_Core_Step.thy ===== *)
theory Raft_Core_Step
  imports Raft_Core_Election
begin

text \<open>
  Replication handlers of the Raft core (\<open>src/core/raft_core.c\<close>): the append and heartbeat request of
  a follower, the commit rule of a leader, the append of a configuration entry, the append and
  heartbeat response of a leader, and \<open>tr_raft_core_step\<close>, which dispatches a peer message.
\<close>

section \<open>Append and heartbeat requests\<close>

text \<open>Taking over the rebuilt membership of the matching log.\<close>

definition heartbeat_membership :: "raft_core \<Rightarrow> transition \<Rightarrow> bool \<Rightarrow> salts_status \<times> raft_core" where
  "heartbeat_membership core rebuilt matched =
     (if matched
      then let core = core\<lparr>c_transition := rebuilt\<rparr>
           in case tr_core_build_peer_set (c_transition core) of
                Inl e \<Rightarrow> (SALTS_EPROTO, core)
              | Inr peers \<Rightarrow> (SALTS_OK, tr_core_refresh_peers core peers)
      else (SALTS_OK, core))"

text \<open>Following the commit index of the leader.\<close>

definition heartbeat_commit :: "raft_core \<Rightarrow> message \<Rightarrow> bool \<Rightarrow> salts_status \<times> raft_core" where
  "heartbeat_commit core request matched =
     (if matched \<and> m_leader_commit request > c_commit_index core
      then
        let last_index = tr_raft_log_last_index (c_log core);
            candidate = (if m_leader_commit request < last_index then m_leader_commit request else last_index);
            commit = tr_raft_membership_transition_commit_limit (c_transition core) candidate
        in tr_core_sync_membership
             (core\<lparr>c_commit_index := commit,
                   c_transition := tr_raft_membership_transition_apply (c_transition core) commit\<rparr>)
      else (SALTS_OK, core))"

text \<open>Reporting the change of the log and of the commit index, and answering the leader.\<close>

definition heartbeat_report :: "raft_core \<Rightarrow> raft_index \<Rightarrow> reconcile_result \<Rightarrow> ready \<Rightarrow> ready" where
  "heartbeat_report core old_commit reconcile ready =
     (let ready =
            (if rr_changed reconcile
             then ready\<lparr>r_log_changed := True, r_log_truncate_from := rr_truncate_from reconcile,
                        r_log_entries := log_slice (c_log core) (rr_append_from reconcile) (rr_append_count reconcile),
                        r_log_entry_count := rr_append_count reconcile\<rparr>
             else ready)
      in if c_commit_index core \<noteq> old_commit
         then ready\<lparr>r_commit_changed := True, r_commit_index := c_commit_index core\<rparr>
         else ready)"

definition heartbeat_answer ::
    "raft_core \<Rightarrow> message \<Rightarrow> message_type \<Rightarrow> reconcile_result \<Rightarrow> ready \<Rightarrow> ready" where
  "heartbeat_answer core request response_type reconcile ready =
     (case tr_emit core ready response_type (m_from request) (rr_matched reconcile) of
        (True, ready) \<Rightarrow>
          update_last_message
            (\<lambda>m. m\<lparr>m_match_index := (if rr_matched reconcile
                                    then m_previous_log_index request + of_nat (length (m_entries request))
                                    else 0),
                   m_reject_hint := rr_reject_hint reconcile,
                   m_previous_log_index := m_previous_log_index request\<rparr>)
            ready
      | (False, ready) \<Rightarrow> ready)"

definition tr_step_heartbeat_request ::
    "vec_ops \<Rightarrow> raft_core \<Rightarrow> message \<Rightarrow> ready \<Rightarrow> salts_status \<times> raft_core \<times> ready" where
  "tr_step_heartbeat_request V core request ready =
     (let response_type = (if m_type request = TR_RAFT_MSG_APPEND_REQUEST
                           then TR_RAFT_MSG_APPEND_RESPONSE else TR_RAFT_MSG_HEARTBEAT_RESPONSE);
          old_commit = c_commit_index core
      in if m_term request < c_term core
         then case tr_emit core ready response_type (m_from request) False of
                (True, ready) \<Rightarrow>
                  (SALTS_OK, core,
                   update_last_message
                     (\<lambda>m. m\<lparr>m_reject_hint := tr_raft_log_last_index (c_log core) + 1\<rparr>) ready)
              | (False, ready) \<Rightarrow> (SALTS_OK, core, ready)
         else
           case (if tr_raft_log_matches (c_log core) (m_previous_log_index request) (m_previous_log_term request)
                 then tr_core_rebuild_pending_transition core (m_previous_log_index request) (m_entries request)
                 else (SALTS_OK, c_transition core)) of
             (result, rebuilt) \<Rightarrow>
               if result \<noteq> SALTS_OK then (result, core, ready)
               else case tr_raft_log_reconcile V (c_log core) (m_previous_log_index request)
                           (m_previous_log_term request) (m_entries request) (c_commit_index core) of
                 (result, l, reconcile) \<Rightarrow>
                   let core = core\<lparr>c_log := l\<rparr>
                   in if result \<noteq> SALTS_OK then (result, core, ready)
                      else
                        let core = (tr_become_follower core (m_term request))
                                     \<lparr>c_leader_id := m_from request, c_election_elapsed_ticks := 0\<rparr>
                        in case heartbeat_membership core rebuilt (rr_matched reconcile) of
                             (result, core) \<Rightarrow>
                               if result \<noteq> SALTS_OK then (result, core, ready)
                               else case heartbeat_commit core request (rr_matched reconcile) of
                                      (result, core) \<Rightarrow>
                                        if result \<noteq> SALTS_OK then (result, core, ready)
                                        else (SALTS_OK, core,
                                              heartbeat_answer core request response_type reconcile
                                                (heartbeat_report core old_commit reconcile ready)))"

section \<open>The commit rule\<close>

text \<open>The search of \<open>tr_update_commit\<close>: the largest index above the commit index that holds an entry of
  the current term and is matched by a quorum.\<close>

function update_commit_scan :: "raft_core \<Rightarrow> raft_index \<Rightarrow> salts_status + raft_index option" where
  "update_commit_scan core candidate =
     (if candidate > c_commit_index core
      then case tr_raft_log_get (c_log core) candidate of
             None \<Rightarrow> Inl C_FAULT
           | Some e \<Rightarrow>
               if e_term e \<noteq> c_term core then update_commit_scan core (candidate - 1)
               else if tr_core_match_quorum core candidate then Inr (Some candidate)
               else update_commit_scan core (candidate - 1)
      else Inr None)"
  by pat_completeness auto
termination
  by (relation "measure (\<lambda>(core, i). unat i)") (auto intro!: measure_unat)

declare update_commit_scan.simps [simp del]

definition tr_update_commit :: "raft_core \<Rightarrow> ready \<Rightarrow> salts_status \<times> raft_core \<times> ready" where
  "tr_update_commit core ready =
     (case update_commit_scan core
             (tr_raft_membership_transition_commit_limit (c_transition core)
                (tr_raft_log_last_index (c_log core))) of
        Inl e \<Rightarrow> (e, core, ready)
      | Inr None \<Rightarrow> (SALTS_OK, core, ready)
      | Inr (Some candidate) \<Rightarrow>
          let core = core\<lparr>c_commit_index := candidate,
                          c_transition := tr_raft_membership_transition_apply (c_transition core) candidate\<rparr>
          in case tr_core_sync_membership core of
               (result, core) \<Rightarrow>
                 if result \<noteq> SALTS_OK then (result, core, ready)
                 else (SALTS_OK, core, ready\<lparr>r_commit_changed := True, r_commit_index := candidate\<rparr>))"

definition tr_core_append_configuration ::
    "vec_ops \<Rightarrow> raft_core \<Rightarrow> conf \<Rightarrow> ready \<Rightarrow> salts_status \<times> raft_core \<times> ready" where
  "tr_core_append_configuration V core configuration ready =
     (let next_index = tr_raft_log_last_index (c_log core) + 1
      in case tr_raft_membership_transition_stage (c_transition core) configuration next_index of
           (result, staged) \<Rightarrow>
             if result \<noteq> SALTS_OK then (result, core, ready)
             else case tr_core_build_peer_set staged of
               Inl result \<Rightarrow> (result, core, ready)
             | Inr peers \<Rightarrow>
                 case tr_require_capacity core ready (tr_peer_set_unpaused_remote_count core peers) of
                   (result, core, ready) \<Rightarrow>
                     if result \<noteq> SALTS_OK then (result, core, ready)
                     else case tr_raft_log_append_configuration V (c_log core) (c_term core) configuration of
                       (result, l, entry) \<Rightarrow>
                         let core = core\<lparr>c_log := l\<rparr>
                         in if result \<noteq> SALTS_OK then (result, core, ready)
                            else case entry of
                              None \<Rightarrow> (C_FAULT, core, ready)
                            | Some e \<Rightarrow>
                                let core = tr_core_refresh_peers (core\<lparr>c_transition := staged\<rparr>) peers;
                                    self_index = tr_peer_index core (c_self_id core);
                                    core = core\<lparr>
                                      c_match_index := arr_set (c_match_index core) self_index (e_index e),
                                      c_next_index := arr_set (c_next_index core) self_index (e_index e + 1)\<rparr>;
                                    ready = ready\<lparr>r_log_changed := True, r_log_entries := [e],
                                                  r_log_entry_count := 1\<rparr>
                                in case tr_update_commit core ready of
                                     (result, core, ready) \<Rightarrow>
                                       if result \<noteq> SALTS_OK then (result, core, ready)
                                       else case tr_broadcast_replication core ready of
                                              (core, ready) \<Rightarrow> (SALTS_OK, core, ready))"

section \<open>Append and heartbeat responses\<close>

text \<open>The part of \<open>tr_step_heartbeat_response\<close> behind the checks: the granted and the rejected case.\<close>

definition response_granted ::
    "raft_core \<Rightarrow> message \<Rightarrow> ready \<Rightarrow> int \<Rightarrow> salts_status \<times> raft_core \<times> ready" where
  "response_granted core response ready peer_index =
     (let window = arr_get window_zero (c_append_windows core) peer_index;
          window = (tr_append_window_release_through window (m_match_index response))\<lparr>w_probe := False\<rparr>;
          core = core\<lparr>c_append_windows := arr_set (c_append_windows core) peer_index window\<rparr>
      in if m_match_index response > arr_get 0 (c_match_index core) peer_index
         then tr_update_commit
                (core\<lparr>c_match_index := arr_set (c_match_index core) peer_index (m_match_index response),
                      c_next_index :=
                        (if arr_get 0 (c_next_index core) peer_index < m_match_index response + 1
                         then arr_set (c_next_index core) peer_index (m_match_index response + 1)
                         else c_next_index core)\<rparr>) ready
         else (SALTS_OK, core, ready))"

definition response_rejected :: "raft_core \<Rightarrow> message \<Rightarrow> int \<Rightarrow> int \<Rightarrow> raft_core" where
  "response_rejected core response peer_index inflight_index =
     (let window = arr_get window_zero (c_append_windows core) peer_index;
          nxt = (if inflight_index \<ge> 0
                 then if_previous_index (tr_append_window_at window (nat inflight_index))
                 else let n = arr_get 0 (c_next_index core) peer_index
                      in if n > log_base_index (c_log core) + 1 then n - 1 else n);
          nxt = (if m_reject_hint response \<noteq> 0 \<and> m_reject_hint response < nxt
                 then m_reject_hint response else nxt);
          nxt = (if nxt < arr_get 0 (c_match_index core) peer_index + 1
                 then arr_get 0 (c_match_index core) peer_index + 1 else nxt)
      in core\<lparr>c_append_windows := arr_set (c_append_windows core) peer_index
                (tr_append_window_reset window True),
              c_next_index := arr_set (c_next_index core) peer_index nxt\<rparr>)"

definition tr_step_heartbeat_response ::
    "raft_core \<Rightarrow> message \<Rightarrow> ready \<Rightarrow> int \<Rightarrow> salts_status \<times> raft_core \<times> ready" where
  "tr_step_heartbeat_response core response ready peer_index =
     (let window = arr_get window_zero (c_append_windows core) peer_index;
          last_index = tr_raft_log_last_index (c_log core);
          inflight_index = (if m_type response = TR_RAFT_MSG_APPEND_RESPONSE
                            then tr_append_window_find window (m_previous_log_index response) else - 1)
      in if m_term response > c_term core
         then (SALTS_OK, tr_become_follower core (m_term response), ready)
         else if c_role core \<noteq> TR_RAFT_LEADER \<or> m_term response \<noteq> c_term core then (SALTS_OK, core, ready)
         else if m_granted response \<and> m_match_index response > last_index then (SALTS_OK, core, ready)
         else if m_type response = TR_RAFT_MSG_APPEND_RESPONSE \<and> inflight_index < 0 then (SALTS_OK, core, ready)
         else if m_type response = TR_RAFT_MSG_APPEND_RESPONSE \<and> m_granted response
                 \<and> m_match_index response
                   \<noteq> if_last_index (tr_append_window_at window (nat inflight_index))
         then (SALTS_OK, core, ready)
         else
           let core = (if tr_raft_membership_is_voter (tr_core_membership core) (m_from response)
                       then core\<lparr>c_recent_active := c_recent_active core OR u32_shl1 peer_index\<rparr> else core);
               (result, core, ready) =
                 (if m_granted response then response_granted core response ready peer_index
                  else (SALTS_OK, response_rejected core response peer_index inflight_index, ready))
           in if result \<noteq> SALTS_OK then (result, core, ready)
              else if m_granted response \<and> \<not> c_transfer_sent core \<and> c_transfer_target core = m_from response
                      \<and> arr_get 0 (c_match_index core) peer_index \<ge> last_index
              then case tr_emit core ready TR_RAFT_MSG_TIMEOUT_NOW (m_from response) False of
                     (sent, ready) \<Rightarrow> (SALTS_OK, core\<lparr>c_transfer_sent := sent\<rparr>, ready)
              else if arr_get 0 (c_next_index core) peer_index \<le> last_index \<or> \<not> m_granted response
              then case tr_fill_peer_replication_window core ready (nat peer_index) of
                     (core, ready) \<Rightarrow> (SALTS_OK, core, ready)
              else (SALTS_OK, core, ready))"

section \<open>Dispatch\<close>

text \<open>The number of messages the handler of a message may need, or \<open>None\<close> for an unknown type.\<close>

definition step_required :: "raft_core \<Rightarrow> message \<Rightarrow> int \<Rightarrow> nat option" where
  "step_required core message voter_index =
     (case m_type message of
        TR_RAFT_MSG_PRE_VOTE_REQUEST \<Rightarrow> Some (if tr_peer_paused core (m_from message) then 0 else 1)
      | TR_RAFT_MSG_VOTE_REQUEST \<Rightarrow> Some (if tr_peer_paused core (m_from message) then 0 else 1)
      | TR_RAFT_MSG_HEARTBEAT_REQUEST \<Rightarrow> Some (if tr_peer_paused core (m_from message) then 0 else 1)
      | TR_RAFT_MSG_APPEND_REQUEST \<Rightarrow> Some (if tr_peer_paused core (m_from message) then 0 else 1)
      | TR_RAFT_MSG_PRE_VOTE_RESPONSE \<Rightarrow>
          Some (if tr_will_pre_vote_win core message voter_index then tr_unpaused_remote_peer_count core else 0)
      | TR_RAFT_MSG_VOTE_RESPONSE \<Rightarrow>
          Some (if tr_will_vote_win core message voter_index then tr_unpaused_remote_peer_count core else 0)
      | TR_RAFT_MSG_HEARTBEAT_RESPONSE \<Rightarrow>
          Some (if c_role core = TR_RAFT_LEADER \<and> m_term message = c_term core \<and> m_granted message
                   \<and> \<not> c_transfer_sent core \<and> c_transfer_target core = m_from message
                   \<and> m_match_index message = tr_raft_log_last_index (c_log core) then 1 else 0)
      | TR_RAFT_MSG_APPEND_RESPONSE \<Rightarrow>
          Some (if c_role core = TR_RAFT_LEADER \<and> m_term message = c_term core \<and> m_granted message
                   \<and> \<not> c_transfer_sent core \<and> c_transfer_target core = m_from message
                   \<and> m_match_index message = tr_raft_log_last_index (c_log core) then 1 else 0)
      | TR_RAFT_MSG_TIMEOUT_NOW \<Rightarrow>
          Some (if c_self_is_voter core \<and> c_role core = TR_RAFT_FOLLOWER \<and> m_term message = c_term core
                   \<and> c_leader_id core = m_from message \<and> c_term core \<noteq> UINT64_MAX
                then tr_unpaused_remote_voter_count core else 0)
      | TR_RAFT_MSG_READ_INDEX_REQUEST \<Rightarrow>
          Some (if c_self_is_voter core \<and> m_context_id message \<noteq> 0 \<and> c_role core = TR_RAFT_FOLLOWER
                   \<and> m_term message = c_term core \<and> c_leader_id core = m_from message
                then (if tr_peer_paused core (m_from message) then 0 else 1) else 0)
      | TR_RAFT_MSG_READ_INDEX_RESPONSE \<Rightarrow> Some 0
      | TR_RAFT_MSG_OTHER \<Rightarrow> None)"

text \<open>The second switch of \<open>tr_raft_core_step\<close>: the handlers.\<close>

definition step_dispatch ::
    "vec_ops \<Rightarrow> raft_core \<Rightarrow> message \<Rightarrow> ready \<Rightarrow> int \<Rightarrow> int \<Rightarrow> salts_status \<times> raft_core \<times> ready" where
  "step_dispatch V core message ready peer_index voter_index =
     (case m_type message of
        TR_RAFT_MSG_PRE_VOTE_REQUEST \<Rightarrow> (SALTS_OK, tr_step_pre_vote_request core message ready)
      | TR_RAFT_MSG_PRE_VOTE_RESPONSE \<Rightarrow> (SALTS_OK, tr_step_pre_vote_response core message ready voter_index)
      | TR_RAFT_MSG_VOTE_REQUEST \<Rightarrow> (SALTS_OK, tr_step_vote_request core message ready)
      | TR_RAFT_MSG_VOTE_RESPONSE \<Rightarrow> (SALTS_OK, tr_step_vote_response core message ready voter_index)
      | TR_RAFT_MSG_HEARTBEAT_REQUEST \<Rightarrow> tr_step_heartbeat_request V core message ready
      | TR_RAFT_MSG_APPEND_REQUEST \<Rightarrow> tr_step_heartbeat_request V core message ready
      | TR_RAFT_MSG_HEARTBEAT_RESPONSE \<Rightarrow> tr_step_heartbeat_response core message ready peer_index
      | TR_RAFT_MSG_APPEND_RESPONSE \<Rightarrow> tr_step_heartbeat_response core message ready peer_index
      | TR_RAFT_MSG_TIMEOUT_NOW \<Rightarrow> (SALTS_OK, tr_step_timeout_now core message ready)
      | TR_RAFT_MSG_READ_INDEX_REQUEST \<Rightarrow> (SALTS_OK, tr_step_read_index_request core message ready)
      | TR_RAFT_MSG_READ_INDEX_RESPONSE \<Rightarrow> (SALTS_OK, tr_step_read_index_response core message ready voter_index)
      | TR_RAFT_MSG_OTHER \<Rightarrow> (SALTS_EINVAL, core, ready))"

definition tr_raft_core_step ::
    "vec_ops \<Rightarrow> raft_core \<Rightarrow> message \<Rightarrow> ready \<Rightarrow> salts_status \<times> raft_core \<times> ready" where
  "tr_raft_core_step V core message ready =
     (if m_to message \<noteq> c_self_id core \<or> m_from message = c_self_id core then (SALTS_EINVAL, core, ready)
      else
        let peer_index = tr_peer_index core (m_from message);
            voter_index = tr_voter_index core (m_from message)
        in if peer_index < 0 then (SALTS_EINVAL, core, ready)
           else if voter_index < 0
                   \<and> m_type message \<notin> {TR_RAFT_MSG_HEARTBEAT_RESPONSE, TR_RAFT_MSG_APPEND_RESPONSE}
           then (SALTS_EINVAL, core, ready)
           else case tr_begin core ready of
             (result, core, ready, prior) \<Rightarrow>
               if result \<noteq> SALTS_OK then (result, core, ready)
               else case step_required core message voter_index of
                 None \<Rightarrow> (SALTS_EINVAL, core\<lparr>c_in_call := False\<rparr>, ready)
               | Some required \<Rightarrow>
                   case tr_require_capacity core ready required of
                     (result, core, ready) \<Rightarrow>
                       if result \<noteq> SALTS_OK then (result, core, ready)
                       else if m_type message \<in> {TR_RAFT_MSG_HEARTBEAT_REQUEST, TR_RAFT_MSG_APPEND_REQUEST}
                               \<and> (length (m_entries message) > TR_RAFT_MAX_APPEND_ENTRIES
                                  \<or> (m_type message = TR_RAFT_MSG_HEARTBEAT_REQUEST \<and> m_entries message \<noteq> []))
                       then (SALTS_EINVAL, core\<lparr>c_in_call := False\<rparr>, ready)
                       else case step_dispatch V core message ready peer_index voter_index of
                         (result, core, ready) \<Rightarrow>
                           if result \<noteq> SALTS_OK
                           then (result, core\<lparr>c_in_call := False\<rparr>, tr_reset_ready ready)
                           else tr_finish core ready prior)"

end
