(* ===== verification/Raft_Core_API.thy ===== *)
theory Raft_Core_API
  imports Raft_Core_Step
begin

text \<open>
  The public operations of the Raft core (\<open>include/turboraft/raft_core.h\<close>, \<open>src/core/raft_core.c\<close>):
  creation, logical time, proposals, membership changes, leadership transfer, linearizable reads,
  the Ready and apply acknowledgements, snapshots and the read-only views.
\<close>

section \<open>Creation\<close>

text \<open>The restored log entries: a null pointer with a count, or an array.\<close>

datatype entry_array = Entry_null nat | Entry_array "entry list"

record core_config =
  cfg_self_id :: node_id
  cfg_voters :: id_array
  cfg_learners :: id_array
  cfg_initial_configuration :: "conf option"
  cfg_heartbeat_ticks :: u32
  cfg_election_min_ticks :: u32
  cfg_election_max_ticks :: u32
  cfg_initial_election_timeout_ticks :: u32
  cfg_initial_term :: raft_term
  cfg_initial_vote :: node_id
  cfg_initial_last_log_index :: raft_index
  cfg_initial_last_log_term :: raft_term
  cfg_initial_log_entries :: entry_array
  cfg_initial_commit_index :: raft_index
  cfg_initial_applied_index :: raft_index
  cfg_max_log_entries :: nat
  cfg_max_pending_reads :: nat
  cfg_max_inflight_append_requests :: nat

text \<open>The checks on sizes, pointers and tick counts, the loops over the voters and the learners, and
  the occurrences of the own identifier they count.\<close>

definition config_limits_bad :: "core_config \<Rightarrow> bool" where
  "config_limits_bad config \<longleftrightarrow>
     cfg_self_id config = 0 \<or> id_is_null (cfg_voters config) \<or> id_count (cfg_voters config) = 0
     \<or> id_count (cfg_voters config) > 31 \<or> id_count (cfg_learners config) > 31
     \<or> id_count (cfg_voters config) + id_count (cfg_learners config) > 31
     \<or> (id_count (cfg_learners config) \<noteq> 0 \<and> id_is_null (cfg_learners config))
     \<or> (id_count (cfg_learners config) = 0 \<and> \<not> id_is_null (cfg_learners config))
     \<or> cfg_heartbeat_ticks config = 0
     \<or> cfg_election_min_ticks config \<le> cfg_heartbeat_ticks config
     \<or> cfg_election_min_ticks config > cfg_election_max_ticks config
     \<or> cfg_initial_election_timeout_ticks config < cfg_election_min_ticks config
     \<or> cfg_initial_election_timeout_ticks config > cfg_election_max_ticks config
     \<or> cfg_max_inflight_append_requests config > 64
     \<or> cfg_max_pending_reads config > 64"

definition config_sets_bad :: "core_config \<Rightarrow> bool" where
  "config_sets_bad config \<longleftrightarrow>
     \<not> ascending_loop None (id_list (cfg_voters config))
     \<or> \<not> ascending_loop None (id_list (cfg_learners config))
     \<or> list_ex (\<lambda>l. l \<in> set (id_list (cfg_voters config))) (id_list (cfg_learners config))"

definition role_is_voter :: "u8 \<Rightarrow> bool" where
  "role_is_voter r \<longleftrightarrow> r AND 3 \<noteq> 0"

definition config_self_count :: "core_config \<Rightarrow> nat" where
  "config_self_count config =
     (case cfg_initial_configuration config of
        Some c \<Rightarrow> length (filter (\<lambda>m. cm_node_id m = cfg_self_id config) (conf_members c))
      | None \<Rightarrow> length (filter (\<lambda>n. n = cfg_self_id config) (id_list (cfg_voters config)))
                + length (filter (\<lambda>n. n = cfg_self_id config) (id_list (cfg_learners config))))"

definition config_is_voter :: "core_config \<Rightarrow> node_id \<Rightarrow> bool" where
  "config_is_voter config n \<longleftrightarrow>
     (case cfg_initial_configuration config of
        Some c \<Rightarrow> list_ex (\<lambda>m. cm_node_id m = n \<and> role_is_voter (cm_roles m)) (conf_members c)
      | None \<Rightarrow> n \<in> set (id_list (cfg_voters config)))"

definition config_check :: "core_config \<Rightarrow> salts_status" where
  "config_check config =
     (if config_limits_bad config \<or> config_sets_bad config then SALTS_EINVAL
      else if (case cfg_initial_configuration config of
                 Some c \<Rightarrow> tr_raft_conf_validate c \<noteq> SALTS_OK | None \<Rightarrow> False) then SALTS_EINVAL
      else if config_self_count config \<noteq> 1 then SALTS_EINVAL
      else if \<not> (cfg_initial_vote config = 0 \<or> config_is_voter config (cfg_initial_vote config))
      then SALTS_EINVAL
      else if cfg_initial_vote config \<noteq> 0 \<and> \<not> config_is_voter config (cfg_self_id config)
      then SALTS_EINVAL
      else SALTS_OK)"

text \<open>The core after \<open>calloc\<close>, with the identity, membership, peers, term and vote set.\<close>

definition core_zero :: "raft_log \<Rightarrow> raft_core" where
  "core_zero l =
     \<lparr>c_self_id = 0, c_transition = \<lparr>tr_committed = \<lparr>conf_phase = TR_RAFT_CONF_OTHER 0, conf_transition_id = 0,
        conf_members = []\<rparr>, tr_pending = []\<rparr>, c_peers = [], c_self_is_voter = False,
      c_role = TR_RAFT_FOLLOWER, c_leader_id = 0, c_term = 0, c_voted_for = 0, c_log = l,
      c_commit_index = 0, c_applied_index = 0, c_apply_admitted_index = 0, c_pending_apply_index = 0,
      c_campaign_term = 0, c_heartbeat_ticks = 0, c_election_min_ticks = 0, c_election_max_ticks = 0,
      c_election_timeout_ticks = 0, c_election_elapsed_ticks = 0, c_heartbeat_elapsed_ticks = 0,
      c_check_quorum_elapsed_ticks = 0, c_recent_active = 0, c_paused_peers = 0, c_transfer_target = 0,
      c_transfer_elapsed_ticks = 0, c_transfer_sent = False, c_pending_read_context_id = 0,
      c_pending_read_contexts = [], c_pending_read_index = 0, c_pending_read_acks = 0,
      c_waiting_read_contexts = [], c_max_pending_reads = 0, c_pre_votes = 0, c_votes = 0,
      c_next_index = replicate 31 0, c_match_index = replicate 31 0,
      c_append_windows = replicate 31 window_zero, c_max_inflight = 0,
      c_ready_outstanding = False, c_in_call = False\<rparr>"

definition create_restore_log :: "vec_ops \<Rightarrow> core_config \<Rightarrow> salts_status + raft_log" where
  "create_restore_log V config =
     (case tr_raft_log_init V
             (if cfg_max_log_entries config = 0 then TR_RAFT_DEFAULT_MAX_LOG_ENTRIES
              else cfg_max_log_entries config)
             (cfg_initial_last_log_index config) (cfg_initial_last_log_term config) of
        Inl e \<Rightarrow> Inl e
      | Inr l \<Rightarrow>
          (case cfg_initial_log_entries config of
             Entry_null n \<Rightarrow> if n \<noteq> 0 then Inl SALTS_EINVAL else Inr l
           | Entry_array [] \<Rightarrow> Inl SALTS_EINVAL
           | Entry_array (e # es) \<Rightarrow>
               (case tr_raft_log_reconcile V l (cfg_initial_last_log_index config)
                       (cfg_initial_last_log_term config) (e # es) 0 of
                  (result, l, reconcile) \<Rightarrow>
                    if result \<noteq> SALTS_OK then Inl result
                    else if \<not> rr_matched reconcile then Inl SALTS_EPROTO
                    else Inr l)))"

definition create_commit_index :: "core_config \<Rightarrow> raft_index" where
  "create_commit_index config =
     (if cfg_initial_last_log_index config \<noteq> 0 \<and> cfg_initial_commit_index config = 0
      then cfg_initial_last_log_index config else cfg_initial_commit_index config)"

definition create_applied_index :: "core_config \<Rightarrow> raft_index" where
  "create_applied_index config =
     (if cfg_initial_last_log_index config \<noteq> 0 \<and> cfg_initial_applied_index config = 0
      then cfg_initial_last_log_index config else cfg_initial_applied_index config)"

definition create_finish :: "core_config \<Rightarrow> raft_core \<Rightarrow> raft_core" where
  "create_finish config core =
     core\<lparr>c_heartbeat_ticks := cfg_heartbeat_ticks config,
          c_election_min_ticks := cfg_election_min_ticks config,
          c_election_max_ticks := cfg_election_max_ticks config,
          c_election_timeout_ticks := cfg_initial_election_timeout_ticks config,
          c_max_inflight := (if cfg_max_inflight_append_requests config = 0
                             then TR_RAFT_DEFAULT_MAX_INFLIGHT_APPEND_REQUESTS
                             else cfg_max_inflight_append_requests config),
          c_max_pending_reads := (if cfg_max_pending_reads config = 0
                                  then TR_RAFT_DEFAULT_MAX_PENDING_READS
                                  else cfg_max_pending_reads config),
          c_append_windows := map (\<lambda>w. w\<lparr>w_probe := True\<rparr>) (c_append_windows core)\<rparr>"

definition tr_raft_core_create :: "vec_ops \<Rightarrow> bool \<Rightarrow> core_config \<Rightarrow> salts_status + raft_core" where
  "tr_raft_core_create V calloc_ok config =
     (if config_check config \<noteq> SALTS_OK then Inl (config_check config)
      else if \<not> calloc_ok then Inl SALTS_ENOMEM
      else case (case cfg_initial_configuration config of
                   Some c \<Rightarrow> tr_raft_membership_transition_init_configuration c
                 | None \<Rightarrow> tr_raft_membership_transition_init (cfg_voters config) (cfg_learners config)) of
        Inl result \<Rightarrow> Inl result
      | Inr t \<Rightarrow>
          (case tr_raft_peer_set_build [tr_raft_membership_transition_committed t] of
             Inl result \<Rightarrow> Inl result
           | Inr peers \<Rightarrow>
               (case create_restore_log V config of
                  Inl result \<Rightarrow> Inl result
                | Inr l \<Rightarrow>
                    let core = (core_zero l)\<lparr>c_self_id := cfg_self_id config, c_transition := t, c_peers := peers\<rparr>;
                        core = core\<lparr>c_self_is_voter := tr_voter_index core (cfg_self_id config) \<ge> 0,
                                    c_term := cfg_initial_term config, c_voted_for := cfg_initial_vote config\<rparr>;
                        initial_commit = create_commit_index config;
                        initial_applied = create_applied_index config
                    in if initial_applied < cfg_initial_last_log_index config
                          \<or> initial_applied > initial_commit
                          \<or> initial_commit > tr_raft_log_last_index l
                       then Inl SALTS_EINVAL
                       else case tr_core_replay_membership_log
                                   (core\<lparr>c_commit_index := initial_commit, c_applied_index := initial_applied,
                                         c_apply_admitted_index := initial_applied\<rparr>) of
                              (result, core) \<Rightarrow>
                                if result \<noteq> SALTS_OK then Inl result else Inr (create_finish config core))))"

section \<open>Logical time\<close>

record tick =
  tick_elapsed_ticks :: u32
  tick_next_election_timeout_ticks :: u32

text \<open>\<open>UINT32_MAX - a < b || a + b >= limit\<close>: the counter would overflow or reaches the limit.\<close>

definition ticks_reached :: "u32 \<Rightarrow> u32 \<Rightarrow> u32 \<Rightarrow> bool" where
  "ticks_reached elapsed extra limit \<longleftrightarrow> UINT32_MAX - elapsed < extra \<or> elapsed + extra \<ge> limit"

text \<open>The ageing loop over the windows of all peers.\<close>

definition tick_age_peer :: "u32 \<Rightarrow> raft_core \<Rightarrow> nat \<Rightarrow> raft_core" where
  "tick_age_peer elapsed core i =
     (let window = arr_get window_zero (c_append_windows core) (int i)
      in if w_count window = 0 \<or> tr_peer_index_paused core i then core
         else case tr_append_window_age window elapsed (c_heartbeat_ticks core) of
                (timed_out, window) \<Rightarrow>
                  if timed_out
                  then core\<lparr>c_next_index := arr_set (c_next_index core) (int i)
                              (arr_get 0 (c_match_index core) (int i) + 1),
                            c_append_windows := arr_set (c_append_windows core) (int i)
                              (tr_append_window_reset window True)\<rparr>
                  else core\<lparr>c_append_windows := arr_set (c_append_windows core) (int i) window\<rparr>)"

definition tick_transfer :: "u32 \<Rightarrow> raft_core \<Rightarrow> raft_core" where
  "tick_transfer elapsed core =
     (if c_transfer_target core \<noteq> 0
      then if ticks_reached (c_transfer_elapsed_ticks core) elapsed (c_election_timeout_ticks core)
           then core\<lparr>c_transfer_target := 0, c_transfer_elapsed_ticks := 0, c_transfer_sent := False\<rparr>
           else core\<lparr>c_transfer_elapsed_ticks := c_transfer_elapsed_ticks core + elapsed\<rparr>
      else core)"

definition tick_leader ::
    "u32 \<Rightarrow> raft_core \<Rightarrow> ready \<Rightarrow> prior \<Rightarrow> salts_status \<times> raft_core \<times> ready" where
  "tick_leader elapsed core ready prior =
     (let peer_count = tr_unpaused_remote_peer_count core;
          due = ticks_reached (c_check_quorum_elapsed_ticks core) elapsed (c_election_timeout_ticks core)
      in if due \<and> \<not> tr_core_has_quorum core (c_recent_active core)
         then tr_finish (tr_become_follower core (c_term core)) ready prior
         else
           let core = (if due
                       then core\<lparr>c_check_quorum_elapsed_ticks := 0,
                                 c_recent_active := u32_shl1 (tr_voter_index core (c_self_id core))\<rparr>
                       else core\<lparr>c_check_quorum_elapsed_ticks := c_check_quorum_elapsed_ticks core + elapsed\<rparr>);
               core = tick_transfer elapsed core;
               core = foldl (tick_age_peer elapsed) core [0..<tr_peer_count core]
           in if ticks_reached (c_heartbeat_elapsed_ticks core) elapsed (c_heartbeat_ticks core)
              then case tr_require_capacity core ready peer_count of
                     (result, core, ready) \<Rightarrow>
                       if result \<noteq> SALTS_OK then (result, core, ready)
                       else case tr_broadcast_replication (core\<lparr>c_heartbeat_elapsed_ticks := 0\<rparr>) ready of
                              (core, ready) \<Rightarrow> tr_finish core ready prior
              else tr_finish (core\<lparr>c_heartbeat_elapsed_ticks := c_heartbeat_elapsed_ticks core + elapsed\<rparr>)
                     ready prior)"

definition tick_other ::
    "tick \<Rightarrow> raft_core \<Rightarrow> ready \<Rightarrow> prior \<Rightarrow> salts_status \<times> raft_core \<times> ready" where
  "tick_other tick core ready prior =
     (let elapsed = tick_elapsed_ticks tick;
          peer_count = tr_unpaused_remote_peer_count core;
          due = ticks_reached (c_election_elapsed_ticks core) elapsed (c_election_timeout_ticks core);
          timer = (\<lambda>core. core\<lparr>c_election_elapsed_ticks := 0,
                                 c_election_timeout_ticks := tick_next_election_timeout_ticks tick\<rparr>);
          waited = core\<lparr>c_election_elapsed_ticks := c_election_elapsed_ticks core + elapsed\<rparr>
      in if \<not> c_self_is_voter core
         then tr_finish (if due then timer core else waited) ready prior
         else if due
         then if c_term core = UINT64_MAX then (SALTS_EPROTO, core\<lparr>c_in_call := False\<rparr>, ready)
              else case tr_require_capacity core ready peer_count of
                     (result, core, ready) \<Rightarrow>
                       if result \<noteq> SALTS_OK then (result, core, ready)
                       else case tr_start_pre_vote (timer core) ready of
                              (core, ready) \<Rightarrow> tr_finish core ready prior
         else tr_finish waited ready prior)"

definition tr_raft_core_tick ::
    "vec_ops \<Rightarrow> raft_core \<Rightarrow> tick \<Rightarrow> ready \<Rightarrow> salts_status \<times> raft_core \<times> ready" where
  "tr_raft_core_tick V core tick ready =
     (if tick_elapsed_ticks tick = 0 then (SALTS_EINVAL, core, ready)
      else case tr_begin core ready of
        (result, core, ready, prior) \<Rightarrow>
          if result \<noteq> SALTS_OK then (result, core, ready)
          else if \<not> tr_timeout_valid core (tick_next_election_timeout_ticks tick)
          then (SALTS_EINVAL, core\<lparr>c_in_call := False\<rparr>, ready)
          else if c_role core = TR_RAFT_LEADER
                  \<and> tr_raft_membership_transition_needs_final (c_transition core)
          then case (case tr_raft_membership_transition_final (c_transition core) of
                       Inl result \<Rightarrow> (result, core, ready)
                     | Inr final_membership \<Rightarrow> tr_core_append_configuration V core final_membership ready) of
                 (result, core, ready) \<Rightarrow>
                   if result \<noteq> SALTS_OK then (result, core\<lparr>c_in_call := False\<rparr>, tr_reset_ready ready)
                   else tr_finish core ready prior
          else if c_role core = TR_RAFT_LEADER then tick_leader (tick_elapsed_ticks tick) core ready prior
          else tick_other tick core ready prior)"

section \<open>Proposals and leader operations\<close>

definition tr_raft_core_propose_batch ::
    "vec_ops \<Rightarrow> raft_core \<Rightarrow> proposal list option \<Rightarrow> ready \<Rightarrow> salts_status \<times> raft_core \<times> ready" where
  "tr_raft_core_propose_batch V core proposals ready =
     (case proposals of
        None \<Rightarrow> (SALTS_EINVAL, core, ready)
      | Some ps \<Rightarrow>
          if ps = [] \<or> length ps > TR_RAFT_MAX_PROPOSAL_BATCH \<or> list_ex proposal_bad ps
          then (SALTS_EINVAL, core, ready)
          else case tr_begin core ready of
            (result, core, ready, prior) \<Rightarrow>
              if result \<noteq> SALTS_OK then (result, core, ready)
              else if c_role core \<noteq> TR_RAFT_LEADER then (SALTS_EPROTO, core\<lparr>c_in_call := False\<rparr>, ready)
              else if c_transfer_target core \<noteq> 0 then (SALTS_EBUSY, core\<lparr>c_in_call := False\<rparr>, ready)
              else case tr_require_capacity core ready (tr_unpaused_remote_peer_count core) of
                (result, core, ready) \<Rightarrow>
                  if result \<noteq> SALTS_OK then (result, core, ready)
                  else case tr_raft_log_append_local_batch V (c_log core) (c_term core) proposals of
                    (result, l, entries) \<Rightarrow>
                      let core = core\<lparr>c_log := l\<rparr>
                      in if result \<noteq> SALTS_OK
                         then (result, core\<lparr>c_in_call := False\<rparr>, tr_reset_ready ready)
                         else
                           let last_entry = last entries;
                               self_index = tr_voter_index core (c_self_id core);
                               core = core\<lparr>
                                 c_match_index := arr_set (c_match_index core) self_index (e_index last_entry),
                                 c_next_index := arr_set (c_next_index core) self_index (e_index last_entry + 1)\<rparr>;
                               ready = ready\<lparr>r_log_changed := True, r_log_entries := entries,
                                             r_log_entry_count := length ps\<rparr>
                           in case tr_update_commit core ready of
                                (result, core, ready) \<Rightarrow>
                                  if result \<noteq> SALTS_OK
                                  then (result, core\<lparr>c_in_call := False\<rparr>, tr_reset_ready ready)
                                  else case tr_broadcast_replication core ready of
                                         (core, ready) \<Rightarrow> tr_finish core ready prior)"

definition tr_raft_core_propose ::
    "vec_ops \<Rightarrow> raft_core \<Rightarrow> proposal option \<Rightarrow> ready \<Rightarrow> salts_status \<times> raft_core \<times> ready" where
  "tr_raft_core_propose V core proposal ready =
     (case proposal of
        None \<Rightarrow> (SALTS_EINVAL, core, ready)
      | Some p \<Rightarrow> tr_raft_core_propose_batch V core (Some [p]) ready)"

record membership_change =
  mc_transition_id :: u64
  mc_voters :: id_array
  mc_learners :: id_array

definition tr_raft_core_change_membership ::
    "vec_ops \<Rightarrow> raft_core \<Rightarrow> membership_change \<Rightarrow> ready \<Rightarrow> salts_status \<times> raft_core \<times> ready" where
  "tr_raft_core_change_membership V core change ready =
     (if mc_transition_id change = 0 then (SALTS_EINVAL, core, ready)
      else case tr_begin core ready of
        (result, core, ready, prior) \<Rightarrow>
          if result \<noteq> SALTS_OK then (result, core, ready)
          else if c_role core \<noteq> TR_RAFT_LEADER then (SALTS_EPERM, core\<lparr>c_in_call := False\<rparr>, ready)
          else if c_transfer_target core \<noteq> 0 \<or> tr_read_total_count core \<noteq> 0
          then (SALTS_EBUSY, core\<lparr>c_in_call := False\<rparr>, ready)
          else case (case tr_raft_membership_transition_propose (c_transition core) (mc_voters change)
                            (mc_learners change) (mc_transition_id change) of
                       Inl result \<Rightarrow> (result, core, ready)
                     | Inr joint \<Rightarrow> tr_core_append_configuration V core joint ready) of
                 (result, core, ready) \<Rightarrow>
                   if result \<noteq> SALTS_OK then (result, core\<lparr>c_in_call := False\<rparr>, tr_reset_ready ready)
                   else tr_finish core ready prior)"

definition tr_raft_core_transfer_leadership ::
    "raft_core \<Rightarrow> node_id \<Rightarrow> ready \<Rightarrow> salts_status \<times> raft_core \<times> ready" where
  "tr_raft_core_transfer_leadership core transferee_id ready =
     (if transferee_id = 0 \<or> transferee_id = c_self_id core then (SALTS_EINVAL, core, ready)
      else
        let transferee_index = tr_voter_index core transferee_id
        in if transferee_index < 0 then (SALTS_EINVAL, core, ready)
           else case tr_begin core ready of
             (result, core, ready, prior) \<Rightarrow>
               if result \<noteq> SALTS_OK then (result, core, ready)
               else if c_role core \<noteq> TR_RAFT_LEADER then (SALTS_EPROTO, core\<lparr>c_in_call := False\<rparr>, ready)
               else if c_transfer_target core \<noteq> 0 \<or> tr_read_total_count core \<noteq> 0
                       \<or> tr_peer_index_paused core (nat transferee_index)
               then (SALTS_EBUSY, core\<lparr>c_in_call := False\<rparr>, ready)
               else case tr_require_capacity core ready 1 of
                 (result, core, ready) \<Rightarrow>
                   if result \<noteq> SALTS_OK then (result, core, ready)
                   else
                     let core = core\<lparr>c_transfer_target := transferee_id, c_transfer_elapsed_ticks := 0\<rparr>;
                         last_index = tr_raft_log_last_index (c_log core)
                     in if arr_get 0 (c_match_index core) transferee_index \<ge> last_index
                        then case tr_emit core ready TR_RAFT_MSG_TIMEOUT_NOW transferee_id False of
                               (sent, ready) \<Rightarrow> tr_finish (core\<lparr>c_transfer_sent := sent\<rparr>) ready prior
                        else case tr_emit_replication core ready (nat transferee_index) False of
                               (sent, core, ready) \<Rightarrow>
                                 tr_finish (core\<lparr>c_transfer_sent := False\<rparr>) ready prior)"

definition tr_raft_core_read_index ::
    "raft_core \<Rightarrow> u64 \<Rightarrow> ready \<Rightarrow> salts_status \<times> raft_core \<times> ready" where
  "tr_raft_core_read_index core context_id ready =
     (if context_id = 0 then (SALTS_EINVAL, core, ready)
      else case tr_begin core ready of
        (result, core, ready, prior) \<Rightarrow>
          if result \<noteq> SALTS_OK then (result, core, ready)
          else if c_role core \<noteq> TR_RAFT_LEADER then (SALTS_EPROTO, core\<lparr>c_in_call := False\<rparr>, ready)
          else if c_transfer_target core \<noteq> 0 \<or> \<not> tr_has_committed_current_term core
          then (SALTS_EBUSY, core\<lparr>c_in_call := False\<rparr>, ready)
          else if tr_read_context_exists core context_id
          then (SALTS_EALREADY, core\<lparr>c_in_call := False\<rparr>, ready)
          else if tr_read_total_count core \<ge> c_max_pending_reads core
          then (SALTS_ENOSPC, core\<lparr>c_in_call := False\<rparr>, ready)
          else if c_pending_read_contexts core \<noteq> []
          then tr_finish
                 (if c_commit_index core = c_pending_read_index core
                  then core\<lparr>c_pending_read_contexts := c_pending_read_contexts core @ [context_id]\<rparr>
                  else core\<lparr>c_waiting_read_contexts := c_waiting_read_contexts core @ [context_id]\<rparr>)
                 ready prior
          else case tr_require_capacity core ready (tr_unpaused_remote_voter_count core) of
            (result, core, ready) \<Rightarrow>
              if result \<noteq> SALTS_OK then (result, core, ready)
              else
                let core = core\<lparr>c_waiting_read_contexts := c_waiting_read_contexts core @ [context_id]\<rparr>;
                    (core, ready) = tr_read_start_active_barrier (tr_read_move_waiting_to_active core) ready
                in tr_finish core ready prior)"

definition tr_raft_core_poll :: "raft_core \<Rightarrow> ready \<Rightarrow> salts_status \<times> raft_core \<times> ready" where
  "tr_raft_core_poll core ready =
     (case tr_begin core ready of
        (result, core, ready, prior) \<Rightarrow>
          if result \<noteq> SALTS_OK then (result, core, ready)
          else
            let (result, core, ready) =
                  (if c_role core = TR_RAFT_LEADER \<and> c_pending_read_contexts core = []
                      \<and> c_waiting_read_contexts core \<noteq> []
                   then case tr_require_capacity core ready (tr_unpaused_remote_voter_count core) of
                          (result, core, ready) \<Rightarrow>
                            if result \<noteq> SALTS_OK then (result, core, ready)
                            else (SALTS_OK,
                                  tr_read_start_active_barrier (tr_read_move_waiting_to_active core) ready)
                   else (SALTS_OK, core, ready))
            in if result \<noteq> SALTS_OK then (result, core, ready)
               else case tr_fill_replication_windows core ready of
                      (core, ready) \<Rightarrow> tr_finish core ready prior)"

section \<open>Acknowledgements\<close>

definition tr_raft_core_ack_ready :: "raft_core \<Rightarrow> nat \<Rightarrow> salts_status \<times> raft_core" where
  "tr_raft_core_ack_ready core admitted_entry_count =
     (if c_in_call core \<or> \<not> c_ready_outstanding core then (SALTS_EPROTO, core)
      else if c_pending_apply_index core \<noteq> 0 \<and> c_pending_apply_index core < c_apply_admitted_index core
      then (SALTS_EPROTO, core)
      else
        let pending_count = (if c_pending_apply_index core \<noteq> 0
                             then c_pending_apply_index core - c_apply_admitted_index core else 0)
        in if admitted_entry_count > unat pending_count then (SALTS_EINVAL, core)
           else (SALTS_OK, core\<lparr>c_apply_admitted_index := c_apply_admitted_index core + of_nat admitted_entry_count,
                                c_pending_apply_index := 0, c_ready_outstanding := False\<rparr>))"

definition tr_raft_core_ack_applied :: "raft_core \<Rightarrow> raft_index \<Rightarrow> salts_status \<times> raft_core" where
  "tr_raft_core_ack_applied core index =
     (if index = 0 then (SALTS_EINVAL, core)
      else if c_in_call core then (SALTS_EPROTO, core)
      else if index \<le> c_applied_index core then (SALTS_EALREADY, core)
      else if c_applied_index core = UINT64_MAX \<or> index \<noteq> c_applied_index core + 1 then (SALTS_EPROTO, core)
      else if index > c_apply_admitted_index core then (SALTS_EBUSY, core)
      else (SALTS_OK, core\<lparr>c_applied_index := index\<rparr>))"

definition tr_raft_core_advance :: "raft_core \<Rightarrow> salts_status \<times> raft_core" where
  "tr_raft_core_advance core =
     (if c_in_call core \<or> \<not> c_ready_outstanding core then (SALTS_EPROTO, core)
      else if c_pending_apply_index core \<noteq> 0
      then if c_apply_admitted_index core \<noteq> c_applied_index core
              \<or> c_pending_apply_index core < c_apply_admitted_index core
           then (SALTS_EBUSY, core)
           else (SALTS_OK, core\<lparr>c_apply_admitted_index := c_pending_apply_index core,
                                c_applied_index := c_pending_apply_index core,
                                c_pending_apply_index := 0, c_ready_outstanding := False\<rparr>)
      else (SALTS_OK, core\<lparr>c_ready_outstanding := False\<rparr>))"

section \<open>Snapshots\<close>

record snapshot_point =
  sp_index :: raft_index
  sp_term :: raft_term
  sp_configuration :: conf

definition tr_raft_core_snapshot_point :: "raft_core \<Rightarrow> salts_status + snapshot_point" where
  "tr_raft_core_snapshot_point core =
     (if c_in_call core \<or> c_ready_outstanding core \<or> c_applied_index core \<noteq> c_commit_index core
      then Inl SALTS_EBUSY
      else if c_applied_index core \<le> log_base_index (c_log core) then Inl SALTS_ENOENT
      else case tr_raft_log_get (c_log core) (c_applied_index core) of
             None \<Rightarrow> Inl SALTS_EPROTO
           | Some e \<Rightarrow> Inr \<lparr>sp_index = c_applied_index core, sp_term = e_term e,
                            sp_configuration = tr_core_membership core\<rparr>)"

definition tr_snapshot_configuration_equal :: "conf \<Rightarrow> conf \<Rightarrow> bool" where
  "tr_snapshot_configuration_equal left right =
     (if conf_phase left \<noteq> conf_phase right
         \<or> conf_transition_id left \<noteq> conf_transition_id right
         \<or> length (conf_members left) \<noteq> length (conf_members right)
      then False
      else list_all2 (\<lambda>l r. cm_node_id l = cm_node_id r \<and> cm_roles l = cm_roles r)
             (conf_members left) (conf_members right))"

definition tr_raft_core_compact :: "vec_ops \<Rightarrow> raft_core \<Rightarrow> snapshot_point \<Rightarrow> salts_status \<times> raft_core" where
  "tr_raft_core_compact V core point =
     (case tr_raft_core_snapshot_point core of
        Inl result \<Rightarrow> (result, core)
      | Inr current \<Rightarrow>
          if sp_index point \<noteq> sp_index current \<or> sp_term point \<noteq> sp_term current
             \<or> \<not> tr_snapshot_configuration_equal (sp_configuration point) (sp_configuration current)
          then (SALTS_EPROTO, core)
          else case tr_raft_log_compact V (c_log core) (sp_index point) (sp_term point) of
                 (result, l) \<Rightarrow> (result, core\<lparr>c_log := l\<rparr>))"

definition tr_raft_core_snapshot_completed ::
    "raft_core \<Rightarrow> node_id \<Rightarrow> raft_index \<Rightarrow> ready \<Rightarrow> salts_status \<times> raft_core \<times> ready" where
  "tr_raft_core_snapshot_completed core peer_id snapshot_index ready =
     (if peer_id = 0 \<or> peer_id = c_self_id core \<or> snapshot_index = 0 then (SALTS_EINVAL, core, ready)
      else
        let peer_index = tr_peer_index core peer_id
        in if peer_index < 0 \<or> snapshot_index > log_base_index (c_log core) then (SALTS_EINVAL, core, ready)
           else case tr_begin core ready of
             (result, core, ready, prior) \<Rightarrow>
               if result \<noteq> SALTS_OK then (result, core, ready)
               else if c_role core \<noteq> TR_RAFT_LEADER then (SALTS_EBUSY, core\<lparr>c_in_call := False\<rparr>, ready)
               else case tr_require_capacity core ready
                           (if tr_peer_index_paused core (nat peer_index) then 0 else 1) of
                 (result, core, ready) \<Rightarrow>
                   if result \<noteq> SALTS_OK then (result, core, ready)
                   else
                     let core = core\<lparr>
                           c_match_index :=
                             (if snapshot_index > arr_get 0 (c_match_index core) peer_index
                              then arr_set (c_match_index core) peer_index snapshot_index
                              else c_match_index core),
                           c_next_index := arr_set (c_next_index core) peer_index (snapshot_index + 1),
                           c_append_windows := arr_set (c_append_windows core) peer_index
                             (tr_append_window_reset (arr_get window_zero (c_append_windows core) peer_index) True)\<rparr>
                     in case tr_fill_peer_replication_window core ready (nat peer_index) of
                          (core, ready) \<Rightarrow> tr_finish core ready prior)"

section \<open>Views and switches\<close>

record raft_status =
  st_self_id :: node_id
  st_leader_id :: node_id
  st_role :: raft_role
  st_term :: raft_term
  st_voted_for :: node_id
  st_last_log_index :: raft_index
  st_last_log_term :: raft_term
  st_log_base_index :: raft_index
  st_log_base_term :: raft_term
  st_log_entry_count :: nat
  st_commit_index :: raft_index
  st_applied_index :: raft_index
  st_election_elapsed_ticks :: u32
  st_election_timeout_ticks :: u32
  st_heartbeat_elapsed_ticks :: u32
  st_ready_outstanding :: bool
  st_transfer_target :: node_id
  st_transfer_elapsed_ticks :: u32
  st_pending_read_context_id :: u64
  st_pending_read_count :: nat
  st_waiting_read_count :: nat
  st_max_pending_reads :: nat
  st_inflight_append_count :: nat
  st_self_is_voter :: bool
  st_voter_count :: nat
  st_learner_count :: nat
  st_joint_configuration :: bool
  st_membership_transition_id :: u64
  st_pending_configuration_count :: nat
  st_peer_count :: nat
  st_snapshot_required_peer_count :: nat

definition tr_raft_core_status :: "raft_core \<Rightarrow> raft_status" where
  "tr_raft_core_status core =
     \<lparr>st_self_id = c_self_id core, st_leader_id = c_leader_id core, st_role = c_role core,
      st_term = c_term core, st_voted_for = c_voted_for core,
      st_last_log_index = tr_raft_log_last_index (c_log core),
      st_last_log_term = tr_raft_log_last_term (c_log core),
      st_log_base_index = log_base_index (c_log core), st_log_base_term = log_base_term (c_log core),
      st_log_entry_count = tr_raft_log_count (c_log core), st_commit_index = c_commit_index core,
      st_applied_index = c_applied_index core,
      st_election_elapsed_ticks = c_election_elapsed_ticks core,
      st_election_timeout_ticks = c_election_timeout_ticks core,
      st_heartbeat_elapsed_ticks = c_heartbeat_elapsed_ticks core,
      st_ready_outstanding = c_ready_outstanding core, st_transfer_target = c_transfer_target core,
      st_transfer_elapsed_ticks = c_transfer_elapsed_ticks core,
      st_pending_read_context_id = c_pending_read_context_id core,
      st_pending_read_count = tr_read_total_count core,
      st_waiting_read_count = length (c_waiting_read_contexts core),
      st_max_pending_reads = c_max_pending_reads core,
      st_inflight_append_count =
        sum_list (map (\<lambda>i. w_count (arr_get window_zero (c_append_windows core) (int i))) [0..<tr_peer_count core]),
      st_self_is_voter = c_self_is_voter core, st_voter_count = tr_core_voter_count core,
      st_learner_count = tr_core_learner_count core,
      st_joint_configuration = (conf_phase (tr_core_membership core) = TR_RAFT_CONF_JOINT),
      st_membership_transition_id = conf_transition_id (tr_core_membership core),
      st_pending_configuration_count = length (tr_pending (c_transition core)),
      st_peer_count = tr_peer_count core,
      st_snapshot_required_peer_count =
        (if c_role core = TR_RAFT_LEADER
         then length (filter (\<lambda>i. tr_peer_id core i \<noteq> c_self_id core
                \<and> arr_get 0 (c_next_index core) (int i) \<le> log_base_index (c_log core)) [0..<tr_peer_count core])
         else 0)\<rparr>"

definition tr_raft_core_configuration :: "raft_core \<Rightarrow> conf" where
  "tr_raft_core_configuration core = tr_core_membership core"

record peer_progress =
  pp_node_id :: node_id
  pp_match_index :: raft_index
  pp_next_index :: raft_index
  pp_append_inflight_elapsed_ticks :: u32
  pp_inflight_append_count :: nat
  pp_max_inflight_append_requests :: nat
  pp_recent_active :: bool
  pp_append_inflight :: bool
  pp_append_probe :: bool
  pp_snapshot_required :: bool

definition tr_raft_core_progress :: "raft_core \<Rightarrow> peer_progress list" where
  "tr_raft_core_progress core =
     map (\<lambda>i. let window = arr_get window_zero (c_append_windows core) (int i);
                  node_id = tr_peer_id core i;
                  next_index = arr_get 0 (c_next_index core) (int i)
              in \<lparr>pp_node_id = node_id, pp_match_index = arr_get 0 (c_match_index core) (int i),
                  pp_next_index = next_index,
                  pp_append_inflight_elapsed_ticks = tr_append_window_oldest_elapsed window,
                  pp_inflight_append_count = w_count window,
                  pp_max_inflight_append_requests = c_max_inflight core,
                  pp_recent_active = (node_id = c_self_id core \<or> u32_test (c_recent_active core) (int i)),
                  pp_append_inflight = (w_count window \<noteq> 0), pp_append_probe = w_probe window,
                  pp_snapshot_required = (c_role core = TR_RAFT_LEADER \<and> node_id \<noteq> c_self_id core
                    \<and> next_index \<le> log_base_index (c_log core))\<rparr>)
       [0..<tr_peer_count core]"

definition tr_raft_core_set_peer_paused :: "raft_core \<Rightarrow> node_id \<Rightarrow> bool \<Rightarrow> salts_status \<times> raft_core" where
  "tr_raft_core_set_peer_paused core peer_id paused =
     (if peer_id = 0 \<or> peer_id = c_self_id core then (SALTS_EINVAL, core)
      else if c_in_call core then (SALTS_EBUSY, core)
      else
        let peer_index = tr_peer_index core peer_id;
            bit = u32_shl1 peer_index
        in if peer_index < 0 then (SALTS_ENOENT, core)
           else (SALTS_OK,
                 core\<lparr>c_paused_peers := (if paused then c_paused_peers core OR bit
                                         else c_paused_peers core AND NOT bit)\<rparr>))"

definition tr_raft_core_peer_paused :: "raft_core \<Rightarrow> node_id \<Rightarrow> salts_status + bool" where
  "tr_raft_core_peer_paused core peer_id =
     (if peer_id = 0 \<or> peer_id = c_self_id core then Inl SALTS_EINVAL
      else
        let peer_index = tr_peer_index core peer_id
        in if peer_index < 0 then Inl SALTS_ENOENT
           else Inr (tr_peer_index_paused core (nat peer_index)))"

datatype operation_state =
    TR_RAFT_OPERATION_PENDING
  | TR_RAFT_OPERATION_COMMITTED
  | TR_RAFT_OPERATION_APPLIED
  | TR_RAFT_OPERATION_LOST
  | TR_RAFT_OPERATION_EXPIRED

record operation_status =
  os_state :: operation_state
  os_term :: raft_term
  os_index :: raft_index
  os_commit_index :: raft_index
  os_applied_index :: raft_index

definition tr_raft_core_operation_status ::
    "raft_core \<Rightarrow> raft_term \<Rightarrow> raft_index \<Rightarrow> salts_status + operation_status" where
  "tr_raft_core_operation_status core trm index =
     (let status = (\<lambda>s. Inr \<lparr>os_state = s, os_term = trm, os_index = index,
                            os_commit_index = c_commit_index core, os_applied_index = c_applied_index core\<rparr>);
          l = c_log core
      in if trm = 0 \<or> index = 0 then Inl SALTS_EINVAL
         else if index < log_base_index l then status TR_RAFT_OPERATION_EXPIRED
         else if index = log_base_index l
         then status (if trm = log_base_term l then TR_RAFT_OPERATION_APPLIED else TR_RAFT_OPERATION_LOST)
         else if index > tr_raft_log_last_index l
         then if trm > c_term core then Inl SALTS_EINVAL else status TR_RAFT_OPERATION_LOST
         else case tr_raft_log_get l index of
                None \<Rightarrow> Inl SALTS_EPROTO
              | Some e \<Rightarrow>
                  status (if e_term e \<noteq> trm then TR_RAFT_OPERATION_LOST
                          else if c_applied_index core \<ge> index then TR_RAFT_OPERATION_APPLIED
                          else if c_commit_index core \<ge> index then TR_RAFT_OPERATION_COMMITTED
                          else TR_RAFT_OPERATION_PENDING))"

end
