(* ===== verification/Raft_Core_Invariant.thy ===== *)
theory Raft_Core_Invariant
  imports Raft_Core_API
begin

text \<open>
  The invariant of the Raft core and the operations below the public interface that keep it: the
  order of the indices, the agreement of the peer tables with the membership transition, the ring
  buffers, the bounds of a leader's progress tables, the roles and the pending reads.
\<close>

section \<open>The invariant\<close>

text \<open>The indices a core keeps, from the base of its log to its last entry. While a Ready record is
  outstanding, \<open>c_pending_apply_index\<close> names the last entry it delivered.\<close>

definition index_order :: "raft_core \<Rightarrow> bool" where
  "index_order core \<longleftrightarrow>
     log_base_index (c_log core) \<le> c_applied_index core
     \<and> c_applied_index core \<le> c_apply_admitted_index core
     \<and> c_apply_admitted_index core \<le> c_commit_index core
     \<and> c_commit_index core \<le> tr_raft_log_last_index (c_log core)
     \<and> (c_pending_apply_index core \<noteq> 0 \<longrightarrow>
          c_apply_admitted_index core \<le> c_pending_apply_index core
          \<and> c_pending_apply_index core \<le> c_commit_index core)"

text \<open>The staged configurations lie between the commit index and the end of the log, and the peers
  are the members of the committed and the staged configurations.\<close>

definition membership_wf :: "raft_core \<Rightarrow> bool" where
  "membership_wf core \<longleftrightarrow>
     transition_wf (c_transition core)
     \<and> tr_core_build_peer_set (c_transition core) = Inr (c_peers core)
     \<and> (\<forall>p \<in> set (tr_pending (c_transition core)).
          c_commit_index core < snd p \<and> snd p \<le> tr_raft_log_last_index (c_log core))
     \<and> c_self_is_voter core = tr_raft_membership_is_voter (tr_core_membership core) (c_self_id core)
     \<and> c_self_id core \<noteq> 0 \<and> c_self_id core \<noteq> UINT64_MAX"

definition tables_wf :: "raft_core \<Rightarrow> bool" where
  "tables_wf core \<longleftrightarrow>
     length (c_next_index core) = 31 \<and> length (c_match_index core) = 31
     \<and> length (c_append_windows core) = 31 \<and> (\<forall>w \<in> set (c_append_windows core). window_wf w)"

definition peer_match :: "raft_core \<Rightarrow> nat \<Rightarrow> raft_index" where
  "peer_match core i = arr_get 0 (c_match_index core) (int i)"

text \<open>What a leader knows of a peer stays within its own log.\<close>

definition peer_bounds :: "raft_core \<Rightarrow> nat \<Rightarrow> bool" where
  "peer_bounds core i \<longleftrightarrow>
     0 < peer_next core i \<and> unat (peer_next core i) \<le> Suc (unat (tr_raft_log_last_index (c_log core)))
     \<and> peer_match core i \<le> tr_raft_log_last_index (c_log core)
     \<and> (\<forall>x \<in> set (window_list (peer_window core i)).
          if_previous_index x \<le> tr_raft_log_last_index (c_log core)
          \<and> if_last_index x \<le> tr_raft_log_last_index (c_log core))"

definition progress_wf :: "raft_core \<Rightarrow> bool" where
  "progress_wf core \<longleftrightarrow> (\<forall>i < tr_peer_count core. peer_bounds core i)"

definition role_wf :: "raft_core \<Rightarrow> bool" where
  "role_wf core \<longleftrightarrow>
     (c_role core \<noteq> TR_RAFT_FOLLOWER \<longrightarrow> c_self_is_voter core)
     \<and> (c_role core = TR_RAFT_PRE_CANDIDATE \<longrightarrow>
          c_term core \<noteq> UINT64_MAX \<and> c_campaign_term core \<in> {0, c_term core + 1})
     \<and> (c_role core \<in> {TR_RAFT_CANDIDATE, TR_RAFT_LEADER} \<longrightarrow>
          c_term core \<noteq> 0 \<and> c_voted_for core = c_self_id core)"

definition reads_wf :: "raft_core \<Rightarrow> bool" where
  "reads_wf core \<longleftrightarrow>
     tr_read_total_count core \<le> c_max_pending_reads core \<and> c_max_pending_reads core \<le> 64
     \<and> distinct (c_pending_read_contexts core @ c_waiting_read_contexts core)
     \<and> (tr_read_total_count core \<noteq> 0 \<longrightarrow> c_role core = TR_RAFT_LEADER)
     \<and> (c_pending_read_contexts core \<noteq> [] \<longrightarrow> c_pending_read_index core \<le> c_commit_index core)"

definition core_wf :: "raft_core \<Rightarrow> bool" where
  "core_wf core \<longleftrightarrow>
     log_wf (c_log core) \<and> index_order core \<and> membership_wf core \<and> tables_wf core
     \<and> (c_role core = TR_RAFT_LEADER \<longrightarrow> progress_wf core) \<and> role_wf core \<and> reads_wf core"

text \<open>What no operation takes back: the term and the commit index do not decrease, a vote stands for
  its term, the log up to the commit index stays, and the apply positions are not touched.\<close>

definition core_extends :: "raft_core \<Rightarrow> raft_core \<Rightarrow> bool" where
  "core_extends core core' \<longleftrightarrow>
     c_self_id core' = c_self_id core \<and> c_term core \<le> c_term core'
     \<and> (c_term core' = c_term core \<and> c_voted_for core \<noteq> 0 \<longrightarrow> c_voted_for core' = c_voted_for core)
     \<and> c_commit_index core \<le> c_commit_index core'
     \<and> c_applied_index core \<le> c_applied_index core'
     \<and> c_apply_admitted_index core \<le> c_apply_admitted_index core'
     \<and> log_keeps (c_commit_index core) (c_log core) (c_log core')"

lemma core_extends_refl [simp, intro]: "core_extends core core"
  by (simp add: core_extends_def)

lemma core_extends_trans:
  assumes "core_extends a b" and "core_extends b c"
  shows "core_extends a c"
proof -
  have "log_keeps (c_commit_index a) (c_log b) (c_log c)"
    using assms by (auto simp: core_extends_def intro: log_keeps_mono)
  then show ?thesis
    using assms unfolding core_extends_def by (auto intro: log_keeps_trans)
qed

lemmas core_wf_defs = core_wf_def index_order_def membership_wf_def tables_wf_def progress_wf_def
  peer_bounds_def role_wf_def reads_wf_def

text \<open>The invariant does not look at the call flags and timers.\<close>

named_theorems core_frame

lemma core_wf_flags [core_frame]:
  "core_wf (core\<lparr>c_in_call := b\<rparr>) \<longleftrightarrow> core_wf core"
  "core_wf (core\<lparr>c_ready_outstanding := b\<rparr>) \<longleftrightarrow> core_wf core"
  "core_wf (core\<lparr>c_election_elapsed_ticks := t\<rparr>) \<longleftrightarrow> core_wf core"
  "core_wf (core\<lparr>c_election_timeout_ticks := t\<rparr>) \<longleftrightarrow> core_wf core"
  "core_wf (core\<lparr>c_heartbeat_elapsed_ticks := t\<rparr>) \<longleftrightarrow> core_wf core"
  "core_wf (core\<lparr>c_check_quorum_elapsed_ticks := t\<rparr>) \<longleftrightarrow> core_wf core"
  "core_wf (core\<lparr>c_recent_active := u\<rparr>) \<longleftrightarrow> core_wf core"
  "core_wf (core\<lparr>c_paused_peers := u\<rparr>) \<longleftrightarrow> core_wf core"
  "core_wf (core\<lparr>c_transfer_target := n\<rparr>) \<longleftrightarrow> core_wf core"
  "core_wf (core\<lparr>c_transfer_elapsed_ticks := t\<rparr>) \<longleftrightarrow> core_wf core"
  "core_wf (core\<lparr>c_transfer_sent := b\<rparr>) \<longleftrightarrow> core_wf core"
  "core_wf (core\<lparr>c_pre_votes := u\<rparr>) \<longleftrightarrow> core_wf core"
  "core_wf (core\<lparr>c_votes := u\<rparr>) \<longleftrightarrow> core_wf core"
  "core_wf (core\<lparr>c_leader_id := n\<rparr>) \<longleftrightarrow> core_wf core"
  "core_wf (core\<lparr>c_pending_read_acks := u\<rparr>) \<longleftrightarrow> core_wf core"
  "core_wf (core\<lparr>c_pending_read_context_id := c\<rparr>) \<longleftrightarrow> core_wf core"
  by (simp_all add: core_wf_defs tr_core_membership_def tr_peer_count_def peer_next_def peer_window_def
      peer_match_def tr_read_total_count_def)

section \<open>Stepping down\<close>

lemma become_follower_frame [simp]:
  "c_log (tr_become_follower core t) = c_log core"
  "c_transition (tr_become_follower core t) = c_transition core"
  "c_peers (tr_become_follower core t) = c_peers core"
  "c_self_is_voter (tr_become_follower core t) = c_self_is_voter core"
  "c_self_id (tr_become_follower core t) = c_self_id core"
  "c_commit_index (tr_become_follower core t) = c_commit_index core"
  "c_applied_index (tr_become_follower core t) = c_applied_index core"
  "c_apply_admitted_index (tr_become_follower core t) = c_apply_admitted_index core"
  "c_pending_apply_index (tr_become_follower core t) = c_pending_apply_index core"
  "c_next_index (tr_become_follower core t) = c_next_index core"
  "c_match_index (tr_become_follower core t) = c_match_index core"
  "c_max_pending_reads (tr_become_follower core t) = c_max_pending_reads core"
  "c_max_inflight (tr_become_follower core t) = c_max_inflight core"
  "c_paused_peers (tr_become_follower core t) = c_paused_peers core"
  "c_in_call (tr_become_follower core t) = c_in_call core"
  "c_ready_outstanding (tr_become_follower core t) = c_ready_outstanding core"
  "c_role (tr_become_follower core t) = TR_RAFT_FOLLOWER"
  "c_campaign_term (tr_become_follower core t) = 0"
  "c_leader_id (tr_become_follower core t) = 0"
  "c_transfer_target (tr_become_follower core t) = 0"
  "c_pending_read_contexts (tr_become_follower core t) = []"
  "c_waiting_read_contexts (tr_become_follower core t) = []"
  "c_term (tr_become_follower core t) = max (c_term core) t"
  "c_voted_for (tr_become_follower core t) = (if c_term core < t then 0 else c_voted_for core)"
  "c_append_windows (tr_become_follower core t)
     = map (\<lambda>w. tr_append_window_reset w True) (c_append_windows core)"
  by (simp_all add: tr_become_follower_def tr_read_reset_all_def tr_read_clear_active_def Let_def max_def less_imp_le)

lemma become_follower_parts:
  "tables_wf core \<Longrightarrow> tables_wf (tr_become_follower core t)"
  "c_max_pending_reads core \<le> 64 \<Longrightarrow> reads_wf (tr_become_follower core t)"
  "role_wf (tr_become_follower core t)"
  "membership_wf (tr_become_follower core t) \<longleftrightarrow> membership_wf core"
  "index_order (tr_become_follower core t) \<longleftrightarrow> index_order core"
  by (auto simp: tables_wf_def reads_wf_def role_wf_def membership_wf_def index_order_def
      tr_read_total_count_def tr_core_membership_def)

lemma become_follower_wf:
  "core_wf core \<Longrightarrow> core_wf (tr_become_follower core t)"
  by (simp add: core_wf_def become_follower_parts reads_wf_def [of core])

lemma become_follower_extends [simp]: "core_extends core (tr_become_follower core t)"
  by (auto simp: core_extends_def)

lemma peer_window_wf: "tables_wf core \<Longrightarrow> window_wf (peer_window core i)"
  by (auto simp: tables_wf_def peer_window_def arr_get_def)

lemma become_follower_progress: "progress_wf core \<Longrightarrow> progress_wf (tr_become_follower core t)"
proof -
  have "window_list (peer_window (tr_become_follower core t) i) = []" for i
    by (simp add: peer_window_def arr_get_def) (simp add: window_list_def window_zero_def)
  then show "progress_wf core \<Longrightarrow> progress_wf (tr_become_follower core t)"
    by (simp add: progress_wf_def peer_bounds_def tr_peer_count_def peer_next_def peer_match_def)
qed

section \<open>Peer tables\<close>

lemma refresh_peers_frame [simp]:
  "c_log (tr_core_refresh_peers core ps) = c_log core"
  "c_transition (tr_core_refresh_peers core ps) = c_transition core"
  "c_self_is_voter (tr_core_refresh_peers core ps) = c_self_is_voter core"
  "c_self_id (tr_core_refresh_peers core ps) = c_self_id core"
  "c_role (tr_core_refresh_peers core ps) = c_role core"
  "c_leader_id (tr_core_refresh_peers core ps) = c_leader_id core"
  "c_term (tr_core_refresh_peers core ps) = c_term core"
  "c_voted_for (tr_core_refresh_peers core ps) = c_voted_for core"
  "c_campaign_term (tr_core_refresh_peers core ps) = c_campaign_term core"
  "c_commit_index (tr_core_refresh_peers core ps) = c_commit_index core"
  "c_applied_index (tr_core_refresh_peers core ps) = c_applied_index core"
  "c_apply_admitted_index (tr_core_refresh_peers core ps) = c_apply_admitted_index core"
  "c_pending_apply_index (tr_core_refresh_peers core ps) = c_pending_apply_index core"
  "c_pending_read_contexts (tr_core_refresh_peers core ps) = c_pending_read_contexts core"
  "c_waiting_read_contexts (tr_core_refresh_peers core ps) = c_waiting_read_contexts core"
  "c_pending_read_index (tr_core_refresh_peers core ps) = c_pending_read_index core"
  "c_max_pending_reads (tr_core_refresh_peers core ps) = c_max_pending_reads core"
  "c_max_inflight (tr_core_refresh_peers core ps) = c_max_inflight core"
  "c_transfer_target (tr_core_refresh_peers core ps) = c_transfer_target core"
  "c_transfer_sent (tr_core_refresh_peers core ps) = c_transfer_sent core"
  "c_in_call (tr_core_refresh_peers core ps) = c_in_call core"
  "c_ready_outstanding (tr_core_refresh_peers core ps) = c_ready_outstanding core"
  "c_votes (tr_core_refresh_peers core ps) = c_votes core"
  "c_pre_votes (tr_core_refresh_peers core ps) = c_pre_votes core"
  "c_peers (tr_core_refresh_peers core ps) = ps"
  by (simp_all add: tr_core_refresh_peers_def Let_def del: upt_rec_numeral)

lemma set_arr_set: "set (arr_set xs i v) \<subseteq> insert v (set xs)"
  by (simp add: arr_set_def set_update_subset_insert subset_insertI)

lemma arr_set_window_wf:
  "\<forall>w \<in> set ws. window_wf w \<Longrightarrow> window_wf v \<Longrightarrow> \<forall>w \<in> set (arr_set ws i v). window_wf w"
  using set_arr_set [of ws i v] by blast

lemma arr_get_window_wf: "\<forall>w \<in> set ws. window_wf w \<Longrightarrow> window_wf (arr_get window_zero ws i)"
  by (simp add: arr_get_def)

lemma refresh_peers_tables:
  assumes "tables_wf core"
  shows "tables_wf (tr_core_refresh_peers core ps)"
proof (cases "c_peers core = ps")
  case True
  with assms show ?thesis by (simp add: tr_core_refresh_peers_def Let_def)
next
  case False
  have "\<forall>w \<in> set (map (\<lambda>i. window_zero\<lparr>w_probe := i < length ps\<rparr>) [0..<31]). window_wf w"
    by (simp del: upt_rec_numeral)
  note windows = this arr_set_window_wf [OF this window_reset_wf(1)]
  show ?thesis
    unfolding tables_wf_def tr_core_refresh_peers_def Let_def
    using False windows by (simp del: upt_rec_numeral)
qed

text \<open>The tables of a peer after a refresh.\<close>

lemma refresh_peers_tables_eq:
  assumes "c_peers core \<noteq> ps" and "i < 31"
  defines "self \<equiv> c_role core = TR_RAFT_LEADER \<and> tr_raft_peer_set_index ps (c_self_id core) = int i"
  shows "peer_next (tr_core_refresh_peers core ps) i =
      (if self then tr_raft_log_last_index (c_log core) + 1
       else refresh_next (c_peers core) (c_match_index core) (tr_raft_log_last_index (c_log core)) ps i)"
    and "peer_match (tr_core_refresh_peers core ps) i =
      (if self then tr_raft_log_last_index (c_log core)
       else refresh_match (c_peers core) (c_match_index core) ps i)"
    and "window_list (peer_window (tr_core_refresh_peers core ps) i) = []"
  using assms
  by (auto simp: tr_core_refresh_peers_def Let_def peer_next_def peer_match_def peer_window_def
      tr_peer_index_def arr_get_def arr_set_def window_list_def window_zero_def tr_append_window_reset_def
      nth_list_update simp del: upt_rec_numeral)

lemma unat_room_1: "log_room l 1 \<Longrightarrow> i \<le> tr_raft_log_last_index l \<Longrightarrow> unat (i + 1) = Suc (unat i)"
  using unat_plus_nat [of i 1] by (simp add: log_room_def u64_le_unat)

lemma refresh_peers_progress:
  assumes "progress_wf core" and "log_room (c_log core) 1" and "length ps \<le> 31"
  shows "progress_wf (tr_core_refresh_peers core ps)"
proof (cases "c_peers core = ps")
  case True
  with assms show ?thesis by (simp add: tr_core_refresh_peers_def Let_def)
next
  case False
  let ?last = "tr_raft_log_last_index (c_log core)"
  have old: "arr_get 0 (c_match_index core) k \<le> ?last" if "k = tr_raft_peer_set_index (c_peers core) n" "\<not> k < 0" for n k
    using assms(1) that tr_raft_peer_set_index_range [of "c_peers core" n]
    by (auto simp: progress_wf_def peer_bounds_def peer_match_def tr_peer_count_def dest!: spec [of _ "nat k"])
  have nat1: "unat (i + 1) = Suc (unat i)" if "i \<le> ?last" for i
    using unat_room_1 [OF assms(2) that] .
  have "peer_bounds (tr_core_refresh_peers core ps) i" if "i < length ps" for i
  proof -
    have bound: "0 < j + 1 \<and> unat (j + 1) \<le> Suc (unat ?last)" if "j \<le> ?last" for j
      using nat1 [OF that] that by (simp add: u64_less_unat u64_le_unat)
    have "0 < refresh_next (c_peers core) (c_match_index core) ?last ps i
        \<and> unat (refresh_next (c_peers core) (c_match_index core) ?last ps i) \<le> Suc (unat ?last)"
      using bound old that by (simp add: refresh_next_def Let_def)
    moreover have "refresh_match (c_peers core) (c_match_index core) ps i \<le> ?last"
      using old that by (simp add: refresh_match_def Let_def)
    ultimately show ?thesis
      using that assms(3) False bound [of ?last]
      by (simp add: peer_bounds_def refresh_peers_tables_eq)
  qed
  then show ?thesis by (simp add: progress_wf_def tr_peer_count_def)
qed

section \<open>Advancing the commit index\<close>

text \<open>What stays when the membership is synchronised or the commit index advances.\<close>

definition core_same_log :: "raft_core \<Rightarrow> raft_core \<Rightarrow> bool" where
  "core_same_log core core' \<longleftrightarrow>
     c_self_id core' = c_self_id core \<and> c_term core' = c_term core \<and> c_voted_for core' = c_voted_for core
     \<and> c_log core' = c_log core \<and> c_applied_index core' = c_applied_index core
     \<and> c_apply_admitted_index core' = c_apply_admitted_index core
     \<and> c_pending_apply_index core' = c_pending_apply_index core
     \<and> c_max_pending_reads core' = c_max_pending_reads core \<and> c_max_inflight core' = c_max_inflight core
     \<and> c_in_call core' = c_in_call core \<and> c_ready_outstanding core' = c_ready_outstanding core"

lemma core_same_log_refl [simp, intro]: "core_same_log core core"
  by (simp add: core_same_log_def)

lemma core_same_log_trans: "core_same_log a b \<Longrightarrow> core_same_log b c \<Longrightarrow> core_same_log a c"
  by (simp add: core_same_log_def)

lemma core_same_log_extends:
  "core_same_log core core' \<Longrightarrow> c_commit_index core \<le> c_commit_index core' \<Longrightarrow> core_extends core core'"
  by (simp add: core_same_log_def core_extends_def)

lemma build_peer_set_wf:
  assumes "transition_wf t"
  obtains ps where "tr_core_build_peer_set t = Inr ps" and "length ps \<le> 31" and "sorted_wrt (<) ps"
    and "0 \<notin> set ps" and "set ps = member_union (transition_confs t)"
proof -
  from assms obtain ps where ps: "tr_raft_peer_set_build (transition_confs t) = Inr ps"
    by (auto simp: transition_wf_def)
  then have "tr_core_build_peer_set t = Inr ps"
    by (simp add: tr_core_build_peer_set_def transition_confs_def tr_raft_membership_transition_committed_def)
  from that [OF this peer_set_build_Inr(3,1,7,2) [OF ps]] show thesis .
qed

text \<open>Synchronising turns a state whose transition was changed into a well-formed one.\<close>

lemma sync_membership_wf:
  assumes "log_wf (c_log core)" and "index_order core" and "transition_wf (c_transition core)"
    and "\<forall>p \<in> set (tr_pending (c_transition core)).
          c_commit_index core < snd p \<and> snd p \<le> tr_raft_log_last_index (c_log core)"
    and "c_self_id core \<noteq> 0" and "c_self_id core \<noteq> UINT64_MAX" and "tables_wf core"
    and "c_role core = TR_RAFT_LEADER \<longrightarrow> progress_wf core"
    and "c_role core = TR_RAFT_LEADER \<longrightarrow> c_term core \<noteq> 0 \<and> c_voted_for core = c_self_id core"
    and "c_role core \<in> {TR_RAFT_FOLLOWER, TR_RAFT_LEADER}" and "reads_wf core"
    and "log_room (c_log core) 1"
  obtains core' where "tr_core_sync_membership core = (SALTS_OK, core')" and "core_wf core'"
    and "core_same_log core core'" and "c_commit_index core' = c_commit_index core"
    and "c_transition core' = c_transition core" and "progress_wf core \<Longrightarrow> progress_wf core'"
    and "c_role core' = c_role core \<or> c_role core' = TR_RAFT_FOLLOWER"
proof -
  from build_peer_set_wf [OF assms(3)] obtain ps where
    ps: "tr_core_build_peer_set (c_transition core) = Inr ps" "length ps \<le> 31" by blast
  define core1 where "core1 = (tr_core_refresh_peers core ps)
    \<lparr>c_self_is_voter := tr_raft_membership_is_voter (tr_core_membership core) (c_self_id core)\<rparr>"
  have mem: "tr_core_membership (tr_core_refresh_peers core ps) = tr_core_membership core"
    by (simp add: tr_core_membership_def)
  define down where "down \<longleftrightarrow> \<not> c_self_is_voter core1 \<and> c_role core1 = TR_RAFT_LEADER"
  define core' where "core' = (if down then tr_become_follower core1 (c_term core1) else core1)"
  have sync: "tr_core_sync_membership core = (SALTS_OK, core')"
    by (simp add: tr_core_sync_membership_def ps Let_def core1_def core'_def down_def mem)
  have frame1: "core_same_log core core1" "c_commit_index core1 = c_commit_index core"
    "c_transition core1 = c_transition core" "c_role core1 = c_role core"
    by (simp_all add: core1_def core_same_log_def)
  have parts1: "log_wf (c_log core1)" "index_order core1" "membership_wf core1" "tables_wf core1" "reads_wf core1"
    using assms ps(1) refresh_peers_tables [OF assms(7), of ps]
    by (simp_all add: core1_def index_order_def membership_wf_def reads_wf_def tables_wf_def
        tr_core_membership_def tr_read_total_count_def)
  have progress1: "progress_wf core1" if "progress_wf core"
    using refresh_peers_progress [OF that assms(12) ps(2)]
    by (simp add: core1_def progress_wf_def peer_bounds_def tr_peer_count_def peer_next_def
        peer_match_def peer_window_def)
  have wf1: "core_wf core1" if "\<not> down"
    using that parts1 progress1 assms(8-10) frame1
    by (auto simp: core_wf_def role_wf_def down_def core_same_log_def)
  have "core_wf core'"
  proof (cases down)
    case True
    with parts1 show ?thesis
      by (simp add: core'_def core_wf_def become_follower_parts reads_wf_def [of core1])
  next
    case False
    with wf1 show ?thesis by (simp add: core'_def)
  qed
  moreover have "core_same_log core core'" "c_commit_index core' = c_commit_index core"
    "c_transition core' = c_transition core" "c_role core' = c_role core \<or> c_role core' = TR_RAFT_FOLLOWER"
    using frame1 by (simp_all add: core'_def core_same_log_def)
  moreover have "progress_wf core'" if "progress_wf core"
    using progress1 [OF that] by (simp add: core'_def become_follower_progress)
  ultimately show thesis using that [OF sync] by blast
qed

text \<open>Committing up to an index of the log.\<close>

lemma commit_to_wf:
  assumes wf: "core_wf core" and room: "log_room (c_log core) 1"
    and role: "c_role core \<in> {TR_RAFT_FOLLOWER, TR_RAFT_LEADER}"
    and ci: "c_commit_index core \<le> ci" "ci \<le> tr_raft_log_last_index (c_log core)"
  obtains core' where "tr_core_sync_membership (core\<lparr>c_commit_index := ci, c_transition :=
      tr_raft_membership_transition_apply (c_transition core) ci\<rparr>) = (SALTS_OK, core')"
    and "core_wf core'" and "core_same_log core core'" and "c_commit_index core' = ci"
    and "c_transition core' = tr_raft_membership_transition_apply (c_transition core) ci"
    and "progress_wf core \<Longrightarrow> progress_wf core'"
    and "c_role core' = c_role core \<or> c_role core' = TR_RAFT_FOLLOWER"
proof -
  define core1 where "core1 = core\<lparr>c_commit_index := ci, c_transition :=
      tr_raft_membership_transition_apply (c_transition core) ci\<rparr>"
  have t: "transition_wf (c_transition core)" using wf by (simp add: core_wf_def membership_wf_def)
  have progress: "progress_wf core1 \<longleftrightarrow> progress_wf core"
    by (simp add: core1_def progress_wf_def peer_bounds_def tr_peer_count_def peer_next_def
        peer_match_def peer_window_def)
  have pending: "\<forall>p \<in> set (tr_pending (c_transition core1)).
          c_commit_index core1 < snd p \<and> snd p \<le> tr_raft_log_last_index (c_log core1)"
    using wf t by (auto simp: core1_def transition_apply_eq core_wf_def membership_wf_def)
  have t1: "transition_wf (c_transition core1)" by (simp add: core1_def transition_apply_wf [OF t])
  have order: "index_order core1" using wf ci by (auto simp: core1_def core_wf_def index_order_def)
  have reads: "reads_wf core1"
    using wf ci by (auto simp: core1_def core_wf_def reads_wf_def tr_read_total_count_def)
  have tables: "tables_wf core1" using wf by (simp add: core1_def core_wf_def tables_wf_def)
  have leader: "c_role core1 = TR_RAFT_LEADER \<longrightarrow> progress_wf core1"
    using wf by (simp add: progress) (simp add: core1_def core_wf_def)
  have rest: "log_wf (c_log core1)" "c_self_id core1 \<noteq> 0" "c_self_id core1 \<noteq> UINT64_MAX"
    "c_role core1 = TR_RAFT_LEADER \<longrightarrow> c_term core1 \<noteq> 0 \<and> c_voted_for core1 = c_self_id core1"
    "c_role core1 \<in> {TR_RAFT_FOLLOWER, TR_RAFT_LEADER}" "log_room (c_log core1) 1"
    using wf room role by (simp_all add: core1_def core_wf_def membership_wf_def role_wf_def)
  from sync_membership_wf [OF rest(1) order t1 pending rest(2,3) tables leader rest(4,5) reads rest(6)]
  obtain core' where sync: "tr_core_sync_membership core1 = (SALTS_OK, core')" and wf': "core_wf core'"
    and same: "core_same_log core1 core'" "c_commit_index core' = c_commit_index core1"
      "c_transition core' = c_transition core1" and progress': "progress_wf core1 \<Longrightarrow> progress_wf core'"
    and role': "c_role core' = c_role core1 \<or> c_role core' = TR_RAFT_FOLLOWER" by blast
  show thesis
  proof (rule that)
    show "tr_core_sync_membership (core\<lparr>c_commit_index := ci, c_transition :=
      tr_raft_membership_transition_apply (c_transition core) ci\<rparr>) = (SALTS_OK, core')"
      using sync by (simp add: core1_def)
    show "core_same_log core core'" using same(1) by (simp add: core1_def core_same_log_def)
  qed (use wf' same(2,3) progress' progress role' in \<open>simp_all add: core1_def\<close>)
qed

section \<open>The commit rule\<close>

text \<open>An index a leader may commit: its entry has the current term, and a quorum stores it.\<close>

definition committable :: "raft_core \<Rightarrow> raft_index \<Rightarrow> bool" where
  "committable core i \<longleftrightarrow>
     (\<exists>e. tr_raft_log_get (c_log core) i = Some e \<and> e_term e = c_term core) \<and> tr_core_match_quorum core i"

lemma u64_le_minus_1: "(0 :: u64) < i \<Longrightarrow> j \<le> i - 1 \<longleftrightarrow> j < i"
proof -
  assume "0 < i"
  then have "unat (i - 1) = unat i - 1" "0 < unat i" by (simp_all add: unat_minus_one u64_less_unat word_neq_0_conv)
  then show ?thesis by (auto simp: u64_less_unat u64_le_unat)
qed

lemma update_commit_scan_spec:
  assumes "log_wf (c_log core)" and "log_base_index (c_log core) \<le> c_commit_index core"
    and "candidate \<le> tr_raft_log_last_index (c_log core)"
  shows "update_commit_scan core candidate = Inr None
           \<and> (\<forall>i. c_commit_index core < i \<and> i \<le> candidate \<longrightarrow> \<not> committable core i)
       \<or> (\<exists>j. update_commit_scan core candidate = Inr (Some j) \<and> committable core j
           \<and> c_commit_index core < j \<and> j \<le> candidate
           \<and> (\<forall>i. j < i \<and> i \<le> candidate \<longrightarrow> \<not> committable core i))"
  using assms
proof (induction core candidate rule: update_commit_scan.induct)
  case (1 core candidate)
  show ?case
  proof (cases "candidate > c_commit_index core")
    case False
    then show ?thesis by (auto simp: update_commit_scan.simps [of core candidate])
  next
    case True
    then have pos: "0 < candidate" by (rule order.strict_trans1 [OF word_zero_le])
    from True 1(4,5) obtain e where e: "tr_raft_log_get (c_log core) candidate = Some e"
      using log_get_None_iff [OF 1(3), of candidate] by (cases "tr_raft_log_get (c_log core) candidate") auto
    have less: "candidate - 1 \<le> tr_raft_log_last_index (c_log core)"
      using u64_le_minus_1 [OF pos, of "candidate - 1"] 1(5) by auto
    show ?thesis
    proof (cases "e_term e = c_term core \<and> tr_core_match_quorum core candidate")
      case good: True
      then have "update_commit_scan core candidate = Inr (Some candidate)"
        using True e by (simp add: update_commit_scan.simps [of core candidate])
      with good True e show ?thesis by (auto simp: committable_def)
    next
      case bad: False
      then have eq: "update_commit_scan core candidate = update_commit_scan core (candidate - 1)"
        using True e by (auto simp: update_commit_scan.simps [of core candidate])
      have nc: "\<not> committable core candidate" using bad e by (auto simp: committable_def)
      have IH: "update_commit_scan core (candidate - 1) = Inr None
           \<and> (\<forall>i. c_commit_index core < i \<and> i \<le> candidate - 1 \<longrightarrow> \<not> committable core i)
       \<or> (\<exists>j. update_commit_scan core (candidate - 1) = Inr (Some j) \<and> committable core j
           \<and> c_commit_index core < j \<and> j \<le> candidate - 1
           \<and> (\<forall>i. j < i \<and> i \<le> candidate - 1 \<longrightarrow> \<not> committable core i))"
      proof (cases "e_term e = c_term core")
        case same: True
        with bad have "\<not> tr_core_match_quorum core candidate" by simp
        from 1(2) [OF True e _ this 1(3,4) less] same show ?thesis by simp
      next
        case False
        from 1(1) [OF True e False 1(3,4) less] show ?thesis .
      qed
      then show ?thesis unfolding eq u64_le_minus_1 [OF pos] using nc by (auto simp: le_less)
    qed
  qed
qed

lemma commit_limit_le: "tr_raft_membership_transition_commit_limit t i \<le> i"
  by (auto simp: tr_raft_membership_transition_commit_limit_def split: list.splits)

lemma update_commit_cases:
  assumes wf: "core_wf core" and room: "log_room (c_log core) 1"
    and role: "c_role core \<in> {TR_RAFT_FOLLOWER, TR_RAFT_LEADER}"
  obtains (kept) "tr_update_commit core rd = (SALTS_OK, core, rd)"
      "\<forall>i. c_commit_index core < i \<and> i \<le> tr_raft_membership_transition_commit_limit (c_transition core)
              (tr_raft_log_last_index (c_log core)) \<longrightarrow> \<not> committable core i"
  | (advanced) j core' where
      "tr_update_commit core rd = (SALTS_OK, core', rd\<lparr>r_commit_changed := True, r_commit_index := j\<rparr>)"
      "committable core j" "c_commit_index core < j"
      "j \<le> tr_raft_membership_transition_commit_limit (c_transition core) (tr_raft_log_last_index (c_log core))"
      "\<forall>i. j < i \<and> i \<le> tr_raft_membership_transition_commit_limit (c_transition core)
              (tr_raft_log_last_index (c_log core)) \<longrightarrow> \<not> committable core i"
      "core_wf core'" "core_same_log core core'" "c_commit_index core' = j"
      "c_transition core' = tr_raft_membership_transition_apply (c_transition core) j"
      "progress_wf core \<longrightarrow> progress_wf core'"
      "c_role core' = c_role core \<or> c_role core' = TR_RAFT_FOLLOWER"
proof -
  let ?last = "tr_raft_log_last_index (c_log core)"
  let ?limit = "tr_raft_membership_transition_commit_limit (c_transition core) ?last"
  have l: "log_wf (c_log core)" and base: "log_base_index (c_log core) \<le> c_commit_index core"
    using wf by (auto simp: core_wf_def index_order_def)
  from update_commit_scan_spec [OF l base commit_limit_le, of "c_transition core"]
  show thesis
  proof (elim disjE exE conjE)
    assume "update_commit_scan core ?limit = Inr None"
      and "\<forall>i. c_commit_index core < i \<and> i \<le> ?limit \<longrightarrow> \<not> committable core i"
    then show thesis by (intro that(1)) (simp_all add: tr_update_commit_def)
  next
    fix j
    assume j: "update_commit_scan core ?limit = Inr (Some j)" "committable core j" "c_commit_index core < j"
      "j \<le> ?limit" "\<forall>i. j < i \<and> i \<le> ?limit \<longrightarrow> \<not> committable core i"
    have "j \<le> ?last" using j(4) commit_limit_le order_trans by blast
    from commit_to_wf [OF wf room role less_imp_le [OF j(3)] this] obtain core' where
      core': "tr_core_sync_membership (core\<lparr>c_commit_index := j, c_transition :=
        tr_raft_membership_transition_apply (c_transition core) j\<rparr>) = (SALTS_OK, core')"
      "core_wf core'" "core_same_log core core'" "c_commit_index core' = j"
      "c_transition core' = tr_raft_membership_transition_apply (c_transition core) j"
      "progress_wf core \<Longrightarrow> progress_wf core'" "c_role core' = c_role core \<or> c_role core' = TR_RAFT_FOLLOWER"
      by blast
    then have "tr_update_commit core rd = (SALTS_OK, core', rd\<lparr>r_commit_changed := True, r_commit_index := j\<rparr>)"
      by (simp add: tr_update_commit_def j(1))
    then show thesis using j(2-5) core' by (intro that(2)) simp_all
  qed
qed

end
