(* ===== verification/Raft_Core_Messages.thy ===== *)
theory Raft_Core_Messages
  imports Raft_Core_Invariant
begin

text \<open>
  What the Raft core writes into the message buffer: every replication message is a slice of the
  log behind a position whose term it names, a granted vote names the recorded vote, and no loop
  writes past the capacity the caller gave.
\<close>

section \<open>Messages\<close>

text \<open>A message that carries a slice of a log: at most eight consecutive entries behind a position
  whose term is given.\<close>

definition replication_ok :: "raft_core \<Rightarrow> message \<Rightarrow> bool" where
  "replication_ok core m \<longleftrightarrow>
     tr_raft_log_matches (c_log core) (m_previous_log_index m) (m_previous_log_term m)
     \<and> length (m_entries m) \<le> 8 \<and> (m_type m = TR_RAFT_MSG_HEARTBEAT_REQUEST \<longrightarrow> m_entries m = [])
     \<and> unat (m_previous_log_index m) + length (m_entries m) \<le> unat (tr_raft_log_last_index (c_log core))
     \<and> (\<forall>k < length (m_entries m).
          tr_raft_log_get (c_log core) (m_previous_log_index m + of_nat k + 1) = Some (m_entries m ! k))
     \<and> m_leader_commit m = c_commit_index core"

text \<open>The messages a core may send in its current term. A granted vote names the candidate the core
  voted for, and a granted pre-vote answers a campaign for a later term.\<close>

definition message_ok :: "raft_core \<Rightarrow> message \<Rightarrow> bool" where
  "message_ok core m \<longleftrightarrow>
     m_from m = c_self_id core \<and> m_term m = c_term core
     \<and> (m_granted m \<and> m_type m = TR_RAFT_MSG_VOTE_RESPONSE \<longrightarrow> m_to m = c_voted_for core \<and> m_to m \<noteq> 0)
     \<and> (m_granted m \<and> m_type m = TR_RAFT_MSG_PRE_VOTE_RESPONSE \<longrightarrow> c_term core < m_campaign_term m)
     \<and> (m_type m \<in> {TR_RAFT_MSG_APPEND_REQUEST, TR_RAFT_MSG_HEARTBEAT_REQUEST} \<longrightarrow> replication_ok core m)"

text \<open>One or more replication messages: only the windows and the next indices change, and the new
  messages fit the buffer.\<close>

definition replicates :: "raft_core \<Rightarrow> ready \<Rightarrow> raft_core \<Rightarrow> ready \<Rightarrow> bool" where
  "replicates core rd core' rd' \<longleftrightarrow>
     (\<exists>W N. core' = core\<lparr>c_append_windows := W, c_next_index := N\<rparr>)
     \<and> tables_wf core' \<and> progress_wf core'
     \<and> (\<exists>ms sr. rd' = rd\<lparr>r_messages := r_messages rd @ ms, r_snapshot_requests := sr\<rparr>
          \<and> (\<forall>m \<in> set ms. message_ok core m \<and> m_granted m = False
               \<and> m_type m \<in> {TR_RAFT_MSG_APPEND_REQUEST, TR_RAFT_MSG_HEARTBEAT_REQUEST})
          \<and> (length (r_messages rd) \<le> r_message_capacity rd \<longrightarrow>
               length (r_messages rd @ ms) \<le> r_message_capacity rd))"

lemma message_ok_frame:
  "message_ok (core\<lparr>c_append_windows := W, c_next_index := N\<rparr>) m \<longleftrightarrow> message_ok core m"
  by (simp add: message_ok_def replication_ok_def)

lemma replicatesI:
  assumes "core' = core\<lparr>c_append_windows := W, c_next_index := N\<rparr>" and "tables_wf core'" and "progress_wf core'"
    and "rd' = rd\<lparr>r_messages := r_messages rd @ ms, r_snapshot_requests := sr\<rparr>"
    and "\<And>m. m \<in> set ms \<Longrightarrow> message_ok core m \<and> m_granted m = False
               \<and> m_type m \<in> {TR_RAFT_MSG_APPEND_REQUEST, TR_RAFT_MSG_HEARTBEAT_REQUEST}"
    and "length (r_messages rd) \<le> r_message_capacity rd \<Longrightarrow> length (r_messages rd @ ms) \<le> r_message_capacity rd"
  shows "replicates core rd core' rd'"
  unfolding replicates_def using assms by blast

lemma replicates_refl: "tables_wf core \<Longrightarrow> progress_wf core \<Longrightarrow> replicates core rd core rd"
  unfolding replicates_def
  by (intro conjI exI [of _ "c_append_windows core"] exI [of _ "c_next_index core"] exI [of _ "[]"]
      exI [of _ "r_snapshot_requests rd"]) simp_all

lemma replicates_trans:
  assumes "replicates a ra b rb" and "replicates b rb c rc"
  shows "replicates a ra c rc"
proof -
  from assms(1) obtain W N ms sr where 1: "b = a\<lparr>c_append_windows := W, c_next_index := N\<rparr>"
    "rb = ra\<lparr>r_messages := r_messages ra @ ms, r_snapshot_requests := sr\<rparr>"
    "\<forall>m \<in> set ms. message_ok a m \<and> m_granted m = False
       \<and> m_type m \<in> {TR_RAFT_MSG_APPEND_REQUEST, TR_RAFT_MSG_HEARTBEAT_REQUEST}"
    "length (r_messages ra) \<le> r_message_capacity ra \<longrightarrow> length (r_messages ra @ ms) \<le> r_message_capacity ra"
    unfolding replicates_def by blast
  from assms(2) obtain W' N' ms' sr' where 2: "c = b\<lparr>c_append_windows := W', c_next_index := N'\<rparr>"
    "rc = rb\<lparr>r_messages := r_messages rb @ ms', r_snapshot_requests := sr'\<rparr>"
    "\<forall>m \<in> set ms'. message_ok b m \<and> m_granted m = False
       \<and> m_type m \<in> {TR_RAFT_MSG_APPEND_REQUEST, TR_RAFT_MSG_HEARTBEAT_REQUEST}"
    "length (r_messages rb) \<le> r_message_capacity rb \<longrightarrow> length (r_messages rb @ ms') \<le> r_message_capacity rb"
    "tables_wf c" "progress_wf c"
    unfolding replicates_def by blast
  have "c = a\<lparr>c_append_windows := W', c_next_index := N'\<rparr>" using 1(1) 2(1) by simp
  moreover have "rc = ra\<lparr>r_messages := r_messages ra @ (ms @ ms'), r_snapshot_requests := sr'\<rparr>"
    using 1(2) 2(2) by simp
  moreover have "\<forall>m \<in> set (ms @ ms'). message_ok a m \<and> m_granted m = False
       \<and> m_type m \<in> {TR_RAFT_MSG_APPEND_REQUEST, TR_RAFT_MSG_HEARTBEAT_REQUEST}"
    using 1(3) 2(3) unfolding 1(1) message_ok_frame by auto
  moreover have "length (r_messages ra) \<le> r_message_capacity ra \<longrightarrow>
      length (r_messages ra @ (ms @ ms')) \<le> r_message_capacity ra"
    using 1(4) 2(4) unfolding 1(2) by simp
  ultimately show ?thesis using 2(5,6) unfolding replicates_def by blast
qed

lemma unat_pred: "0 < unat (a :: u64) \<Longrightarrow> unat (a - 1) = unat a - 1"
  by (simp add: unat_minus_one unat_gt_0)

definition window_bounded :: "raft_index \<Rightarrow> append_window \<Rightarrow> bool" where
  "window_bounded lst w \<longleftrightarrow> window_wf w
     \<and> (\<forall>x \<in> set (window_list w). if_previous_index x \<le> lst \<and> if_last_index x \<le> lst)"

lemma window_bounded_reset [simp]: "window_bounded lst (tr_append_window_reset w b)"
  by (simp add: window_bounded_def)

lemma window_list_probe [simp]: "window_list (w\<lparr>w_probe := b\<rparr>) = window_list w"
  by (simp add: window_list_def tr_append_window_at_def window_slot_def)

lemma window_wf_probe [simp]: "window_wf (w\<lparr>w_probe := b\<rparr>) = window_wf w"
  by (simp add: window_wf_def)

lemma peer_window_bounded:
  "tables_wf core \<Longrightarrow> progress_wf core \<Longrightarrow> i < tr_peer_count core \<Longrightarrow>
     window_bounded (tr_raft_log_last_index (c_log core)) (peer_window core i)"
  by (simp add: window_bounded_def peer_window_wf progress_wf_def peer_bounds_def)

text \<open>Writing the window, the next index and the match index of one peer.\<close>

lemma set_peer_progress:
  assumes "tables_wf core" and "progress_wf core" and "window_bounded (tr_raft_log_last_index (c_log core)) w"
    and "0 < n" and "unat n \<le> Suc (unat (tr_raft_log_last_index (c_log core)))"
    and "m \<le> tr_raft_log_last_index (c_log core)"
  shows "tables_wf (core\<lparr>c_append_windows := arr_set (c_append_windows core) k w,
           c_next_index := arr_set (c_next_index core) k n, c_match_index := arr_set (c_match_index core) k m\<rparr>)"
    and "progress_wf (core\<lparr>c_append_windows := arr_set (c_append_windows core) k w,
           c_next_index := arr_set (c_next_index core) k n, c_match_index := arr_set (c_match_index core) k m\<rparr>)"
proof -
  have "\<forall>v \<in> set (arr_set (c_append_windows core) k w). window_wf v"
    using assms(1,3) by (intro arr_set_window_wf) (simp_all add: tables_wf_def window_bounded_def)
  with assms(1) show "tables_wf (core\<lparr>c_append_windows := arr_set (c_append_windows core) k w,
           c_next_index := arr_set (c_next_index core) k n, c_match_index := arr_set (c_match_index core) k m\<rparr>)"
    by (simp add: tables_wf_def)
  have get: "arr_get d (arr_set xs k v) (int i) = (if int i = k \<and> i < length xs then v else arr_get d xs (int i))"
    for d :: 'x and xs v i
    by (auto simp: arr_get_def arr_set_def nth_list_update)
  show "progress_wf (core\<lparr>c_append_windows := arr_set (c_append_windows core) k w,
           c_next_index := arr_set (c_next_index core) k n, c_match_index := arr_set (c_match_index core) k m\<rparr>)"
    using assms
    by (simp add: progress_wf_def peer_bounds_def tr_peer_count_def peer_next_def peer_match_def
        peer_window_def get window_bounded_def tables_wf_def)
qed

lemma arr_set_same: "arr_set xs k (arr_get d xs k) = xs"
  by (simp add: arr_set_def arr_get_def)

lemma set_peer_window_next:
  assumes "tables_wf core" and "progress_wf core" and "window_bounded (tr_raft_log_last_index (c_log core)) w"
    and "0 < n" and "unat n \<le> Suc (unat (tr_raft_log_last_index (c_log core)))" and "i < tr_peer_count core"
  shows "tables_wf (core\<lparr>c_append_windows := arr_set (c_append_windows core) (int i) w,
           c_next_index := arr_set (c_next_index core) (int i) n\<rparr>)"
    and "progress_wf (core\<lparr>c_append_windows := arr_set (c_append_windows core) (int i) w,
           c_next_index := arr_set (c_next_index core) (int i) n\<rparr>)"
proof -
  have "arr_get 0 (c_match_index core) (int i) \<le> tr_raft_log_last_index (c_log core)"
    using assms(2,6) by (simp add: progress_wf_def peer_bounds_def peer_match_def)
  note set = set_peer_progress [OF assms(1-5) this, of "int i", unfolded arr_set_same]
  show "tables_wf (core\<lparr>c_append_windows := arr_set (c_append_windows core) (int i) w,
           c_next_index := arr_set (c_next_index core) (int i) n\<rparr>)"
    "progress_wf (core\<lparr>c_append_windows := arr_set (c_append_windows core) (int i) w,
           c_next_index := arr_set (c_next_index core) (int i) n\<rparr>)"
    using set by simp_all
qed

lemma replication_message_ok:
  assumes wf: "log_wf (c_log core)" and above: "log_base_index (c_log core) < nxt"
    and n: "n \<le> 8" "unat nxt + n \<le> Suc (unat (tr_raft_log_last_index (c_log core)))"
  shows "message_ok core (replication_message core i nxt n)"
proof -
  let ?l = "c_log core"
  have pos: "0 < unat nxt" using above by (simp add: u64_less_unat)
  then have prev: "unat (nxt - 1) = unat nxt - 1" by (simp add: unat_minus_one unat_gt_0)
  have range: "log_base_index ?l \<le> nxt - 1" "nxt - 1 \<le> tr_raft_log_last_index ?l"
    using above n(2) pos by (auto simp: u64_less_unat u64_le_unat prev)
  have match: "tr_raft_log_matches ?l (nxt - 1)
      (if nxt - 1 = log_base_index ?l then log_base_term ?l
       else case tr_raft_log_get ?l (nxt - 1) of None \<Rightarrow> 0 | Some previous \<Rightarrow> e_term previous)"
    using range log_get_None_iff [OF wf, of "nxt - 1"]
    by (auto simp: tr_raft_log_matches_def split: option.splits)
  have entry: "tr_raft_log_get ?l (nxt + of_nat k) = Some (entry_at ?l (nxt + of_nat k))" if "k < n" for k
  proof -
    have "unat (nxt + of_nat k) = unat nxt + k"
      using that n(2) unat_u64_less [of "tr_raft_log_last_index ?l"] by (intro unat_plus_nat) simp
    then have "log_base_index ?l < nxt + of_nat k" "nxt + of_nat k \<le> tr_raft_log_last_index ?l"
      using above that n(2) by (auto simp: u64_less_unat u64_le_unat)
    then show ?thesis
      using log_get_None_iff [OF wf, of "nxt + of_nat k"] by (auto simp: entry_at_def split: option.splits)
  qed
  show ?thesis
    using match n entry pos
    by (simp add: message_ok_def replication_ok_def replication_message_def prev) linarith
qed

lemma if_chain_cases:
  "(if A then x else if B then y else if C then x else if D then if E then x else z else if F then h else x) = r
   \<Longrightarrow> r = x \<or> (\<not> A \<and> B \<and> r = y) \<or> (\<not> B \<and> \<not> C \<and> D \<and> r = z) \<or> (\<not> B \<and> \<not> C \<and> \<not> D \<and> r = h)"
  by (simp split: if_split_asm)

lemma emit_replication_cases:
  assumes emit: "tr_emit_replication core rd i ah = (b, core', rd')"
  obtains (same) "core' = core" "rd' = rd"
    | (snapshot) "core' = core\<lparr>c_append_windows := arr_set (c_append_windows core) (int i)
        (tr_append_window_reset (peer_window core i) True)\<rparr>" "rd' = tr_emit_snapshot_request core rd i"
    | (append) "log_base_index (c_log core) < peer_next core i"
      "peer_next core i \<le> tr_raft_log_last_index (c_log core)"
      "length (r_messages rd) < r_message_capacity rd"
      "core' = core\<lparr>c_append_windows := arr_set (c_append_windows core) (int i)
           (snd (tr_append_window_push (peer_window core i) (peer_next core i - 1)
              (peer_next core i + of_nat (replication_count core i) - 1))),
          c_next_index := arr_set (c_next_index core) (int i)
            (peer_next core i + of_nat (replication_count core i))\<rparr>"
      "rd' = rd\<lparr>r_messages := r_messages rd
         @ [replication_message core i (peer_next core i) (replication_count core i)]\<rparr>"
    | (heartbeat) "log_base_index (c_log core) < peer_next core i" "core' = core"
      "length (r_messages rd) < r_message_capacity rd"
      "rd' = rd\<lparr>r_messages := r_messages rd @ [replication_message core i (peer_next core i) 0]\<rparr>"
proof -
  from if_chain_cases [OF trans [OF emit_replication_eq [symmetric] emit]] show thesis
  proof (elim disjE conjE)
    assume "(b, core', rd') = (False, core, rd)"
    then show thesis by (intro same) simp_all
  next
    assume "peer_next core i \<le> log_base_index (c_log core)"
      and "(b, core', rd') = (True, core\<lparr>c_append_windows := arr_set (c_append_windows core) (int i)
        (tr_append_window_reset (peer_window core i) True)\<rparr>, tr_emit_snapshot_request core rd i)"
    then show thesis by (elim Pair_inject) (rule snapshot)
  next
    assume "\<not> peer_next core i \<le> log_base_index (c_log core)" "\<not> r_message_capacity rd \<le> length (r_messages rd)"
      "peer_next core i \<le> tr_raft_log_last_index (c_log core)"
      "(b, core', rd') = (True,
        core\<lparr>c_append_windows := arr_set (c_append_windows core) (int i)
           (snd (tr_append_window_push (peer_window core i) (peer_next core i - 1)
              (peer_next core i + of_nat (replication_count core i) - 1))),
          c_next_index := arr_set (c_next_index core) (int i)
            (peer_next core i + of_nat (replication_count core i))\<rparr>,
        rd\<lparr>r_messages := r_messages rd
         @ [replication_message core i (peer_next core i) (replication_count core i)]\<rparr>)"
    then show thesis by (elim Pair_inject) (rule append; simp only: not_le)
  next
    assume "\<not> peer_next core i \<le> log_base_index (c_log core)" "\<not> r_message_capacity rd \<le> length (r_messages rd)"
      "(b, core', rd') = (True, core,
        rd\<lparr>r_messages := r_messages rd @ [replication_message core i (peer_next core i) 0]\<rparr>)"
    then show thesis by (elim Pair_inject) (rule heartbeat; simp only: not_le)
  qed
qed

lemma emit_replication_step:
  assumes wf: "log_wf (c_log core)" and room: "log_room (c_log core) 1"
    and tables: "tables_wf core" and progress: "progress_wf core"
    and i: "i < tr_peer_count core \<or> peer_next core i = 0"
    and emit: "tr_emit_replication core rd i ah = (b, core', rd')"
  shows "replicates core rd core' rd'"
proof -
  let ?last = "tr_raft_log_last_index (c_log core)"
  let ?n = "replication_count core i"
  let ?w = "peer_window core i"
  let ?push = "tr_append_window_push ?w (peer_next core i - 1) (peer_next core i + of_nat ?n - 1)"
  from emit show ?thesis
  proof (cases rule: emit_replication_cases)
    case same
    then show ?thesis using tables progress by (simp add: replicates_refl)
  next
    case snapshot
    have rd': "\<exists>sr. rd' = rd\<lparr>r_messages := r_messages rd @ [], r_snapshot_requests := sr\<rparr>"
      unfolding snapshot(2) tr_emit_snapshot_request_def Let_def
      by (auto intro: exI [of _ "r_snapshot_requests rd"])
    let ?core = "core\<lparr>c_append_windows := arr_set (c_append_windows core) (int i)
        (tr_append_window_reset ?w True), c_next_index := c_next_index core\<rparr>"
    have "tables_wf ?core \<and> progress_wf ?core"
    proof (cases "i < tr_peer_count core")
      case True
      then have "peer_bounds core i" using progress by (simp add: progress_wf_def)
      then show ?thesis
        using set_peer_window_next [OF tables progress window_bounded_reset _ _ True, of "peer_next core i"]
        by (simp add: peer_bounds_def peer_next_def arr_set_same)
    next
      case False
      have "\<forall>v \<in> set (arr_set (c_append_windows core) (int i) (tr_append_window_reset ?w True)). window_wf v"
        using tables by (intro arr_set_window_wf) (simp_all add: tables_wf_def)
      with False tables progress show ?thesis
        by (auto simp: tables_wf_def progress_wf_def peer_bounds_def tr_peer_count_def peer_next_def
            peer_match_def peer_window_def)
    qed
    moreover have core': "core' = ?core" by (simp add: snapshot(1))
    moreover from rd' obtain sr where sr: "rd' = rd\<lparr>r_messages := r_messages rd @ [], r_snapshot_requests := sr\<rparr>" ..
    ultimately show ?thesis by (intro replicatesI [OF core' _ _ sr]) simp_all
  next
    case append
    have count: "i < tr_peer_count core" using i append(1) by auto
    then have bounds: "peer_bounds core i" using progress by (simp add: progress_wf_def)
    have n: "?n \<le> 8" "unat (peer_next core i) + ?n \<le> Suc (unat ?last)" "0 < ?n"
      using replication_count_pos [OF append(1,2)] append(2) by (auto simp: u64_le_unat)
    have nat: "unat (peer_next core i + of_nat ?n) = unat (peer_next core i) + ?n"
      using n(2) room by (intro unat_plus_nat) (simp add: log_room_def)
    have pos: "0 < unat (peer_next core i)" using append(1) by (simp add: u64_less_unat)
    have prev: "unat (peer_next core i - 1) = unat (peer_next core i) - 1"
      "unat (peer_next core i + of_nat ?n - 1) = unat (peer_next core i) + ?n - 1"
      using pos nat by (simp_all add: unat_pred)
    have "window_bounded ?last (snd ?push)"
      using window_push_wf [OF peer_window_wf [OF tables, of i], of "peer_next core i - 1"
          "peer_next core i + of_nat ?n - 1"] peer_window_bounded [OF tables progress count] n(2) append(2) prev
      by (auto simp: window_bounded_def u64_le_unat)
    from set_peer_window_next [OF tables progress this _ _ count, of "peer_next core i + of_nat ?n"] nat n(2) pos
    have "tables_wf core'" "progress_wf core'" by (simp_all add: append(4) u64_less_unat)
    moreover have "message_ok core (replication_message core i (peer_next core i) ?n)"
      by (rule replication_message_ok [OF wf append(1) n(1,2)])
    ultimately show ?thesis
      using append(3)
      by (intro replicatesI [where ms = "[replication_message core i (peer_next core i) ?n]"
            and sr = "r_snapshot_requests rd", OF append(4)]) (simp_all add: append(5) replication_message_def [of core i _ ?n])
  next
    case heartbeat
    have "i < tr_peer_count core" using i heartbeat(1) by auto
    then have "unat (peer_next core i) + 0 \<le> Suc (unat ?last)"
      using progress by (simp add: progress_wf_def peer_bounds_def)
    then have "message_ok core (replication_message core i (peer_next core i) 0)"
      by (intro replication_message_ok [OF wf heartbeat(1)]) simp_all
    then show ?thesis
      using heartbeat(2,3) tables progress
      by (intro replicatesI [where W = "c_append_windows core" and N = "c_next_index core" and sr = "r_snapshot_requests rd"
            and ms = "[replication_message core i (peer_next core i) 0]"])
         (simp_all add: heartbeat(4) replication_message_def [of core i _ 0])
  qed
qed

section \<open>The replication loops\<close>

definition replication_ready :: "raft_core \<Rightarrow> bool" where
  "replication_ready core \<longleftrightarrow>
     log_wf (c_log core) \<and> log_room (c_log core) 1 \<and> tables_wf core \<and> progress_wf core"

lemma replicates_ready:
  "replicates core rd core' rd' \<Longrightarrow> replication_ready core \<Longrightarrow>
     replication_ready core' \<and> tr_peer_count core' = tr_peer_count core"
  by (auto simp: replicates_def replication_ready_def tr_peer_count_def)

lemma emit_replicates:
  "replication_ready core \<Longrightarrow> i < tr_peer_count core \<or> peer_next core i = 0 \<Longrightarrow>
     replicates core rd (fst (snd (tr_emit_replication core rd i ah))) (snd (snd (tr_emit_replication core rd i ah)))"
  by (rule emit_replication_step [of core i rd ah "fst (tr_emit_replication core rd i ah)"])
     (simp_all add: replication_ready_def)

lemma replicates_ready_refl: "replication_ready core \<Longrightarrow> replicates core rd core rd"
  by (simp add: replication_ready_def replicates_refl)

lemma foldl_replicates:
  assumes "\<And>core rd i. i \<in> set is \<Longrightarrow> replication_ready core \<Longrightarrow> tr_peer_count core = n \<Longrightarrow>
      replicates core rd (fst (f (core, rd) i)) (snd (f (core, rd) i))"
    and "replication_ready core" and "tr_peer_count core = n"
  shows "replicates core rd (fst (foldl f (core, rd) is)) (snd (foldl f (core, rd) is))"
  using assms
proof (induction "is" arbitrary: core rd)
  case Nil
  then show ?case by (simp add: replicates_ready_refl)
next
  case (Cons i "is")
  obtain core1 rd1 where step: "f (core, rd) i = (core1, rd1)" by fastforce
  have first: "replicates core rd core1 rd1" using Cons.prems(1) [of i core rd] Cons.prems(2,3) step by simp
  have "replicates core1 rd1 (fst (foldl f (core1, rd1) is)) (snd (foldl f (core1, rd1) is))"
    using Cons.prems replicates_ready [OF first Cons.prems(2)] by (intro Cons.IH) simp_all
  with replicates_trans [OF first] step show ?case by simp
qed

lemma broadcast_replicates:
  assumes "replication_ready core"
  shows "replicates core rd (fst (tr_broadcast_replication core rd)) (snd (tr_broadcast_replication core rd))"
  unfolding tr_broadcast_replication_def
  by (rule foldl_replicates [OF _ assms refl]) (auto simp: emit_replicates replicates_ready_refl)

lemma fill_round_peer_replicates:
  assumes "replication_ready core" and "i < tr_peer_count core" and "fill_round_peer (b, core, rd) i = (b', core', rd')"
  shows "replicates core rd core' rd'"
proof -
  obtain e core1 rd1 where emit: "tr_emit_replication core rd i False = (e, core1, rd1)" by (metis prod_cases3)
  have "replicates core rd core1 rd1" using emit_replicates [of core i rd False] assms(1,2) emit by simp
  moreover have "core' = core \<and> rd' = rd \<or> core' = core1 \<and> rd' = rd1"
    using assms(3) emit by (auto simp: fill_round_peer_def split: if_splits)
  ultimately show ?thesis using replicates_ready_refl [OF assms(1), of rd] by auto
qed

lemma fill_round_fold:
  assumes "replication_ready core" and "set js \<subseteq> {..<tr_peer_count core}"
    and "foldl fill_round_peer (b, core, rd) js = (b', core', rd')"
  shows "replicates core rd core' rd'"
  using assms
proof (induction js arbitrary: b core rd)
  case Nil
  then show ?case by (simp add: replicates_ready_refl)
next
  case (Cons i js)
  obtain b1 core1 rd1 where step: "fill_round_peer (b, core, rd) i = (b1, core1, rd1)" by (metis prod_cases3)
  have first: "replicates core rd core1 rd1"
    using Cons.prems(1,2) by (intro fill_round_peer_replicates [OF _ _ step]) simp_all
  have "replicates core1 rd1 core' rd'"
    using replicates_ready [OF first Cons.prems(1)] Cons.prems(2,3) step by (intro Cons.IH) simp_all
  with replicates_trans [OF first] show ?case .
qed

lemma fill_round_replicates:
  "replication_ready core \<Longrightarrow> fill_round core rd = (b, core', rd') \<Longrightarrow> replicates core rd core' rd'"
  unfolding fill_round_def by (rule fill_round_fold) auto

lemma fill_loop_replicates:
  "replication_ready core \<Longrightarrow> replicates core rd (fst (fill_loop core rd)) (snd (fill_loop core rd))"
proof (induction core rd rule: fill_loop.induct)
  case (1 core rd)
  obtain e core1 rd1 where round: "fill_round core rd = (e, core1, rd1)" by (metis prod_cases3)
  note first = fill_round_replicates [OF 1(2) round]
  show ?case
  proof (cases "e \<and> length (r_messages rd1) < r_message_capacity rd1")
    case True
    then have "fill_loop core rd = fill_loop core1 rd1" by (simp add: fill_loop.simps [of core] round)
    with 1(1) [OF round [symmetric] refl True] replicates_ready [OF first 1(2)] replicates_trans [OF first]
    show ?thesis by simp
  next
    case False
    then have "fill_loop core rd = (core1, rd1)" by (auto simp: fill_loop.simps [of core] round)
    with first show ?thesis by simp
  qed
qed

lemma fill_windows_replicates:
  assumes "replication_ready core"
  shows "replicates core rd (fst (tr_fill_replication_windows core rd)) (snd (tr_fill_replication_windows core rd))"
proof (cases "c_role core = TR_RAFT_LEADER")
  case False
  then show ?thesis using assms by (simp add: tr_fill_replication_windows_def replicates_ready_refl)
next
  case True
  define f where "f = (\<lambda>(core, ready) i.
     if tr_peer_id core i \<noteq> c_self_id core
        \<and> arr_get 0 (c_next_index core) (int i) \<le> log_base_index (c_log core)
     then snd (tr_emit_replication core ready i False) else (core, ready))"
  obtain core1 rd1 where fold: "foldl f (core, rd) [0..<tr_peer_count core] = (core1, rd1)" by fastforce
  have "replicates core rd (fst (foldl f (core, rd) [0..<tr_peer_count core]))
      (snd (foldl f (core, rd) [0..<tr_peer_count core]))"
    by (rule foldl_replicates [OF _ assms refl]) (auto simp: f_def emit_replicates replicates_ready_refl)
  then have first: "replicates core rd core1 rd1" by (simp add: fold)
  have "tr_fill_replication_windows core rd = fill_loop core1 rd1"
    using True fold by (simp add: tr_fill_replication_windows_def f_def)
  with replicates_trans [OF first fill_loop_replicates] replicates_ready [OF first assms]
  show ?thesis by simp
qed

lemma fill_peer_loop_replicates:
  "replication_ready core \<Longrightarrow> i < tr_peer_count core \<or> peer_next core i = 0 \<Longrightarrow>
     replicates core rd (fst (fill_peer_loop core rd i)) (snd (fill_peer_loop core rd i))"
proof (induction core rd i rule: fill_peer_loop.induct)
  case (1 core rd i)
  obtain e core1 rd1 where emit: "tr_emit_replication core rd i False = (e, core1, rd1)" by (metis prod_cases3)
  have first: "replicates core rd core1 rd1"
    using emit_replicates [OF 1(2,3), of rd False] emit by simp
  note refl = replicates_ready_refl [OF 1(2), of rd]
  show ?case
  proof (cases "length (r_messages rd) < r_message_capacity rd
      \<and> arr_get 0 (c_next_index core) (int i) \<le> tr_raft_log_last_index (c_log core)
      \<and> arr_get 0 (c_next_index core) (int i) > log_base_index (c_log core)")
    case False
    then have "fill_peer_loop core rd i = (core, rd)" by (auto simp: fill_peer_loop.simps [of core])
    with refl show ?thesis by simp
  next
    case True
    then have "i < tr_peer_count core" using 1(3) by (auto simp: peer_next_def)
    with replicates_ready [OF first 1(2)]
    have ready1: "replication_ready core1" "i < tr_peer_count core1 \<or> peer_next core1 i = 0" by auto
    show ?thesis
    proof (cases e)
      case sent: True
      then have "fill_peer_loop core rd i = fill_peer_loop core1 rd1 i"
        using True emit by (simp add: fill_peer_loop.simps [of core])
      moreover have "replicates core1 rd1 (fst (fill_peer_loop core1 rd1 i)) (snd (fill_peer_loop core1 rd1 i))"
        using 1(1) [OF True emit [symmetric, unfolded sent]] sent ready1 emit by auto
      ultimately show ?thesis using replicates_trans [OF first] by simp
    next
      case False
      then have "fill_peer_loop core rd i = (core1, rd1)"
        using True emit by (simp add: fill_peer_loop.simps [of core])
      with first show ?thesis by simp
    qed
  qed
qed

lemma fill_peer_window_replicates:
  assumes "replication_ready core" and "i < tr_peer_count core \<or> peer_next core i = 0"
  shows "replicates core rd (fst (tr_fill_peer_replication_window core rd i))
     (snd (tr_fill_peer_replication_window core rd i))"
  using emit_replicates [OF assms, of rd False] fill_peer_loop_replicates [OF assms, of rd]
  by (simp add: tr_fill_peer_replication_window_def)

lemma tables_update_frame:
  "index_order (core\<lparr>c_append_windows := W, c_next_index := N\<rparr>) = index_order core"
  "membership_wf (core\<lparr>c_append_windows := W, c_next_index := N\<rparr>) = membership_wf core"
  "role_wf (core\<lparr>c_append_windows := W, c_next_index := N\<rparr>) = role_wf core"
  "reads_wf (core\<lparr>c_append_windows := W, c_next_index := N\<rparr>) = reads_wf core"
  by (simp_all add: index_order_def membership_wf_def role_wf_def reads_wf_def tr_core_membership_def
      tr_read_total_count_def)

lemma replicates_wf:
  assumes "core_wf core" and "replicates core rd core' rd'"
  shows "core_wf core'"
proof -
  from assms(2) obtain W N where eq: "core' = core\<lparr>c_append_windows := W, c_next_index := N\<rparr>"
    and new: "tables_wf core'" "progress_wf core'" unfolding replicates_def by blast
  from assms(1) have "log_wf (c_log core')" "index_order core'" "membership_wf core'" "role_wf core'" "reads_wf core'"
    unfolding eq tables_update_frame by (simp_all add: core_wf_def)
  with new show ?thesis by (simp add: core_wf_def)
qed

text \<open>The interface of the operations that send replication messages, as the handlers use them.\<close>

locale replication_op =
  fixes op :: "raft_core \<Rightarrow> ready \<Rightarrow> raft_core \<times> ready"
    and pre :: "raft_core \<Rightarrow> bool"
  assumes op_replicates: "replication_ready core \<Longrightarrow> pre core \<Longrightarrow> op core rd = (core', rd') \<Longrightarrow>
      replicates core rd core' rd'"
begin

lemma op_step:
  assumes "core_wf core" and "progress_wf core" and "log_room (c_log core) 1" and "pre core"
    and "op core rd = (core', rd')"
  shows "core_wf core'" and "core_same_log core core'" and "c_commit_index core' = c_commit_index core"
    and "c_role core' = c_role core" and "c_transition core' = c_transition core"
    and "replicates core rd core' rd'"
proof -
  have "replication_ready core" using assms by (simp add: replication_ready_def core_wf_def)
  from op_replicates [OF this assms(4,5)] show rep: "replicates core rd core' rd'" .
  from replicates_wf [OF assms(1) rep] show "core_wf core'" .
  from rep show "core_same_log core core'" "c_commit_index core' = c_commit_index core"
    "c_role core' = c_role core" "c_transition core' = c_transition core"
    by (auto simp: replicates_def core_same_log_def)
qed

end

interpretation bcast: replication_op tr_broadcast_replication "\<lambda>_. True"
proof unfold_locales
  fix core rd core' rd'
  assume "replication_ready core" "tr_broadcast_replication core rd = (core', rd')"
  with broadcast_replicates [of core rd] show "replicates core rd core' rd'" by simp
qed

interpretation fill: replication_op tr_fill_replication_windows "\<lambda>_. True"
proof unfold_locales
  fix core rd core' rd'
  assume "replication_ready core" "tr_fill_replication_windows core rd = (core', rd')"
  with fill_windows_replicates [of core rd] show "replicates core rd core' rd'" by simp
qed

interpretation fill_peer: replication_op "\<lambda>core rd. tr_fill_peer_replication_window core rd i"
    "\<lambda>core. i < tr_peer_count core \<or> peer_next core i = 0" for i
proof unfold_locales
  fix core rd core' rd'
  assume "replication_ready core" "i < tr_peer_count core \<or> peer_next core i = 0"
    "tr_fill_peer_replication_window core rd i = (core', rd')"
  with fill_peer_window_replicates [of core i rd] show "replicates core rd core' rd'" by simp
qed

interpretation emit_peer: replication_op "\<lambda>core rd. snd (tr_emit_replication core rd i ah)"
    "\<lambda>core. i < tr_peer_count core \<or> peer_next core i = 0" for i ah
proof unfold_locales
  fix core rd core' rd'
  assume "replication_ready core" "i < tr_peer_count core \<or> peer_next core i = 0"
    "snd (tr_emit_replication core rd i ah) = (core', rd')"
  with emit_replicates [of core i rd ah] show "replicates core rd core' rd'" by simp
qed

section \<open>Control messages\<close>

text \<open>At most \<open>n\<close> new messages, none of which grants anything or carries entries.\<close>

definition emits :: "raft_core \<Rightarrow> ready \<Rightarrow> ready \<Rightarrow> nat \<Rightarrow> bool" where
  "emits core rd rd' n \<longleftrightarrow>
     (\<exists>ms. rd' = rd\<lparr>r_messages := r_messages rd @ ms\<rparr> \<and> length ms \<le> n
        \<and> (\<forall>m \<in> set ms. message_ok core m \<and> \<not> m_granted m))"

lemma emits_refl [simp]: "emits core rd rd 0"
  unfolding emits_def by (intro exI [of _ "[]"]) simp

lemma emits_mono: "emits core rd rd' n \<Longrightarrow> n \<le> k \<Longrightarrow> emits core rd rd' k"
  unfolding emits_def by auto

lemma emits_trans:
  assumes "emits core a b m" and "emits core b c n"
  shows "emits core a c (m + n)"
proof -
  from assms obtain ms ns where "b = a\<lparr>r_messages := r_messages a @ ms\<rparr>" "length ms \<le> m"
    "\<forall>m \<in> set ms. message_ok core m \<and> \<not> m_granted m" "c = b\<lparr>r_messages := r_messages b @ ns\<rparr>"
    "length ns \<le> n" "\<forall>m \<in> set ns. message_ok core m \<and> \<not> m_granted m"
    unfolding emits_def by blast
  then show ?thesis unfolding emits_def by (intro exI [of _ "ms @ ns"]) auto
qed

lemma tr_emit_emits:
  assumes "type \<notin> {TR_RAFT_MSG_APPEND_REQUEST, TR_RAFT_MSG_HEARTBEAT_REQUEST}"
    and "tr_emit core rd type to False = (b, rd')"
  shows "emits core rd rd' (if tr_peer_paused core to then 0 else 1)" and "b \<longleftrightarrow> \<not> tr_peer_paused core to"
proof -
  show "b \<longleftrightarrow> \<not> tr_peer_paused core to" using assms(2) by (auto simp: tr_emit_def split: if_splits)
  show "emits core rd rd' (if tr_peer_paused core to then 0 else 1)"
  proof (cases "tr_peer_paused core to")
    case True
    then show ?thesis using assms(2) by (simp add: tr_emit_def)
  next
    case False
    then show ?thesis
      using assms unfolding emits_def by (force simp: tr_emit_def message_ok_def)
  qed
qed

lemma foldl_emits:
  assumes "\<And>rd i. i \<in> set is \<Longrightarrow> emits core rd (f rd i) (if P i then 1 else 0)"
  shows "emits core rd (foldl f rd is) (length (filter P is))"
  using assms
proof (induction "is" arbitrary: rd)
  case (Cons i "is")
  have "emits core rd (f rd i) (if P i then 1 else 0)" using Cons.prems by simp
  moreover have "emits core (f rd i) (foldl f (f rd i) is) (length (filter P is))"
    using Cons.prems by (intro Cons.IH) simp
  ultimately have "emits core rd (foldl f (f rd i) is) ((if P i then 1 else 0) + length (filter P is))"
    by (rule emits_trans)
  then show ?case by (simp split: if_splits)
qed simp

lemma peer_set_facts:
  assumes "membership_wf core"
  shows "sorted_wrt (<) (c_peers core)" and "0 \<notin> set (c_peers core)" and "length (c_peers core) \<le> 31"
    and "set (c_peers core) = member_union (transition_confs (c_transition core))"
proof -
  have "transition_wf (c_transition core)" "tr_core_build_peer_set (c_transition core) = Inr (c_peers core)"
    using assms by (auto simp: membership_wf_def)
  then show "sorted_wrt (<) (c_peers core)" "0 \<notin> set (c_peers core)" "length (c_peers core) \<le> 31"
    "set (c_peers core) = member_union (transition_confs (c_transition core))"
    using build_peer_set_wf [of "c_transition core"] by auto
qed

lemma peer_index_peer_id:
  "membership_wf core \<Longrightarrow> i < tr_peer_count core \<Longrightarrow> tr_peer_index core (tr_peer_id core i) = int i"
  using peer_set_facts(1,2) [of core]
  by (simp add: tr_peer_index_def tr_peer_id_def tr_peer_count_def tr_raft_peer_set_index_nth)

lemma peer_paused_iff:
  "membership_wf core \<Longrightarrow> i < tr_peer_count core \<Longrightarrow>
     tr_peer_paused core (tr_peer_id core i) \<longleftrightarrow> tr_peer_index_paused core i"
  by (simp add: tr_peer_paused_def peer_index_peer_id)

lemma broadcast_emits:
  assumes "membership_wf core" and "type \<notin> {TR_RAFT_MSG_APPEND_REQUEST, TR_RAFT_MSG_HEARTBEAT_REQUEST}"
  shows "emits core rd (tr_broadcast core rd type) (tr_unpaused_remote_voter_count core)"
  unfolding tr_broadcast_def tr_unpaused_remote_voter_count_def
proof (rule foldl_emits)
  fix rd i
  assume "i \<in> set [0..<tr_peer_count core]"
  then have i: "i < tr_peer_count core" by simp
  from tr_emit_emits(1) [OF assms(2), of core rd "tr_peer_id core i"] peer_paused_iff [OF assms(1) i]
  show "emits core rd
     (let node_id = tr_peer_id core i
      in if node_id \<noteq> c_self_id core \<and> tr_raft_membership_is_voter (tr_core_membership core) node_id
         then snd (tr_emit core rd type node_id False) else rd)
     (if tr_peer_id core i \<noteq> c_self_id core
         \<and> tr_raft_membership_is_voter (tr_core_membership core) (tr_peer_id core i)
         \<and> \<not> tr_peer_index_paused core i then 1 else 0)"
    by (cases "tr_emit core rd type (tr_peer_id core i) False") (auto simp: Let_def)
qed

lemma message_ok_context [simp]: "message_ok core (m\<lparr>m_context_id := ctx\<rparr>) = message_ok core m"
  by (simp add: message_ok_def replication_ok_def)

lemma update_last_emits:
  assumes "emits core rd rd' n" and "r_messages rd' = r_messages rd @ [m]"
    and "message_ok core m \<Longrightarrow> message_ok core (f m)" and "m_granted (f m) = m_granted m"
  shows "emits core rd (update_last_message f rd') n"
  using assms unfolding emits_def update_last_message_def by auto

lemma broadcast_read_index_emits:
  assumes "membership_wf core"
  shows "emits core rd (tr_broadcast_read_index core rd ctx) (tr_unpaused_remote_voter_count core)"
  unfolding tr_broadcast_read_index_def tr_unpaused_remote_voter_count_def
proof (rule foldl_emits)
  fix rd i
  assume "i \<in> set [0..<tr_peer_count core]"
  then have i: "i < tr_peer_count core" by simp
  obtain b rd1 where emit: "tr_emit core rd TR_RAFT_MSG_READ_INDEX_REQUEST (tr_peer_id core i) False = (b, rd1)"
    by fastforce
  note em = tr_emit_emits [OF _ emit, simplified] peer_paused_iff [OF assms i]
  have "emits core rd (case (b, rd1) of (True, rd) \<Rightarrow> update_last_message (\<lambda>m. m\<lparr>m_context_id := ctx\<rparr>) rd
      | (False, rd) \<Rightarrow> rd) (if tr_peer_index_paused core i then 0 else 1)"
  proof (cases b)
    case True
    with emit obtain m where "r_messages rd1 = r_messages rd @ [m]" by (auto simp: tr_emit_def split: if_splits)
    from update_last_emits [OF em(1) this, of "\<lambda>m. m\<lparr>m_context_id := ctx\<rparr>"] True em(3)
    show ?thesis by simp
  qed (use em in simp)
  with emit show "emits core rd
     (let node_id = tr_peer_id core i
      in if node_id \<noteq> c_self_id core \<and> tr_raft_membership_is_voter (tr_core_membership core) node_id
         then case tr_emit core rd TR_RAFT_MSG_READ_INDEX_REQUEST node_id False of
                (True, rd) \<Rightarrow> update_last_message (\<lambda>m. m\<lparr>m_context_id := ctx\<rparr>) rd
              | (False, rd) \<Rightarrow> rd
         else rd)
     (if tr_peer_id core i \<noteq> c_self_id core
         \<and> tr_raft_membership_is_voter (tr_core_membership core) (tr_peer_id core i)
         \<and> \<not> tr_peer_index_paused core i then 1 else 0)"
    by (auto simp: Let_def)
qed

end
