(* ===== verification/Raft_Core_Handlers.thy ===== *)
theory Raft_Core_Handlers
  imports Raft_Core_Messages
begin

text \<open>
  The handlers of the Raft core keep the invariant. The contract of a handler says that it leads from
  a well-formed state to one that extends it, that every message it writes is one the new state may
  send, and that a read is only answered at a committed index.
\<close>

section \<open>The contract of a handler\<close>

definition fresh :: "ready \<Rightarrow> bool" where
  "fresh rd \<longleftrightarrow> r_messages rd = [] \<and> r_read_states rd = []"

text \<open>What a handler leaves of a Ready record: its capacity, and the committed entries, which only
  the end of a call fills in.\<close>

abbreviation ready_frame :: "ready \<Rightarrow> nat \<times> entry list \<times> nat" where
  "ready_frame rd \<equiv> (r_message_capacity rd, r_committed_entries rd, r_committed_entry_count rd)"

definition same_apply :: "raft_core \<Rightarrow> raft_core \<Rightarrow> bool" where
  "same_apply core core' \<longleftrightarrow>
     c_applied_index core' = c_applied_index core
     \<and> c_apply_admitted_index core' = c_apply_admitted_index core
     \<and> c_pending_apply_index core' = c_pending_apply_index core
     \<and> c_in_call core' = c_in_call core \<and> c_ready_outstanding core' = c_ready_outstanding core"

definition ready_ok :: "raft_core \<Rightarrow> ready \<Rightarrow> bool" where
  "ready_ok core rd \<longleftrightarrow>
     (\<forall>m \<in> set (r_messages rd). message_ok core m)
     \<and> (\<forall>r \<in> set (r_read_states rd). rs_index r \<le> c_commit_index core)"

definition handled :: "raft_core \<Rightarrow> ready \<Rightarrow> raft_core \<Rightarrow> ready \<Rightarrow> bool" where
  "handled core rd core' rd' \<longleftrightarrow>
     core_wf core' \<and> core_extends core core' \<and> same_apply core core'
     \<and> ready_frame rd' = ready_frame rd \<and> ready_ok core' rd'"

definition fits :: "ready \<Rightarrow> bool" where
  "fits rd \<longleftrightarrow> length (r_messages rd) \<le> r_message_capacity rd"

lemma core_same_log_apply: "core_same_log core core' \<Longrightarrow> same_apply core core'"
  by (simp add: core_same_log_def same_apply_def)

lemma same_apply_refl [simp]: "same_apply core core"
  by (simp add: same_apply_def)

lemma same_apply_trans: "same_apply a b \<Longrightarrow> same_apply b c \<Longrightarrow> same_apply a c"
  by (simp add: same_apply_def)

lemma fresh_ready_ok [simp]: "fresh rd \<Longrightarrow> ready_ok core rd"
  by (simp add: fresh_def ready_ok_def)

lemma fresh_fits: "fresh rd \<Longrightarrow> fits rd"
  by (simp add: fresh_def fits_def)

lemma handledI:
  assumes "core_wf core'" and "core_extends core core'" and "same_apply core core'"
    and "ready_frame rd' = ready_frame rd" and "ready_ok core' rd'"
  shows "handled core rd core' rd'"
  using assms by (simp add: handled_def)

lemma handled_trans:
  "core_extends a b \<Longrightarrow> same_apply a b \<Longrightarrow> ready_frame rb = ready_frame ra \<Longrightarrow>
     handled b rb c rc \<Longrightarrow> handled a ra c rc"
  by (auto simp: handled_def intro: core_extends_trans same_apply_trans)

text \<open>Sending control messages from the final state, and sending replication messages.\<close>

lemma emits_ready:
  assumes "emits core rd rd' n" and "ready_ok core rd"
  shows "ready_ok core rd'" and "ready_frame rd' = ready_frame rd"
    and "length (r_messages rd) + n \<le> r_message_capacity rd \<Longrightarrow> fits rd'"
    and "r_read_states rd' = r_read_states rd"
  using assms by (auto simp: emits_def ready_ok_def fits_def)

lemma replicates_ready_ok:
  assumes "replicates core rd core' rd'" and "ready_ok core rd"
  shows "ready_ok core' rd'" and "ready_frame rd' = ready_frame rd" and "fits rd \<Longrightarrow> fits rd'"
    and "r_read_states rd' = r_read_states rd"
proof -
  from assms(1) obtain W N ms sr where r: "core' = core\<lparr>c_append_windows := W, c_next_index := N\<rparr>"
    "rd' = rd\<lparr>r_messages := r_messages rd @ ms, r_snapshot_requests := sr\<rparr>"
    "\<forall>m \<in> set ms. message_ok core m"
    "length (r_messages rd) \<le> r_message_capacity rd \<longrightarrow> length (r_messages rd @ ms) \<le> r_message_capacity rd"
    unfolding replicates_def by blast
  from r(1,3) assms(2) show "ready_ok core' rd'"
    unfolding r(1,2) by (auto simp: ready_ok_def message_ok_frame)
  from r(4) show "fits rd \<Longrightarrow> fits rd'" by (simp add: r(2) fits_def)
  show "ready_frame rd' = ready_frame rd" "r_read_states rd' = r_read_states rd" by (simp_all add: r(2))
qed

lemma replicates_handled:
  assumes "core_wf core" and "replicates core rd core' rd'" and "ready_ok core rd"
  shows "handled core rd core' rd'"
proof -
  from assms(2) have same: "core_same_log core core'" "c_commit_index core' = c_commit_index core"
    by (auto simp: replicates_def core_same_log_def)
  then show ?thesis
    using replicates_wf [OF assms(1,2)] replicates_ready_ok [OF assms(2,3)]
    by (intro handledI) (simp_all add: core_same_log_extends core_same_log_apply)
qed

text \<open>Two states with the same log, membership and tables.\<close>

definition same_data :: "raft_core \<Rightarrow> raft_core \<Rightarrow> bool" where
  "same_data core core' \<longleftrightarrow>
     c_log core' = c_log core \<and> c_transition core' = c_transition core \<and> c_peers core' = c_peers core
     \<and> c_self_is_voter core' = c_self_is_voter core \<and> c_self_id core' = c_self_id core
     \<and> c_commit_index core' = c_commit_index core \<and> c_applied_index core' = c_applied_index core
     \<and> c_apply_admitted_index core' = c_apply_admitted_index core
     \<and> c_pending_apply_index core' = c_pending_apply_index core
     \<and> c_next_index core' = c_next_index core \<and> c_match_index core' = c_match_index core
     \<and> c_append_windows core' = c_append_windows core"

lemma same_data_parts:
  assumes "same_data core core'"
  shows "index_order core' = index_order core" and "membership_wf core' = membership_wf core"
    and "tables_wf core' = tables_wf core" and "progress_wf core' = progress_wf core"
  using assms
  by (simp_all add: same_data_def index_order_def membership_wf_def tables_wf_def progress_wf_def
      peer_bounds_def tr_core_membership_def tr_peer_count_def peer_next_def peer_match_def peer_window_def)

lemma same_data_wf:
  assumes "core_wf core" and "same_data core core'" and "role_wf core'" and "reads_wf core'"
    and "c_role core' = TR_RAFT_LEADER \<Longrightarrow> progress_wf core"
  shows "core_wf core'"
  using assms same_data_parts [OF assms(2)] by (simp add: core_wf_def same_data_def)

section \<open>Elections\<close>

lemma voter_index_iff:
  assumes "membership_wf core"
  shows "0 \<le> tr_voter_index core n \<longleftrightarrow>
      n \<in> set (c_peers core) \<and> tr_raft_membership_is_voter (tr_core_membership core) n"
    and "0 \<le> tr_voter_index core n \<Longrightarrow> tr_voter_index core n = tr_peer_index core n"
    and "0 \<le> tr_peer_index core n \<longleftrightarrow> n \<in> set (c_peers core)"
    and "0 \<le> tr_peer_index core n \<Longrightarrow>
      nat (tr_peer_index core n) < tr_peer_count core \<and> tr_peer_id core (nat (tr_peer_index core n)) = n"
  using tr_raft_peer_set_index_mem [OF peer_set_facts(1,2) [OF assms], of n]
    tr_raft_peer_set_index_range [of "c_peers core" n]
  by (auto simp: tr_voter_index_def tr_peer_index_def tr_peer_count_def tr_peer_id_def Let_def)

lemma self_in_peers:
  assumes "membership_wf core" and "c_self_is_voter core"
  shows "c_self_id core \<in> set (c_peers core)"
proof -
  have "c_self_id core \<in> set (conf_ids (tr_core_membership core))"
    using assms is_voter_in_ids by (simp add: membership_wf_def)
  moreover have "tr_core_membership core \<in> set (transition_confs (c_transition core))"
    by (simp add: tr_core_membership_def tr_raft_membership_transition_committed_def transition_confs_def)
  ultimately show ?thesis
    using assms(1) peer_set_facts(4) [OF assms(1)] by (auto simp: member_union_def membership_wf_def)
qed

lemma self_voter_index:
  assumes "membership_wf core" and "c_self_is_voter core"
  obtains k where "tr_voter_index core (c_self_id core) = int k" and "k < tr_peer_count core"
    and "tr_peer_id core k = c_self_id core"
proof -
  have "0 \<le> tr_voter_index core (c_self_id core)"
    using assms self_in_peers [OF assms] voter_index_iff(1) [OF assms(1)] by (simp add: membership_wf_def)
  with voter_index_iff(2,4) [OF assms(1), of "c_self_id core"]
    that [of "nat (tr_voter_index core (c_self_id core))"] show thesis by simp
qed

lemma leader_state_frame [simp]:
  "c_log (leader_state core) = c_log core" "c_transition (leader_state core) = c_transition core"
  "c_peers (leader_state core) = c_peers core" "c_self_is_voter (leader_state core) = c_self_is_voter core"
  "c_self_id (leader_state core) = c_self_id core" "c_role (leader_state core) = TR_RAFT_LEADER"
  "c_term (leader_state core) = c_term core" "c_voted_for (leader_state core) = c_voted_for core"
  "c_commit_index (leader_state core) = c_commit_index core"
  "c_applied_index (leader_state core) = c_applied_index core"
  "c_apply_admitted_index (leader_state core) = c_apply_admitted_index core"
  "c_pending_apply_index (leader_state core) = c_pending_apply_index core"
  "c_max_pending_reads (leader_state core) = c_max_pending_reads core"
  "c_max_inflight (leader_state core) = c_max_inflight core"
  "c_in_call (leader_state core) = c_in_call core"
  "c_ready_outstanding (leader_state core) = c_ready_outstanding core"
  "c_pending_read_contexts (leader_state core) = []" "c_waiting_read_contexts (leader_state core) = []"
  by (simp_all add: leader_state_def tr_read_reset_all_def tr_read_clear_active_def Let_def)

lemma leader_state_wf:
  assumes wf: "core_wf core" and role: "c_role core = TR_RAFT_CANDIDATE" and room: "log_room (c_log core) 1"
  shows "core_wf (leader_state core)" and "progress_wf (leader_state core)"
    and "core_same_log core (leader_state core)"
proof -
  let ?last = "tr_raft_log_last_index (c_log core)"
  let ?core = "leader_state core"
  have parts: "membership_wf core" "tables_wf core" "c_self_is_voter core"
    "c_term core \<noteq> 0" "c_voted_for core = c_self_id core"
    using wf role by (simp_all add: core_wf_def role_wf_def)
  from self_voter_index [OF parts(1,3)] obtain k where k: "tr_voter_index core (c_self_id core) = int k"
    "k < tr_peer_count core" by blast
  have count: "tr_peer_count core \<le> 31" using peer_set_facts(3) [OF parts(1)] by (simp add: tr_peer_count_def)
  have len: "length (c_next_index core) = 31" "length (c_match_index core) = 31"
    "length (c_append_windows core) = 31" "\<forall>w \<in> set (c_append_windows core). window_wf w"
    using parts(2) by (simp_all add: tables_wf_def)
  define windows where "windows = map (\<lambda>i. if i < tr_peer_count core
      then tr_append_window_reset (c_append_windows core ! i) True else c_append_windows core ! i) [0..<31]"
  have windows: "length windows = 31" "\<forall>w \<in> set windows. window_wf w"
    using len(3,4) by (auto simp: windows_def simp del: upt_rec_numeral)
  have fields: "c_append_windows ?core = arr_set windows (int k) ((arr_get window_zero windows (int k))\<lparr>w_probe := False\<rparr>)"
    "c_next_index ?core = map (\<lambda>i. if i < tr_peer_count core then ?last + 1 else c_next_index core ! i) [0..<31]"
    "c_match_index ?core = arr_set (map (\<lambda>i. if i < tr_peer_count core then 0 else c_match_index core ! i) [0..<31])
       (int k) ?last"
    by (simp_all add: leader_state_def Let_def k(1) len windows_def tr_read_reset_all_def tr_read_clear_active_def
        del: upt_rec_numeral cong: if_cong)
  have tables: "tables_wf ?core"
    using windows arr_set_window_wf [OF windows(2), of "(arr_get window_zero windows (int k))\<lparr>w_probe := False\<rparr>" "int k"]
      arr_get_window_wf [OF windows(2), of "int k"]
    by (simp add: tables_wf_def fields del: upt_rec_numeral)
  have "peer_bounds ?core i" if i: "i < tr_peer_count core" for i
  proof -
    have i31: "i < 31" using i count by simp
    have win: "window_list (windows ! i) = []"
      using i i31 by (simp add: windows_def del: upt_rec_numeral)
    have "window_list (peer_window ?core i) = []"
      using win i31 windows(1) by (auto simp: peer_window_def fields arr_get_def arr_set_def nth_list_update)
    moreover have "peer_next ?core i = ?last + 1"
      using i i31 by (simp add: peer_next_def fields arr_get_def del: upt_rec_numeral)
    moreover have "peer_match ?core i \<le> ?last"
      using i i31 by (auto simp: peer_match_def fields arr_get_def arr_set_def nth_list_update simp del: upt_rec_numeral)
    ultimately show ?thesis
      using unat_room_1 [OF room order_refl] by (simp add: peer_bounds_def u64_less_unat)
  qed
  then show progress: "progress_wf ?core" by (simp add: progress_wf_def tr_peer_count_def)
  show "core_same_log core ?core" by (simp add: core_same_log_def)
  show "core_wf ?core"
    using wf tables progress parts
    by (simp add: core_wf_def index_order_def membership_wf_def role_wf_def reads_wf_def tr_core_membership_def
        tr_read_total_count_def)
qed

lemma become_leader_handled:
  assumes wf: "core_wf core" and role: "c_role core = TR_RAFT_CANDIDATE" and room: "log_room (c_log core) 1"
    and rd: "fresh rd" and eq: "tr_become_leader core rd = (core', rd')"
  shows "handled core rd core' rd'" and "fits rd'" and "c_term core' = c_term core" and "c_role core' = TR_RAFT_LEADER"
    and "c_voted_for core' = c_voted_for core"
proof -
  note leader = leader_state_wf [OF wf role room]
  have eq': "tr_broadcast_replication (leader_state core) rd = (core', rd')" using eq by (simp add: tr_become_leader_def)
  have "log_room (c_log (leader_state core)) 1" using room by simp
  note step = bcast.op_step [OF leader(1,2) this TrueI eq']
  have "handled (leader_state core) rd core' rd'"
    using replicates_handled [OF leader(1) step(6)] rd by simp
  then show "handled core rd core' rd'"
    by (rule handled_trans [OF core_same_log_extends [OF leader(3)] core_same_log_apply [OF leader(3)], rotated -1])
       simp_all
  show "fits rd'" using replicates_ready_ok(3) [OF step(6)] rd fresh_fits by simp
  show "c_term core' = c_term core" "c_voted_for core' = c_voted_for core" "c_role core' = TR_RAFT_LEADER"
    using step(2,4) by (simp_all add: core_same_log_def)
qed

lemma count_frame:
  "c_self_id core' = c_self_id core \<Longrightarrow> c_peers core' = c_peers core \<Longrightarrow> c_transition core' = c_transition core \<Longrightarrow>
     c_paused_peers core' = c_paused_peers core \<Longrightarrow>
     tr_unpaused_remote_voter_count core' = tr_unpaused_remote_voter_count core"
  by (simp add: tr_unpaused_remote_voter_count_def tr_peer_id_def tr_peer_count_def tr_core_membership_def
      tr_peer_index_paused_def)

text \<open>The state of a candidate before it asks for votes.\<close>

definition candidate_state :: "raft_core \<Rightarrow> raft_core" where
  "candidate_state core =
     core\<lparr>c_term := c_campaign_term core, c_campaign_term := 0, c_role := TR_RAFT_CANDIDATE, c_leader_id := 0,
          c_voted_for := c_self_id core, c_pre_votes := 0,
          c_votes := u32_shl1 (tr_voter_index core (c_self_id core))\<rparr>"

lemma start_election_eq:
  "tr_start_election core rd =
     (if tr_core_has_quorum (candidate_state core) (c_votes (candidate_state core))
      then tr_become_leader (candidate_state core) rd
      else (candidate_state core, tr_broadcast (candidate_state core) rd TR_RAFT_MSG_VOTE_REQUEST))"
  by (simp add: tr_start_election_def candidate_state_def Let_def)

lemma candidate_state_wf:
  assumes wf: "core_wf core" and voter: "c_self_is_voter core" and role: "c_role core \<noteq> TR_RAFT_LEADER"
    and less: "c_term core < c_campaign_term core"
  shows "core_wf (candidate_state core)" and "core_extends core (candidate_state core)"
    and "same_apply core (candidate_state core)"
proof -
  have "0 < c_campaign_term core" using less by (rule order.strict_trans1 [OF word_zero_le])
  moreover have "index_order (candidate_state core) = index_order core"
    "membership_wf (candidate_state core) = membership_wf core" "tables_wf (candidate_state core) = tables_wf core"
    by (simp_all add: candidate_state_def index_order_def membership_wf_def tables_wf_def tr_core_membership_def)
  moreover have "reads_wf (candidate_state core)"
    using wf role by (auto simp: candidate_state_def core_wf_def reads_wf_def tr_read_total_count_def)
  ultimately show "core_wf (candidate_state core)"
    using wf voter by (simp add: core_wf_def role_wf_def) (simp add: candidate_state_def)
  show "core_extends core (candidate_state core)" "same_apply core (candidate_state core)"
    using less by (auto simp: candidate_state_def core_extends_def same_apply_def)
qed

lemma start_election_handled:
  assumes wf: "core_wf core" and voter: "c_self_is_voter core" and role: "c_role core \<noteq> TR_RAFT_LEADER"
    and less: "c_term core < c_campaign_term core" and room: "log_room (c_log core) 1" and rd: "fresh rd"
    and eq: "tr_start_election core rd = (core', rd')"
  shows "handled core rd core' rd'"
    and "tr_unpaused_remote_voter_count core \<le> r_message_capacity rd \<Longrightarrow> fits rd'"
proof -
  let ?core = "candidate_state core"
  note cand = candidate_state_wf [OF wf voter role less]
  have room': "log_room (c_log ?core) 1" and role': "c_role ?core = TR_RAFT_CANDIDATE"
    using room by (simp_all add: candidate_state_def)
  have count: "tr_unpaused_remote_voter_count ?core = tr_unpaused_remote_voter_count core"
    by (rule count_frame) (simp_all add: candidate_state_def)
  have both: "handled ?core rd core' rd'
      \<and> (tr_unpaused_remote_voter_count core \<le> r_message_capacity rd \<longrightarrow> fits rd')"
  proof (cases "tr_core_has_quorum ?core (c_votes ?core)")
    case True
    then have "tr_become_leader ?core rd = (core', rd')" using eq by (simp add: start_election_eq)
    from become_leader_handled(1,2) [OF cand(1) role' room' rd this] show ?thesis by simp
  next
    case False
    then have res: "core' = ?core" "rd' = tr_broadcast ?core rd TR_RAFT_MSG_VOTE_REQUEST"
      using eq by (auto simp: start_election_eq)
    have mem: "membership_wf ?core" using cand(1) by (simp add: core_wf_def)
    have "emits ?core rd rd' (tr_unpaused_remote_voter_count ?core)"
      unfolding res(2) by (rule broadcast_emits [OF mem]) simp
    from emits_ready [OF this fresh_ready_ok [OF rd]] show ?thesis
      using cand(1) rd by (auto simp: handled_def res(1) count fresh_def)
  qed
  then show "handled core rd core' rd'" using handled_trans [OF cand(2,3)] by blast
  from both show "tr_unpaused_remote_voter_count core \<le> r_message_capacity rd \<Longrightarrow> fits rd'" by blast
qed

lemma start_pre_vote_handled:
  assumes wf: "core_wf core" and voter: "c_self_is_voter core" and role: "c_role core \<noteq> TR_RAFT_LEADER"
    and max: "c_term core \<noteq> UINT64_MAX" and room: "log_room (c_log core) 1" and rd: "fresh rd"
    and eq: "tr_start_pre_vote core rd = (core', rd')"
  shows "handled core rd core' rd'"
    and "tr_unpaused_remote_voter_count core \<le> r_message_capacity rd \<Longrightarrow> fits rd'"
proof -
  define core1 where "core1 = core\<lparr>c_role := TR_RAFT_PRE_CANDIDATE, c_leader_id := 0,
    c_campaign_term := c_term core + 1, c_pre_votes := u32_shl1 (tr_voter_index core (c_self_id core)), c_votes := 0\<rparr>"
  have parts: "index_order core1 = index_order core" "membership_wf core1 = membership_wf core"
    "tables_wf core1 = tables_wf core"
    by (simp_all add: core1_def index_order_def membership_wf_def tables_wf_def tr_core_membership_def)
  have reads: "reads_wf core1"
    using wf role by (auto simp: core1_def core_wf_def reads_wf_def tr_read_total_count_def)
  have roles: "role_wf core1" using voter max by (simp add: core1_def role_wf_def)
  have wf1: "core_wf core1" using wf parts reads roles by (simp add: core_wf_def) (simp add: core1_def)
  have ext: "core_extends core core1" "same_apply core core1" by (simp_all add: core1_def core_extends_def same_apply_def)
  have count: "tr_unpaused_remote_voter_count core1 = tr_unpaused_remote_voter_count core"
    by (rule count_frame) (simp_all add: core1_def)
  have eq1: "tr_start_pre_vote core rd = (if tr_core_has_quorum core1 (c_pre_votes core1)
      then tr_start_election core1 rd else (core1, tr_broadcast core1 rd TR_RAFT_MSG_PRE_VOTE_REQUEST))"
    by (simp add: tr_start_pre_vote_def core1_def Let_def)
  have both: "handled core1 rd core' rd'
      \<and> (tr_unpaused_remote_voter_count core \<le> r_message_capacity rd \<longrightarrow> fits rd')"
  proof (cases "tr_core_has_quorum core1 (c_pre_votes core1)")
    case True
    have less: "c_term core1 < c_campaign_term core1"
      using max unat_plus_1 [OF max] by (simp add: core1_def u64_less_unat)
    have "tr_start_election core1 rd = (core', rd')" "c_self_is_voter core1" "c_role core1 \<noteq> TR_RAFT_LEADER"
      "log_room (c_log core1) 1"
      using eq eq1 True voter room by (simp_all add: core1_def)
    from start_election_handled [OF wf1 this(2,3) less this(4) rd this(1)] show ?thesis by (simp add: count)
  next
    case False
    then have res: "core' = core1" "rd' = tr_broadcast core1 rd TR_RAFT_MSG_PRE_VOTE_REQUEST"
      using eq eq1 by auto
    have mem: "membership_wf core1" using wf1 by (simp add: core_wf_def)
    have "emits core1 rd rd' (tr_unpaused_remote_voter_count core1)"
      unfolding res(2) by (rule broadcast_emits [OF mem]) simp
    from emits_ready [OF this fresh_ready_ok [OF rd]] show ?thesis
      using wf1 rd by (auto simp: handled_def res(1) count fresh_def)
  qed
  then show "handled core rd core' rd'" using handled_trans [OF ext] by blast
  from both show "tr_unpaused_remote_voter_count core \<le> r_message_capacity rd \<Longrightarrow> fits rd'" by blast
qed

section \<open>Vote handlers\<close>

text \<open>What the handlers rely on in a received message: the entries of an append request continue the
  position they name, and a granted pre-vote answers a campaign. Every message of a core is such
  a message.\<close>

definition message_wf :: "message \<Rightarrow> bool" where
  "message_wf m \<longleftrightarrow>
     (m_type m \<in> {TR_RAFT_MSG_APPEND_REQUEST, TR_RAFT_MSG_HEARTBEAT_REQUEST} \<longrightarrow>
        incoming_ok (m_previous_log_index m) (m_entries m))
     \<and> (m_type m = TR_RAFT_MSG_PRE_VOTE_RESPONSE \<and> m_granted m \<longrightarrow> m_campaign_term m \<noteq> 0)"

lemma message_ok_wf:
  assumes "message_ok core m" and "log_wf (c_log core)"
  shows "message_wf m"
proof -
  have "incoming_ok (m_previous_log_index m) (m_entries m)" if "replication_ok core m"
    using that log_get_Some(1,2) [OF assms(2)]
    by (fastforce simp: incoming_ok_def entries_at_def list_all_length replication_ok_def algebra_simps)
  moreover have "m_campaign_term m \<noteq> 0" if "c_term core < m_campaign_term m"
    using that by auto
  ultimately show ?thesis using assms(1) by (auto simp: message_ok_def message_wf_def)
qed

lemma handled_unchanged: "core_wf core \<Longrightarrow> fresh rd \<Longrightarrow> handled core rd core rd"
  by (simp add: handled_def)

lemma handled_follower: "core_wf core \<Longrightarrow> fresh rd \<Longrightarrow> handled core rd (tr_become_follower core t) rd"
  by (simp add: handled_def become_follower_wf same_apply_def)

lemma pre_vote_request_handled:
  assumes wf: "core_wf core" and rd: "fresh rd" and eq: "tr_step_pre_vote_request core m rd = (core', rd')"
  shows "handled core rd core' rd'"
    and "(if tr_peer_paused core (m_from m) then 0 else 1) \<le> r_message_capacity rd \<Longrightarrow> fits rd'"
proof -
  define granted where "granted \<longleftrightarrow> c_self_is_voter core
      \<and> (c_term core \<noteq> UINT64_MAX \<and> m_campaign_term m \<ge> c_term core + 1) \<and> tr_log_is_up_to_date core m"
  obtain b rd1 where emit: "tr_emit (core\<lparr>c_campaign_term := m_campaign_term m\<rparr>) rd TR_RAFT_MSG_PRE_VOTE_RESPONSE
      (m_from m) granted = (b, rd1)" by fastforce
  have res: "core' = core\<lparr>c_campaign_term := 0\<rparr>" "rd' = rd1"
    using eq emit by (auto simp: tr_step_pre_vote_request_def Let_def granted_def)
  have paused: "tr_peer_paused (core\<lparr>c_campaign_term := t\<rparr>) n = tr_peer_paused core n" for t n
    by (simp add: tr_peer_paused_def tr_peer_index_paused_def tr_peer_index_def tr_peer_count_def)
  have later: "c_term core < m_campaign_term m" if granted
    using that unat_plus_1 [of "c_term core"] by (auto simp: granted_def u64_less_unat u64_le_unat)
  have wf': "core_wf core'"
  proof (rule same_data_wf [OF wf])
    show "same_data core core'" by (simp add: res(1) same_data_def)
    show "role_wf core'" "reads_wf core'"
      using wf by (simp_all add: res(1) core_wf_def role_wf_def reads_wf_def tr_read_total_count_def)
    show "progress_wf core" if "c_role core' = TR_RAFT_LEADER"
      using that wf by (simp add: res(1) core_wf_def)
  qed
  have "ready_ok core' rd'" "ready_frame rd' = ready_frame rd"
    using emit rd later unfolding res
    by (auto simp: tr_emit_def ready_ok_def message_ok_def fresh_def split: if_splits)
  then show "handled core rd core' rd'"
    using wf' by (intro handledI) (simp_all add: res(1) core_extends_def same_apply_def)
  show "(if tr_peer_paused core (m_from m) then 0 else 1) \<le> r_message_capacity rd \<Longrightarrow> fits rd'"
    using emit rd unfolding res by (auto simp: tr_emit_def fits_def fresh_def paused split: if_splits)
qed

lemma has_quorum_frame:
  "tr_core_has_quorum (core\<lparr>c_pre_votes := v\<rparr>) u = tr_core_has_quorum core u"
  "tr_core_has_quorum (core\<lparr>c_votes := v\<rparr>) u = tr_core_has_quorum core u"
  "tr_core_has_quorum (core\<lparr>c_pending_read_acks := v\<rparr>) u = tr_core_has_quorum core u"
proof -
  have loop: "member_acks_loop core1 u i ms acks = member_acks_loop core u i ms acks"
    if "c_peers core1 = c_peers core" for core1 i ms acks
    using that by (induction core u i ms acks rule: member_acks_loop.induct)
      (simp_all add: Let_def tr_peer_index_def)
  show "tr_core_has_quorum (core\<lparr>c_pre_votes := v\<rparr>) u = tr_core_has_quorum core u"
    "tr_core_has_quorum (core\<lparr>c_votes := v\<rparr>) u = tr_core_has_quorum core u"
    "tr_core_has_quorum (core\<lparr>c_pending_read_acks := v\<rparr>) u = tr_core_has_quorum core u"
    using loop [of "core\<lparr>c_pre_votes := v\<rparr>"] loop [of "core\<lparr>c_votes := v\<rparr>"]
      loop [of "core\<lparr>c_pending_read_acks := v\<rparr>"]
    by (simp_all add: tr_core_has_quorum_def tr_core_membership_def Let_def)
qed

lemma pre_vote_response_handled:
  assumes wf: "core_wf core" and room: "log_room (c_log core) 1" and rd: "fresh rd" and m: "message_wf m"
    and type: "m_type m = TR_RAFT_MSG_PRE_VOTE_RESPONSE"
    and eq: "tr_step_pre_vote_response core m rd vi = (core', rd')"
  shows "handled core rd core' rd'"
    and "tr_will_pre_vote_win core m vi \<Longrightarrow> tr_unpaused_remote_voter_count core \<le> r_message_capacity rd \<Longrightarrow> fits rd'"
    and "\<not> tr_will_pre_vote_win core m vi \<Longrightarrow> fits rd'"
proof -
  define core1 where "core1 = core\<lparr>c_pre_votes := c_pre_votes core OR u32_shl1 vi\<rparr>"
  have wf1: "core_wf core1" using wf by (simp add: core1_def core_frame)
  have quorum: "tr_core_has_quorum core1 u = tr_core_has_quorum core u" for u
    by (simp add: core1_def has_quorum_frame)
  have eq1: "tr_step_pre_vote_response core m rd vi =
      (if m_term m > c_term core then (tr_become_follower core (m_term m), rd)
       else if \<not> (c_role core = TR_RAFT_PRE_CANDIDATE \<and> m_campaign_term m = c_campaign_term core
                  \<and> m_granted m \<and> c_pre_votes core AND u32_shl1 vi = 0) then (core, rd)
       else if tr_core_has_quorum core (c_pre_votes core OR u32_shl1 vi) then tr_start_election core1 rd
       else (core1, rd))"
    using quorum by (simp add: tr_step_pre_vote_response_def Let_def core1_def)
  have win_iff: "tr_will_pre_vote_win core m vi \<longleftrightarrow> \<not> m_term m > c_term core
      \<and> (c_role core = TR_RAFT_PRE_CANDIDATE \<and> m_campaign_term m = c_campaign_term core
                  \<and> m_granted m \<and> c_pre_votes core AND u32_shl1 vi = 0)
      \<and> tr_core_has_quorum core (c_pre_votes core OR u32_shl1 vi)"
    by (auto simp: tr_will_pre_vote_win_def Let_def not_less)
  consider (higher) "m_term m > c_term core" "core' = tr_become_follower core (m_term m)" "rd' = rd"
    | (same) "core' = core" "rd' = rd" "\<not> tr_will_pre_vote_win core m vi"
    | (count) "core' = core1" "rd' = rd" "\<not> tr_will_pre_vote_win core m vi"
    | (win) "tr_start_election core1 rd = (core', rd')" "c_role core = TR_RAFT_PRE_CANDIDATE"
        "m_campaign_term m = c_campaign_term core" "m_granted m" "tr_will_pre_vote_win core m vi"
    using eq unfolding eq1 win_iff
    by (cases "m_term m > c_term core"; cases "c_role core = TR_RAFT_PRE_CANDIDATE
        \<and> m_campaign_term m = c_campaign_term core \<and> m_granted m \<and> c_pre_votes core AND u32_shl1 vi = 0";
        cases "tr_core_has_quorum core (c_pre_votes core OR u32_shl1 vi)") simp_all
  then have "handled core rd core' rd' \<and> (tr_will_pre_vote_win core m vi \<longrightarrow>
      tr_unpaused_remote_voter_count core \<le> r_message_capacity rd \<longrightarrow> fits rd')
      \<and> (\<not> tr_will_pre_vote_win core m vi \<longrightarrow> fits rd')"
  proof cases
    case higher
    then show ?thesis using handled_follower [OF wf rd] fresh_fits [OF rd] by simp
  next
    case same
    then show ?thesis using handled_unchanged [OF wf rd] fresh_fits [OF rd] by simp
  next
    case count
    then show ?thesis
      using wf1 rd fresh_fits [OF rd] by (simp add: handled_def core1_def core_extends_def same_apply_def)
  next
    case win
    have nz: "c_campaign_term core \<noteq> 0" using m type win(3,4) by (simp add: message_wf_def)
    with wf win(2) have camp: "c_campaign_term core = c_term core + 1" "c_term core \<noteq> UINT64_MAX"
      and voter: "c_self_is_voter core" by (auto simp: core_wf_def role_wf_def)
    have less: "c_term core1 < c_campaign_term core1"
      using unat_plus_1 [OF camp(2)] by (simp add: core1_def camp(1) u64_less_unat)
    have pre: "c_self_is_voter core1" "c_role core1 \<noteq> TR_RAFT_LEADER" "log_room (c_log core1) 1"
      using voter win(2) room by (simp_all add: core1_def)
    note el = start_election_handled [OF wf1 pre(1,2) less pre(3) rd win(1)]
    have "tr_unpaused_remote_voter_count core1 = tr_unpaused_remote_voter_count core"
      by (rule count_frame) (simp_all add: core1_def)
    moreover have "core_extends core core1" "same_apply core core1"
      by (simp_all add: core1_def core_extends_def same_apply_def)
    ultimately show ?thesis using el win(5) handled_trans [of core core1 rd rd core' rd'] by simp
  qed
  then show "handled core rd core' rd'"
    and "tr_will_pre_vote_win core m vi \<Longrightarrow> tr_unpaused_remote_voter_count core \<le> r_message_capacity rd \<Longrightarrow> fits rd'"
    and "\<not> tr_will_pre_vote_win core m vi \<Longrightarrow> fits rd'" by blast+
qed

text \<open>The state and the answer of a vote request.\<close>

definition vote_granted :: "raft_core \<Rightarrow> message \<Rightarrow> bool" where
  "vote_granted core m \<longleftrightarrow> c_self_is_voter core \<and> c_term core \<le> m_term m
     \<and> (c_term core < m_term m \<or> c_voted_for core = 0 \<or> c_voted_for core = m_from m)
     \<and> tr_log_is_up_to_date core m"

lemma vote_request_eq:
  "tr_step_vote_request core m rd =
     (let core1 = (if m_term m > c_term core then tr_become_follower core (m_term m) else core);
          core2 = (if vote_granted core m
                   then core1\<lparr>c_voted_for := m_from m, c_election_elapsed_ticks := 0\<rparr> else core1)
      in (core2, snd (tr_emit core2 rd TR_RAFT_MSG_VOTE_RESPONSE (m_from m) (vote_granted core m))))"
proof -
  have up: "tr_log_is_up_to_date (tr_become_follower core (m_term m)) m = tr_log_is_up_to_date core m"
    by (simp add: tr_log_is_up_to_date_def)
  show ?thesis
  proof (cases "m_term m > c_term core")
    case True
    then have "vote_granted core m \<longleftrightarrow> c_self_is_voter core \<and> tr_log_is_up_to_date core m"
      by (auto simp: vote_granted_def)
    with True up show ?thesis
      by (auto simp: tr_step_vote_request_def Let_def max_def split: prod.splits)
  next
    case False
    then have "vote_granted core m \<longleftrightarrow> c_self_is_voter core \<and> m_term m = c_term core
      \<and> (c_voted_for core = 0 \<or> c_voted_for core = m_from m) \<and> tr_log_is_up_to_date core m"
      by (auto simp: vote_granted_def)
    with False show ?thesis
      by (simp add: tr_step_vote_request_def Let_def split: prod.splits)
  qed
qed

lemma vote_request_handled:
  assumes wf: "core_wf core" and rd: "fresh rd" and sender: "m_from m \<noteq> 0" "m_from m \<noteq> c_self_id core"
    and eq: "tr_step_vote_request core m rd = (core', rd')"
  shows "handled core rd core' rd'"
    and "(if tr_peer_paused core (m_from m) then 0 else 1) \<le> r_message_capacity rd \<Longrightarrow> fits rd'"
proof -
  define core1 where "core1 = (if m_term m > c_term core then tr_become_follower core (m_term m) else core)"
  define core2 where "core2 = (if vote_granted core m
      then core1\<lparr>c_voted_for := m_from m, c_election_elapsed_ticks := 0\<rparr> else core1)"
  obtain b rd1 where emit: "tr_emit core2 rd TR_RAFT_MSG_VOTE_RESPONSE (m_from m) (vote_granted core m) = (b, rd1)"
    by fastforce
  have "tr_step_vote_request core m rd
      = (core2, snd (tr_emit core2 rd TR_RAFT_MSG_VOTE_RESPONSE (m_from m) (vote_granted core m)))"
    unfolding vote_request_eq Let_def core2_def core1_def by (rule refl)
  then have res: "core' = core2" "rd' = rd1" using eq emit by simp_all
  have wf1: "core_wf core1" using wf become_follower_wf by (simp add: core1_def)
  have ext1: "core_extends core core1" "same_apply core core1" by (simp_all add: core1_def same_apply_def)
  have granted: "c_term core1 = m_term m" "c_self_is_voter core1"
    "c_term core' = c_term core \<longrightarrow> c_voted_for core \<noteq> 0 \<longrightarrow> c_voted_for core = m_from m"
    "c_role core1 \<notin> {TR_RAFT_CANDIDATE, TR_RAFT_LEADER}" if "vote_granted core m"
  proof -
    show "c_term core1 = m_term m" "c_self_is_voter core1" using that by (auto simp: vote_granted_def core1_def)
    show "c_term core' = c_term core \<longrightarrow> c_voted_for core \<noteq> 0 \<longrightarrow> c_voted_for core = m_from m"
      using that by (auto simp: vote_granted_def res(1) core2_def core1_def)
    show "c_role core1 \<notin> {TR_RAFT_CANDIDATE, TR_RAFT_LEADER}"
      using that wf sender(2) by (auto simp: vote_granted_def core1_def core_wf_def role_wf_def membership_wf_def)
  qed
  have wf2: "core_wf core2"
  proof (rule same_data_wf [OF wf1])
    show "same_data core1 core2" by (simp add: core2_def same_data_def)
    show "role_wf core2"
      using wf1 granted(4) by (cases "vote_granted core m") (auto simp: core2_def core_wf_def role_wf_def)
    show "reads_wf core2" using wf1 by (simp add: core2_def core_wf_def reads_wf_def tr_read_total_count_def)
    show "progress_wf core1" if "c_role core2 = TR_RAFT_LEADER"
      using that wf1 by (cases "vote_granted core m") (simp_all add: core2_def core_wf_def)
  qed
  have frame: "c_self_id core2 = c_self_id core1" "c_term core2 = c_term core1"
    "c_voted_for core2 = (if vote_granted core m then m_from m else c_voted_for core1)"
    "same_apply core core2" "c_log core2 = c_log core" "c_commit_index core2 = c_commit_index core"
    "c_applied_index core2 = c_applied_index core" "c_apply_admitted_index core2 = c_apply_admitted_index core"
    using ext1(2) by (simp_all add: core2_def same_apply_def) (simp_all add: core1_def)
  have ext: "core_extends core core2"
    using ext1(1) granted(3) unfolding core_extends_def frame res(1) by auto
  have paused: "tr_peer_paused core2 n = tr_peer_paused core n" for n
    by (simp add: core2_def core1_def tr_peer_paused_def tr_peer_index_paused_def tr_peer_index_def tr_peer_count_def)
  have msgs: "ready_ok core' rd'" "ready_frame rd' = ready_frame rd"
    using emit rd sender(1) unfolding res
    by (auto simp: tr_emit_def ready_ok_def message_ok_def fresh_def frame(3) split: if_splits)
  show "handled core rd core' rd'"
    using wf2 ext frame(4) msgs unfolding res by (intro handledI)
  show "(if tr_peer_paused core (m_from m) then 0 else 1) \<le> r_message_capacity rd \<Longrightarrow> fits rd'"
    using emit rd unfolding res by (auto simp: tr_emit_def fits_def fresh_def paused split: if_splits)
qed

lemma vote_response_handled:
  assumes wf: "core_wf core" and room: "log_room (c_log core) 1" and rd: "fresh rd"
    and eq: "tr_step_vote_response core m rd vi = (core', rd')"
  shows "handled core rd core' rd'" and "fits rd'"
proof -
  define core1 where "core1 = core\<lparr>c_votes := c_votes core OR u32_shl1 vi\<rparr>"
  have wf1: "core_wf core1" using wf by (simp add: core1_def core_frame)
  have quorum: "tr_core_has_quorum core1 u = tr_core_has_quorum core u" for u
    by (simp add: core1_def has_quorum_frame)
  define guard where "guard \<longleftrightarrow> c_role core = TR_RAFT_CANDIDATE \<and> m_term m = c_term core \<and> m_granted m
      \<and> c_votes core AND u32_shl1 vi = 0"
  have eq1: "tr_step_vote_response core m rd vi =
      (if m_term m > c_term core then (tr_become_follower core (m_term m), rd)
       else if \<not> guard then (core, rd)
       else if tr_core_has_quorum core (c_votes core OR u32_shl1 vi) then tr_become_leader core1 rd
       else (core1, rd))"
    using quorum by (simp add: tr_step_vote_response_def Let_def core1_def guard_def)
  consider (higher) "core' = tr_become_follower core (m_term m)" "rd' = rd"
    | (same) "core' = core" "rd' = rd" | (count) "core' = core1" "rd' = rd"
    | (win) "tr_become_leader core1 rd = (core', rd')" "c_role core = TR_RAFT_CANDIDATE"
    using eq unfolding eq1
    by (cases "m_term m > c_term core"; cases guard;
        cases "tr_core_has_quorum core (c_votes core OR u32_shl1 vi)") (simp_all add: guard_def)
  then have "handled core rd core' rd' \<and> fits rd'"
  proof cases
    case higher
    then show ?thesis using handled_follower [OF wf rd] fresh_fits [OF rd] by simp
  next
    case same
    then show ?thesis using handled_unchanged [OF wf rd] fresh_fits [OF rd] by simp
  next
    case count
    then show ?thesis
      using wf1 rd fresh_fits [OF rd] by (simp add: handled_def core1_def core_extends_def same_apply_def)
  next
    case win
    have "c_role core1 = TR_RAFT_CANDIDATE" "log_room (c_log core1) 1" using win(2) room by (simp_all add: core1_def)
    note leader = become_leader_handled(1,2) [OF wf1 this rd win(1)]
    have "core_extends core core1" "same_apply core core1"
      by (simp_all add: core1_def core_extends_def same_apply_def)
    with leader handled_trans [of core core1 rd rd core' rd'] show ?thesis by simp
  qed
  then show "handled core rd core' rd'" "fits rd'" by blast+
qed

lemma timeout_now_handled:
  assumes wf: "core_wf core" and room: "log_room (c_log core) 1" and rd: "fresh rd"
    and eq: "tr_step_timeout_now core m rd = (core', rd')"
  defines "guard \<equiv> c_self_is_voter core \<and> c_role core = TR_RAFT_FOLLOWER \<and> m_term m = c_term core
      \<and> c_leader_id core = m_from m \<and> c_term core \<noteq> UINT64_MAX"
  shows "handled core rd core' rd'"
    and "guard \<Longrightarrow> tr_unpaused_remote_voter_count core \<le> r_message_capacity rd \<Longrightarrow> fits rd'"
    and "\<not> guard \<Longrightarrow> fits rd'"
proof -
  define core1 where "core1 = core\<lparr>c_campaign_term := c_term core + 1, c_election_elapsed_ticks := 0\<rparr>"
  have eq1: "tr_step_timeout_now core m rd = (if guard then tr_start_election core1 rd else (core, rd))"
    by (simp add: tr_step_timeout_now_def guard_def core1_def)
  have both: "handled core rd core' rd'
      \<and> (guard \<longrightarrow> tr_unpaused_remote_voter_count core \<le> r_message_capacity rd \<longrightarrow> fits rd') \<and> (\<not> guard \<longrightarrow> fits rd')"
  proof (cases guard)
    case False
    then show ?thesis using eq eq1 handled_unchanged [OF wf rd] fresh_fits [OF rd] by simp
  next
    case True
    have wf1: "core_wf core1"
    proof (rule same_data_wf [OF wf])
      show "same_data core core1" by (simp add: core1_def same_data_def)
      show "role_wf core1" using True by (simp add: core1_def role_wf_def guard_def)
      show "reads_wf core1" using wf by (simp add: core1_def core_wf_def reads_wf_def tr_read_total_count_def)
      show "progress_wf core" if "c_role core1 = TR_RAFT_LEADER" using that True by (simp add: core1_def guard_def)
    qed
    have max: "c_term core \<noteq> UINT64_MAX" using True by (simp add: guard_def)
    have pre: "c_self_is_voter core1" "c_role core1 \<noteq> TR_RAFT_LEADER" "c_term core1 < c_campaign_term core1"
      "log_room (c_log core1) 1"
      using True room unat_plus_1 [OF max] by (simp_all add: core1_def guard_def u64_less_unat)
    have el: "tr_start_election core1 rd = (core', rd')" using eq eq1 True by simp
    have "tr_unpaused_remote_voter_count core1 = tr_unpaused_remote_voter_count core"
      by (rule count_frame) (simp_all add: core1_def)
    moreover have "core_extends core core1" "same_apply core core1"
      by (simp_all add: core1_def core_extends_def same_apply_def)
    ultimately show ?thesis
      using start_election_handled [OF wf1 pre(1-4) rd el] handled_trans [of core core1 rd rd core' rd'] True by simp
  qed
  then show "handled core rd core' rd'"
    "guard \<Longrightarrow> tr_unpaused_remote_voter_count core \<le> r_message_capacity rd \<Longrightarrow> fits rd'"
    "\<not> guard \<Longrightarrow> fits rd'" by blast+
qed

section \<open>Read handlers\<close>

lemma message_ok_reads:
  assumes "c_self_id core' = c_self_id core" and "c_term core' = c_term core" and "c_voted_for core' = c_voted_for core"
    and "c_log core' = c_log core" and "c_commit_index core' = c_commit_index core"
  shows "message_ok core' m = message_ok core m"
  using assms by (simp add: message_ok_def replication_ok_def)

lemma read_update_wf:
  assumes wf: "core_wf core" and data: "same_data core core'" and role: "c_role core' = c_role core"
    and same: "c_term core' = c_term core" "c_voted_for core' = c_voted_for core" "c_campaign_term core' = c_campaign_term core"
    and reads: "reads_wf core'"
  shows "core_wf core'"
proof (rule same_data_wf [OF wf data _ reads])
  show "role_wf core'" using wf data role same by (simp add: core_wf_def role_wf_def same_data_def)
  show "progress_wf core" if "c_role core' = TR_RAFT_LEADER" using that role wf by (simp add: core_wf_def)
qed

lemma read_emit_active_frame:
  "fst (tr_read_emit_active core rd) = tr_read_clear_active core"
  "r_messages (snd (tr_read_emit_active core rd)) = r_messages rd"
  "ready_frame (snd (tr_read_emit_active core rd)) = ready_frame rd"
  "r_read_states (snd (tr_read_emit_active core rd)) =
     map (\<lambda>c. \<lparr>rs_context_id = c, rs_index = c_pending_read_index core\<rparr>) (c_pending_read_contexts core)"
  by (simp_all add: tr_read_emit_active_def Let_def)

text \<open>Starting the barrier for the active reads: the caller hands over contexts that satisfy the
  invariant once the barrier index is set to the commit index.\<close>

lemma start_barrier_handled:
  assumes wf: "core_wf (core\<lparr>c_pending_read_index := c_commit_index core\<rparr>)"
    and rd: "r_messages rd = []" "ready_ok core rd"
    and eq: "tr_read_start_active_barrier core rd = (core', rd')"
  shows "handled core rd core' rd'"
    and "tr_unpaused_remote_voter_count core \<le> r_message_capacity rd \<Longrightarrow> fits rd'"
proof -
  define core1 where "core1 = core\<lparr>c_pending_read_context_id :=
        (case c_pending_read_contexts core of [] \<Rightarrow> 0 | c # cs \<Rightarrow> c),
      c_pending_read_index := c_commit_index core,
      c_pending_read_acks := u32_shl1 (tr_voter_index core (c_self_id core))\<rparr>"
  let ?core0 = "core\<lparr>c_pending_read_index := c_commit_index core\<rparr>"
  have wf1: "core_wf core1"
    by (rule read_update_wf [OF wf])
       (use wf in \<open>simp_all add: core1_def same_data_def core_wf_def reads_wf_def tr_read_total_count_def\<close>)
  have ext: "core_extends core core1" "same_apply core core1"
    by (simp_all add: core1_def core_extends_def same_apply_def)
  have rd1: "ready_ok core1 rd"
    using rd(2) by (simp add: ready_ok_def core1_def) (simp add: rd(1))
  have both: "handled core1 rd core' rd'
      \<and> (tr_unpaused_remote_voter_count core \<le> r_message_capacity rd \<longrightarrow> fits rd')"
  proof (cases "tr_core_has_quorum core1 (c_pending_read_acks core1)")
    case True
    define core2 where "core2 = tr_read_clear_active core1"
    have emit: "tr_read_emit_active core1 rd = (core', rd')"
      using eq True by (simp add: tr_read_start_active_barrier_def core1_def Let_def)
    have res: "core' = core2" "r_messages rd' = []" "ready_frame rd' = ready_frame rd"
      "\<forall>r \<in> set (r_read_states rd'). rs_index r = c_commit_index core"
      using read_emit_active_frame [of core1 rd] rd(1) unfolding emit
      by (auto simp: core2_def core1_def)
    have wf2: "core_wf core2"
      by (rule read_update_wf [OF wf1])
         (use wf1 in \<open>auto simp: core2_def tr_read_clear_active_def same_data_def core_wf_def reads_wf_def
            tr_read_total_count_def\<close>)
    have "ready_ok core2 rd'"
      using res(2,4) by (simp add: ready_ok_def core2_def tr_read_clear_active_def core1_def)
    moreover have "core_extends core1 core2" "same_apply core1 core2"
      by (simp_all add: core2_def tr_read_clear_active_def core_extends_def same_apply_def)
    ultimately show ?thesis
      using wf2 res(2,3) unfolding res(1) by (simp add: handled_def fits_def)
  next
    case False
    have res: "core' = core1" "rd' = tr_broadcast_read_index core1 rd (c_pending_read_context_id core1)"
      using eq False by (auto simp: tr_read_start_active_barrier_def core1_def Let_def)
    have mem: "membership_wf core1" using wf1 by (simp add: core_wf_def)
    have count: "tr_unpaused_remote_voter_count core1 = tr_unpaused_remote_voter_count core"
      by (rule count_frame) (simp_all add: core1_def)
    from emits_ready [OF broadcast_read_index_emits [OF mem] rd1] show ?thesis
      using wf1 rd(1) by (simp add: handled_def res count)
  qed
  then show "handled core rd core' rd'" using handled_trans [OF ext] by blast
  from both show "tr_unpaused_remote_voter_count core \<le> r_message_capacity rd \<Longrightarrow> fits rd'" by blast
qed

text \<open>Moving the waiting reads to an empty active set.\<close>

lemma move_waiting_wf:
  assumes wf: "core_wf core" and empty: "c_pending_read_contexts core = []"
  defines "core1 \<equiv> tr_read_move_waiting_to_active core"
  shows "core_wf (core1\<lparr>c_pending_read_index := c_commit_index core1\<rparr>)"
    and "core_extends core core1" and "same_apply core core1"
    and "tr_unpaused_remote_voter_count core1 = tr_unpaused_remote_voter_count core"
    and "ready_ok core rd \<Longrightarrow> ready_ok core1 rd"
proof -
  show "core_wf (core1\<lparr>c_pending_read_index := c_commit_index core1\<rparr>)"
    by (rule read_update_wf [OF wf])
       (use wf empty in \<open>simp_all add: core1_def tr_read_move_waiting_to_active_def same_data_def core_wf_def
          reads_wf_def tr_read_total_count_def\<close>)
  show "core_extends core core1" "same_apply core core1"
    by (simp_all add: core1_def tr_read_move_waiting_to_active_def core_extends_def same_apply_def)
  show "tr_unpaused_remote_voter_count core1 = tr_unpaused_remote_voter_count core"
    by (rule count_frame) (simp_all add: core1_def tr_read_move_waiting_to_active_def)
  show "ready_ok core rd \<Longrightarrow> ready_ok core1 rd"
    using message_ok_reads [of core1 core]
    by (simp add: ready_ok_def core1_def tr_read_move_waiting_to_active_def)
qed

lemma move_barrier_handled:
  assumes wf: "core_wf core" and empty: "c_pending_read_contexts core = []"
    and rd: "r_messages rd = []" "ready_ok core rd"
    and eq: "tr_read_start_active_barrier (tr_read_move_waiting_to_active core) rd = (core', rd')"
  shows "handled core rd core' rd'"
    and "tr_unpaused_remote_voter_count core \<le> r_message_capacity rd \<Longrightarrow> fits rd'"
proof -
  note move = move_waiting_wf [OF wf empty]
  note start = start_barrier_handled [OF move(1) rd(1) move(5) [OF rd(2)] eq]
  from start(1) show "handled core rd core' rd'" using handled_trans [OF move(2,3)] by blast
  from start(2) show "tr_unpaused_remote_voter_count core \<le> r_message_capacity rd \<Longrightarrow> fits rd'" by (simp add: move(4))
qed

lemma read_index_request_handled:
  assumes wf: "core_wf core" and rd: "fresh rd" and eq: "tr_step_read_index_request core m rd = (core', rd')"
  shows "handled core rd core' rd'"
    and "(if tr_peer_paused core (m_from m) then 0 else 1) \<le> r_message_capacity rd \<Longrightarrow> fits rd'"
    and "\<not> (c_self_is_voter core \<and> m_context_id m \<noteq> 0 \<and> c_role core = TR_RAFT_FOLLOWER
         \<and> m_term m = c_term core \<and> c_leader_id core = m_from m) \<Longrightarrow> fits rd'"
proof -
  define guard where "guard \<longleftrightarrow> c_self_is_voter core \<and> m_context_id m \<noteq> 0 \<and> c_role core = TR_RAFT_FOLLOWER
         \<and> m_term m = c_term core \<and> c_leader_id core = m_from m"
  obtain b rd1 where emit: "tr_emit core rd TR_RAFT_MSG_READ_INDEX_RESPONSE (m_from m) False = (b, rd1)" by fastforce
  have "tr_step_read_index_request core m rd = (core, if guard then if b
      then update_last_message (\<lambda>x. x\<lparr>m_context_id := m_context_id m\<rparr>) rd1 else rd1 else rd)"
    unfolding tr_step_read_index_request_def emit by (cases b) (simp_all add: guard_def)
  then have eq1: "core' = core" "rd' = (if guard then if b
      then update_last_message (\<lambda>x. x\<lparr>m_context_id := m_context_id m\<rparr>) rd1 else rd1 else rd)"
    using eq by simp_all
  note em = tr_emit_emits [OF _ emit, simplified]
  have "emits core rd (if b then update_last_message (\<lambda>x. x\<lparr>m_context_id := m_context_id m\<rparr>) rd1 else rd1)
      (if tr_peer_paused core (m_from m) then 0 else 1)"
  proof (cases b)
    case True
    with emit obtain x where "r_messages rd1 = r_messages rd @ [x]" by (auto simp: tr_emit_def split: if_splits)
    from update_last_emits [OF em(1) this, of "\<lambda>x. x\<lparr>m_context_id := m_context_id m\<rparr>"] True
    show ?thesis by simp
  qed (use em in simp)
  then have "handled core rd core' rd' \<and>
      ((if tr_peer_paused core (m_from m) then 0 else 1) \<le> r_message_capacity rd \<longrightarrow> fits rd')
      \<and> (\<not> guard \<longrightarrow> fits rd')"
    using wf emits_ready [OF _ fresh_ready_ok [OF rd]] rd fresh_fits [OF rd] handled_unchanged [OF wf rd]
    by (cases guard) (simp_all add: eq1 handled_def fresh_def)
  then show "handled core rd core' rd'"
    and "(if tr_peer_paused core (m_from m) then 0 else 1) \<le> r_message_capacity rd \<Longrightarrow> fits rd'"
    and "\<not> (c_self_is_voter core \<and> m_context_id m \<noteq> 0 \<and> c_role core = TR_RAFT_FOLLOWER
         \<and> m_term m = c_term core \<and> c_leader_id core = m_from m) \<Longrightarrow> fits rd'"
    unfolding guard_def by blast+
qed

lemma read_index_response_handled:
  assumes wf: "core_wf core" and rd: "fresh rd" and eq: "tr_step_read_index_response core m rd vi = (core', rd')"
  shows "handled core rd core' rd'" and "fits rd'"
proof -
  define core1 where "core1 = core\<lparr>c_pending_read_acks := c_pending_read_acks core OR u32_shl1 vi\<rparr>"
  define guard where "guard \<longleftrightarrow> c_role core = TR_RAFT_LEADER \<and> m_term m = c_term core \<and> m_context_id m \<noteq> 0
      \<and> m_context_id m = c_pending_read_context_id core \<and> c_pending_read_contexts core \<noteq> []
      \<and> c_pending_read_acks core AND u32_shl1 vi = 0"
  define core2 where "core2 = tr_read_clear_active core1"
  define rd2 where "rd2 = snd (tr_read_emit_active core1 rd)"
  define more where "more \<longleftrightarrow> c_waiting_read_contexts core2 \<noteq> []
      \<and> tr_unpaused_remote_voter_count core1 \<le> r_message_capacity rd2 - length (r_messages rd2)"
  note emit = read_emit_active_frame [of core1 rd]
  have pair: "tr_read_emit_active core1 rd = (core2, rd2)"
    by (simp add: core2_def rd2_def emit(1) [symmetric])
  have eq1: "tr_step_read_index_response core m rd vi =
      (if m_term m > c_term core then (tr_become_follower core (m_term m), rd)
       else if \<not> guard then (core, rd)
       else if tr_core_has_quorum core1 (c_pending_read_acks core1)
       then if more then tr_read_start_active_barrier (tr_read_move_waiting_to_active core2) rd2 else (core2, rd2)
       else (core1, rd))"
    unfolding tr_step_read_index_response_def Let_def core1_def [symmetric] pair more_def guard_def
    by (simp add: core1_def)
  have wf1: "core_wf core1" using wf by (simp add: core1_def core_frame)
  have ext1: "core_extends core core1" "same_apply core core1"
    by (simp_all add: core1_def core_extends_def same_apply_def)
  have wf2: "core_wf core2"
    by (rule read_update_wf [OF wf1])
       (use wf1 in \<open>auto simp: core2_def tr_read_clear_active_def same_data_def core_wf_def reads_wf_def
          tr_read_total_count_def\<close>)
  have ext2: "core_extends core core2" "same_apply core core2"
    using ext1 by (simp_all add: core2_def tr_read_clear_active_def core_extends_def same_apply_def)
  have cap2: "ready_frame rd2 = ready_frame rd" "r_messages rd2 = []"
    using rd by (simp_all add: rd2_def emit fresh_def)
  have "\<forall>r \<in> set (r_read_states rd2). rs_index r = c_pending_read_index core"
    unfolding rd2_def emit(4) by (simp add: core1_def)
  moreover have "c_pending_read_index core \<le> c_commit_index core2" if guard
    using that wf by (simp add: guard_def core_wf_def reads_wf_def core2_def tr_read_clear_active_def core1_def)
  ultimately have ok2: "ready_ok core2 rd2" if guard
    using that cap2(2) by (simp add: ready_ok_def)
  consider (higher) "core' = tr_become_follower core (m_term m)" "rd' = rd"
    | (same) "core' = core" "rd' = rd" | (count) "core' = core1" "rd' = rd"
    | (answered) "core' = core2" "rd' = rd2" guard
    | (again) "tr_read_start_active_barrier (tr_read_move_waiting_to_active core2) rd2 = (core', rd')" guard more
    using eq unfolding eq1
    by (cases "m_term m > c_term core"; cases guard;
        cases "tr_core_has_quorum core1 (c_pending_read_acks core1)"; cases more) simp_all
  then have "handled core rd core' rd' \<and> fits rd'"
  proof cases
    case higher
    then show ?thesis using handled_follower [OF wf rd] fresh_fits [OF rd] by simp
  next
    case same
    then show ?thesis using handled_unchanged [OF wf rd] fresh_fits [OF rd] by simp
  next
    case count
    then show ?thesis using wf1 rd fresh_fits [OF rd] ext1 by (simp add: handled_def)
  next
    case answered
    then show ?thesis using wf2 ext2 cap2 ok2 by (simp add: handled_def fits_def)
  next
    case again
    have empty: "c_pending_read_contexts core2 = []" by (simp add: core2_def tr_read_clear_active_def)
    note bar = move_barrier_handled [OF wf2 empty cap2(2) ok2 [OF again(2)] again(1)]
    have count: "tr_unpaused_remote_voter_count core2 = tr_unpaused_remote_voter_count core1"
      by (rule count_frame) (simp_all add: core2_def tr_read_clear_active_def)
    have "fits rd'" using bar(2) again(3) by (simp add: count more_def cap2)
    with handled_trans [OF ext2 cap2(1) bar(1)] show ?thesis by simp
  qed
  then show "handled core rd core' rd'" "fits rd'" by blast+
qed

end
