(* ===== verification/Raft_Core_Append.thy ===== *)
theory Raft_Core_Append
  imports Raft_Core_Handlers
begin

text \<open>
  The handlers that change the log keep the invariant of the core: the append and heartbeat request
  of a follower, the append of a configuration by a leader, and the responses a leader receives.
\<close>

section \<open>Rebuilding the staged configurations\<close>

lemma index_range_mem: "i \<in> set (index_range a b) \<longleftrightarrow> a < i \<and> i \<le> b"
proof
  assume "i \<in> set (index_range a b)"
  then obtain n where n: "i = of_nat n" "Suc (unat a) \<le> n" "n \<le> unat b"
    by (auto simp: index_range_def)
  then have "unat i = n" using unat_u64_less [of b] unat_plus_nat [of 0 n] by simp
  with n show "a < i \<and> i \<le> b" by (simp add: u64_less_unat u64_le_unat)
next
  assume "a < i \<and> i \<le> b"
  then have "Suc (unat a) \<le> unat i \<and> unat i < Suc (unat b)" by (simp add: u64_less_unat u64_le_unat)
  then have "unat i \<in> set [Suc (unat a)..<Suc (unat b)]" by (simp only: set_upt atLeastLessThan_iff)
  then show "i \<in> set (index_range a b)" unfolding index_range_def set_map by (intro image_eqI [of _ _ "unat i"]) simp_all
qed

lemma stage_entry_facts:
  assumes "transition_wf t" and "tr_raft_membership_transition_stage_entry t e = (s, t')"
  shows "transition_wf t'" and "tr_committed t' = tr_committed t"
    and "\<forall>p \<in> set (tr_pending t'). p \<in> set (tr_pending t) \<or> snd p = e_index e"
    and "s \<noteq> C_FAULT"
proof -
  show "transition_wf t'" by (rule transition_stage_entry_wf [OF assms])
  have "tr_committed t' = tr_committed t \<and> (\<forall>p \<in> set (tr_pending t'). p \<in> set (tr_pending t) \<or> snd p = e_index e)
      \<and> s \<noteq> C_FAULT"
  proof (cases "tr_raft_conf_entry_decode e")
    case (Inl a)
    then have "a \<noteq> C_FAULT"
      by (auto simp: tr_raft_conf_entry_decode_def tr_raft_conf_decode_def Let_def split: if_splits sum.splits)
    with Inl assms(2) show ?thesis by (auto simp: tr_raft_membership_transition_stage_entry_def)
  next
    case (Inr c)
    then have "tr_raft_membership_transition_stage t c (e_index e) = (s, t')"
      using assms(2) by (simp add: tr_raft_membership_transition_stage_entry_def)
    with assms(1) show ?thesis by (cases rule: transition_stage_cases) auto
  qed
  then show "tr_committed t' = tr_committed t" "\<forall>p \<in> set (tr_pending t'). p \<in> set (tr_pending t) \<or> snd p = e_index e"
    "s \<noteq> C_FAULT" by blast+
qed

lemma stage_log_entries_facts:
  assumes "log_wf l" and "transition_wf t" and "stage_log_entries l t is = (s, t')"
  shows "transition_wf t' \<and> tr_committed t' = tr_committed t
    \<and> (\<forall>p \<in> set (tr_pending t'). p \<in> set (tr_pending t) \<or> snd p \<in> set is) \<and> s \<noteq> C_FAULT"
  using assms
proof (induction l t "is" rule: stage_log_entries.induct)
  case (2 l t i "is")
  show ?case
  proof (cases "tr_raft_log_get l i")
    case None
    with 2(1) [OF None 2(4,5)] 2(6) show ?thesis by auto
  next
    case (Some e)
    note index = log_get_Some(1) [OF 2(4) Some]
    show ?thesis
    proof (cases "tr_raft_conf_entry_is_configuration e")
      case False
      with 2(2) [OF Some _ 2(4,5)] 2(6) Some show ?thesis by auto
    next
      case True
      obtain s1 t1 where stage: "tr_raft_membership_transition_stage_entry t e = (s1, t1)" by fastforce
      note facts = stage_entry_facts [OF 2(5) stage]
      show ?thesis
      proof (cases "s1 = SALTS_OK")
        case False
        with 2(6) Some True stage facts index show ?thesis by auto
      next
        case ok: True
        have rest: "stage_log_entries l t1 is = (s, t')" using 2(6) Some True stage ok by simp
        from 2(3) [OF Some _ stage [symmetric] _ 2(4) facts(1) rest] True ok facts index show ?thesis by auto
      qed
    qed
  qed
qed simp

lemma stage_incoming_facts:
  assumes "transition_wf t" and "stage_incoming ci t es = (s, t')"
  shows "transition_wf t' \<and> tr_committed t' = tr_committed t
    \<and> (\<forall>p \<in> set (tr_pending t'). p \<in> set (tr_pending t) \<or> (ci < snd p \<and> snd p \<in> e_index ` set es)) \<and> s \<noteq> C_FAULT"
  using assms
proof (induction ci t es rule: stage_incoming.induct)
  case (2 ci t e es)
  show ?case
  proof (cases "e_index e \<le> ci \<or> \<not> tr_raft_conf_entry_is_configuration e")
    case True
    with 2(1) [OF True 2(3)] 2(4) show ?thesis by auto
  next
    case False
    obtain s1 t1 where stage: "tr_raft_membership_transition_stage_entry t e = (s1, t1)" by fastforce
    note facts = stage_entry_facts [OF 2(3) stage]
    show ?thesis
    proof (cases "s1 = SALTS_OK")
      case bad: False
      with 2(4) False stage facts show ?thesis by (auto simp: not_le)
    next
      case ok: True
      have rest: "stage_incoming ci t1 es = (s, t')" using 2(4) False stage ok by simp
      from 2(2) [OF False stage [symmetric] _ facts(1) rest] ok facts False show ?thesis by (auto simp: not_le)
    qed
  qed
qed simp

lemma rebuild_facts:
  assumes wf: "core_wf core" and eq: "tr_core_rebuild_pending_transition core retained es = (s, t)"
  shows "transition_wf t" and "tr_committed t = tr_committed (c_transition core)" and "s \<noteq> C_FAULT"
    and "\<forall>p \<in> set (tr_pending t). c_commit_index core < snd p
      \<and> (snd p \<le> retained \<and> snd p \<le> tr_raft_log_last_index (c_log core) \<or> snd p \<in> e_index ` set es)"
proof -
  define t0 where "t0 = (c_transition core)\<lparr>tr_pending := []\<rparr>"
  define upto where "upto = (if retained \<le> tr_raft_log_last_index (c_log core) then retained
      else tr_raft_log_last_index (c_log core))"
  have l: "log_wf (c_log core)" using wf by (simp add: core_wf_def)
  have "t0 = \<lparr>tr_committed = tr_committed (c_transition core), tr_pending = []\<rparr>"
    by (cases "c_transition core") (simp add: t0_def)
  then have t0: "transition_wf t0"
    using wf transition_wf_stable by (simp add: core_wf_def membership_wf_def transition_wf_def)
  obtain s1 t1 where stage: "stage_log_entries (c_log core) t0 (index_range (c_commit_index core) upto) = (s1, t1)"
    by fastforce
  note facts1 = stage_log_entries_facts [OF l t0 stage]
  have res: "if s1 \<noteq> SALTS_OK then s = s1 \<and> t = t1 else stage_incoming (c_commit_index core) t1 es = (s, t)"
    using eq stage by (auto simp: tr_core_rebuild_pending_transition_def Let_def t0_def upto_def)
  have below: "c_commit_index core < snd p \<and> snd p \<le> retained \<and> snd p \<le> tr_raft_log_last_index (c_log core)"
    if "p \<in> set (tr_pending t1)" for p
  proof -
    have "snd p \<in> set (index_range (c_commit_index core) upto)" using facts1 that by (auto simp: t0_def)
    then show ?thesis by (auto simp: index_range_mem upto_def split: if_splits)
  qed
  have "transition_wf t \<and> tr_committed t = tr_committed (c_transition core) \<and> s \<noteq> C_FAULT
    \<and> (\<forall>p \<in> set (tr_pending t). c_commit_index core < snd p
      \<and> (snd p \<le> retained \<and> snd p \<le> tr_raft_log_last_index (c_log core) \<or> snd p \<in> e_index ` set es))"
  proof (cases "s1 = SALTS_OK")
    case False
    with res facts1 below show ?thesis by (simp add: t0_def)
  next
    case True
    with res have inc: "stage_incoming (c_commit_index core) t1 es = (s, t)" by simp
    from facts1 have "transition_wf t1" by simp
    from stage_incoming_facts [OF this inc] facts1 below show ?thesis by (auto simp: t0_def)
  qed
  then show "transition_wf t" "tr_committed t = tr_committed (c_transition core)" "s \<noteq> C_FAULT"
    "\<forall>p \<in> set (tr_pending t). c_commit_index core < snd p
      \<and> (snd p \<le> retained \<and> snd p \<le> tr_raft_log_last_index (c_log core) \<or> snd p \<in> e_index ` set es)" by blast+
qed

section \<open>Append and heartbeat requests\<close>

lemma log_room_mono: "log_room l n \<Longrightarrow> k \<le> n \<Longrightarrow> log_room l k"
  by (simp add: log_room_def)

text \<open>A reconciled log leaves room, and every new entry lies inside it.\<close>

lemma reconcile_bounds:
  assumes l: "log_wf l" "log_vec_ok V l" and inc: "incoming_ok prev es" and len: "length es \<le> 8"
    and room: "log_room l 9" and eq: "tr_raft_log_reconcile V l prev trm es prot = (SALTS_OK, l', r)"
  shows "log_room l' 1" and "\<not> rr_matched r \<Longrightarrow> l' = l" and "rr_matched r \<Longrightarrow> tr_raft_log_matches l prev trm"
    and "rr_matched r \<Longrightarrow> e \<in> set es \<Longrightarrow> e_index e \<le> tr_raft_log_last_index l'"
    and "rr_matched r \<Longrightarrow> prev \<le> tr_raft_log_last_index l'"
proof -
  have room1: "log_room l 1" by (rule log_room_mono [OF room]) simp
  note agree = reconcile_agreement [OF l inc room1 eq]
  have same: "l' = l" if "\<not> rr_matched r"
    using that
    by (cases rule: reconcile_cases [OF l inc room1 eq, case_names error unmatched unchanged changed])
       (simp_all add: reconcile_zero_def)
  show "\<not> rr_matched r \<Longrightarrow> l' = l" "rr_matched r \<Longrightarrow> tr_raft_log_matches l prev trm"
    using same agree(1) by blast+
  show "log_room l' 1"
  proof (cases "rr_matched r \<and> rr_changed r")
    case True
    have "prev \<le> tr_raft_log_last_index l" using log_matches_range(4) [OF l(1)] agree(1) True by blast
    with agree(5) True room len show ?thesis by (simp add: log_room_def u64_le_unat)
  next
    case False
    with same agree(6) have "l' = l" by blast
    with room1 show ?thesis by simp
  qed
  show "prev \<le> tr_raft_log_last_index l'" if "rr_matched r"
    using agree(4) [OF that] by (simp add: u64_le_unat)
  show "e_index e \<le> tr_raft_log_last_index l'" if m: "rr_matched r" and e: "e \<in> set es"
  proof -
    from e obtain k where k: "k < length es" "e = es ! k" by (auto simp: in_set_conv_nth)
    then have "e_index e = prev + of_nat (Suc k)" using inc by (simp add: incoming_ok_def entries_at_def)
    moreover have "unat (prev + of_nat (Suc k)) = unat prev + Suc k"
      using agree(4) [OF m] k(1) unat_u64_less [of "tr_raft_log_last_index l'"] by (intro unat_plus_nat) simp
    ultimately show ?thesis using agree(4) [OF m] k(1) by (simp add: u64_le_unat)
  qed
qed

text \<open>The state of a follower that took over the log and the membership of a leader.\<close>

definition follow_state :: "raft_core \<Rightarrow> raft_log \<Rightarrow> message \<Rightarrow> raft_core" where
  "follow_state core l m =
     (tr_become_follower (core\<lparr>c_log := l\<rparr>) (m_term m))\<lparr>c_leader_id := m_from m, c_election_elapsed_ticks := 0\<rparr>"

lemma follow_state_frame [simp]:
  "c_log (follow_state core l m) = l" "c_transition (follow_state core l m) = c_transition core"
  "c_peers (follow_state core l m) = c_peers core" "c_self_is_voter (follow_state core l m) = c_self_is_voter core"
  "c_self_id (follow_state core l m) = c_self_id core" "c_role (follow_state core l m) = TR_RAFT_FOLLOWER"
  "c_term (follow_state core l m) = max (c_term core) (m_term m)"
  "c_voted_for (follow_state core l m) = (if c_term core < m_term m then 0 else c_voted_for core)"
  "c_commit_index (follow_state core l m) = c_commit_index core"
  "c_applied_index (follow_state core l m) = c_applied_index core"
  "c_apply_admitted_index (follow_state core l m) = c_apply_admitted_index core"
  "c_pending_apply_index (follow_state core l m) = c_pending_apply_index core"
  "c_max_pending_reads (follow_state core l m) = c_max_pending_reads core"
  "c_in_call (follow_state core l m) = c_in_call core"
  "c_ready_outstanding (follow_state core l m) = c_ready_outstanding core"
  "c_pending_read_contexts (follow_state core l m) = []" "c_waiting_read_contexts (follow_state core l m) = []"
  by (simp_all add: follow_state_def)

lemma follow_state_parts:
  assumes wf: "core_wf core" and l: "log_wf l" "log_base_index l = log_base_index (c_log core)"
    "c_commit_index core \<le> tr_raft_log_last_index l" "log_keeps (c_commit_index core) (c_log core) l"
  shows "index_order (follow_state core l m)" and "tables_wf (follow_state core l m)"
    and "reads_wf (follow_state core l m)" and "role_wf (follow_state core l m)"
    and "core_extends core (follow_state core l m)" and "same_apply core (follow_state core l m)"
proof -
  show "index_order (follow_state core l m)" using wf l by (simp add: core_wf_def index_order_def)
  have "tables_wf (core\<lparr>c_log := l\<rparr>)" using wf by (simp add: core_wf_def tables_wf_def)
  from become_follower_parts(1) [OF this] show "tables_wf (follow_state core l m)"
    by (simp add: follow_state_def tables_wf_def)
  show "reads_wf (follow_state core l m)"
    using wf by (simp add: core_wf_def reads_wf_def tr_read_total_count_def)
  show "role_wf (follow_state core l m)" by (simp add: role_wf_def)
  show "core_extends core (follow_state core l m)"
    using l(4) by (auto simp: core_extends_def)
  show "same_apply core (follow_state core l m)" by (simp add: same_apply_def)
qed

lemma follow_membership:
  assumes wf: "core_wf core" and vec: "log_vec_ok V (c_log core)" and room: "log_room (c_log core) 9"
    and inc: "incoming_ok (m_previous_log_index m) (m_entries m)" "length (m_entries m) \<le> 8"
    and reb: "(if tr_raft_log_matches (c_log core) (m_previous_log_index m) (m_previous_log_term m)
               then tr_core_rebuild_pending_transition core (m_previous_log_index m) (m_entries m)
               else (SALTS_OK, c_transition core)) = (SALTS_OK, t)"
    and rec: "tr_raft_log_reconcile V (c_log core) (m_previous_log_index m) (m_previous_log_term m) (m_entries m)
                (c_commit_index core) = (SALTS_OK, l, r)"
  obtains core3 where "heartbeat_membership (follow_state core l m) t (rr_matched r) = (SALTS_OK, core3)"
    and "core_wf core3" and "core_extends core core3" and "same_apply core core3"
    and "c_role core3 = TR_RAFT_FOLLOWER" and "c_log core3 = l" and "log_room l 1"
    and "c_term core3 = max (c_term core) (m_term m)" and "c_commit_index core3 = c_commit_index core"
    and "rr_matched r \<Longrightarrow> c_transition core3 = t"
proof -
  have lw: "log_wf (c_log core)" and ci: "c_commit_index core \<le> tr_raft_log_last_index (c_log core)"
    and mem: "membership_wf core"
    using wf by (auto simp: core_wf_def index_order_def)
  have room1: "log_room (c_log core) 1" by (rule log_room_mono [OF room]) simp
  note rw = reconcile_wf [OF lw vec inc(1) room1 rec]
  note rb = reconcile_bounds [OF lw vec inc room rec]
  note parts = follow_state_parts [OF wf rw(1,4) rw(8) [OF ci] rw(7) [OF ci], of m]
  show thesis
  proof (cases "rr_matched r")
    case False
    have "l = c_log core" by (rule rb(2) [OF False])
    then have "membership_wf (follow_state core l m)"
      using mem by (simp add: membership_wf_def tr_core_membership_def)
    then have "core_wf (follow_state core l m)" using parts rw(1) by (simp add: core_wf_def)
    then show thesis
      using False parts rb(1)
      by (intro that [of "follow_state core l m"]) (simp_all add: heartbeat_membership_def)
  next
    case True
    then have "tr_core_rebuild_pending_transition core (m_previous_log_index m) (m_entries m) = (SALTS_OK, t)"
      using reb rb(3) by simp
    note t = rebuild_facts [OF wf this]
    from build_peer_set_wf [OF t(1)] obtain ps where ps: "tr_core_build_peer_set t = Inr ps" by blast
    define core2 where "core2 = (follow_state core l m)\<lparr>c_transition := t\<rparr>"
    define core3 where "core3 = tr_core_refresh_peers core2 ps"
    have eq: "heartbeat_membership (follow_state core l m) t (rr_matched r) = (SALTS_OK, core3)"
      using True ps by (simp add: heartbeat_membership_def core2_def core3_def)
    have pending: "\<forall>p \<in> set (tr_pending t). c_commit_index core < snd p \<and> snd p \<le> tr_raft_log_last_index l"
      using t(4) rb(4,5) [OF True] by (fastforce intro: order_trans)
    have "membership_wf core3"
      using mem t(1,2) ps pending
      by (simp add: membership_wf_def core3_def core2_def tr_core_membership_def
          tr_raft_membership_transition_committed_def)
    moreover have "tables_wf core3"
      using parts(2) refresh_peers_tables [of core2 ps] by (simp add: core3_def) (simp add: core2_def tables_wf_def)
    moreover have "index_order core3" "role_wf core3" "reads_wf core3"
      using parts(1,3) by (simp_all add: core3_def core2_def index_order_def role_wf_def reads_wf_def tr_read_total_count_def)
    moreover have "log_wf (c_log core3)" "c_role core3 = TR_RAFT_FOLLOWER"
      using rw(1) by (simp_all add: core3_def core2_def)
    ultimately have "core_wf core3" by (simp add: core_wf_def)
    moreover have "core_extends core core3" "same_apply core core3"
      using parts(5,6) by (simp_all add: core3_def core2_def core_extends_def same_apply_def)
    ultimately show thesis
      using eq rb(1) by (intro that [of core3]) (simp_all add: core3_def core2_def)
  qed
qed

lemma commit_limit_ge:
  "(\<forall>p \<in> set (tr_pending t). ci < snd p) \<Longrightarrow> ci \<le> i \<Longrightarrow> ci \<le> tr_raft_membership_transition_commit_limit t i"
  by (cases "tr_pending t") (auto simp: tr_raft_membership_transition_commit_limit_def)

lemma heartbeat_commit_wf:
  assumes wf: "core_wf core" and role: "c_role core = TR_RAFT_FOLLOWER" and room: "log_room (c_log core) 1"
  obtains core' where "heartbeat_commit core m matched = (SALTS_OK, core')" and "core_wf core'"
    and "core_same_log core core'" and "c_commit_index core \<le> c_commit_index core'"
    and "c_role core' = TR_RAFT_FOLLOWER"
proof (cases "matched \<and> m_leader_commit m > c_commit_index core")
  case False
  then have "heartbeat_commit core m matched = (SALTS_OK, core)" by (auto simp: heartbeat_commit_def)
  with wf role show thesis by (intro that) simp_all
next
  case True
  define candidate where "candidate = (if m_leader_commit m < tr_raft_log_last_index (c_log core)
      then m_leader_commit m else tr_raft_log_last_index (c_log core))"
  define ci where "ci = tr_raft_membership_transition_commit_limit (c_transition core) candidate"
  have "c_commit_index core \<le> tr_raft_log_last_index (c_log core)"
    and pending: "\<forall>p \<in> set (tr_pending (c_transition core)). c_commit_index core < snd p"
    using wf by (auto simp: core_wf_def index_order_def membership_wf_def)
  with True have cand: "c_commit_index core \<le> candidate" "candidate \<le> tr_raft_log_last_index (c_log core)"
    by (auto simp: candidate_def)
  have ci: "c_commit_index core \<le> ci" "ci \<le> tr_raft_log_last_index (c_log core)"
    using commit_limit_ge [OF pending cand(1)] commit_limit_le [of "c_transition core" candidate] cand(2)
    by (auto simp: ci_def)
  have r: "c_role core \<in> {TR_RAFT_FOLLOWER, TR_RAFT_LEADER}" using role by simp
  from commit_to_wf [OF wf room r ci] obtain core' where
    c: "tr_core_sync_membership (core\<lparr>c_commit_index := ci, c_transition :=
      tr_raft_membership_transition_apply (c_transition core) ci\<rparr>) = (SALTS_OK, core')"
    "core_wf core'" "core_same_log core core'" "c_commit_index core' = ci"
    "c_role core' = c_role core \<or> c_role core' = TR_RAFT_FOLLOWER" by metis
  have "heartbeat_commit core m matched = (SALTS_OK, core')"
    using True c(1) by (simp add: heartbeat_commit_def Let_def candidate_def ci_def)
  then show thesis using c ci(1) role by (intro that) simp_all
qed

lemma report_ready:
  assumes "fresh rd"
  shows "fresh (heartbeat_report core ci r rd)"
    and "ready_frame (heartbeat_report core ci r rd) = ready_frame rd"
  using assms by (simp_all add: heartbeat_report_def Let_def fresh_def)

lemma answer_ready:
  assumes rd: "fresh rd" and type: "rtype \<in> {TR_RAFT_MSG_APPEND_RESPONSE, TR_RAFT_MSG_HEARTBEAT_RESPONSE}"
  shows "ready_ok core (heartbeat_answer core m rtype r rd)"
    and "ready_frame (heartbeat_answer core m rtype r rd) = ready_frame rd"
    and "length (r_messages (heartbeat_answer core m rtype r rd)) \<le> 1"
  using assms
  by (auto simp: heartbeat_answer_def tr_emit_def ready_ok_def message_ok_def fresh_def update_last_message_def)

text \<open>The whole handler: an error leaves the state as it was, and success is a handled message.\<close>

lemma heartbeat_request_handled:
  assumes wf: "core_wf core" and vec: "log_vec_ok V (c_log core)" and room: "log_room (c_log core) 9"
    and rd: "fresh rd" and inc: "incoming_ok (m_previous_log_index m) (m_entries m)" "length (m_entries m) \<le> 8"
    and eq: "tr_step_heartbeat_request V core m rd = (s, core', rd')"
  shows "s \<noteq> SALTS_OK \<and> s \<noteq> C_FAULT \<and> core' = core
    \<or> s = SALTS_OK \<and> handled core rd core' rd' \<and> length (r_messages rd') \<le> 1"
proof -
  define rtype where "rtype = (if m_type m = TR_RAFT_MSG_APPEND_REQUEST
      then TR_RAFT_MSG_APPEND_RESPONSE else TR_RAFT_MSG_HEARTBEAT_RESPONSE)"
  have rtype: "rtype \<in> {TR_RAFT_MSG_APPEND_RESPONSE, TR_RAFT_MSG_HEARTBEAT_RESPONSE}" by (simp add: rtype_def)
  have room1: "log_room (c_log core) 1" by (rule log_room_mono [OF room]) simp
  have l: "log_wf (c_log core)" using wf by (simp add: core_wf_def)
  show ?thesis
  proof (cases "m_term m < c_term core")
    case True
    then have "s = SALTS_OK" "core' = core"
      "rd' = (case tr_emit core rd rtype (m_from m) False of
          (True, rd) \<Rightarrow> update_last_message (\<lambda>x. x\<lparr>m_reject_hint := tr_raft_log_last_index (c_log core) + 1\<rparr>) rd
        | (False, rd) \<Rightarrow> rd)"
      using eq by (auto simp: tr_step_heartbeat_request_def rtype_def Let_def split: prod.splits bool.splits)
    then show ?thesis
      using wf rd rtype
      by (auto simp: handled_def tr_emit_def ready_ok_def message_ok_def fresh_def update_last_message_def)
  next
    case False
    obtain s1 t where reb: "(if tr_raft_log_matches (c_log core) (m_previous_log_index m) (m_previous_log_term m)
               then tr_core_rebuild_pending_transition core (m_previous_log_index m) (m_entries m)
               else (SALTS_OK, c_transition core)) = (s1, t)" by fastforce
    obtain s2 l' r where rec: "tr_raft_log_reconcile V (c_log core) (m_previous_log_index m) (m_previous_log_term m)
        (m_entries m) (c_commit_index core) = (s2, l', r)" by (metis prod_cases3)
    note eq1 = eq [unfolded tr_step_heartbeat_request_def Let_def rtype_def [symmetric] if_not_P [OF False] reb
        rec prod.case follow_state_def [symmetric]]
    show ?thesis
    proof (cases "s1 = SALTS_OK")
      case bad: False
      have "s1 \<noteq> C_FAULT"
        using reb bad rebuild_facts(3) [OF wf] by (auto split: if_splits)
      with eq1 bad show ?thesis by auto
    next
      case ok1: True
      show ?thesis
      proof (cases "s2 = SALTS_OK")
        case bad: False
        with reconcile_wf(2,3) [OF l vec inc(1) room1 rec] have "l' = c_log core" "s2 \<noteq> C_FAULT" by auto
        with eq1 ok1 bad show ?thesis by auto
      next
        case ok2: True
        from follow_membership [OF wf vec room inc reb [unfolded ok1] rec [unfolded ok2]] obtain core3 where
          c3: "heartbeat_membership (follow_state core l' m) t (rr_matched r) = (SALTS_OK, core3)" "core_wf core3"
          "core_extends core core3" "same_apply core core3" "c_role core3 = TR_RAFT_FOLLOWER" "c_log core3 = l'"
          "log_room l' 1" by metis
        have "log_room (c_log core3) 1" using c3(6,7) by simp
        from heartbeat_commit_wf [OF c3(2,5) this] obtain core4 where
          c4: "heartbeat_commit core3 m (rr_matched r) = (SALTS_OK, core4)" "core_wf core4" "core_same_log core3 core4"
          "c_commit_index core3 \<le> c_commit_index core4" by metis
        have res: "s = SALTS_OK" "core' = core4"
          "rd' = heartbeat_answer core4 m rtype r (heartbeat_report core4 (c_commit_index core) r rd)"
          using eq1 c3(1) c4(1) ok1 ok2 by auto
        note rep = report_ready [OF rd, of core4 "c_commit_index core" r]
        note ans = answer_ready [OF rep(1) rtype, of core4 m r]
        have "handled core rd core4 rd'"
          using c4(2) core_extends_trans [OF c3(3) core_same_log_extends [OF c4(3,4)]]
            same_apply_trans [OF c3(4) core_same_log_apply [OF c4(3)]] ans rep(2)
          by (intro handledI) (simp_all add: res(3))
        then show ?thesis using res ans(3) by simp
      qed
    qed
  qed
qed

section \<open>Appending to the log of a leader\<close>

text \<open>Committing what a quorum stores, then sending the new entries.\<close>

lemma commit_broadcast_handled:
  assumes wf: "core_wf core" and role: "c_role core \<in> {TR_RAFT_FOLLOWER, TR_RAFT_LEADER}" and progress: "progress_wf core"
    and room: "log_room (c_log core) 1" and rd: "fresh rd"
    and commit: "tr_update_commit core rd = (s, core1, rd1)"
    and send: "tr_broadcast_replication core1 rd1 = (core2, rd2)"
  shows "s = SALTS_OK" and "handled core rd core2 rd2" and "fits rd2"
proof -
  have "s = SALTS_OK \<and> core_wf core1 \<and> core_same_log core core1 \<and> c_commit_index core \<le> c_commit_index core1
      \<and> progress_wf core1 \<and> fresh rd1 \<and> ready_frame rd1 = ready_frame rd"
    using wf room role
  proof (cases rule: update_commit_cases [where rd = rd])
    case kept
    with commit wf progress rd show ?thesis by simp
  next
    case (advanced j core')
    then show ?thesis using commit progress rd by (simp add: fresh_def)
  qed
  then have one: "s = SALTS_OK" "core_wf core1" "core_same_log core core1" "c_commit_index core \<le> c_commit_index core1"
    "progress_wf core1" "fresh rd1" "ready_frame rd1 = ready_frame rd" by blast+
  have room1: "log_room (c_log core1) 1" using one(3) room by (simp add: core_same_log_def)
  note step = bcast.op_step [OF one(2,5) room1 TrueI send]
  have "handled core1 rd1 core2 rd2" using replicates_handled [OF one(2) step(6)] one(6) by simp
  then show "handled core rd core2 rd2"
    using handled_trans [OF core_same_log_extends [OF one(3,4)] core_same_log_apply [OF one(3)] one(7)] by blast
  show "fits rd2" using replicates_ready_ok(3) [OF step(6)] one(6) fresh_fits by simp
  show "s = SALTS_OK" by (rule one(1))
qed

lemma log_append_facts:
  assumes "log_wf l" and "log_continues l es" and "log_room l (Suc (length es))"
  shows "log_wf (log_append l es)" and "log_keeps (tr_raft_log_last_index l) l (log_append l es)"
    and "tr_raft_log_last_index l \<le> tr_raft_log_last_index (log_append l es)"
    and "log_room (log_append l es) 1"
    and "unat (tr_raft_log_last_index (log_append l es)) = unat (tr_raft_log_last_index l) + length es"
proof -
  have room: "log_room l (length es)" by (rule log_room_mono [OF assms(3)]) simp
  show nat: "unat (tr_raft_log_last_index (log_append l es)) = unat (tr_raft_log_last_index l) + length es"
    using room unat_plus_nat [of "tr_raft_log_last_index l" "length es"] by (simp add: last_index_append log_room_def)
  show "log_wf (log_append l es)" by (rule log_wf_append [OF assms(1,2) room])
  show "log_keeps (tr_raft_log_last_index l) l (log_append l es)"
    using log_get_append_old [OF assms(1,2) room] by (auto simp: log_keeps_def log_append_def)
  show "tr_raft_log_last_index l \<le> tr_raft_log_last_index (log_append l es)" using nat by (simp add: u64_le_unat)
  show "log_room (log_append l es) 1" using nat assms(3) by (simp add: log_room_def)
qed

text \<open>The progress of a leader stays within a log that grows.\<close>

lemma progress_grow:
  assumes "progress_wf core" and "tr_raft_log_last_index (c_log core) \<le> tr_raft_log_last_index l"
  shows "progress_wf (core\<lparr>c_log := l\<rparr>)"
  unfolding progress_wf_def
proof (intro allI impI)
  fix i
  assume "i < tr_peer_count (core\<lparr>c_log := l\<rparr>)"
  then have b: "peer_bounds core i" using assms(1) by (simp add: progress_wf_def tr_peer_count_def)
  have "unat (tr_raft_log_last_index (c_log core)) \<le> unat (tr_raft_log_last_index l)"
    using assms(2) by (simp add: u64_le_unat)
  with b assms(2) show "peer_bounds (core\<lparr>c_log := l\<rparr>) i"
    unfolding peer_bounds_def
    by (auto simp: peer_next_def peer_match_def peer_window_def intro: order_trans)
qed

lemma self_progress_wf:
  fixes k :: int
  assumes wf: "core_wf core" and progress: "progress_wf core" and room: "log_room (c_log core) 1"
    and lst: "lst = tr_raft_log_last_index (c_log core)"
  defines "core' \<equiv> core\<lparr>c_match_index := arr_set (c_match_index core) k lst,
      c_next_index := arr_set (c_next_index core) k (lst + 1)\<rparr>"
  shows "core_wf core'" and "progress_wf core'"
proof -
  have tables: "tables_wf core" using wf by (simp add: core_wf_def)
  define w where "w = arr_get window_zero (c_append_windows core) k"
  have nat: "unat (lst + 1) = Suc (unat lst)" using unat_room_1 [OF room, of lst] lst by simp
  have eq: "core' = core\<lparr>c_append_windows := c_append_windows core, c_next_index := arr_set (c_next_index core) k (lst + 1),
      c_match_index := arr_set (c_match_index core) k lst\<rparr>"
    by (simp add: core'_def)
  have both: "tables_wf core' \<and> progress_wf core'"
  proof (cases "0 \<le> k \<and> nat k < tr_peer_count core")
    case True
    have "window_bounded lst w"
      using peer_window_bounded [OF tables progress, of "nat k"] True by (simp add: lst w_def peer_window_def)
    from set_peer_progress [OF tables progress this [unfolded lst], of "lst + 1" lst k] nat
    show ?thesis by (simp add: eq w_def arr_set_same u64_less_unat lst)
  next
    case False
    have get: "arr_get d (arr_set xs k v) (int i) = arr_get d xs (int i)" if "i < length (c_peers core)"
      for d :: 'x and xs v i
      using False that by (auto simp: arr_get_def arr_set_def nth_list_update tr_peer_count_def)
    from tables progress show ?thesis
      by (simp add: get core'_def tables_wf_def progress_wf_def peer_bounds_def peer_next_def peer_match_def
          peer_window_def tr_peer_count_def)
  qed
  then show "progress_wf core'" by blast
  have "index_order core' = index_order core" "membership_wf core' = membership_wf core" "role_wf core' = role_wf core"
    "reads_wf core' = reads_wf core" "c_log core' = c_log core"
    by (simp_all add: core'_def index_order_def membership_wf_def role_wf_def reads_wf_def tr_core_membership_def
        tr_read_total_count_def)
  with wf both show "core_wf core'" by (simp add: core_wf_def)
qed

text \<open>The state of a leader that appended a configuration and staged it.\<close>

lemma staged_state_wf:
  assumes wf: "core_wf core" and role: "c_role core = TR_RAFT_LEADER" and room: "log_room (c_log core) 2"
    and cont: "log_continues (c_log core) [e]" and index: "e_index e = tr_raft_log_last_index (c_log core) + 1"
    and staged: "transition_wf t" "t = (c_transition core)\<lparr>tr_pending := tr_pending (c_transition core) @ [(c, e_index e)]\<rparr>"
    and ps: "tr_core_build_peer_set t = Inr ps" "length ps \<le> 31"
  defines "core1 \<equiv> tr_core_refresh_peers (core\<lparr>c_log := log_append (c_log core) [e], c_transition := t\<rparr>) ps"
  shows "core_wf core1" and "progress_wf core1" and "log_room (c_log core1) 1"
    and "tr_raft_log_last_index (c_log core1) = e_index e"
    and "core_extends core core1" and "same_apply core core1" and "c_role core1 = TR_RAFT_LEADER"
proof -
  let ?l = "log_append (c_log core) [e]"
  define core0 where "core0 = core\<lparr>c_log := ?l, c_transition := t\<rparr>"
  have core1: "core1 = tr_core_refresh_peers core0 ps" by (simp add: core1_def core0_def)
  have l: "log_wf (c_log core)" using wf by (simp add: core_wf_def)
  have room': "log_room (c_log core) (Suc (length [e]))" using room by (simp add: numeral_2_eq_2)
  note app = log_append_facts [OF l cont room']
  show lst: "tr_raft_log_last_index (c_log core1) = e_index e"
    by (simp add: core1_def last_index_append index)
  have grow: "tr_raft_log_last_index (c_log core) < tr_raft_log_last_index ?l"
    using app(5) by (simp add: u64_less_unat)
  have progress: "progress_wf core" using wf role by (simp add: core_wf_def)
  have "progress_wf core0"
    using progress_grow [OF progress app(3)]
    by (simp add: core0_def progress_wf_def peer_bounds_def tr_peer_count_def peer_next_def peer_match_def peer_window_def)
  moreover have room1: "log_room (c_log core0) 1" using app(4) by (simp add: core0_def)
  ultimately show progress1: "progress_wf core1" unfolding core1 using ps(2) by (intro refresh_peers_progress)
  show "log_room (c_log core1) 1" using room1 by (simp add: core1)
  have tables1: "tables_wf core1"
    unfolding core1 using wf by (intro refresh_peers_tables) (simp add: core0_def core_wf_def tables_wf_def)
  have commit: "c_commit_index core \<le> tr_raft_log_last_index (c_log core)"
    using wf by (simp add: core_wf_def index_order_def)
  have base: "log_base_index ?l = log_base_index (c_log core)" by (simp add: log_append_def)
  have "index_order core1"
    using wf app(3) base by (auto simp: core1 core0_def core_wf_def index_order_def intro: order_trans)
  moreover have "membership_wf core1"
  proof -
    have pend: "\<forall>p \<in> set (tr_pending t). c_commit_index core < snd p \<and> snd p \<le> tr_raft_log_last_index ?l"
      using wf app(3) grow commit
      by (auto simp: staged(2) core_wf_def membership_wf_def index last_index_append intro: order_trans)
    have "tr_committed t = tr_committed (c_transition core)" by (simp add: staged(2))
    with pend wf staged(1) ps(1) show ?thesis
      by (simp add: core1 core0_def core_wf_def membership_wf_def tr_core_membership_def
          tr_raft_membership_transition_committed_def)
  qed
  moreover have "role_wf core1" "reads_wf core1"
    using wf by (simp_all add: core1 core0_def core_wf_def role_wf_def reads_wf_def tr_read_total_count_def)
  ultimately show "core_wf core1"
    using tables1 progress1 app(1) by (simp add: core_wf_def) (simp add: core1 core0_def)
  show "core_extends core core1"
    using log_keeps_mono [OF app(2) commit] by (simp add: core1 core0_def core_extends_def)
  show "same_apply core core1" "c_role core1 = TR_RAFT_LEADER"
    using role by (simp_all add: core1 core0_def same_apply_def)
qed

lemma append_configuration_handled:
  assumes wf: "core_wf core" and role: "c_role core = TR_RAFT_LEADER" and vec: "log_vec_ok V (c_log core)"
    and room: "log_room (c_log core) 2" and rd: "fresh rd"
    and eq: "tr_core_append_configuration V core c rd = (s, core', rd')"
  shows "s \<notin> {SALTS_OK, C_FAULT} \<and> (core' = core \<or> core' = core\<lparr>c_in_call := False\<rparr>)
    \<or> s = SALTS_OK \<and> handled core rd core' rd' \<and> fits rd'"
proof -
  let ?next = "tr_raft_log_last_index (c_log core) + 1"
  have t: "transition_wf (c_transition core)" and l: "log_wf (c_log core)" and trm: "c_term core \<noteq> 0"
    and pend: "\<forall>p \<in> set (tr_pending (c_transition core)). snd p \<le> tr_raft_log_last_index (c_log core)"
    using wf role by (auto simp: core_wf_def membership_wf_def role_wf_def)
  have room1: "log_room (c_log core) 1" by (rule log_room_mono [OF room]) simp
  have above: "tr_raft_log_last_index (c_log core) < ?next"
    using unat_room_1 [OF room1 order_refl] by (simp add: u64_less_unat)
  obtain s1 t1 where stage: "tr_raft_membership_transition_stage (c_transition core) c ?next = (s1, t1)" by fastforce
  note eq1 = eq [unfolded tr_core_append_configuration_def Let_def stage prod.case]
  note triv = simp_thms if_True if_False
  from t stage show ?thesis
  proof (cases rule: transition_stage_cases)
    case known
    with pend above show ?thesis by fastforce
  next
    case failed
    then have bad: "s1 \<noteq> SALTS_OK" by auto
    from eq1 [unfolded if_P [OF bad]] failed show ?thesis by auto
  next
    case staged
    from build_peer_set_wf [OF staged(3)] obtain ps where ps: "tr_core_build_peer_set t1 = Inr ps" "length ps \<le> 31"
      by blast
    note eq2 = eq1 [unfolded staged(1) triv ps(1) sum.case tr_require_capacity_def]
    have valid: "conf_valid c" by (rule conf_step_valid [OF staged(4)])
    show ?thesis
    proof (cases "tr_peer_set_unpaused_remote_count core ps \<le> r_message_capacity rd")
      case False
      from eq2 [unfolded if_not_P [OF False] prod.case] show ?thesis by simp
    next
      case fit: True
      note eq3 = eq2 [unfolded if_P [OF fit] prod.case triv]
      show ?thesis
      proof (cases "length (log_entries (c_log core)) < log_max_entries (c_log core)")
        case False
        then obtain s2 where s2: "tr_raft_log_append_configuration V (c_log core) (c_term core) c = (s2, c_log core, None)"
          "s2 \<in> {SALTS_EINVAL, SALTS_ENOSPC}"
          using append_configuration_error [OF l vec _ room1, of c "c_term core"] by blast
        then have bad: "s2 \<noteq> SALTS_OK" "s2 \<noteq> C_FAULT" by auto
        from eq3 [unfolded s2(1) prod.case if_P [OF bad(1)]] bad show ?thesis by simp
      next
        case True
        from append_configuration_eq [OF l vec room1 valid trm True] obtain e where
          app: "tr_raft_log_append_configuration V (c_log core) (c_term core) c
            = (SALTS_OK, log_append (c_log core) [e], Some e)"
          and e: "log_continues (c_log core) [e]" "e_index e = ?next" by metis
        define core1 where "core1 = tr_core_refresh_peers
          (core\<lparr>c_log := log_append (c_log core) [e], c_transition := t1\<rparr>) ps"
        define k where "k = tr_peer_index core1 (c_self_id core1)"
        define core2 where "core2 = core1\<lparr>c_match_index := arr_set (c_match_index core1) k (e_index e),
          c_next_index := arr_set (c_next_index core1) k (e_index e + 1)\<rparr>"
        define rd1 where "rd1 = rd\<lparr>r_log_changed := True, r_log_entries := [e], r_log_entry_count := 1\<rparr>"
        have t1: "t1 = (c_transition core)\<lparr>tr_pending := tr_pending (c_transition core) @ [(c, e_index e)]\<rparr>"
          using staged(2) e(2) by simp
        note c1 = staged_state_wf [OF wf role room e(1,2) staged(3) t1 ps, folded core1_def]
        note c2 = self_progress_wf [OF c1(1-3) c1(4) [symmetric], of k, folded core2_def]
        obtain s3 core3 rd3 where commit: "tr_update_commit core2 rd1 = (s3, core3, rd3)" by (metis prod_cases3)
        obtain core4 rd4 where send: "tr_broadcast_replication core3 rd3 = (core4, rd4)" by fastforce
        have "c_role core2 \<in> {TR_RAFT_FOLLOWER, TR_RAFT_LEADER}" "log_room (c_log core2) 1" "fresh rd1"
          using c1(3,7) rd by (simp_all add: core2_def rd1_def fresh_def)
        note cb = commit_broadcast_handled [OF c2(1) this(1) c2(2) this(2,3) commit send]
        have "(s, core', rd') = (SALTS_OK, core4, rd4)"
          using eq3 [unfolded app prod.case triv option.case raft_core.simps, folded core1_def, folded k_def,
              folded core2_def rd1_def, unfolded commit prod.case cb(1) triv send] by simp
        moreover have "core_extends core core2" "same_apply core core2"
          using c1(5,6) by (simp_all add: core2_def core_extends_def same_apply_def)
        moreover have "ready_frame rd1 = ready_frame rd" by (simp add: rd1_def)
        ultimately show ?thesis using cb(2,3) handled_trans by blast
      qed
    qed
  qed
qed

section \<open>Append and heartbeat responses\<close>

text \<open>When the peer table shrinks, the entries behind its end have the next index zero.\<close>

lemma refresh_peer_position:
  assumes "i < tr_peer_count core" and "tr_peer_count core \<le> 31"
  shows "i < length ps \<or> peer_next (tr_core_refresh_peers core ps) i = 0"
proof (cases "i < length ps")
  case False
  then have "c_peers core \<noteq> ps" using assms by (auto simp: tr_peer_count_def)
  moreover have "tr_raft_peer_set_index ps (c_self_id core) \<noteq> int i"
    using False tr_raft_peer_set_index_range [of ps "c_self_id core"] by auto
  ultimately show ?thesis
    using False assms refresh_peers_tables_eq(1) [of core ps i] by (simp add: refresh_next_def)
qed simp

lemma sync_peer_position:
  assumes "tr_core_sync_membership core = (s, core')" and "i < tr_peer_count core" and "tr_peer_count core \<le> 31"
  shows "i < tr_peer_count core' \<or> peer_next core' i = 0"
proof (cases "tr_core_build_peer_set (c_transition core)")
  case (Inl e)
  with assms show ?thesis by (simp add: tr_core_sync_membership_def)
next
  case (Inr ps)
  have "c_peers core' = ps \<and> c_next_index core' = c_next_index (tr_core_refresh_peers core ps)"
    using assms(1) Inr by (auto simp: tr_core_sync_membership_def Let_def)
  with refresh_peer_position [OF assms(2,3), of ps] show ?thesis
    by (simp add: tr_peer_count_def peer_next_def)
qed

lemma update_commit_peer_position:
  assumes "tr_update_commit core rd = (s, core', rd')" and "i < tr_peer_count core" and "tr_peer_count core \<le> 31"
  shows "i < tr_peer_count core' \<or> peer_next core' i = 0"
proof (cases "\<exists>j core1. core1 = core\<lparr>c_commit_index := j, c_transition :=
    tr_raft_membership_transition_apply (c_transition core) j\<rparr> \<and> core' = snd (tr_core_sync_membership core1)")
  case True
  then obtain j where core': "core' = snd (tr_core_sync_membership (core\<lparr>c_commit_index := j, c_transition :=
    tr_raft_membership_transition_apply (c_transition core) j\<rparr>))" by blast
  have "i < tr_peer_count (core\<lparr>c_commit_index := j, c_transition :=
    tr_raft_membership_transition_apply (c_transition core) j\<rparr>)" using assms(2) by (simp add: tr_peer_count_def)
  then show ?thesis
    unfolding core' using assms(3) by (intro sync_peer_position [OF prod.collapse [symmetric]]) (simp_all add: tr_peer_count_def)
next
  case False
  have "core' = core"
    using assms(1) False
    by (auto simp: tr_update_commit_def Let_def split: sum.splits option.splits prod.splits if_splits)
       (metis snd_conv)+
  with assms(2) show ?thesis by simp
qed

lemma window_find_bounded:
  assumes "window_bounded lst w" and "tr_append_window_find w p = j" and "0 \<le> j"
  shows "if_previous_index (tr_append_window_at w (nat j)) \<le> lst"
proof -
  have "nat j < length (window_list w)"
    using assms ring.find_in_range(1) [of w p] by (simp add: window_bounded_def)
  then have "tr_append_window_at w (nat j) \<in> set (window_list w)" by (simp add: window_list_def)
  with assms(1) show ?thesis by (simp add: window_bounded_def)
qed

lemma match_next_commute:
  "core\<lparr>c_match_index := x, c_next_index := y\<rparr> = core\<lparr>c_next_index := y, c_match_index := x\<rparr>"
  by (rule raft_core.equality) simp_all

lemma response_granted_wf:
  assumes wf: "core_wf core" and role: "c_role core = TR_RAFT_LEADER" and room: "log_room (c_log core) 1"
    and i: "i < tr_peer_count core" and lst: "m_match_index m \<le> tr_raft_log_last_index (c_log core)" and rd: "fresh rd"
  obtains core' rd' where "response_granted core m rd (int i) = (SALTS_OK, core', rd')" and "core_wf core'"
    and "core_same_log core core'" and "c_commit_index core \<le> c_commit_index core'" and "progress_wf core'"
    and "i < tr_peer_count core' \<or> peer_next core' i = 0" and "fresh rd'"
    and "ready_frame rd' = ready_frame rd"
proof -
  let ?last = "tr_raft_log_last_index (c_log core)"
  define w where "w = (tr_append_window_release_through (peer_window core i) (m_match_index m))\<lparr>w_probe := False\<rparr>"
  define newer where "newer \<longleftrightarrow> m_match_index m > arr_get 0 (c_match_index core) (int i)"
  define match where "match = (if newer then m_match_index m else peer_match core i)"
  define nxt where "nxt = (if newer \<and> peer_next core i < m_match_index m + 1 then m_match_index m + 1 else peer_next core i)"
  define core1 where "core1 = core\<lparr>c_append_windows := arr_set (c_append_windows core) (int i) w,
    c_next_index := arr_set (c_next_index core) (int i) nxt, c_match_index := arr_set (c_match_index core) (int i) match\<rparr>"
  have tables: "tables_wf core" and progress: "progress_wf core" and mem: "membership_wf core"
    using wf role by (simp_all add: core_wf_def)
  have bounds: "peer_bounds core i" using progress i by (simp add: progress_wf_def)
  have "window_bounded ?last w"
    using peer_window_bounded [OF tables progress i] window_release_eq [of "peer_window core i" "m_match_index m"]
    by (auto simp: window_bounded_def w_def dest: set_dropWhileD)
  moreover have "unat (m_match_index m + 1) = Suc (unat (m_match_index m))" by (rule unat_room_1 [OF room lst])
  then have "0 < nxt" "unat nxt \<le> Suc (unat ?last)"
    using bounds lst by (auto simp: nxt_def peer_bounds_def u64_less_unat u64_le_unat)
  moreover have "match \<le> ?last" using bounds lst by (simp add: match_def peer_bounds_def)
  ultimately have t1: "tables_wf core1" "progress_wf core1"
    using set_peer_progress [OF tables progress, of w nxt match "int i"] by (simp_all add: core1_def)
  have same: "core_same_log core core1" "c_commit_index core1 = c_commit_index core" "c_role core1 = c_role core"
    "tr_peer_count core1 = tr_peer_count core"
    by (simp_all add: core1_def core_same_log_def tr_peer_count_def)
  have "index_order core1 = index_order core" "membership_wf core1 = membership_wf core" "role_wf core1 = role_wf core"
    "reads_wf core1 = reads_wf core" "c_log core1 = c_log core"
    by (simp_all add: core1_def index_order_def membership_wf_def role_wf_def reads_wf_def tr_core_membership_def
        tr_read_total_count_def)
  with wf t1 have wf1: "core_wf core1" by (simp add: core_wf_def)
  have eq: "response_granted core m rd (int i) = (if newer then tr_update_commit core1 rd else (SALTS_OK, core1, rd))"
    by (simp add: response_granted_def Let_def newer_def core1_def w_def peer_window_def match_def nxt_def
        peer_next_def peer_match_def arr_set_same match_next_commute)
  show thesis
  proof (cases newer)
    case False
    then show thesis using eq wf1 same t1 rd i by (intro that [of core1 rd]) simp_all
  next
    case True
    have pre: "log_room (c_log core1) 1" "c_role core1 \<in> {TR_RAFT_FOLLOWER, TR_RAFT_LEADER}"
      using room role same by (simp_all add: core_same_log_def)
    have count: "i < tr_peer_count core1" "tr_peer_count core1 \<le> 31"
      using i same(4) peer_set_facts(3) [OF mem] by (simp_all add: tr_peer_count_def)
    obtain s core' rd' where commit: "tr_update_commit core1 rd = (s, core', rd')" by (metis prod_cases3)
    note pos = update_commit_peer_position [OF commit count]
    from wf1 pre show thesis
    proof (cases rule: update_commit_cases [where rd = rd])
      case kept
      then show thesis using eq True wf1 same t1 rd i by (intro that [of core1 rd]) simp_all
    next
      case (advanced j core2)
      then have "core' = core2" using commit by simp
      then show thesis
        using advanced eq True same(1,2) t1 rd pos core_same_log_trans [OF same(1)]
        by (intro that [of core2 "rd\<lparr>r_commit_changed := True, r_commit_index := j\<rparr>"]) (simp_all add: fresh_def)
    qed
  qed
qed

lemma response_rejected_wf:
  fixes m :: message
  assumes wf: "core_wf core" and role: "c_role core = TR_RAFT_LEADER" and room: "log_room (c_log core) 1"
    and i: "i < tr_peer_count core" and find: "j = - 1 \<or> j = tr_append_window_find (peer_window core i) p"
  defines "core' \<equiv> response_rejected core m (int i) j"
  shows "core_wf core'" and "core_same_log core core'" and "c_commit_index core' = c_commit_index core"
    and "progress_wf core'" and "tr_peer_count core' = tr_peer_count core"
proof -
  let ?last = "tr_raft_log_last_index (c_log core)"
  have tables: "tables_wf core" and progress: "progress_wf core"
    using wf role by (simp_all add: core_wf_def)
  have bounds: "peer_bounds core i" using progress i by (simp add: progress_wf_def)
  define n0 where "n0 = (if j \<ge> 0 then if_previous_index (tr_append_window_at (peer_window core i) (nat j))
      else if peer_next core i > log_base_index (c_log core) + 1 then peer_next core i - 1 else peer_next core i)"
  define n1 where "n1 = (if m_reject_hint m \<noteq> 0 \<and> m_reject_hint m < n0 then m_reject_hint m else n0)"
  define nxt where "nxt = (if n1 < peer_match core i + 1 then peer_match core i + 1 else n1)"
  have eq: "core' = core\<lparr>c_append_windows := arr_set (c_append_windows core) (int i)
        (tr_append_window_reset (peer_window core i) True), c_next_index := arr_set (c_next_index core) (int i) nxt\<rparr>"
    by (simp add: core'_def response_rejected_def Let_def nxt_def n1_def n0_def peer_match_def peer_next_def peer_window_def)
  have "unat n0 \<le> Suc (unat ?last)"
  proof (cases "0 \<le> j")
    case True
    with find have "j = tr_append_window_find (peer_window core i) p" by auto
    from window_find_bounded [OF peer_window_bounded [OF tables progress i] this [symmetric] True] True
    show ?thesis by (simp add: n0_def u64_le_unat)
  next
    case False
    with bounds show ?thesis by (auto simp: n0_def peer_bounds_def u64_less_unat unat_pred)
  qed
  then have n1: "unat n1 \<le> Suc (unat ?last)" by (auto simp: n1_def u64_less_unat)
  have "peer_match core i \<le> ?last" using bounds by (simp add: peer_bounds_def)
  from unat_room_1 [OF room this] this n1 have "0 < nxt" "unat nxt \<le> Suc (unat ?last)"
    by (auto simp: nxt_def u64_less_unat u64_le_unat)
  note new = set_peer_window_next [OF tables progress window_bounded_reset this i, of "peer_window core i" True,
      folded eq]
  then show "progress_wf core'" by blast
  have "index_order core' = index_order core" "membership_wf core' = membership_wf core" "role_wf core' = role_wf core"
    "reads_wf core' = reads_wf core" "c_log core' = c_log core"
    unfolding eq by (simp_all add: tables_update_frame)
  with wf new show "core_wf core'" by (simp add: core_wf_def)
  show "core_same_log core core'" "c_commit_index core' = c_commit_index core" "tr_peer_count core' = tr_peer_count core"
    by (simp_all add: eq core_same_log_def tr_peer_count_def)
qed

lemma heartbeat_response_handled:
  assumes wf: "core_wf core" and room: "log_room (c_log core) 1" and rd: "fresh rd" and i: "i < tr_peer_count core"
    and eq: "tr_step_heartbeat_response core m rd (int i) = (s, core', rd')"
  shows "s = SALTS_OK" and "handled core rd core' rd'" and "1 \<le> r_message_capacity rd \<Longrightarrow> fits rd'"
proof -
  let ?last = "tr_raft_log_last_index (c_log core)"
  define j where "j = (if m_type m = TR_RAFT_MSG_APPEND_RESPONSE
      then tr_append_window_find (peer_window core i) (m_previous_log_index m) else - 1)"
  define core1 where "core1 = (if tr_raft_membership_is_voter (tr_core_membership core) (m_from m)
      then core\<lparr>c_recent_active := c_recent_active core OR u32_shl1 (int i)\<rparr> else core)"
  define pass where "pass \<longleftrightarrow> \<not> m_term m > c_term core
      \<and> \<not> (c_role core \<noteq> TR_RAFT_LEADER \<or> m_term m \<noteq> c_term core)
      \<and> \<not> (m_granted m \<and> m_match_index m > ?last) \<and> \<not> (m_type m = TR_RAFT_MSG_APPEND_RESPONSE \<and> j < 0)
      \<and> \<not> (m_type m = TR_RAFT_MSG_APPEND_RESPONSE \<and> m_granted m
           \<and> m_match_index m \<noteq> if_last_index (tr_append_window_at (peer_window core i) (nat j)))"
  define mid where "mid = (if m_granted m then response_granted core1 m rd (int i)
      else (SALTS_OK, response_rejected core1 m (int i) j, rd))"
  define tail where "tail core2 rd2 =
     (if m_granted m \<and> \<not> c_transfer_sent core2 \<and> c_transfer_target core2 = m_from m
         \<and> arr_get 0 (c_match_index core2) (int i) \<ge> ?last
      then case tr_emit core2 rd2 TR_RAFT_MSG_TIMEOUT_NOW (m_from m) False of
             (sent, rd) \<Rightarrow> (SALTS_OK, core2\<lparr>c_transfer_sent := sent\<rparr>, rd)
      else if arr_get 0 (c_next_index core2) (int i) \<le> ?last \<or> \<not> m_granted m
      then case tr_fill_peer_replication_window core2 rd2 i of (core, rd) \<Rightarrow> (SALTS_OK, core, rd)
      else (SALTS_OK, core2, rd2))" for core2 rd2
  have eq1: "tr_step_heartbeat_response core m rd (int i) =
     (if m_term m > c_term core then (SALTS_OK, tr_become_follower core (m_term m), rd)
      else if \<not> pass then (SALTS_OK, core, rd)
      else case mid of (r, core2, rd2) \<Rightarrow> if r \<noteq> SALTS_OK then (r, core2, rd2) else tail core2 rd2)"
    unfolding tr_step_heartbeat_response_def Let_def peer_window_def [symmetric] j_def [symmetric] core1_def [symmetric]
      mid_def [symmetric] nat_int tail_def pass_def by (auto split: prod.splits)
  consider (higher) "s = SALTS_OK" "core' = tr_become_follower core (m_term m)" "rd' = rd"
    | (same) "s = SALTS_OK" "core' = core" "rd' = rd"
    | (pass) pass "(case mid of (r, core2, rd2) \<Rightarrow> if r \<noteq> SALTS_OK then (r, core2, rd2) else tail core2 rd2)
        = (s, core', rd')"
    using eq unfolding eq1 by (cases "m_term m > c_term core"; cases pass) simp_all
  then have "s = SALTS_OK \<and> handled core rd core' rd' \<and> (1 \<le> r_message_capacity rd \<longrightarrow> fits rd')"
  proof cases
    case higher
    then show ?thesis using handled_follower [OF wf rd] fresh_fits [OF rd] by simp
  next
    case same
    then show ?thesis using handled_unchanged [OF wf rd] fresh_fits [OF rd] by simp
  next
    case pass
    have wf1: "core_wf core1" using wf by (simp add: core1_def core_frame)
    have c1: "c_role core1 = TR_RAFT_LEADER" "log_room (c_log core1) 1" "i < tr_peer_count core1"
      "core_same_log core core1" "c_commit_index core1 = c_commit_index core" "c_log core1 = c_log core"
      "peer_window core1 i = peer_window core i"
      using pass(1) room i
      by (simp_all add: core1_def pass_def tr_peer_count_def core_same_log_def peer_window_def)
    obtain core2 rd2 where c2: "mid = (SALTS_OK, core2, rd2)" "core_wf core2" "core_same_log core1 core2"
      "c_commit_index core1 \<le> c_commit_index core2" "progress_wf core2"
      "i < tr_peer_count core2 \<or> peer_next core2 i = 0" "fresh rd2" "ready_frame rd2 = ready_frame rd"
    proof (cases "m_granted m")
      case True
      then have lst: "m_match_index m \<le> tr_raft_log_last_index (c_log core1)"
        using pass(1) c1(6) by (simp add: pass_def not_less)
      from response_granted_wf [OF wf1 c1(1-3) lst rd] show thesis
        using that True unfolding mid_def by (metis (full_types))
    next
      case False
      have "j = - 1 \<or> j = tr_append_window_find (peer_window core1 i) (m_previous_log_index m)"
        by (simp add: j_def c1(7))
      note rej = response_rejected_wf [OF wf1 c1(1-3) this, of m]
      show thesis
        using False rej rd c1(3) by (intro that [of "response_rejected core1 m (int i) j" rd]) (simp_all add: mid_def)
    qed
    have ext: "core_extends core core2" "same_apply core core2"
      using core_same_log_trans [OF c1(4) c2(3)] c1(5) c2(4)
      by (simp_all add: core_same_log_extends core_same_log_apply)
    have room2: "log_room (c_log core2) 1" using c1(2) c2(3) by (simp add: core_same_log_def)
    have tail: "tail core2 rd2 = (s, core', rd')" using pass(2) c2(1) by simp
    have "s = SALTS_OK \<and> handled core2 rd2 core' rd' \<and> (1 \<le> r_message_capacity rd2 \<longrightarrow> fits rd')"
    proof (cases "m_granted m \<and> \<not> c_transfer_sent core2 \<and> c_transfer_target core2 = m_from m
         \<and> arr_get 0 (c_match_index core2) (int i) \<ge> ?last")
      case True
      obtain sent rd3 where emit: "tr_emit core2 rd2 TR_RAFT_MSG_TIMEOUT_NOW (m_from m) False = (sent, rd3)" by fastforce
      note em = tr_emit_emits(1) [OF _ emit, simplified]
      have res: "s = SALTS_OK" "core' = core2\<lparr>c_transfer_sent := sent\<rparr>" "rd' = rd3"
        using tail unfolding tail_def if_P [OF True] emit by auto
      have wf': "core_wf core'" using c2(2) by (simp add: res(2) core_frame)
      have rd3: "ready_ok core2 rd3" "ready_frame rd3 = ready_frame rd2"
        "1 \<le> r_message_capacity rd2 \<Longrightarrow> fits rd3"
        using emits_ready [OF em fresh_ready_ok [OF c2(7)]] c2(7) by (auto simp: fresh_def split: if_splits)
      have "ready_ok core' rd3"
        using rd3(1) message_ok_reads [of core' core2] by (simp add: ready_ok_def res(2))
      with wf' rd3 show ?thesis by (simp add: handled_def res core_extends_def same_apply_def)
    next
      case False
      obtain core3 rd3 where fill: "tr_fill_peer_replication_window core2 rd2 i = (core3, rd3)" by fastforce
      have "(s, core', rd') = (SALTS_OK, core3, rd3) \<or> (s, core', rd') = (SALTS_OK, core2, rd2)"
        using tail unfolding tail_def if_not_P [OF False] fill by (auto split: if_splits)
      moreover note rep = fill_peer.op_step(6) [OF c2(2,5) room2 c2(6) fill]
      have "handled core2 rd2 core3 rd3" "fits rd3"
        using replicates_handled [OF c2(2) rep] replicates_ready_ok(3) [OF rep] c2(7) fresh_fits by simp_all
      ultimately show ?thesis using handled_unchanged [OF c2(2,7)] fresh_fits [OF c2(7)] by auto
    qed
    then show ?thesis using handled_trans [OF ext c2(8)] c2(8) by simp
  qed
  then show "s = SALTS_OK" "handled core rd core' rd'" "1 \<le> r_message_capacity rd \<Longrightarrow> fits rd'" by blast+
qed

end
