(* ===== verification/Raft_Core_Safety.thy ===== *)
theory Raft_Core_Safety
  imports Raft_Core_Append
begin

text \<open>
  The public operations of the Raft core keep its invariant. Every call either fails and leaves the
  state as it was, or leads to a well-formed state that extends the old one, with a Ready record
  whose messages the new state may send and whose committed entries are the next ones of the log.
\<close>

section \<open>Opening and closing a call\<close>

text \<open>The committed entries a Ready record hands to the state machine: those between the admitted
  and the commit index, in order.\<close>

definition delivered :: "raft_core \<Rightarrow> ready \<Rightarrow> bool" where
  "delivered core rd \<longleftrightarrow>
     length (r_committed_entries rd) = unat (c_commit_index core) - unat (c_apply_admitted_index core)
     \<and> r_committed_entry_count rd = length (r_committed_entries rd)
     \<and> (\<forall>k < length (r_committed_entries rd).
          tr_raft_log_get (c_log core) (c_apply_admitted_index core + of_nat k + 1)
            = Some (r_committed_entries rd ! k))
     \<and> (r_committed_entries rd \<noteq> [] \<longrightarrow>
          c_ready_outstanding core \<and> c_pending_apply_index core = c_commit_index core)"

text \<open>A successful call.\<close>

definition call_done :: "raft_core \<Rightarrow> ready \<Rightarrow> raft_core \<Rightarrow> ready \<Rightarrow> bool" where
  "call_done core rd core' rd' \<longleftrightarrow>
     core_wf core' \<and> core_extends core core' \<and> \<not> c_in_call core' \<and> ready_ok core' rd' \<and> delivered core' rd'
     \<and> r_message_capacity rd' = r_message_capacity rd
     \<and> c_applied_index core' = c_applied_index core \<and> c_apply_admitted_index core' = c_apply_admitted_index core
     \<and> (r_messages rd' \<noteq> [] \<longrightarrow> c_ready_outstanding core')"

definition call_failed :: "raft_core \<Rightarrow> salts_status \<Rightarrow> raft_core \<Rightarrow> bool" where
  "call_failed core s core' \<longleftrightarrow> s \<notin> {SALTS_OK, C_FAULT} \<and> core' = core"

lemma in_call_False [simp]: "\<not> c_in_call core \<Longrightarrow> core\<lparr>c_in_call := False\<rparr> = core"
  by (cases core) simp

lemma log_slice_nth:
  assumes wf: "log_wf l" and lo: "log_base_index l \<le> a" and hi: "b \<le> tr_raft_log_last_index l" and less: "a < b"
  shows "length (log_slice l (a + 1) (unat (b - a))) = unat b - unat a"
    and "k < unat b - unat a \<Longrightarrow>
      tr_raft_log_get l (a + of_nat k + 1) = Some (log_slice l (a + 1) (unat (b - a)) ! k)"
proof -
  let ?o = "unat a - unat (log_base_index l)"
  have n: "unat (b - a) = unat b - unat a" using less by (simp add: unat_minus_le)
  have ub: "unat a < unat b" "unat b \<le> unat (log_base_index l) + length (log_entries l)" "unat (log_base_index l) \<le> unat a"
    using less hi lo unat_last_index [OF wf] by (simp_all add: u64_less_unat u64_le_unat)
  have off: "unat (a - log_base_index l) = ?o" by (rule unat_minus_le [OF lo])
  have get: "tr_raft_log_get l (a + of_nat k + 1) = Some (log_entries l ! (?o + k))" if "k < unat b - unat a" for k
  proof -
    have "unat a + k + 1 < 2 ^ 64" using that unat_u64_less [of b] by simp
    moreover have "unat a = unat (log_base_index l) + ?o" using ub(3) by simp
    ultimately have "tr_raft_log_get l (a + of_nat k + 1) = vec_at (log_entries l) (?o + k)"
      by (intro log_get_offset [OF wf])
    then show ?thesis using that ub by (simp add: vec_at_def)
  qed
  have "tr_raft_log_get l (a + 1) \<noteq> None" using get [of 0] ub(1) by simp
  then have slice: "log_slice l (a + 1) (unat (b - a)) = take (unat b - unat a) (drop ?o (log_entries l))"
    by (auto simp: log_slice_def n off)
  show "length (log_slice l (a + 1) (unat (b - a))) = unat b - unat a" using ub by (simp add: slice)
  show "tr_raft_log_get l (a + of_nat k + 1) = Some (log_slice l (a + 1) (unat (b - a)) ! k)"
    if "k < unat b - unat a" using get [OF that] that ub by (simp add: slice)
qed

lemma finish_done:
  assumes h: "handled (core\<lparr>c_in_call := True\<rparr>) (tr_reset_ready rd) core1 rd1"
    and eq: "tr_finish core1 rd1 before = (s, core', rd')"
  shows "s = SALTS_OK" and "call_done core rd core' rd'" and "r_messages rd' = r_messages rd1"
    and "c_role core' = c_role core1" and "c_term core' = c_term core1" and "c_commit_index core' = c_commit_index core1"
proof -
  let ?a = "c_apply_admitted_index core1" and ?c = "c_commit_index core1"
  have wf1: "core_wf core1" and ext: "core_extends core core1"
    and app: "c_applied_index core1 = c_applied_index core" "?a = c_apply_admitted_index core"
    and cap: "r_message_capacity rd1 = r_message_capacity rd" and ok: "ready_ok core1 rd1"
    and empty: "r_committed_entries rd1 = []" "r_committed_entry_count rd1 = 0"
    using h by (auto simp: handled_def core_extends_def same_apply_def tr_reset_ready_def)
  have order: "?a \<le> ?c" "?c \<le> tr_raft_log_last_index (c_log core1)" "log_base_index (c_log core1) \<le> ?a"
    and lw: "log_wf (c_log core1)"
    using wf1 by (auto simp: core_wf_def index_order_def)
  define core2 where "core2 = (if ?c > ?a then core1\<lparr>c_pending_apply_index := ?c\<rparr> else core1)"
  define es where "es = (if ?c > ?a then log_slice (c_log core1) (?a + 1) (unat (?c - ?a)) else [])"
  obtain out where core': "core' = core2\<lparr>c_ready_outstanding := out, c_in_call := False\<rparr>"
    and rd': "r_committed_entries rd' = es" "r_committed_entry_count rd' = length es"
      "r_messages rd' = r_messages rd1" "r_read_states rd' = r_read_states rd1"
      "r_message_capacity rd' = r_message_capacity rd1"
    and out: "r_messages rd1 \<noteq> [] \<or> es \<noteq> [] \<longrightarrow> out" and s: "s = SALTS_OK"
  proof (cases "?a < ?c")
    case True
    have n: "unat (?c - ?a) = length es"
      using True log_slice_nth(1) [OF lw order(3,2) True] order(1) by (simp add: es_def unat_minus_le)
    have "0 < unat (?c - ?a)" using True order(1) by (simp add: unat_minus_le u64_less_unat)
    with eq [symmetric] show thesis
      by (intro that [of "c_ready_outstanding core'"])
        (simp_all add: tr_finish_def Let_def core2_def n [symmetric] True, simp_all add: es_def True)
  next
    case False
    from eq [symmetric] show thesis
      by (intro that [of "c_ready_outstanding core'"])
        (simp_all add: tr_finish_def Let_def core2_def es_def False empty)
  qed
  have "index_order core2" using wf1 order by (auto simp: core2_def core_wf_def index_order_def)
  moreover have "membership_wf core2 = membership_wf core1" "tables_wf core2 = tables_wf core1"
    "progress_wf core2 = progress_wf core1" "role_wf core2 = role_wf core1" "reads_wf core2 = reads_wf core1"
    "c_log core2 = c_log core1" "c_role core2 = c_role core1"
    by (simp_all add: core2_def membership_wf_def tables_wf_def progress_wf_def peer_bounds_def tr_core_membership_def
        tr_peer_count_def peer_next_def peer_match_def peer_window_def role_wf_def reads_wf_def tr_read_total_count_def)
  ultimately have wf2: "core_wf core2" using wf1 by (simp add: core_wf_def)
  then have wf': "core_wf core'" by (simp add: core' core_frame)
  have frame: "c_log core' = c_log core1" "c_commit_index core' = ?c" "c_apply_admitted_index core' = ?a"
    "c_applied_index core' = c_applied_index core1" "c_term core' = c_term core1" "c_voted_for core' = c_voted_for core1"
    "c_self_id core' = c_self_id core1" "c_role core' = c_role core1"
    by (simp_all add: core' core2_def)
  have len: "length es = unat ?c - unat ?a"
  proof (cases "?a < ?c")
    case True
    then show ?thesis using log_slice_nth(1) [OF lw order(3,2) True] by (simp add: es_def)
  next
    case False
    with order(1) show ?thesis by (simp add: es_def)
  qed
  have nth: "tr_raft_log_get (c_log core1) (?a + of_nat k + 1) = Some (es ! k)" if "k < length es" for k
  proof -
    have less: "?a < ?c" using that by (auto simp: es_def split: if_splits)
    from log_slice_nth(2) [OF lw order(3,2) less] that len show ?thesis by (simp add: es_def less)
  qed
  have "c_pending_apply_index core' = ?c" if "es \<noteq> []"
    using that by (auto simp: core' core2_def es_def split: if_splits)
  then have "delivered core' rd'"
    using len nth out by (simp add: delivered_def rd' frame) (simp add: core')
  moreover have "ready_ok core' rd'"
    using ok message_ok_reads [of core' core1] by (simp add: ready_ok_def rd' frame)
  moreover have "core_extends core core'" using ext by (simp add: core_extends_def frame)
  ultimately show "call_done core rd core' rd'"
    using wf' app cap out by (simp add: call_done_def frame rd') (simp add: core')
  show "s = SALTS_OK" "r_messages rd' = r_messages rd1" "c_role core' = c_role core1" "c_term core' = c_term core1"
    "c_commit_index core' = ?c" by (simp_all add: s rd' frame)
qed

text \<open>The outcome of a call: a failure, or a success whose messages fit into the caller's array when the
  condition on its capacity holds.\<close>

definition outcome :: "raft_core \<Rightarrow> ready \<Rightarrow> bool \<Rightarrow> salts_status \<Rightarrow> raft_core \<Rightarrow> ready \<Rightarrow> bool" where
  "outcome core rd cap s core' rd' \<longleftrightarrow>
     call_failed core s core' \<or> s = SALTS_OK \<and> call_done core rd core' rd' \<and> (cap \<longrightarrow> fits rd')"

lemma finish_outcome:
  assumes "handled (core\<lparr>c_in_call := True\<rparr>) (tr_reset_ready rd) core1 rd1" and "cap \<Longrightarrow> fits rd1"
    and "tr_finish core1 rd1 before = (s, core', rd')"
  shows "outcome core rd cap s core' rd'"
  using finish_done [OF assms(1,3)] assms(1,2)
  by (auto simp: outcome_def fits_def call_done_def handled_def tr_reset_ready_def)

lemma failed_outcome: "call_failed core s core' \<Longrightarrow> outcome core rd cap s core' rd'"
  by (simp add: outcome_def)

lemma error_outcome:
  "\<not> c_in_call core \<Longrightarrow> e \<notin> {SALTS_OK, C_FAULT} \<Longrightarrow> s = e \<Longrightarrow>
     core' = core \<or> core' = core\<lparr>c_in_call := False\<rparr> \<or> core' = core\<lparr>c_in_call := True, c_in_call := False\<rparr> \<Longrightarrow>
     outcome core rd cap s core' rd'"
  by (auto simp: outcome_def call_failed_def)

lemma fresh_reset [simp]: "fresh (tr_reset_ready rd)" "ready_frame (tr_reset_ready rd) = (r_message_capacity rd, [], 0)"
  by (simp_all add: fresh_def tr_reset_ready_def)

lemma core_wf_in_call: "core_wf core \<Longrightarrow> core_wf (core\<lparr>c_in_call := b\<rparr>)"
  by (simp add: core_frame)

lemma begin_outcome:
  assumes "(case tr_begin core rd of (result, core, rd, before) \<Rightarrow>
            if result \<noteq> SALTS_OK then (result, core, rd) else body core rd before) = (s, core', rd')"
    and "\<not> c_in_call core"
    and "\<And>before. \<not> c_ready_outstanding core \<Longrightarrow>
      body (core\<lparr>c_in_call := True\<rparr>) (tr_reset_ready rd) before = (s, core', rd') \<Longrightarrow> outcome core rd cap s core' rd'"
  shows "outcome core rd cap s core' rd'"
  using assms by (auto simp: tr_begin_def outcome_def call_failed_def Let_def split: if_splits)

lemma capacity_outcome:
  assumes "(case tr_require_capacity (core\<lparr>c_in_call := True\<rparr>) rd1 n of (result, core, rd) \<Rightarrow>
              if result \<noteq> SALTS_OK then (result, core, rd) else body core rd) = (s, core', rd')"
    and "\<not> c_in_call core"
    and "n \<le> r_message_capacity rd1 \<Longrightarrow> body (core\<lparr>c_in_call := True\<rparr>) rd1 = (s, core', rd') \<Longrightarrow>
      outcome core rd cap s core' rd'"
  shows "outcome core rd cap s core' rd'"
  using assms by (auto simp: tr_require_capacity_def outcome_def call_failed_def split: if_splits)

lemma entry_outcome:
  assumes "(if A then (e, core, rd1) else X) = (s, core', rd')" and "\<not> c_in_call core" and "e \<notin> {SALTS_OK, C_FAULT}"
    and "\<not> A \<Longrightarrow> X = (s, core', rd') \<Longrightarrow> outcome core rd cap s core' rd'"
  shows "outcome core rd cap s core' rd'"
  using assms by (cases A) (auto intro: error_outcome)

lemma guard_outcome:
  assumes "(if A then (e, core\<lparr>c_in_call := True, c_in_call := False\<rparr>, rd1) else X) = (s, core', rd')"
    and "\<not> c_in_call core" and "e \<notin> {SALTS_OK, C_FAULT}"
    and "\<not> A \<Longrightarrow> X = (s, core', rd') \<Longrightarrow> outcome core rd cap s core' rd'"
  shows "outcome core rd cap s core' rd'"
  using assms by (cases A) (auto intro: error_outcome)

text \<open>The contract of a public operation that fills a Ready record.\<close>

locale core_call =
  fixes op :: "raft_core \<Rightarrow> ready \<Rightarrow> salts_status \<times> raft_core \<times> ready"
    and pre :: "raft_core \<Rightarrow> bool"
    and cap :: "ready \<Rightarrow> bool"
  assumes op_outcome: "core_wf core \<Longrightarrow> \<not> c_in_call core \<Longrightarrow> pre core \<Longrightarrow> op core rd = (s, core', rd') \<Longrightarrow>
      outcome core rd (cap rd) s core' rd'"
begin

lemma op_safe:
  assumes "core_wf core" and "\<not> c_in_call core" and "pre core" and "op core rd = (s, core', rd')"
  shows "core_wf core'" and "core_extends core core'" and "\<not> c_in_call core'" and "s \<noteq> C_FAULT"
    and "s \<noteq> SALTS_OK \<Longrightarrow> core' = core" and "s = SALTS_OK \<Longrightarrow> call_done core rd core' rd'"
  using op_outcome [OF assms] assms(1,2) by (auto simp: outcome_def call_failed_def call_done_def)

end

section \<open>Poll and read barriers\<close>

lemma fill_handled:
  assumes h: "handled core rd core1 rd1" and room: "log_room (c_log core1) 1"
    and eq: "tr_fill_replication_windows core1 rd1 = (core2, rd2)"
  shows "handled core rd core2 rd2" and "fits rd1 \<Longrightarrow> fits rd2"
proof -
  have wf: "core_wf core1" and ok: "ready_ok core1 rd1" using h by (simp_all add: handled_def)
  have "replicates core1 rd1 core2 rd2 \<or> (core2, rd2) = (core1, rd1)"
  proof (cases "c_role core1 = TR_RAFT_LEADER")
    case True
    then have "progress_wf core1" using wf by (simp add: core_wf_def)
    from fill.op_step(6) [OF wf this room TrueI eq] show ?thesis ..
  qed (use eq in \<open>simp add: tr_fill_replication_windows_def\<close>)
  then have "handled core1 rd1 core2 rd2 \<or> (core2, rd2) = (core1, rd1)" "fits rd1 \<Longrightarrow> fits rd2"
    using replicates_handled [OF wf _ ok] replicates_ready_ok(3) [OF _ ok] by blast+
  moreover have "core_extends core core1" "same_apply core core1" "ready_frame rd1 = ready_frame rd"
    using h by (simp_all add: handled_def)
  ultimately show "handled core rd core2 rd2" "fits rd1 \<Longrightarrow> fits rd2"
    using h handled_trans by blast+
qed

lemma barrier_log [simp]:
  "c_log (fst (tr_read_start_active_barrier core rd)) = c_log core"
  "c_log (tr_read_move_waiting_to_active core) = c_log core"
  by (auto simp: tr_read_start_active_barrier_def tr_read_move_waiting_to_active_def Let_def
      read_emit_active_frame tr_read_clear_active_def split: prod.splits)

lemma require_capacity_cases:
  assumes "(case tr_require_capacity core rd n of (result, core, rd) \<Rightarrow>
              if result \<noteq> SALTS_OK then (result, core, rd) else body core rd) = r"
  obtains "n \<le> r_message_capacity rd" "body core rd = r"
    | "r = (SALTS_ENOSPC, core\<lparr>c_in_call := False\<rparr>, tr_reset_ready rd)"
  using assms by (auto simp: tr_require_capacity_def split: if_splits)

lemma poll_result:
  assumes wf: "core_wf core" and nocall: "\<not> c_in_call core" and room: "log_room (c_log core) 1"
    and eq: "tr_raft_core_poll core rd = (s, core', rd')"
  shows "outcome core rd True s core' rd'"
proof (rule begin_outcome [OF eq [unfolded tr_raft_core_poll_def] nocall])
  fix before
  let ?core = "core\<lparr>c_in_call := True\<rparr>" and ?rd = "tr_reset_ready rd"
  let ?barrier = "if c_role ?core = TR_RAFT_LEADER \<and> c_pending_read_contexts ?core = [] \<and> c_waiting_read_contexts ?core \<noteq> []
     then case tr_require_capacity ?core ?rd (tr_unpaused_remote_voter_count ?core) of (result, core, rd) \<Rightarrow>
            if result \<noteq> SALTS_OK then (result, core, rd)
            else (SALTS_OK, tr_read_start_active_barrier (tr_read_move_waiting_to_active core) rd)
     else (SALTS_OK, ?core, ?rd)"
  assume "(let (result, core, rd) = ?barrier
           in if result \<noteq> SALTS_OK then (result, core, rd)
              else case tr_fill_replication_windows core rd of (core, rd) \<Rightarrow> tr_finish core rd before) = (s, core', rd')"
  then obtain s1 core1 rd1 where bar: "?barrier = (s1, core1, rd1)"
    and rest: "(if s1 \<noteq> SALTS_OK then (s1, core1, rd1)
      else case tr_fill_replication_windows core1 rd1 of (core, rd) \<Rightarrow> tr_finish core rd before) = (s, core', rd')"
    by (cases ?barrier) auto
  have wf': "core_wf ?core" by (rule core_wf_in_call [OF wf])
  have "s1 = SALTS_ENOSPC \<and> core1 = core
      \<or> s1 = SALTS_OK \<and> handled ?core ?rd core1 rd1 \<and> fits rd1 \<and> c_log core1 = c_log core"
  proof (cases "c_role ?core = TR_RAFT_LEADER \<and> c_pending_read_contexts ?core = [] \<and> c_waiting_read_contexts ?core \<noteq> []")
    case True
    from bar [unfolded if_P [OF True]] show ?thesis
    proof (cases rule: require_capacity_cases)
      case 1
      then have st: "tr_read_start_active_barrier (tr_read_move_waiting_to_active ?core) ?rd = (core1, rd1)"
        "s1 = SALTS_OK" by simp_all
      have rd: "r_messages ?rd = []" "ready_ok ?core ?rd" using fresh_reset(1) [of rd] by (auto simp: fresh_def)
      have "c_log core1 = c_log core"
        using barrier_log(1) [of "tr_read_move_waiting_to_active ?core" ?rd] st(1) by simp
      with st(2) 1(1) move_barrier_handled [OF wf' _ rd st(1)] True show ?thesis by simp
    qed (use nocall in simp)
  next
    case False
    from bar [unfolded if_not_P [OF False]] handled_unchanged [OF wf' fresh_reset(1)] show ?thesis
      by (auto simp: fresh_fits)
  qed
  then show ?thesis
  proof (elim disjE conjE)
    assume "s1 = SALTS_ENOSPC" and "core1 = core"
    with rest nocall show ?thesis by (auto intro: error_outcome)
  next
    assume h: "s1 = SALTS_OK" "handled ?core ?rd core1 rd1" "fits rd1" "c_log core1 = c_log core"
    obtain core2 rd2 where fl: "tr_fill_replication_windows core1 rd1 = (core2, rd2)" by fastforce
    have "log_room (c_log core1) 1" using room h(4) by simp
    note f = fill_handled [OF h(2) this fl]
    from rest h(1) fl have "tr_finish core2 rd2 before = (s, core', rd')" by simp
    from finish_outcome [OF f(1) f(2) [OF h(3)] this] show ?thesis .
  qed
qed

lemma read_queue_wf:
  assumes "core_wf core" and "c_role core = TR_RAFT_LEADER" and "\<not> tr_read_context_exists core ctx"
    and "tr_read_total_count core < c_max_pending_reads core"
  shows "c_pending_read_contexts core \<noteq> [] \<Longrightarrow>
      core_wf (core\<lparr>c_pending_read_contexts := c_pending_read_contexts core @ [ctx]\<rparr>)"
    and "core_wf (core\<lparr>c_waiting_read_contexts := c_waiting_read_contexts core @ [ctx]\<rparr>)"
proof -
  have "reads_wf core" using assms(1) by (simp add: core_wf_def)
  with assms(2-4) have "c_pending_read_contexts core \<noteq> [] \<Longrightarrow>
      reads_wf (core\<lparr>c_pending_read_contexts := c_pending_read_contexts core @ [ctx]\<rparr>)"
    "reads_wf (core\<lparr>c_waiting_read_contexts := c_waiting_read_contexts core @ [ctx]\<rparr>)"
    by (auto simp: reads_wf_def tr_read_context_exists_def tr_read_total_count_def)
  then show "c_pending_read_contexts core \<noteq> [] \<Longrightarrow>
      core_wf (core\<lparr>c_pending_read_contexts := c_pending_read_contexts core @ [ctx]\<rparr>)"
    "core_wf (core\<lparr>c_waiting_read_contexts := c_waiting_read_contexts core @ [ctx]\<rparr>)"
    by (auto intro!: read_update_wf [OF assms(1)] simp: same_data_def)
qed

lemma read_index_start:
  assumes wf: "core_wf core" and fresh: "\<not> tr_read_context_exists core ctx" "c_role core = TR_RAFT_LEADER"
    and less: "tr_read_total_count core < c_max_pending_reads core" and none: "c_pending_read_contexts core = []"
    and rd: "fresh rd" and cap: "tr_unpaused_remote_voter_count core \<le> r_message_capacity rd"
    and eq: "tr_read_start_active_barrier (tr_read_move_waiting_to_active
      (core\<lparr>c_waiting_read_contexts := c_waiting_read_contexts core @ [ctx]\<rparr>)) rd = (core', rd')"
  shows "handled core rd core' rd'" and "fits rd'"
proof -
  let ?core = "core\<lparr>c_waiting_read_contexts := c_waiting_read_contexts core @ [ctx]\<rparr>"
  have "core_wf ?core" by (rule read_queue_wf(2) [OF wf fresh(2,1) less])
  moreover have "r_messages rd = []" "ready_ok ?core rd" using rd by (auto simp: fresh_def ready_ok_def)
  moreover have "c_pending_read_contexts ?core = []" using none by simp
  ultimately have start: "handled ?core rd core' rd'"
    "tr_unpaused_remote_voter_count ?core \<le> r_message_capacity rd \<Longrightarrow> fits rd'"
    using move_barrier_handled [OF _ _ _ _ eq] by blast+
  have "core_extends core ?core" "same_apply core ?core" by (simp_all add: core_extends_def same_apply_def)
  with start(1) show "handled core rd core' rd'" using handled_trans by blast
  have "tr_unpaused_remote_voter_count ?core = tr_unpaused_remote_voter_count core" by (rule count_frame) simp_all
  with start(2) cap show "fits rd'" by simp
qed

lemma read_index_result:
  assumes wf: "core_wf core" and nocall: "\<not> c_in_call core"
    and eq: "tr_raft_core_read_index core ctx rd = (s, core', rd')"
  shows "outcome core rd True s core' rd'"
proof (cases "ctx = 0")
  case True
  with eq nocall show ?thesis by (auto simp: tr_raft_core_read_index_def intro: error_outcome)
next
  case ctx: False
  let ?core = "core\<lparr>c_in_call := True\<rparr>" and ?rd = "tr_reset_ready rd"
  have wf': "core_wf ?core" by (rule core_wf_in_call [OF wf])
  show ?thesis
  proof (rule begin_outcome [OF eq [unfolded tr_raft_core_read_index_def if_not_P [OF ctx]] nocall], goal_cases)
    case (1 before)
    from 1(2) show ?case
    proof (elim guard_outcome [OF _ nocall], goal_cases)
      case body: 5
      then have pre: "c_role ?core = TR_RAFT_LEADER" "\<not> tr_read_context_exists ?core ctx"
        "tr_read_total_count ?core < c_max_pending_reads ?core" by simp_all
      note q = read_queue_wf [OF wf' pre]
      show ?case
      proof (cases "c_pending_read_contexts ?core = []")
        case none: True
        have "\<not> c_pending_read_contexts ?core \<noteq> []" using none by simp
        note start = body(5) [unfolded if_not_P [OF this]]
        show ?thesis
        proof (rule capacity_outcome [OF start nocall], goal_cases)
          case go: 1
          obtain core1 rd1 where st: "tr_read_start_active_barrier (tr_read_move_waiting_to_active
            (?core\<lparr>c_waiting_read_contexts := c_waiting_read_contexts ?core @ [ctx]\<rparr>)) ?rd = (core1, rd1)" by fastforce
          note h = read_index_start [OF wf' pre(2,1,3) none fresh_reset(1) go(1) st]
          from go(2) [unfolded Let_def st prod.case] show ?case by (rule finish_outcome [OF h])
        qed
      next
        case some: False
        let ?c1 = "if c_commit_index ?core = c_pending_read_index ?core
          then ?core\<lparr>c_pending_read_contexts := c_pending_read_contexts ?core @ [ctx]\<rparr>
          else ?core\<lparr>c_waiting_read_contexts := c_waiting_read_contexts ?core @ [ctx]\<rparr>"
        have "handled ?core ?rd ?c1 ?rd"
          using q(1) [OF some] q(2) by (intro handledI) (simp_all add: core_extends_def same_apply_def)
        then show ?thesis
          by (rule finish_outcome) (use body(5) [unfolded if_P [OF some]] in \<open>auto intro: fresh_fits\<close>)
      qed
    qed simp_all
  qed
qed

section \<open>Leadership transfer and snapshots\<close>

lemma same_log_handled:
  assumes "core_wf core'" and "core_same_log core core'" and "c_commit_index core' = c_commit_index core"
    and "handled core' rd core2 rd2"
  shows "handled core rd core2 rd2"
proof -
  have "core_extends core core'" by (rule core_same_log_extends [OF assms(2)]) (simp add: assms(3))
  from handled_trans [OF this core_same_log_apply [OF assms(2)] refl assms(4)] show ?thesis .
qed

lemma transfer_flags_wf:
  "core_wf (core\<lparr>c_transfer_target := n, c_transfer_elapsed_ticks := t\<rparr>) = core_wf core"
  "core_wf (core\<lparr>c_transfer_sent := b\<rparr>) = core_wf core"
  "progress_wf (core\<lparr>c_transfer_target := n, c_transfer_elapsed_ticks := t\<rparr>) = progress_wf core"
  by (simp_all add: core_frame progress_wf_def peer_bounds_def tr_peer_count_def peer_next_def peer_match_def
      peer_window_def)

lemma handled_sent: "handled core rd core' rd' \<Longrightarrow> handled core rd (core'\<lparr>c_transfer_sent := b\<rparr>) rd'"
  using message_ok_reads [of "core'\<lparr>c_transfer_sent := b\<rparr>" core']
  by (simp add: handled_def transfer_flags_wf core_extends_def same_apply_def ready_ok_def)

lemma transfer_send:
  fixes n :: node_id
  assumes wf: "core_wf core" and role: "c_role core = TR_RAFT_LEADER" and room: "log_room (c_log core) 1"
    and i: "i < tr_peer_count core" and rd: "fresh rd" and cap: "1 \<le> r_message_capacity rd"
  defines "core1 \<equiv> core\<lparr>c_transfer_target := n, c_transfer_elapsed_ticks := 0\<rparr>"
  shows "tr_emit core1 rd TR_RAFT_MSG_TIMEOUT_NOW n False = (b, rd1) \<Longrightarrow>
      handled core rd (core1\<lparr>c_transfer_sent := c\<rparr>) rd1 \<and> fits rd1"
    and "tr_emit_replication core1 rd i False = (b, core2, rd2) \<Longrightarrow>
      handled core rd (core2\<lparr>c_transfer_sent := c\<rparr>) rd2 \<and> fits rd2"
proof -
  have wf1: "core_wf core1" and same: "core_same_log core core1" "c_commit_index core1 = c_commit_index core"
    using wf by (simp_all add: core1_def transfer_flags_wf core_same_log_def)
  note lift = handled_sent [OF same_log_handled [OF wf1 same]]
  show "handled core rd (core1\<lparr>c_transfer_sent := c\<rparr>) rd1 \<and> fits rd1"
    if emit: "tr_emit core1 rd TR_RAFT_MSG_TIMEOUT_NOW n False = (b, rd1)"
  proof -
    have em: "emits core1 rd rd1 (if tr_peer_paused core1 n then 0 else 1)"
      by (rule tr_emit_emits(1) [OF _ emit]) simp
    note r = emits_ready [OF em fresh_ready_ok [OF rd]]
    have "handled core1 rd core1 rd1" using wf1 r(1,2) by (intro handledI) simp_all
    moreover have "fits rd1" using r(3) rd cap by (simp add: fresh_def split: if_splits)
    ultimately show ?thesis using lift by blast
  qed
  show "handled core rd (core2\<lparr>c_transfer_sent := c\<rparr>) rd2 \<and> fits rd2"
    if emit: "tr_emit_replication core1 rd i False = (b, core2, rd2)"
  proof -
    have "progress_wf core1" using wf role by (simp add: core1_def transfer_flags_wf core_wf_def)
    moreover have "log_room (c_log core1) 1" using room by (simp add: core1_def)
    moreover have "i < tr_peer_count core1 \<or> peer_next core1 i = 0" using i by (simp add: core1_def tr_peer_count_def)
    moreover have "snd (tr_emit_replication core1 rd i False) = (core2, rd2)" using emit by simp
    ultimately have rep: "replicates core1 rd core2 rd2" by (rule emit_peer.op_step(6) [OF wf1])
    note ok = fresh_ready_ok [OF rd, of core1]
    have "handled core1 rd core2 rd2" by (rule replicates_handled [OF wf1 rep ok])
    moreover have "fits rd2" by (rule replicates_ready_ok(3) [OF rep ok fresh_fits [OF rd]])
    ultimately show ?thesis using lift by blast
  qed
qed

lemma transfer_result:
  assumes wf: "core_wf core" and nocall: "\<not> c_in_call core" and room: "log_room (c_log core) 1"
    and eq: "tr_raft_core_transfer_leadership core n rd = (s, core', rd')"
  shows "outcome core rd True s core' rd'"
proof -
  let ?core = "core\<lparr>c_in_call := True\<rparr>" and ?rd = "tr_reset_ready rd" and ?i = "nat (tr_voter_index core n)"
  let ?core1 = "?core\<lparr>c_transfer_target := n, c_transfer_elapsed_ticks := 0\<rparr>"
  have wf': "core_wf ?core" by (rule core_wf_in_call [OF wf])
  have m: "membership_wf core" and room': "log_room (c_log ?core) 1" using wf room by (simp_all add: core_wf_def)
  note chain = entry_outcome [OF _ nocall] begin_outcome [OF _ nocall] guard_outcome [OF _ nocall]
    capacity_outcome [OF _ nocall]
  from eq [unfolded tr_raft_core_transfer_leadership_def Let_def] show ?thesis
  proof (elim chain, goal_cases)
    case body: (5 before)
    then have role: "c_role ?core = TR_RAFT_LEADER" by simp
    have i: "?i < tr_peer_count ?core"
      using voter_index_iff [OF m, of n] body(2) by (simp add: tr_peer_count_def)
    note send = transfer_send [OF wf' role room' i fresh_reset(1) body(6), of n]
    obtain b1 rd1 where emit: "tr_emit ?core1 ?rd TR_RAFT_MSG_TIMEOUT_NOW n False = (b1, rd1)" by fastforce
    obtain b2 core2 rd2 where rep: "tr_emit_replication ?core1 ?rd ?i False = (b2, core2, rd2)"
      by (metis prod_cases3)
    note h1 = send(1) [OF emit, of b1] and h2 = send(2) [OF rep, of False]
    from body(7) [unfolded emit rep prod.case] show ?case
      using finish_outcome [of core rd _ rd1 True before] finish_outcome [of core rd _ rd2 True before] h1 h2
      by (auto split: if_splits)
  qed simp_all
qed

lemma progress_update_wf:
  assumes "core_wf core" and "tables_wf (core\<lparr>c_append_windows := W, c_next_index := N, c_match_index := M\<rparr>)"
    and "progress_wf (core\<lparr>c_append_windows := W, c_next_index := N, c_match_index := M\<rparr>)"
  shows "core_wf (core\<lparr>c_append_windows := W, c_next_index := N, c_match_index := M\<rparr>)"
proof -
  let ?core = "core\<lparr>c_append_windows := W, c_next_index := N, c_match_index := M\<rparr>"
  have "index_order ?core = index_order core" "membership_wf ?core = membership_wf core"
    "role_wf ?core = role_wf core" "reads_wf ?core = reads_wf core"
    by (simp_all add: index_order_def membership_wf_def role_wf_def reads_wf_def tr_core_membership_def
        tr_read_total_count_def)
  with assms show ?thesis by (simp add: core_wf_def)
qed

lemma snapshot_progress:
  fixes i :: nat
  assumes wf: "core_wf core" and role: "c_role core = TR_RAFT_LEADER" and room: "log_room (c_log core) 1"
    and index: "index \<le> log_base_index (c_log core)" and i: "i < tr_peer_count core"
  defines "core1 \<equiv> core\<lparr>
       c_match_index := (if index > arr_get 0 (c_match_index core) (int i)
                         then arr_set (c_match_index core) (int i) index else c_match_index core),
       c_next_index := arr_set (c_next_index core) (int i) (index + 1),
       c_append_windows := arr_set (c_append_windows core) (int i)
         (tr_append_window_reset (arr_get window_zero (c_append_windows core) (int i)) True)\<rparr>"
  shows "core_wf core1" and "progress_wf core1" and "core_same_log core core1"
    and "c_commit_index core1 = c_commit_index core" and "tr_peer_count core1 = tr_peer_count core"
proof -
  let ?last = "tr_raft_log_last_index (c_log core)"
  define m where "m = (if index > peer_match core i then index else peer_match core i)"
  define w where "w = tr_append_window_reset (arr_get window_zero (c_append_windows core) (int i)) True"
  show "core_same_log core core1" "c_commit_index core1 = c_commit_index core" "tr_peer_count core1 = tr_peer_count core"
    by (simp_all add: core1_def core_same_log_def tr_peer_count_def)
  have tables: "tables_wf core" and progress: "progress_wf core" and lst: "index \<le> ?last"
    using wf role index by (auto simp: core_wf_def index_order_def intro: order_trans)
  have nat: "unat (index + 1) = Suc (unat index)" by (rule unat_room_1 [OF room lst])
  have m: "m \<le> ?last" using progress i lst by (auto simp: m_def progress_wf_def peer_bounds_def)
  have core1: "core1 = core\<lparr>c_append_windows := arr_set (c_append_windows core) (int i) w,
      c_next_index := arr_set (c_next_index core) (int i) (index + 1),
      c_match_index := arr_set (c_match_index core) (int i) m\<rparr>"
    by (rule raft_core.equality) (simp_all add: core1_def w_def m_def peer_match_def arr_set_same)
  have bounds: "window_bounded ?last w" "0 < index + 1" "unat (index + 1) \<le> Suc (unat ?last)"
    using nat lst by (simp_all add: w_def u64_less_unat u64_le_unat)
  note set = set_peer_progress [OF tables progress bounds m, of "int i"]
  show "core_wf core1" "progress_wf core1"
    unfolding core1 by (rule progress_update_wf [OF wf set]) (rule set(2))
qed

lemma snapshot_completed_result:
  assumes wf: "core_wf core" and nocall: "\<not> c_in_call core" and room: "log_room (c_log core) 1"
    and eq: "tr_raft_core_snapshot_completed core n index rd = (s, core', rd')"
  shows "outcome core rd True s core' rd'"
proof -
  let ?core = "core\<lparr>c_in_call := True\<rparr>" and ?rd = "tr_reset_ready rd"
  have wf': "core_wf ?core" by (rule core_wf_in_call [OF wf])
  have m: "membership_wf core" and room': "log_room (c_log ?core) 1" using wf room by (simp_all add: core_wf_def)
  note chain = entry_outcome [OF _ nocall] begin_outcome [OF _ nocall] guard_outcome [OF _ nocall]
    capacity_outcome [OF _ nocall]
  from eq [unfolded tr_raft_core_snapshot_completed_def Let_def] show ?thesis
  proof (elim chain, goal_cases)
    case body: (4 before)
    then have role: "c_role ?core = TR_RAFT_LEADER" by simp
    have index: "index \<le> log_base_index (c_log ?core)" using body(2) by (simp add: not_less)
    obtain i where i: "tr_peer_index core n = int i" using body(2) by (metis nonneg_int_cases not_less)
    then have bound: "i < tr_peer_count ?core"
      using voter_index_iff(4) [OF m, of n] by (simp add: tr_peer_count_def)
    define core1 where "core1 = ?core\<lparr>
       c_match_index := (if index > arr_get 0 (c_match_index ?core) (int i)
                         then arr_set (c_match_index ?core) (int i) index else c_match_index ?core),
       c_next_index := arr_set (c_next_index ?core) (int i) (index + 1),
       c_append_windows := arr_set (c_append_windows ?core) (int i)
         (tr_append_window_reset (arr_get window_zero (c_append_windows ?core) (int i)) True)\<rparr>"
    note sp = snapshot_progress [OF wf' role room' index bound, folded core1_def]
    obtain core2 rd2 where fl: "tr_fill_peer_replication_window core1 ?rd i = (core2, rd2)" by fastforce
    have room1: "log_room (c_log core1) 1" and pos: "i < tr_peer_count core1 \<or> peer_next core1 i = 0"
      using room' sp(3,5) bound by (simp_all add: core_same_log_def)
    note rep = fill_peer.op_step(6) [OF sp(1,2) room1 pos fl]
    note ok = fresh_ready_ok [OF fresh_reset(1), of core1 rd]
    have "handled ?core ?rd core2 rd2"
      by (rule same_log_handled [OF sp(1,3,4) replicates_handled [OF sp(1) rep ok]])
    moreover have "fits rd2"
      by (rule replicates_ready_ok(3) [OF rep ok fresh_fits [OF fresh_reset(1)]])
    moreover have "tr_finish core2 rd2 before = (s, core', rd')"
      using body(6) [unfolded i nat_int, folded core1_def, unfolded fl prod.case] .
    ultimately show ?case by (intro finish_outcome)
  qed simp_all
qed

section \<open>Proposals and membership changes\<close>

lemma append_state_wf:
  assumes wf: "core_wf core" and role: "c_role core = TR_RAFT_LEADER"
    and cont: "log_continues (c_log core) es" and room: "log_room (c_log core) (Suc (length es))"
  defines "core1 \<equiv> core\<lparr>c_log := log_append (c_log core) es\<rparr>"
  shows "core_wf core1" and "progress_wf core1" and "log_room (c_log core1) 1" and "core_extends core core1"
    and "same_apply core core1"
proof -
  have l: "log_wf (c_log core)" and progress: "progress_wf core" and order: "index_order core"
    using wf role by (simp_all add: core_wf_def)
  note app = log_append_facts [OF l cont room]
  show progress1: "progress_wf core1" unfolding core1_def by (rule progress_grow [OF progress app(3)])
  have base: "log_base_index (log_append (c_log core) es) = log_base_index (c_log core)" by (simp add: log_append_def)
  have "index_order core1"
    using order app(3) base by (auto simp: core1_def index_order_def intro: order_trans)
  moreover have "membership_wf core1"
    using wf app(3) by (auto simp: core1_def core_wf_def membership_wf_def tr_core_membership_def intro: order_trans)
  moreover have "tables_wf core1 = tables_wf core" "role_wf core1 = role_wf core" "reads_wf core1 = reads_wf core"
    by (simp_all add: core1_def tables_wf_def role_wf_def reads_wf_def tr_read_total_count_def)
  ultimately show "core_wf core1" using wf progress1 app(1) by (simp add: core_wf_def) (simp add: core1_def)
  show "log_room (c_log core1) 1" using app(4) by (simp add: core1_def)
  have "c_commit_index core \<le> tr_raft_log_last_index (c_log core)" using order by (simp add: index_order_def)
  from log_keeps_mono [OF app(2) this] show "core_extends core core1" by (simp add: core1_def core_extends_def)
  show "same_apply core core1" by (simp add: core1_def same_apply_def)
qed

text \<open>The part of a proposal after the entries were appended.\<close>

lemma propose_append:
  fixes rd :: ready and k :: int
  assumes wf: "core_wf core" and role: "c_role core = TR_RAFT_LEADER" and rd: "fresh rd"
    and cont: "log_continues (c_log core) es" and room: "log_room (c_log core) (Suc (length es))"
    and lst: "e_index e = tr_raft_log_last_index (log_append (c_log core) es)"
  defines "core1 \<equiv> core\<lparr>c_log := log_append (c_log core) es\<rparr>"
  defines "core2 \<equiv> core1\<lparr>c_match_index := arr_set (c_match_index core1) k (e_index e),
      c_next_index := arr_set (c_next_index core1) k (e_index e + 1)\<rparr>"
  assumes commit: "tr_update_commit core2 (rd\<lparr>r_log_changed := True, r_log_entries := es, r_log_entry_count := n\<rparr>)
      = (s, core3, rd3)" and send: "tr_broadcast_replication core3 rd3 = (core4, rd4)"
  shows "s = SALTS_OK" and "handled core rd core4 rd4" and "fits rd4"
proof -
  note c1 = append_state_wf [OF wf role cont room, folded core1_def]
  have "e_index e = tr_raft_log_last_index (c_log core1)" by (simp add: lst core1_def)
  note c2 = self_progress_wf [OF c1(1-3) this, of k, folded core2_def]
  let ?rd = "rd\<lparr>r_log_changed := True, r_log_entries := es, r_log_entry_count := n\<rparr>"
  have "c_role core2 \<in> {TR_RAFT_FOLLOWER, TR_RAFT_LEADER}" "log_room (c_log core2) 1" "fresh ?rd"
    using c1(3) role rd by (simp_all add: core2_def core1_def fresh_def)
  note cb = commit_broadcast_handled [OF c2(1) this(1) c2(2) this(2,3) commit send]
  have "core_extends core core2" "same_apply core core2" "ready_frame ?rd = ready_frame rd"
    using c1(4,5) by (simp_all add: core2_def core_extends_def same_apply_def)
  with cb show "s = SALTS_OK" "handled core rd core4 rd4" "fits rd4" using handled_trans by blast+
qed

lemma batch_last:
  "ps \<noteq> [] \<Longrightarrow> log_continues l (batch_entries (tr_raft_log_last_index l + 1) trm ps) \<Longrightarrow>
     e_index (last (batch_entries (tr_raft_log_last_index l + 1) trm ps))
       = tr_raft_log_last_index (log_append l (batch_entries (tr_raft_log_last_index l + 1) trm ps))"
proof -
  assume ps: "ps \<noteq> []"
  then have "batch_entries (tr_raft_log_last_index l + 1) trm ps \<noteq> []"
    by (metis length_batch_entries length_0_conv)
  then have "last (batch_entries (tr_raft_log_last_index l + 1) trm ps)
      = batch_entries (tr_raft_log_last_index l + 1) trm ps ! (length ps - 1)"
    by (simp add: last_conv_nth)
  moreover have "1 + of_nat (length ps - 1) = (of_nat (length ps) :: u64)"
    using ps by (metis One_nat_def Suc_pred length_greater_0_conv of_nat_Suc)
  ultimately show ?thesis using ps by (simp add: nth_batch_entries last_index_append)
qed

lemma propose_batch_result:
  assumes wf: "core_wf core" and nocall: "\<not> c_in_call core" and vec: "log_vec_ok V (c_log core)"
    and room: "log_room (c_log core) 17"
    and eq: "tr_raft_core_propose_batch V core (Some ps) rd = (s, core', rd')"
  shows "outcome core rd True s core' rd'"
proof -
  let ?core = "core\<lparr>c_in_call := True\<rparr>" and ?rd = "tr_reset_ready rd"
  let ?es = "batch_entries (tr_raft_log_last_index (c_log core) + 1) (c_term core) ps"
  have wf': "core_wf ?core" by (rule core_wf_in_call [OF wf])
  have l: "log_wf (c_log core)" using wf by (simp add: core_wf_def)
  note chain = entry_outcome [OF _ nocall] begin_outcome [OF _ nocall] guard_outcome [OF _ nocall]
    capacity_outcome [OF _ nocall]
  note triv = simp_thms if_True if_False
  from eq [unfolded tr_raft_core_propose_batch_def option.case Let_def] show ?thesis
  proof (elim chain, goal_cases)
    case body: (4 before)
    then have role: "c_role ?core = TR_RAFT_LEADER" by simp
    have trm: "c_term core \<noteq> 0" using wf role by (simp add: core_wf_def role_wf_def)
    have ps: "ps \<noteq> []" "length ps \<le> 16" "\<not> list_ex proposal_bad ps" using body(1) by simp_all
    show ?case
    proof (cases "length ps > log_max_entries (c_log core) - length (log_entries (c_log core))")
      case True
      have "tr_raft_log_append_local_batch V (c_log ?core) (c_term ?core) (Some ps) = (SALTS_ENOSPC, c_log core, [])"
        using append_batch_eq [OF l vec, of "c_term core" ps] trm ps True by simp
      from body(6) [unfolded this prod.case] nocall show ?thesis by (auto intro: error_outcome)
    next
      case False
      have app: "tr_raft_log_append_local_batch V (c_log ?core) (c_term ?core) (Some ps)
          = (SALTS_OK, log_append (c_log ?core) ?es, ?es)"
        using append_batch_eq [OF l vec, of "c_term core" ps] trm ps False by simp
      have cont: "log_continues (c_log ?core) ?es"
        using batch_entries_continue [OF ps(3) trm, of "c_log core"] False l by (auto simp: log_wf_def not_less)
      have room': "log_room (c_log ?core) (Suc (length ?es))"
        using room ps(2) by (simp add: log_room_def)
      have lst: "e_index (last ?es) = tr_raft_log_last_index (log_append (c_log ?core) ?es)"
        using batch_last [OF ps(1), of "c_log core" "c_term core"] cont by simp
      let ?core1 = "?core\<lparr>c_log := log_append (c_log ?core) ?es\<rparr>"
      let ?k = "tr_voter_index ?core1 (c_self_id ?core1)"
      let ?core2 = "?core1\<lparr>c_match_index := arr_set (c_match_index ?core1) ?k (e_index (last ?es)),
          c_next_index := arr_set (c_next_index ?core1) ?k (e_index (last ?es) + 1)\<rparr>"
      obtain s3 core3 rd3 where commit: "tr_update_commit ?core2
          (?rd\<lparr>r_log_changed := True, r_log_entries := ?es, r_log_entry_count := length ps\<rparr>) = (s3, core3, rd3)"
        by (metis prod_cases3)
      obtain core4 rd4 where send: "tr_broadcast_replication core3 rd3 = (core4, rd4)" by fastforce
      note h = propose_append [OF wf' role fresh_reset(1) cont room' lst commit send]
      have "tr_finish core4 rd4 before = (s, core', rd')"
        using body(6) [unfolded app prod.case triv commit h(1) send] .
      then show ?thesis by (rule finish_outcome [OF h(2,3)])
    qed
  qed simp_all
qed

lemma configuration_outcome:
  assumes wf: "core_wf core" and nocall: "\<not> c_in_call core" and vec: "log_vec_ok V (c_log core)"
    and room: "log_room (c_log core) 2" and role: "c_role core = TR_RAFT_LEADER"
    and step: "(case x of Inl result \<Rightarrow> (result, core\<lparr>c_in_call := True\<rparr>, tr_reset_ready rd)
       | Inr c \<Rightarrow> tr_core_append_configuration V (core\<lparr>c_in_call := True\<rparr>) c (tr_reset_ready rd)) = (s1, core1, rd1)"
    and err: "\<And>e. x = Inl e \<Longrightarrow> e \<notin> {SALTS_OK, C_FAULT}"
    and eq: "(if s1 \<noteq> SALTS_OK then (s1, core1\<lparr>c_in_call := False\<rparr>, tr_reset_ready rd1)
              else tr_finish core1 rd1 before) = (s, core', rd')"
  shows "outcome core rd True s core' rd'"
proof (cases x)
  case (Inl e)
  then have "s1 = e" "core1 = core\<lparr>c_in_call := True\<rparr>" using step by simp_all
  with err [OF Inl] eq nocall show ?thesis by (auto intro: error_outcome)
next
  case (Inr c)
  let ?core = "core\<lparr>c_in_call := True\<rparr>"
  have app: "tr_core_append_configuration V ?core c (tr_reset_ready rd) = (s1, core1, rd1)" using step Inr by simp
  have "core_wf ?core" "c_role ?core = TR_RAFT_LEADER" "log_vec_ok V (c_log ?core)" "log_room (c_log ?core) 2"
    using core_wf_in_call [OF wf] role vec room by simp_all
  from append_configuration_handled [OF this fresh_reset(1) app] show ?thesis
  proof (elim disjE conjE)
    assume "s1 \<notin> {SALTS_OK, C_FAULT}" and "core1 = ?core"
    with eq nocall show ?thesis by (auto intro: error_outcome)
  next
    assume "s1 \<notin> {SALTS_OK, C_FAULT}" and "core1 = ?core\<lparr>c_in_call := False\<rparr>"
    with eq nocall show ?thesis by (auto intro: error_outcome)
  next
    assume "s1 = SALTS_OK" "handled ?core (tr_reset_ready rd) core1 rd1" "fits rd1"
    with eq show ?thesis by (intro finish_outcome) simp_all
  qed
qed

lemma transition_propose_error:
  "tr_raft_membership_transition_propose t vs ls tid = Inl e \<Longrightarrow> e \<in> {SALTS_EBUSY, SALTS_EINVAL, SALTS_ENOSPC}"
  by (auto simp: tr_raft_membership_transition_propose_def tr_raft_membership_joint_def Let_def split: if_splits)

lemma transition_final_error: "tr_raft_membership_transition_final t = Inl e \<Longrightarrow> e = SALTS_EINVAL"
  using tr_raft_conf_validate_cases
  by (auto simp: tr_raft_membership_transition_final_def tr_raft_membership_final_def Let_def split: if_splits)

lemma change_membership_result:
  assumes wf: "core_wf core" and nocall: "\<not> c_in_call core" and vec: "log_vec_ok V (c_log core)"
    and room: "log_room (c_log core) 2"
    and eq: "tr_raft_core_change_membership V core change rd = (s, core', rd')"
  shows "outcome core rd True s core' rd'"
proof -
  note chain = entry_outcome [OF _ nocall] begin_outcome [OF _ nocall] guard_outcome [OF _ nocall]
    capacity_outcome [OF _ nocall]
  let ?x = "tr_raft_membership_transition_propose (c_transition core) (mc_voters change)
      (mc_learners change) (mc_transition_id change)"
  from eq [unfolded tr_raft_core_change_membership_def Let_def] show ?thesis
  proof (elim chain, goal_cases)
    case body: (4 before)
    then have role: "c_role core = TR_RAFT_LEADER" by simp
    obtain s1 core1 rd1 where step: "(case ?x of
         Inl result \<Rightarrow> (result, core\<lparr>c_in_call := True\<rparr>, tr_reset_ready rd)
       | Inr c \<Rightarrow> tr_core_append_configuration V (core\<lparr>c_in_call := True\<rparr>) c (tr_reset_ready rd)) = (s1, core1, rd1)"
      by (metis prod_cases3)
    have err: "e \<notin> {SALTS_OK, C_FAULT}" if "?x = Inl e" for e
      using transition_propose_error [OF that] by auto
    from body(5) step show ?case
      by (intro configuration_outcome [OF wf nocall vec room role step err]) auto
  qed simp_all
qed

section \<open>Messages\<close>

lemma length_filter_imp: "(\<And>x. P x \<Longrightarrow> Q x) \<Longrightarrow> length (filter P xs) \<le> length (filter Q xs)"
  by (induction xs) (auto simp: le_SucI)

lemma remote_voter_le_peer: "tr_unpaused_remote_voter_count core \<le> tr_unpaused_remote_peer_count core"
  unfolding tr_unpaused_remote_voter_count_def tr_unpaused_remote_peer_count_def
  by (rule length_filter_imp) simp

lemma dispatch_handled:
  assumes wf: "core_wf core" and rd: "fresh rd" and vec: "log_vec_ok V (c_log core)" and room: "log_room (c_log core) 9"
    and m: "message_wf m" and sender: "m_from m \<noteq> 0" "m_from m \<noteq> c_self_id core" and i: "i < tr_peer_count core"
    and entries: "m_type m \<in> {TR_RAFT_MSG_HEARTBEAT_REQUEST, TR_RAFT_MSG_APPEND_REQUEST} \<longrightarrow> length (m_entries m) \<le> 8"
    and req: "step_required core m vi = Some n" "n \<le> r_message_capacity rd"
    and eq: "step_dispatch V core m rd (int i) vi = (s, core', rd')"
  shows "s \<notin> {SALTS_OK, C_FAULT} \<and> core' = core
    \<or> s = SALTS_OK \<and> handled core rd core' rd' \<and> (1 \<le> r_message_capacity rd \<longrightarrow> fits rd')"
proof -
  have room1: "log_room (c_log core) 1" by (rule log_room_mono [OF room]) simp
  show ?thesis
  proof (cases "m_type m")
    case TR_RAFT_MSG_PRE_VOTE_REQUEST
    with eq req pre_vote_request_handled [OF wf rd, of m core' rd'] show ?thesis
      by (auto simp: step_dispatch_def step_required_def)
  next
    case TR_RAFT_MSG_PRE_VOTE_RESPONSE
    with eq have e: "tr_step_pre_vote_response core m rd vi = (core', rd')" "s = SALTS_OK"
      by (simp_all add: step_dispatch_def)
    note h = pre_vote_response_handled [OF wf room1 rd m TR_RAFT_MSG_PRE_VOTE_RESPONSE e(1)]
    have "tr_will_pre_vote_win core m vi \<Longrightarrow> tr_unpaused_remote_voter_count core \<le> r_message_capacity rd"
      using req TR_RAFT_MSG_PRE_VOTE_RESPONSE remote_voter_le_peer [of core] by (simp add: step_required_def)
    with h e(2) show ?thesis by blast
  next
    case TR_RAFT_MSG_VOTE_REQUEST
    with eq req vote_request_handled [OF wf rd sender, of core' rd'] show ?thesis
      by (auto simp: step_dispatch_def step_required_def)
  next
    case TR_RAFT_MSG_VOTE_RESPONSE
    with eq vote_response_handled [OF wf room1 rd, of m vi core' rd'] show ?thesis
      by (auto simp: step_dispatch_def)
  next
    case TR_RAFT_MSG_TIMEOUT_NOW
    with eq req timeout_now_handled [OF wf room1 rd, of m core' rd'] show ?thesis
      by (auto simp: step_dispatch_def step_required_def split: if_splits)
  next
    case TR_RAFT_MSG_READ_INDEX_REQUEST
    with eq req read_index_request_handled [OF wf rd, of m core' rd'] show ?thesis
      by (auto simp: step_dispatch_def step_required_def split: if_splits)
  next
    case TR_RAFT_MSG_READ_INDEX_RESPONSE
    with eq read_index_response_handled [OF wf rd, of m vi core' rd'] show ?thesis
      by (auto simp: step_dispatch_def)
  next
    case TR_RAFT_MSG_HEARTBEAT_REQUEST
    then have "incoming_ok (m_previous_log_index m) (m_entries m)" "length (m_entries m) \<le> 8"
      using m entries by (simp_all add: message_wf_def)
    with heartbeat_request_handled [OF wf vec room rd this] eq TR_RAFT_MSG_HEARTBEAT_REQUEST show ?thesis
      by (fastforce simp: step_dispatch_def fits_def handled_def)
  next
    case TR_RAFT_MSG_APPEND_REQUEST
    then have "incoming_ok (m_previous_log_index m) (m_entries m)" "length (m_entries m) \<le> 8"
      using m entries by (simp_all add: message_wf_def)
    with heartbeat_request_handled [OF wf vec room rd this] eq TR_RAFT_MSG_APPEND_REQUEST show ?thesis
      by (fastforce simp: step_dispatch_def fits_def handled_def)
  next
    case TR_RAFT_MSG_HEARTBEAT_RESPONSE
    with eq heartbeat_response_handled [OF wf room1 rd i, of m s core' rd'] show ?thesis
      by (auto simp: step_dispatch_def)
  next
    case TR_RAFT_MSG_APPEND_RESPONSE
    with eq heartbeat_response_handled [OF wf room1 rd i, of m s core' rd'] show ?thesis
      by (auto simp: step_dispatch_def)
  next
    case TR_RAFT_MSG_OTHER
    with req show ?thesis by (simp add: step_required_def)
  qed
qed

lemma option_case_eq: "(case x of None \<Rightarrow> a | Some y \<Rightarrow> f y) = (if x = None then a else f (the x))"
  by (cases x) simp_all

lemma step_result:
  assumes wf: "core_wf core" and nocall: "\<not> c_in_call core" and vec: "log_vec_ok V (c_log core)"
    and room: "log_room (c_log core) 9" and m: "message_wf m"
    and eq: "tr_raft_core_step V core m rd = (s, core', rd')"
  shows "outcome core rd (1 \<le> r_message_capacity rd) s core' rd'"
proof -
  let ?core = "core\<lparr>c_in_call := True\<rparr>" and ?rd = "tr_reset_ready rd" and ?vi = "tr_voter_index core (m_from m)"
  note chain = entry_outcome [OF _ nocall] begin_outcome [OF _ nocall] guard_outcome [OF _ nocall]
    capacity_outcome [OF _ nocall]
  have mem: "membership_wf core" using wf by (simp add: core_wf_def)
  from eq [unfolded tr_raft_core_step_def Let_def option_case_eq] show ?thesis
  proof (elim chain, goal_cases)
    case body: (6 before)
    obtain i where i: "tr_peer_index core (m_from m) = int i" using body(2) by (metis nonneg_int_cases not_less)
    then have bound: "i < tr_peer_count ?core" "m_from m \<in> set (c_peers core)"
      using voter_index_iff(3,4) [OF mem, of "m_from m"] by (simp_all add: tr_peer_count_def)
    then have sender: "m_from m \<noteq> 0" "m_from m \<noteq> c_self_id ?core"
      using peer_set_facts(2) [OF mem] body(1) by auto
    have entries: "m_type m \<in> {TR_RAFT_MSG_HEARTBEAT_REQUEST, TR_RAFT_MSG_APPEND_REQUEST} \<longrightarrow> length (m_entries m) \<le> 8"
      using body(7) by auto
    have req: "step_required ?core m ?vi = Some (the (step_required ?core m ?vi))" using body(5) by simp
    obtain s1 core1 rd1 where d: "step_dispatch V ?core m ?rd (int i) ?vi = (s1, core1, rd1)" by (metis prod_cases3)
    have "log_vec_ok V (c_log ?core)" "log_room (c_log ?core) 9" using vec room by simp_all
    note h = dispatch_handled [OF core_wf_in_call [OF wf] fresh_reset(1) this m sender bound(1) entries req body(6) d]
    note fin = body(8) [unfolded i d prod.case]
    from h show ?case
    proof (elim disjE conjE)
      assume "s1 \<notin> {SALTS_OK, C_FAULT}" and "core1 = ?core"
      with fin nocall show ?thesis by (auto intro: error_outcome)
    next
      assume h1: "s1 = SALTS_OK" "handled ?core ?rd core1 rd1" "1 \<le> r_message_capacity ?rd \<longrightarrow> fits rd1"
      have "r_message_capacity ?rd = r_message_capacity rd" by (simp add: tr_reset_ready_def)
      with h1 fin show ?thesis by (intro finish_outcome [OF h1(2)]) simp_all
    qed
  qed simp_all
qed

end
