(* ===== verification/Raft_Core_Run.thy ===== *)
theory Raft_Core_Run
  imports Raft_Core_Safety
begin

text \<open>
  Runs of a Raft core: the clock, the acknowledgements, compaction and the pause switch keep the
  invariant as well, and so does every sequence of calls of the public interface. The states a core
  can reach from its creation are an inductive predicate over the calls.
\<close>

section \<open>The clock\<close>

lemma window_age_fields:
  assumes "window_wf w"
  shows "map (\<lambda>x. (if_previous_index x, if_last_index x)) (window_list (snd (tr_append_window_age w e lim)))
    = map (\<lambda>x. (if_previous_index x, if_last_index x)) (window_list w)"
proof -
  have "window_wf w \<longrightarrow> (\<forall>j. if_previous_index (tr_append_window_at (snd (window_age_loop w e lim is)) j)
        = if_previous_index (tr_append_window_at w j)
      \<and> if_last_index (tr_append_window_at (snd (window_age_loop w e lim is)) j)
        = if_last_index (tr_append_window_at w j))" for "is"
    by (induction w e lim "is" rule: window_age_loop.induct)
      (auto simp: Let_def window_wf_def tr_append_window_at_def window_slot_def nth_list_update)
  with assms window_age_wf(2) [OF assms] show ?thesis
    by (simp add: window_list_def tr_append_window_age_def)
qed

lemma window_age_bounded:
  assumes "window_bounded lst w"
  shows "window_bounded lst (snd (tr_append_window_age w e lim))"
proof -
  have wf: "window_wf w" using assms by (simp add: window_bounded_def)
  note fields = window_age_fields [OF wf, of e lim]
  have "\<forall>x \<in> set (window_list (snd (tr_append_window_age w e lim))).
      (if_previous_index x, if_last_index x) \<in> (\<lambda>x. (if_previous_index x, if_last_index x)) ` set (window_list w)"
    using arg_cong [OF fields, of set] by auto
  with assms window_age_wf(1) [OF wf] show ?thesis by (fastforce simp: window_bounded_def)
qed

text \<open>A step of the leader's clock that only touches timers and windows.\<close>

definition quiet :: "raft_core \<Rightarrow> raft_core \<Rightarrow> bool" where
  "quiet core core' \<longleftrightarrow> core_wf core' \<and> core_same_log core core' \<and> c_commit_index core' = c_commit_index core
     \<and> c_role core' = c_role core \<and> c_peers core' = c_peers core"

lemma quiet_refl: "core_wf core \<Longrightarrow> quiet core core"
  by (simp add: quiet_def)

lemma quiet_trans: "quiet a b \<Longrightarrow> quiet b c \<Longrightarrow> quiet a c"
  using core_same_log_trans by (fastforce simp: quiet_def)

lemma tick_age_peer_quiet:
  assumes wf: "core_wf core" and role: "c_role core = TR_RAFT_LEADER" and room: "log_room (c_log core) 1"
    and i: "i < tr_peer_count core"
  shows "quiet core (tick_age_peer elapsed core i)"
proof -
  let ?last = "tr_raft_log_last_index (c_log core)" and ?w = "peer_window core i"
  obtain b w where age: "tr_append_window_age ?w elapsed (c_heartbeat_ticks core) = (b, w)" by fastforce
  have tables: "tables_wf core" and progress: "progress_wf core" using wf role by (simp_all add: core_wf_def)
  have bounds: "peer_bounds core i" using progress i by (simp add: progress_wf_def)
  have w: "window_bounded ?last w"
    using window_age_bounded [OF peer_window_bounded [OF tables progress i], of elapsed "c_heartbeat_ticks core"]
    by (simp add: age)
  have nat: "unat (peer_match core i + 1) = Suc (unat (peer_match core i))"
    using bounds by (intro unat_room_1 [OF room]) (simp add: peer_bounds_def)
  define keep where "keep = core\<lparr>c_append_windows := arr_set (c_append_windows core) (int i) w,
      c_next_index := arr_set (c_next_index core) (int i) (peer_next core i)\<rparr>"
  define reset where "reset = core\<lparr>c_append_windows := arr_set (c_append_windows core) (int i)
        (tr_append_window_reset w True),
      c_next_index := arr_set (c_next_index core) (int i) (peer_match core i + 1)\<rparr>"
  have frame: "quiet core (core\<lparr>c_append_windows := W, c_next_index := N\<rparr>)"
    if "tables_wf (core\<lparr>c_append_windows := W, c_next_index := N\<rparr>)"
      "progress_wf (core\<lparr>c_append_windows := W, c_next_index := N\<rparr>)" for W N
    using that wf by (simp add: quiet_def core_wf_def tables_update_frame core_same_log_def)
  have "quiet core keep"
    unfolding keep_def using bounds
    by (intro frame set_peer_window_next [OF tables progress w _ _ i]) (simp_all add: peer_bounds_def)
  moreover have "quiet core reset"
    unfolding reset_def using bounds nat
    by (intro frame set_peer_window_next [OF tables progress _ _ _ i])
      (simp_all add: peer_bounds_def u64_less_unat u64_le_unat)
  moreover have "keep = core\<lparr>c_append_windows := arr_set (c_append_windows core) (int i) w\<rparr>"
    by (rule raft_core.equality) (simp_all add: keep_def peer_next_def arr_set_same)
  moreover have "reset = core\<lparr>c_next_index := arr_set (c_next_index core) (int i)
        (arr_get 0 (c_match_index core) (int i) + 1),
      c_append_windows := arr_set (c_append_windows core) (int i) (tr_append_window_reset w True)\<rparr>"
    by (rule raft_core.equality) (simp_all add: reset_def peer_match_def)
  ultimately show ?thesis
    using age quiet_refl [OF wf] by (simp add: tick_age_peer_def Let_def peer_window_def)
qed

lemma tick_age_quiet:
  assumes "core_wf core" and "c_role core = TR_RAFT_LEADER" and "log_room (c_log core) 1"
    and "set is \<subseteq> {..<tr_peer_count core}"
  shows "quiet core (foldl (tick_age_peer elapsed) core is)"
  using assms
proof (induction "is" arbitrary: core)
  case Nil
  then show ?case by (simp add: quiet_refl)
next
  case (Cons i "is")
  have one: "quiet core (tick_age_peer elapsed core i)" using Cons.prems by (intro tick_age_peer_quiet) auto
  then have "quiet (tick_age_peer elapsed core i) (foldl (tick_age_peer elapsed) (tick_age_peer elapsed core i) is)"
    using Cons.prems by (intro Cons.IH) (auto simp: quiet_def core_same_log_def tr_peer_count_def)
  with one show ?case using quiet_trans by simp
qed

text \<open>The clock is the one call that may fail after it changed the state: when the heartbeat does not
  fit, the timers and windows have moved on already.\<close>

definition tick_outcome :: "raft_core \<Rightarrow> ready \<Rightarrow> salts_status \<Rightarrow> raft_core \<Rightarrow> ready \<Rightarrow> bool" where
  "tick_outcome core rd s core' rd' \<longleftrightarrow>
     outcome core rd True s core' rd' \<or> s = SALTS_ENOSPC \<and> quiet core core'"

lemma quiet_flags:
  assumes "core_wf core"
  shows "quiet core (core\<lparr>c_check_quorum_elapsed_ticks := t\<rparr>)"
    and "quiet core (core\<lparr>c_check_quorum_elapsed_ticks := t, c_recent_active := u\<rparr>)"
    and "quiet core (core\<lparr>c_heartbeat_elapsed_ticks := t\<rparr>)"
    and "quiet core (core\<lparr>c_election_elapsed_ticks := t\<rparr>)"
    and "quiet core (core\<lparr>c_election_elapsed_ticks := t, c_election_timeout_ticks := l\<rparr>)"
    and "quiet core (tick_transfer e core)"
  using assms by (simp_all add: quiet_def core_frame core_same_log_def tick_transfer_def)

lemma quiet_handled:
  assumes "quiet core core'" and "handled core' rd core2 rd2"
  shows "handled core rd core2 rd2"
  using assms by (intro same_log_handled [of core' core rd core2 rd2]) (auto simp: quiet_def)

lemma quiet_finish:
  assumes "quiet (core\<lparr>c_in_call := True\<rparr>) core1" and "tr_finish core1 (tr_reset_ready rd) before = (s, core', rd')"
  shows "outcome core rd True s core' rd'"
  using quiet_handled [OF assms(1) handled_unchanged [OF _ fresh_reset(1)]] assms
  by (intro finish_outcome [OF _ _ assms(2)]) (auto simp: quiet_def fresh_fits)

lemma quiet_closed:
  assumes "\<not> c_in_call core" and "quiet (core\<lparr>c_in_call := True\<rparr>) core1"
  shows "quiet core (core1\<lparr>c_in_call := False\<rparr>)"
  using assms by (simp add: quiet_def core_frame core_same_log_def)

lemma tick_leader_outcome:
  assumes wf: "core_wf core" and nocall: "\<not> c_in_call core" and room: "log_room (c_log core) 1"
    and role: "c_role core = TR_RAFT_LEADER"
    and eq: "tick_leader elapsed (core\<lparr>c_in_call := True\<rparr>) (tr_reset_ready rd) before = (s, core', rd')"
  shows "tick_outcome core rd s core' rd'"
proof -
  let ?core = "core\<lparr>c_in_call := True\<rparr>" and ?rd = "tr_reset_ready rd"
  have wf': "core_wf ?core" by (rule core_wf_in_call [OF wf])
  define due where "due = ticks_reached (c_check_quorum_elapsed_ticks ?core) elapsed (c_election_timeout_ticks ?core)"
  define core1 where "core1 = (if due then ?core\<lparr>c_check_quorum_elapsed_ticks := 0,
      c_recent_active := u32_shl1 (tr_voter_index ?core (c_self_id ?core))\<rparr>
    else ?core\<lparr>c_check_quorum_elapsed_ticks := c_check_quorum_elapsed_ticks ?core + elapsed\<rparr>)"
  define core2 where "core2 = tick_transfer elapsed core1"
  define core3 where "core3 = foldl (tick_age_peer elapsed) core2 [0..<tr_peer_count core2]"
  define n where "n = tr_unpaused_remote_peer_count ?core"
  have q1: "quiet ?core core1" unfolding core1_def using quiet_flags [OF wf'] by simp
  then have q2: "quiet ?core core2"
    unfolding core2_def by (rule quiet_trans) (use q1 in \<open>simp add: quiet_def quiet_flags(6) [unfolded quiet_def]\<close>)
  have "quiet core2 core3"
    unfolding core3_def using q2 role room by (intro tick_age_quiet) (auto simp: quiet_def core_same_log_def)
  with q2 have q3: "quiet ?core core3" by (rule quiet_trans)
  have r3: "core_wf core3" "c_role core3 = TR_RAFT_LEADER" "log_room (c_log core3) 1"
    using q3 role room by (simp_all add: quiet_def core_same_log_def)
  note eq1 = eq [unfolded tick_leader_def Let_def, folded due_def, folded core1_def, folded core2_def,
      folded core3_def, folded n_def]
  show ?thesis
  proof (cases "due \<and> \<not> tr_core_has_quorum ?core (c_recent_active ?core)")
    case True
    from eq1 [unfolded if_P [OF True]] show ?thesis
      unfolding tick_outcome_def using finish_outcome [OF handled_follower [OF wf' fresh_reset(1)] fresh_fits [OF fresh_reset(1)]]
      by blast
  next
    case False
    note eq2 = eq1 [unfolded if_not_P [OF False]]
    show ?thesis
    proof (cases "ticks_reached (c_heartbeat_elapsed_ticks core3) elapsed (c_heartbeat_ticks core3)")
      case beat: True
      note eq3 = eq2 [unfolded if_P [OF beat] tr_require_capacity_def]
      show ?thesis
      proof (cases "n \<le> r_message_capacity ?rd")
        case True
        let ?core4 = "core3\<lparr>c_heartbeat_elapsed_ticks := 0\<rparr>"
        have q4: "quiet core3 ?core4" by (rule quiet_flags(3) [OF r3(1)])
        then have wf4: "core_wf ?core4" and pr4: "progress_wf ?core4"
          using r3 by (auto simp: quiet_def core_wf_def)
        obtain core5 rd5 where send: "tr_broadcast_replication ?core4 ?rd = (core5, rd5)" by fastforce
        have "log_room (c_log ?core4) 1" using r3(3) by simp
        note rep = bcast.op_step(6) [OF wf4 pr4 this TrueI send]
        note ok = fresh_ready_ok [OF fresh_reset(1), of ?core4 rd]
        have "handled ?core ?rd core5 rd5"
          by (rule quiet_handled [OF quiet_trans [OF q3 q4] replicates_handled [OF wf4 rep ok]])
        moreover have "fits rd5" by (rule replicates_ready_ok(3) [OF rep ok fresh_fits [OF fresh_reset(1)]])
        moreover have "tr_finish core5 rd5 before = (s, core', rd')"
          using eq3 [unfolded if_P [OF True] prod.case simp_thms if_False send prod.case] .
        ultimately show ?thesis unfolding tick_outcome_def using finish_outcome by blast
      next
        case False
        from eq3 [unfolded if_not_P [OF False]] have "s = SALTS_ENOSPC" "core' = core3\<lparr>c_in_call := False\<rparr>" by auto
        with quiet_closed [OF nocall q3] show ?thesis by (simp add: tick_outcome_def)
      qed
    next
      case beat: False
      from eq2 [unfolded if_not_P [OF beat]] show ?thesis
        unfolding tick_outcome_def using quiet_finish [OF quiet_trans [OF q3 quiet_flags(3) [OF r3(1)]]] by blast
    qed
  qed
qed

lemma tick_other_outcome:
  assumes wf: "core_wf core" and nocall: "\<not> c_in_call core" and room: "log_room (c_log core) 1"
    and role: "c_role core \<noteq> TR_RAFT_LEADER"
    and eq: "tick_other tk (core\<lparr>c_in_call := True\<rparr>) (tr_reset_ready rd) before = (s, core', rd')"
  shows "outcome core rd True s core' rd'"
proof -
  let ?core = "core\<lparr>c_in_call := True\<rparr>" and ?rd = "tr_reset_ready rd"
  have wf': "core_wf ?core" by (rule core_wf_in_call [OF wf])
  define due where "due = ticks_reached (c_election_elapsed_ticks ?core) (tick_elapsed_ticks tk) (c_election_timeout_ticks ?core)"
  define timer where "timer = ?core\<lparr>c_election_elapsed_ticks := 0,
      c_election_timeout_ticks := tick_next_election_timeout_ticks tk\<rparr>"
  define waited where "waited = ?core\<lparr>c_election_elapsed_ticks := c_election_elapsed_ticks ?core + tick_elapsed_ticks tk\<rparr>"
  have qt: "quiet ?core timer" and qw: "quiet ?core waited"
    unfolding timer_def waited_def using quiet_flags [OF wf'] by simp_all
  show ?thesis
  proof (cases "c_self_is_voter ?core \<and> due")
    case False
    with eq have "tr_finish (if due then timer else waited) ?rd before = (s, core', rd')"
      by (cases "c_self_is_voter core"; cases due) (simp_all add: tick_other_def Let_def due_def timer_def waited_def)
    then show ?thesis using qt qw by (intro quiet_finish) simp_all
  next
    case True
    then have due: "ticks_reached (c_election_elapsed_ticks ?core) (tick_elapsed_ticks tk) (c_election_timeout_ticks ?core)"
      and "\<not> \<not> c_self_is_voter ?core" by (simp_all add: due_def)
    note eq1 = eq [unfolded tick_other_def Let_def if_not_P [OF this(2)] if_P [OF due]]
    from eq1 show ?thesis
    proof (elim guard_outcome [OF _ nocall] capacity_outcome [OF _ nocall], goal_cases)
      case go: 2
      obtain core2 rd2 where pv: "tr_start_pre_vote timer ?rd = (core2, rd2)" by fastforce
      have pre: "core_wf timer" "c_self_is_voter timer" "c_role timer \<noteq> TR_RAFT_LEADER" "c_term timer \<noteq> UINT64_MAX"
        "log_room (c_log timer) 1"
        using qt role room True go(1) by (simp_all add: quiet_def timer_def)
      note h = start_pre_vote_handled [OF pre fresh_reset(1) pv]
      have "tr_unpaused_remote_voter_count timer = tr_unpaused_remote_voter_count ?core"
        by (rule count_frame) (simp_all add: timer_def)
      then have "fits rd2" using h(2) go(2) remote_voter_le_peer [of ?core] by simp
      moreover have "handled ?core ?rd core2 rd2" by (rule quiet_handled [OF qt h(1)])
      moreover have "tr_finish core2 rd2 before = (s, core', rd')"
        using go(3) [folded timer_def, unfolded pv prod.case] .
      ultimately show ?case by (intro finish_outcome)
    qed simp_all
  qed
qed

lemma tick_result:
  assumes wf: "core_wf core" and nocall: "\<not> c_in_call core" and vec: "log_vec_ok V (c_log core)"
    and room: "log_room (c_log core) 2"
    and eq: "tr_raft_core_tick V core tk rd = (s, core', rd')"
  shows "tick_outcome core rd s core' rd'"
proof -
  let ?core = "core\<lparr>c_in_call := True\<rparr>" and ?rd = "tr_reset_ready rd"
  let ?x = "tr_raft_membership_transition_final (c_transition core)"
  have room1: "log_room (c_log core) 1" by (rule log_room_mono [OF room]) simp
  have "outcome core rd True s core' rd' \<or> tick_outcome core rd s core' rd'"
  proof (cases "tick_elapsed_ticks tk = 0 \<or> c_ready_outstanding core \<or> (r_message_capacity rd \<noteq> 0 \<and> r_messages_null rd)
      \<or> \<not> tr_timeout_valid ?core (tick_next_election_timeout_ticks tk)")
    case True
    with eq nocall show ?thesis
      by (auto simp: tr_raft_core_tick_def tr_begin_def Let_def intro: error_outcome split: if_splits)
  next
    case False
    define before where "before = \<lparr>b_role = c_role core, b_term = c_term core, b_voted_for = c_voted_for core\<rparr>"
    have opened: "tr_begin core rd = (SALTS_OK, ?core, ?rd, before)"
      using False nocall by (auto simp: tr_begin_def Let_def before_def)
    have "\<not> tick_elapsed_ticks tk = 0" "\<not> \<not> tr_timeout_valid ?core (tick_next_election_timeout_ticks tk)"
      using False by simp_all
    note eq1 = eq [unfolded tr_raft_core_tick_def if_not_P [OF this(1)] opened prod.case simp_thms if_False
        if_not_P [OF this(2)]]
    show ?thesis
    proof (cases "c_role ?core = TR_RAFT_LEADER \<and> tr_raft_membership_transition_needs_final (c_transition ?core)")
      case True
      obtain s1 core1 rd1 where step: "(case ?x of Inl result \<Rightarrow> (result, ?core, ?rd)
         | Inr c \<Rightarrow> tr_core_append_configuration V ?core c ?rd) = (s1, core1, rd1)"
        by (metis prod_cases3)
      have err: "e \<notin> {SALTS_OK, C_FAULT}" if "?x = Inl e" for e using transition_final_error [OF that] by simp
      have "c_transition ?core = c_transition core" by simp
      from eq1 [unfolded if_P [OF True] this step prod.case] have
        "outcome core rd True s core' rd'"
        using True by (intro configuration_outcome [OF wf nocall vec room _ step err]) simp_all
      then show ?thesis ..
    next
      case False
      from eq1 [unfolded if_not_P [OF False]] show ?thesis
        using tick_leader_outcome [OF wf nocall room1, of _ rd before s core' rd']
          tick_other_outcome [OF wf nocall room1, of tk rd before s core' rd']
        by (auto split: if_splits)
    qed
  qed
  then show ?thesis by (auto simp: tick_outcome_def)
qed

section \<open>Calls without a Ready record\<close>

text \<open>A call that only returns a status: it fails and changes nothing, or keeps the invariant.\<close>

definition update_safe :: "raft_core \<Rightarrow> salts_status \<Rightarrow> raft_core \<Rightarrow> bool" where
  "update_safe core s core' \<longleftrightarrow>
     core_wf core' \<and> core_extends core core' \<and> c_in_call core' = c_in_call core \<and> s \<noteq> C_FAULT
     \<and> (s \<noteq> SALTS_OK \<longrightarrow> core' = core)"

lemma update_failed: "core_wf core \<Longrightarrow> s \<noteq> C_FAULT \<Longrightarrow> core' = core \<Longrightarrow> update_safe core s core'"
  by (simp add: update_safe_def)

lemma apply_update_wf:
  fixes core :: raft_core and a b p :: raft_index and r :: bool
  assumes "core_wf core"
  defines "core' \<equiv> core\<lparr>c_apply_admitted_index := a, c_applied_index := b, c_pending_apply_index := p,
      c_ready_outstanding := r\<rparr>"
  assumes "index_order core'"
  shows "core_wf core'"
proof -
  have "membership_wf core' = membership_wf core" "tables_wf core' = tables_wf core"
    "progress_wf core' = progress_wf core" "role_wf core' = role_wf core" "reads_wf core' = reads_wf core"
    by (simp_all add: core'_def membership_wf_def tables_wf_def progress_wf_def peer_bounds_def tr_core_membership_def
        tr_peer_count_def peer_next_def peer_match_def peer_window_def role_wf_def reads_wf_def tr_read_total_count_def)
  with assms show ?thesis by (simp add: core_wf_def)
qed

lemma ack_ready_safe:
  assumes wf: "core_wf core" and eq: "tr_raft_core_ack_ready core n = (s, core')"
  shows "update_safe core s core'"
    and "s = SALTS_OK \<Longrightarrow> unat (c_apply_admitted_index core') = unat (c_apply_admitted_index core) + n"
proof -
  let ?a = "c_apply_admitted_index core" and ?p = "c_pending_apply_index core"
  let ?pending = "if ?p \<noteq> 0 then ?p - ?a else 0"
  have order: "index_order core" using wf by (simp add: core_wf_def)
  have both: "update_safe core s core' \<and> unat (c_apply_admitted_index core') = unat ?a + n" if ok: "s = SALTS_OK"
  proof -
    from eq ok have core': "core' = core\<lparr>c_apply_admitted_index := ?a + of_nat n, c_pending_apply_index := 0,
        c_ready_outstanding := False\<rparr>" and n: "n \<le> unat ?pending" and p: "?p \<noteq> 0 \<longrightarrow> ?a \<le> ?p"
      by (auto simp: tr_raft_core_ack_ready_def Let_def not_less split: if_splits)
    have "unat ?a + n \<le> unat (c_commit_index core)"
      using n p order by (cases "?p = 0") (auto simp: index_order_def unat_minus_le u64_le_unat)
    then have sum: "unat (?a + of_nat n) = unat ?a + n" "?a + of_nat n \<le> c_commit_index core" "?a \<le> ?a + of_nat n"
      using unat_plus_nat [of ?a n] unat_u64_less [of "c_commit_index core"] by (simp_all add: u64_le_unat)
    then have "index_order core'" using order by (auto simp: core' index_order_def intro: order_trans)
    then have "core_wf core'"
      using apply_update_wf [OF wf, where a = "?a + of_nat n" and b = "c_applied_index core" and p = 0 and r = False] by (simp add: core')
    with sum ok show ?thesis by (simp add: core' core_extends_def update_safe_def)
  qed
  then show "s = SALTS_OK \<Longrightarrow> unat (c_apply_admitted_index core') = unat ?a + n" by blast
  show "update_safe core s core'"
  proof (cases "s = SALTS_OK")
    case False
    with eq wf show ?thesis
      by (auto simp: tr_raft_core_ack_ready_def Let_def split: if_splits intro: update_failed)
  qed (use both in blast)
qed

lemma ack_applied_safe:
  assumes wf: "core_wf core" and eq: "tr_raft_core_ack_applied core i = (s, core')"
  shows "update_safe core s core'"
proof (cases "s = SALTS_OK")
  case False
  with eq wf show ?thesis
    by (auto simp: tr_raft_core_ack_applied_def split: if_splits intro: update_failed)
next
  case True
  with eq have core': "core' = core\<lparr>c_applied_index := i\<rparr>" and i: "c_applied_index core < i" "i \<le> c_apply_admitted_index core"
    by (auto simp: tr_raft_core_ack_applied_def split: if_splits)
  have order: "index_order core" using wf by (simp add: core_wf_def)
  then have "index_order core'" using i by (auto simp: core' index_order_def)
  then have "core_wf core'"
    using apply_update_wf [OF wf, where a = "c_apply_admitted_index core" and b = i and p = "c_pending_apply_index core"
        and r = "c_ready_outstanding core"]
    by (simp add: core')
  with i True show ?thesis by (simp add: core' core_extends_def update_safe_def)
qed

lemma advance_safe:
  assumes wf: "core_wf core" and eq: "tr_raft_core_advance core = (s, core')"
  shows "update_safe core s core'"
proof -
  let ?p = "c_pending_apply_index core"
  have order: "index_order core" using wf by (simp add: core_wf_def)
  have extends: "c_applied_index core \<le> c_apply_admitted_index core" using order by (simp add: index_order_def)
  note eq1 = eq [unfolded tr_raft_core_advance_def]
  show ?thesis
  proof (cases "c_in_call core \<or> \<not> c_ready_outstanding core")
    case True
    from eq1 [unfolded if_P [OF True]] wf show ?thesis by (auto intro: update_failed)
  next
    case False
    note eq2 = eq1 [unfolded if_not_P [OF False]]
    show ?thesis
    proof (cases "?p \<noteq> 0")
      case False
      from eq2 [unfolded if_not_P [OF False]] wf show ?thesis
        by (auto simp: update_safe_def core_frame core_extends_def)
    next
      case pending: True
      note eq3 = eq2 [unfolded if_P [OF pending]]
      show ?thesis
      proof (cases "c_apply_admitted_index core \<noteq> c_applied_index core \<or> ?p < c_apply_admitted_index core")
        case True
        from eq3 [unfolded if_P [OF True]] wf show ?thesis by (auto intro: update_failed)
      next
        case applied: False
        define core1 where "core1 = core\<lparr>c_apply_admitted_index := ?p, c_applied_index := ?p, c_pending_apply_index := 0,
          c_ready_outstanding := False\<rparr>"
        from eq3 [unfolded if_not_P [OF applied], folded core1_def] have s: "s = SALTS_OK" "core' = core1" by simp_all
        have "index_order core1" using order applied pending
          by (auto simp: core1_def index_order_def not_less intro: order_trans)
        then have "core_wf core1" unfolding core1_def by (rule apply_update_wf [OF wf])
        with s extends applied show ?thesis
          by (auto simp: update_safe_def) (auto simp: core1_def core_extends_def not_less)
      qed
    qed
  qed
qed

lemma set_peer_paused_safe:
  assumes wf: "core_wf core" and eq: "tr_raft_core_set_peer_paused core n b = (s, core')"
  shows "update_safe core s core'"
  using eq wf
  by (auto simp: tr_raft_core_set_peer_paused_def Let_def update_safe_def core_frame core_extends_def split: if_splits)

lemma snapshot_point_facts:
  "tr_raft_core_snapshot_point core = Inl e \<Longrightarrow> e \<notin> {SALTS_OK, C_FAULT}"
  "tr_raft_core_snapshot_point core = Inr p \<Longrightarrow> c_applied_index core = c_commit_index core \<and> sp_index p = c_applied_index core
     \<and> log_base_index (c_log core) < sp_index p \<and> sp_configuration p = tr_core_membership core
     \<and> (\<exists>e. tr_raft_log_get (c_log core) (sp_index p) = Some e \<and> e_term e = sp_term p)"
  by (auto simp: tr_raft_core_snapshot_point_def split: if_splits option.splits)

lemma compact_cases:
  assumes "tr_raft_core_compact V core point = (s, core')"
  obtains (failed) "s \<notin> {SALTS_OK, C_FAULT}" "core' = core"
    | (tried) l' where "c_applied_index core = c_commit_index core" "sp_index point = c_applied_index core"
      "tr_raft_log_compact V (c_log core) (sp_index point) (sp_term point) = (s, l')" "core' = core\<lparr>c_log := l'\<rparr>"
proof (cases "tr_raft_core_snapshot_point core")
  case (Inl e)
  with assms snapshot_point_facts(1) [OF Inl] show thesis by (intro failed) (simp_all add: tr_raft_core_compact_def)
next
  case (Inr p)
  obtain s1 l1 where c: "tr_raft_log_compact V (c_log core) (sp_index point) (sp_term point) = (s1, l1)" by fastforce
  show thesis
  proof (cases "sp_index point \<noteq> sp_index p \<or> sp_term point \<noteq> sp_term p
      \<or> \<not> tr_snapshot_configuration_equal (sp_configuration point) (sp_configuration p)")
    case True
    from assms [unfolded tr_raft_core_compact_def Inr sum.case if_P [OF True]] show thesis by (intro failed) simp_all
  next
    case False
    from assms [unfolded tr_raft_core_compact_def Inr sum.case if_not_P [OF False] c prod.case] c
      snapshot_point_facts(2) [OF Inr] False show thesis by (intro tried [of l1]) auto
  qed
qed

lemma compact_safe:
  assumes wf: "core_wf core" and vec: "log_vec_ok V (c_log core)" and eq: "tr_raft_core_compact V core point = (s, core')"
  shows "update_safe core s core'"
proof -
  have l: "log_wf (c_log core)" and order: "index_order core" using wf by (simp_all add: core_wf_def)
  from eq show ?thesis
  proof (cases rule: compact_cases)
    case failed
    with wf show ?thesis by (auto intro: update_failed)
  next
    case (tried l')
    note c = log_compact_wf [OF l vec tried(3)]
    show ?thesis
    proof (cases "s = SALTS_OK")
      case False
      with c(4,5) tried(4) wf show ?thesis by (intro update_failed) simp_all
    next
      case True
      have base: "log_base_index l' = c_applied_index core" using c(6) [OF True] tried(2) by simp
      have "index_order core'" using order c(3) base by (auto simp: tried(4) index_order_def)
      moreover have "membership_wf core' = membership_wf core" "tables_wf core' = tables_wf core"
        "progress_wf core' = progress_wf core" "role_wf core' = role_wf core" "reads_wf core' = reads_wf core"
        by (simp_all add: tried(4) c(3) membership_wf_def tables_wf_def progress_wf_def peer_bounds_def
            tr_core_membership_def tr_peer_count_def peer_next_def peer_match_def peer_window_def role_wf_def
            reads_wf_def tr_read_total_count_def)
      ultimately have "core_wf core'" using wf c(1) by (simp add: core_wf_def) (simp add: tried(4))
      with True c(2) show ?thesis by (simp add: update_safe_def core_extends_def tried(4))
    qed
  qed
qed

section \<open>Creation\<close>

text \<open>What the caller supplies: the capacity of the log, and restored entries that follow the snapshot.\<close>

definition config_max_entries :: "core_config \<Rightarrow> nat" where
  "config_max_entries config =
     (if cfg_max_log_entries config = 0 then TR_RAFT_DEFAULT_MAX_LOG_ENTRIES else cfg_max_log_entries config)"

definition config_ok :: "core_config \<Rightarrow> bool" where
  "config_ok config \<longleftrightarrow> cfg_self_id config \<noteq> UINT64_MAX
     \<and> (case cfg_initial_log_entries config of
          Entry_null n \<Rightarrow> True
        | Entry_array es \<Rightarrow> incoming_ok (cfg_initial_last_log_index config) es)"

lemma log_init_wf:
  assumes "tr_raft_log_init V n base trm = Inr l"
  shows "log_wf l" and "log_base_index l = base" and "log_base_term l = trm" and "log_max_entries l = n"
    and "log_entries l = []" and "log_room l 1"
proof -
  have "unat base + 1 < 2 ^ 64" if "n \<noteq> 0" "n \<le> unat (UINT64_MAX - base)"
    using that unat_u64_less [of base] by (simp add: unat_MAX_minus)
  then show "log_wf l" "log_base_index l = base" "log_base_term l = trm" "log_max_entries l = n"
    "log_entries l = []" "log_room l 1"
  using assms unat_u64_less [of base]
    by (auto simp: tr_raft_log_init_def Let_def log_wf_def entries_at_def log_room_def
        tr_raft_log_last_index_def tr_raft_log_count_def not_less split: if_splits)
qed

lemma create_restore_log_wf:
  assumes vec: "vec_contract V (config_max_entries config)" and ok: "config_ok config"
    and eq: "create_restore_log V config = Inr l"
  shows "log_wf l" and "log_base_index l = cfg_initial_last_log_index config"
    and "log_max_entries l = config_max_entries config"
proof -
  let ?base = "cfg_initial_last_log_index config"
  from eq obtain l0 where init: "tr_raft_log_init V (config_max_entries config) ?base
      (cfg_initial_last_log_term config) = Inr l0"
    by (auto simp: create_restore_log_def config_max_entries_def split: sum.splits)
  note wf0 = log_init_wf [OF init]
  have "log_wf l \<and> log_base_index l = ?base \<and> log_max_entries l = config_max_entries config"
  proof (cases "cfg_initial_log_entries config")
    case (Entry_null n)
    with eq init wf0 show ?thesis
      by (auto simp: create_restore_log_def config_max_entries_def split: if_splits)
  next
    case (Entry_array es)
    obtain s l1 r where rec: "tr_raft_log_reconcile V l0 ?base (cfg_initial_last_log_term config) es 0 = (s, l1, r)"
      by (metis prod_cases3)
    have s: "s = SALTS_OK" "l1 = l"
      using eq init Entry_array rec
      by (auto simp: create_restore_log_def config_max_entries_def split: if_splits list.splits prod.splits)
    have inc: "incoming_ok ?base es" using ok Entry_array by (simp add: config_ok_def)
    have "log_vec_ok V l0" using vec wf0(4) by simp
    note r = reconcile_wf [OF wf0(1) this inc wf0(6) rec]
    from r(1,4,6) s wf0 show ?thesis by simp
  qed
  then show "log_wf l" "log_base_index l = ?base" "log_max_entries l = config_max_entries config" by blast+
qed

lemma create_finish_wf:
  assumes wf: "core_wf core" and role: "c_role core = TR_RAFT_FOLLOWER"
    and reads: "c_pending_read_contexts core = []" "c_waiting_read_contexts core = []"
    and config: "cfg_max_pending_reads config \<le> 64"
  shows "core_wf (create_finish config core)"
proof -
  let ?core = "create_finish config core"
  have "index_order ?core = index_order core" "membership_wf ?core = membership_wf core" "role_wf ?core = role_wf core"
    "c_log ?core = c_log core" "c_role ?core = TR_RAFT_FOLLOWER"
    using role by (simp_all add: create_finish_def index_order_def membership_wf_def role_wf_def tr_core_membership_def)
  moreover have "tables_wf ?core"
    using wf by (auto simp: create_finish_def core_wf_def tables_wf_def)
  moreover have "reads_wf ?core"
    using reads config by (simp add: create_finish_def reads_wf_def tr_read_total_count_def)
  ultimately show ?thesis using wf by (simp add: core_wf_def)
qed

lemma replay_wf:
  assumes "log_wf (c_log core)" and "index_order core" and "transition_wf (c_transition core)"
    and "tr_pending (c_transition core) = []" and "c_self_id core \<noteq> 0" and "c_self_id core \<noteq> UINT64_MAX"
    and "tables_wf core" and "c_role core = TR_RAFT_FOLLOWER" and "reads_wf core" and "log_room (c_log core) 1"
    and eq: "tr_core_replay_membership_log core = (SALTS_OK, core')"
  shows "core_wf core'" and "core_same_log core core'" and "c_role core' = TR_RAFT_FOLLOWER"
    and "c_commit_index core' = c_commit_index core"
proof -
  let ?l = "c_log core"
  obtain s t where st: "stage_log_entries ?l (c_transition core)
      (index_range (log_base_index ?l) (tr_raft_log_last_index ?l)) = (s, t)" by fastforce
  note f = stage_log_entries_facts [OF assms(1,3) st]
  have pend: "\<forall>p \<in> set (tr_pending t). snd p \<le> tr_raft_log_last_index ?l"
    using f assms(4) by (auto simp: index_range_mem)
  define core1 where "core1 = core\<lparr>c_transition := tr_raft_membership_transition_apply t (c_commit_index core)\<rparr>"
  have sync: "tr_core_sync_membership core1 = (SALTS_OK, core')"
    using eq st by (auto simp: tr_core_replay_membership_log_def core1_def split: if_splits)
  have t: "transition_wf t" using f by blast
  have c1: "log_wf (c_log core1)" "index_order core1" "transition_wf (c_transition core1)"
    "c_self_id core1 \<noteq> 0" "c_self_id core1 \<noteq> UINT64_MAX" "tables_wf core1" "reads_wf core1" "log_room (c_log core1) 1"
    "c_role core1 = TR_RAFT_FOLLOWER"
    using assms transition_apply_wf [OF t]
    by (simp_all add: core1_def index_order_def tables_wf_def reads_wf_def tr_read_total_count_def)
  have pend1: "\<forall>p \<in> set (tr_pending (c_transition core1)).
      c_commit_index core1 < snd p \<and> snd p \<le> tr_raft_log_last_index (c_log core1)"
    using pend by (auto simp: core1_def transition_apply_eq [OF t])
  have lead: "c_role core1 = TR_RAFT_LEADER \<longrightarrow> progress_wf core1"
    "c_role core1 = TR_RAFT_LEADER \<longrightarrow> c_term core1 \<noteq> 0 \<and> c_voted_for core1 = c_self_id core1"
    "c_role core1 \<in> {TR_RAFT_FOLLOWER, TR_RAFT_LEADER}" using c1(9) by simp_all
  from sync_membership_wf [OF c1(1-3) pend1 c1(4-6) lead c1(7,8)] sync
  have "core_wf core' \<and> core_same_log core1 core' \<and> c_commit_index core' = c_commit_index core1
      \<and> c_role core' = TR_RAFT_FOLLOWER"
    using c1(9) by (metis Pair_inject)
  then show "core_wf core'" "core_same_log core core'" "c_role core' = TR_RAFT_FOLLOWER"
    "c_commit_index core' = c_commit_index core" by (simp_all add: core1_def core_same_log_def)
qed

lemma replay_frame:
  assumes "tr_core_replay_membership_log core = (s, core')" and "c_role core = TR_RAFT_FOLLOWER"
  shows "c_pending_read_contexts core' = c_pending_read_contexts core"
    and "c_waiting_read_contexts core' = c_waiting_read_contexts core" and "c_log core' = c_log core"
proof -
  have "c_pending_read_contexts core2 = c_pending_read_contexts core1 \<and> c_log core2 = c_log core1
      \<and> c_waiting_read_contexts core2 = c_waiting_read_contexts core1"
    if "tr_core_sync_membership core1 = (s, core2)" "c_role core1 = TR_RAFT_FOLLOWER" for s core1 core2
    using that by (auto simp: tr_core_sync_membership_def Let_def split: sum.splits)
  with assms show "c_pending_read_contexts core' = c_pending_read_contexts core"
    "c_waiting_read_contexts core' = c_waiting_read_contexts core" "c_log core' = c_log core"
    by (fastforce simp: tr_core_replay_membership_log_def split: prod.splits if_splits)+
qed

lemma create_wf:
  assumes vec: "vec_contract V (config_max_entries config)" and ok: "config_ok config"
    and room: "log_room (c_log core) 1" and eq: "tr_raft_core_create V alloc config = Inr core"
  shows "core_wf core" and "\<not> c_in_call core" and "\<not> c_ready_outstanding core" and "c_role core = TR_RAFT_FOLLOWER"
    and "c_term core = cfg_initial_term config" and "c_voted_for core = cfg_initial_vote config"
    and "c_self_id core = cfg_self_id config" and "c_commit_index core = create_commit_index config"
    and "c_applied_index core = create_applied_index config"
    and "log_max_entries (c_log core) = config_max_entries config"
proof -
  have check: "config_check config = SALTS_OK"
    using eq by (auto simp: tr_raft_core_create_def split: if_splits)
  then have limits: "\<not> config_limits_bad config" by (auto simp: config_check_def split: if_splits)
  let ?init = "case cfg_initial_configuration config of
      Some c \<Rightarrow> tr_raft_membership_transition_init_configuration c
    | None \<Rightarrow> tr_raft_membership_transition_init (cfg_voters config) (cfg_learners config)"
  obtain t where t: "?init = Inr t" using eq by (auto simp: tr_raft_core_create_def split: if_splits sum.splits)
  obtain ps where ps: "tr_raft_peer_set_build [tr_raft_membership_transition_committed t] = Inr ps"
    using eq t by (auto simp: tr_raft_core_create_def split: if_splits sum.splits)
  obtain l where l: "create_restore_log V config = Inr l"
    using eq t ps by (auto simp: tr_raft_core_create_def split: if_splits sum.splits)
  define core0 where "core0 = (core_zero l)\<lparr>c_self_id := cfg_self_id config, c_transition := t, c_peers := ps\<rparr>"
  define core1 where "core1 = core0\<lparr>c_self_is_voter := tr_voter_index core0 (cfg_self_id config) \<ge> 0,
      c_term := cfg_initial_term config, c_voted_for := cfg_initial_vote config\<rparr>"
  define core2 where "core2 = core1\<lparr>c_commit_index := create_commit_index config,
      c_applied_index := create_applied_index config, c_apply_admitted_index := create_applied_index config\<rparr>"
  have c: "\<not> config_check config \<noteq> SALTS_OK" and alloc: "\<not> \<not> alloc"
    using check eq by (auto simp: tr_raft_core_create_def split: if_splits)
  note eq1 = eq [unfolded tr_raft_core_create_def if_not_P [OF c] if_not_P [OF alloc] t ps l sum.case Let_def,
      folded core0_def, folded core1_def, folded core2_def]
  have range: "\<not> (create_applied_index config < cfg_initial_last_log_index config
      \<or> create_applied_index config > create_commit_index config
      \<or> create_commit_index config > tr_raft_log_last_index l)"
    using eq1 by (auto split: if_splits)
  obtain s core3 where rep: "tr_core_replay_membership_log core2 = (s, core3)" by fastforce
  from eq1 [unfolded if_not_P [OF range] rep prod.case] have s: "s = SALTS_OK" and core: "core = create_finish config core3"
    by (auto split: if_splits)
  note lw = create_restore_log_wf [OF vec ok l]
  have t0: "tr_pending t = []"
    using t by (auto simp: tr_raft_membership_transition_init_def tr_raft_membership_transition_init_configuration_def
        split: option.splits sum.splits if_splits)
  have tw: "transition_wf t" using t transition_init_wf by (auto split: option.splits)
  have c2: "c_log core2 = l" "c_transition core2 = t" "c_self_id core2 = cfg_self_id config"
    "c_role core2 = TR_RAFT_FOLLOWER" "c_pending_read_contexts core2 = []" "c_waiting_read_contexts core2 = []"
    by (simp_all add: core2_def core1_def core0_def core_zero_def)
  note frame = replay_frame [OF rep c2(4)]
  have room2: "log_room (c_log core2) 1" using room frame(3) by (simp add: core create_finish_def)
  have self: "c_self_id core2 \<noteq> 0" "c_self_id core2 \<noteq> UINT64_MAX"
    using limits ok by (simp_all add: c2 config_limits_bad_def config_ok_def)
  have order: "index_order core2"
    using range lw(2) by (auto simp: index_order_def core2_def core1_def core0_def core_zero_def)
  have tables: "tables_wf core2" and reads: "reads_wf core2"
    by (simp_all add: tables_wf_def reads_wf_def tr_read_total_count_def core2_def core1_def core0_def core_zero_def)
  have pre: "log_wf (c_log core2)" "transition_wf (c_transition core2)" "tr_pending (c_transition core2) = []"
    using lw(1) tw t0 by (simp_all add: c2)
  note r = replay_wf [OF pre(1) order pre(2,3) self tables c2(4) reads room2 rep [unfolded s]]
  show "core_wf core"
    unfolding core using frame c2 limits by (intro create_finish_wf [OF r(1,3)]) (simp_all add: config_limits_bad_def)
  show "\<not> c_in_call core" "\<not> c_ready_outstanding core" "c_role core = TR_RAFT_FOLLOWER"
    "c_term core = cfg_initial_term config" "c_voted_for core = cfg_initial_vote config"
    "c_self_id core = cfg_self_id config" "c_commit_index core = create_commit_index config"
    "c_applied_index core = create_applied_index config" "log_max_entries (c_log core) = config_max_entries config"
    using r(2-4) lw(3) c2(1)
    by (simp_all add: core create_finish_def core_same_log_def) (simp_all add: core2_def core1_def core0_def core_zero_def)
qed

end
