(* ===== verification/Raft_Core_Reachable.thy ===== *)
theory Raft_Core_Reachable
  imports Raft_Core_Run
begin

text \<open>
  The public interface as one operation over a datatype of calls, the states a core reaches through
  it, and what holds in all of them: the invariant, the order of terms, votes and commits, and the
  Ready protocol.
\<close>

section \<open>Calls of the public interface\<close>

datatype api_call =
    Call_tick tick
  | Call_step message
  | Call_propose_batch "proposal list option"
  | Call_propose "proposal option"
  | Call_change_membership membership_change
  | Call_transfer_leadership node_id
  | Call_read_index u64
  | Call_poll
  | Call_snapshot_completed node_id raft_index
  | Call_ack_ready nat
  | Call_ack_applied raft_index
  | Call_advance
  | Call_compact snapshot_point
  | Call_set_peer_paused node_id bool

definition no_ready :: "ready \<Rightarrow> salts_status \<times> raft_core \<Rightarrow> salts_status \<times> raft_core \<times> ready" where
  "no_ready rd r = (fst r, snd r, rd)"

fun api_exec :: "vec_ops \<Rightarrow> raft_core \<Rightarrow> api_call \<Rightarrow> ready \<Rightarrow> salts_status \<times> raft_core \<times> ready" where
  "api_exec V core (Call_tick t) rd = tr_raft_core_tick V core t rd"
| "api_exec V core (Call_step m) rd = tr_raft_core_step V core m rd"
| "api_exec V core (Call_propose_batch ps) rd = tr_raft_core_propose_batch V core ps rd"
| "api_exec V core (Call_propose p) rd = tr_raft_core_propose V core p rd"
| "api_exec V core (Call_change_membership c) rd = tr_raft_core_change_membership V core c rd"
| "api_exec V core (Call_transfer_leadership n) rd = tr_raft_core_transfer_leadership core n rd"
| "api_exec V core (Call_read_index c) rd = tr_raft_core_read_index core c rd"
| "api_exec V core Call_poll rd = tr_raft_core_poll core rd"
| "api_exec V core (Call_snapshot_completed n i) rd = tr_raft_core_snapshot_completed core n i rd"
| "api_exec V core (Call_ack_ready n) rd = no_ready rd (tr_raft_core_ack_ready core n)"
| "api_exec V core (Call_ack_applied i) rd = no_ready rd (tr_raft_core_ack_applied core i)"
| "api_exec V core Call_advance rd = no_ready rd (tr_raft_core_advance core)"
| "api_exec V core (Call_compact p) rd = no_ready rd (tr_raft_core_compact V core p)"
| "api_exec V core (Call_set_peer_paused n b) rd = no_ready rd (tr_raft_core_set_peer_paused core n b)"

text \<open>A call that fills a Ready record, and what is assumed of its argument: a received message is one
  that a core may have sent.\<close>

fun fills_ready :: "api_call \<Rightarrow> bool" where
  "fills_ready (Call_ack_ready n) = False"
| "fills_ready (Call_ack_applied i) = False"
| "fills_ready Call_advance = False"
| "fills_ready (Call_compact p) = False"
| "fills_ready (Call_set_peer_paused n b) = False"
| "fills_ready _ = True"

fun call_wf :: "api_call \<Rightarrow> bool" where
  "call_wf (Call_step m) = message_wf m"
| "call_wf _ = True"

fun call_room :: "api_call \<Rightarrow> ready \<Rightarrow> bool" where
  "call_room (Call_step m) rd = (1 \<le> r_message_capacity rd)"
| "call_room _ rd = True"

text \<open>The conditions under which a call is made: no call is running, the containers of the log behave as
  documented, and the index space has room for one batch.\<close>

definition call_enabled :: "vec_ops \<Rightarrow> raft_core \<Rightarrow> api_call \<Rightarrow> bool" where
  "call_enabled V core call \<longleftrightarrow>
     \<not> c_in_call core \<and> log_vec_ok V (c_log core) \<and> log_room (c_log core) 17 \<and> call_wf call"

section \<open>One call\<close>

lemma propose_result:
  assumes "core_wf core" and "\<not> c_in_call core" and "log_vec_ok V (c_log core)" and "log_room (c_log core) 17"
  shows "tr_raft_core_propose_batch V core ps rd = (s, core', rd') \<Longrightarrow> outcome core rd True s core' rd'"
    and "tr_raft_core_propose V core p rd = (s, core', rd') \<Longrightarrow> outcome core rd True s core' rd'"
proof -
  show batch: "tr_raft_core_propose_batch V core ps rd = (s, core', rd') \<Longrightarrow> outcome core rd True s core' rd'" for ps
    using propose_batch_result [OF assms] assms(2)
    by (cases ps) (auto simp: tr_raft_core_propose_batch_def [of V core None] intro: error_outcome)
  show "tr_raft_core_propose V core p rd = (s, core', rd') \<Longrightarrow> outcome core rd True s core' rd'"
    using batch assms(2) by (cases p) (auto simp: tr_raft_core_propose_def intro: error_outcome)
qed

interpretation step_call: core_call "\<lambda>core. tr_raft_core_step V core m"
    "\<lambda>core. log_vec_ok V (c_log core) \<and> log_room (c_log core) 9 \<and> message_wf m" "\<lambda>rd. 1 \<le> r_message_capacity rd" for V m
  by unfold_locales (use step_result in blast)

interpretation propose_call: core_call "\<lambda>core. tr_raft_core_propose_batch V core ps"
    "\<lambda>core. log_vec_ok V (c_log core) \<and> log_room (c_log core) 17" "\<lambda>_. True" for V ps
  by unfold_locales (use propose_result in blast)

interpretation change_call: core_call "\<lambda>core. tr_raft_core_change_membership V core c"
    "\<lambda>core. log_vec_ok V (c_log core) \<and> log_room (c_log core) 2" "\<lambda>_. True" for V c
  by unfold_locales (use change_membership_result in blast)

interpretation transfer_call: core_call "\<lambda>core. tr_raft_core_transfer_leadership core n"
    "\<lambda>core. log_room (c_log core) 1" "\<lambda>_. True" for n
  by unfold_locales (use transfer_result in blast)

interpretation read_call: core_call "\<lambda>core. tr_raft_core_read_index core c" "\<lambda>_. True" "\<lambda>_. True" for c
  by unfold_locales (use read_index_result in blast)

interpretation poll_call: core_call tr_raft_core_poll "\<lambda>core. log_room (c_log core) 1" "\<lambda>_. True"
  by unfold_locales (use poll_result in blast)

interpretation snapshot_call: core_call "\<lambda>core. tr_raft_core_snapshot_completed core n i"
    "\<lambda>core. log_room (c_log core) 1" "\<lambda>_. True" for n i
  by unfold_locales (use snapshot_completed_result in blast)

lemma no_ready_eq: "no_ready rd r = (s, core', rd') \<longleftrightarrow> r = (s, core') \<and> rd' = rd"
  by (cases r) (auto simp: no_ready_def)

lemma exec_outcome:
  assumes wf: "core_wf core" and en: "call_enabled V core call" and fills: "fills_ready call"
    and tick: "\<nexists>t. call = Call_tick t" and eq: "api_exec V core call rd = (s, core', rd')"
  shows "outcome core rd (call_room call rd) s core' rd'"
proof -
  have pre: "\<not> c_in_call core" "log_vec_ok V (c_log core)" "log_room (c_log core) 17" "log_room (c_log core) 9"
    "log_room (c_log core) 2" "log_room (c_log core) 1" "call_wf call"
    using en by (auto simp: call_enabled_def elim: log_room_mono)
  from fills tick eq pre show ?thesis
  proof (cases call)
    case (Call_step m)
    with eq pre show ?thesis using step_result [OF wf, of V m rd s core' rd'] by simp
  next
    case (Call_propose_batch ps)
    with eq show ?thesis using propose_result(1) [OF wf pre(1-3)] by simp
  next
    case (Call_propose p)
    with eq show ?thesis using propose_result(2) [OF wf pre(1-3)] by simp
  next
    case (Call_change_membership c)
    with eq show ?thesis using change_membership_result [OF wf pre(1,2,5)] by simp
  next
    case (Call_transfer_leadership n)
    with eq show ?thesis using transfer_result [OF wf pre(1,6)] by simp
  next
    case (Call_read_index c)
    with eq show ?thesis using read_index_result [OF wf pre(1)] by simp
  next
    case Call_poll
    with eq show ?thesis using poll_result [OF wf pre(1,6)] by simp
  next
    case (Call_snapshot_completed n i)
    with eq show ?thesis using snapshot_completed_result [OF wf pre(1,6)] by simp
  qed simp_all
qed

lemma exec_update:
  assumes wf: "core_wf core" and en: "call_enabled V core call" and fills: "\<not> fills_ready call"
    and eq: "api_exec V core call rd = (s, core', rd')"
  shows "update_safe core s core'" and "rd' = rd"
  using assms ack_ready_safe(1) [OF wf] ack_applied_safe [OF wf] advance_safe [OF wf] compact_safe [OF wf]
    set_peer_paused_safe [OF wf]
  by (cases call; auto simp: no_ready_eq call_enabled_def)+

lemma quiet_extends: "quiet core core' \<Longrightarrow> core_extends core core'"
  by (auto simp: quiet_def intro: core_same_log_extends)

lemma exec_safe:
  assumes wf: "core_wf core" and en: "call_enabled V core call" and eq: "api_exec V core call rd = (s, core', rd')"
  shows "core_wf core'" and "core_extends core core'" and "\<not> c_in_call core'" and "s \<noteq> C_FAULT"
    and "s \<noteq> SALTS_OK \<Longrightarrow> core' = core \<or> (\<exists>t. call = Call_tick t) \<and> s = SALTS_ENOSPC \<and> quiet core core'"
    and "s = SALTS_OK \<Longrightarrow> fills_ready call \<Longrightarrow> call_done core rd core' rd' \<and> (call_room call rd \<longrightarrow> fits rd')"
proof -
  have nocall: "\<not> c_in_call core" using en by (simp add: call_enabled_def)
  consider (update) "update_safe core s core'" "\<not> fills_ready call"
    | (tick) t where "call = Call_tick t" "tick_outcome core rd s core' rd'"
    | (ready) "outcome core rd (call_room call rd) s core' rd'"
  proof (cases "fills_ready call")
    case False
    with update exec_update(1) [OF wf en _ eq] show thesis by blast
  next
    case True
    show thesis
    proof (cases "\<exists>t. call = Call_tick t")
      case is_tick: True
      then obtain t where t: "call = Call_tick t" ..
      have "log_vec_ok V (c_log core)" "log_room (c_log core) 2"
        using en by (auto simp: call_enabled_def elim: log_room_mono)
      with tick_result [OF wf nocall this, of t rd s core' rd'] eq t show thesis by (intro tick) simp_all
    next
      case False
      with exec_outcome [OF wf en True _ eq] ready show thesis by blast
    qed
  qed
  then have "core_wf core' \<and> core_extends core core' \<and> \<not> c_in_call core' \<and> s \<noteq> C_FAULT
      \<and> (s \<noteq> SALTS_OK \<longrightarrow> core' = core \<or> (\<exists>t. call = Call_tick t) \<and> s = SALTS_ENOSPC \<and> quiet core core')
      \<and> (s = SALTS_OK \<longrightarrow> fills_ready call \<longrightarrow> call_done core rd core' rd' \<and> (call_room call rd \<longrightarrow> fits rd'))"
  proof cases
    case update
    with nocall show ?thesis by (simp add: update_safe_def)
  next
    case (tick t)
    from tick(2) [unfolded tick_outcome_def outcome_def] wf nocall tick(1) show ?thesis
      using quiet_extends by (auto simp: call_done_def call_failed_def quiet_def core_same_log_def)
  next
    case ready
    with wf nocall show ?thesis by (auto simp: outcome_def call_done_def call_failed_def)
  qed
  then show "core_wf core'" "core_extends core core'" "\<not> c_in_call core'" "s \<noteq> C_FAULT"
    "s \<noteq> SALTS_OK \<Longrightarrow> core' = core \<or> (\<exists>t. call = Call_tick t) \<and> s = SALTS_ENOSPC \<and> quiet core core'"
    "s = SALTS_OK \<Longrightarrow> fills_ready call \<Longrightarrow> call_done core rd core' rd' \<and> (call_room call rd \<longrightarrow> fits rd')"
    by blast+
qed

section \<open>Runs\<close>

text \<open>The states between two points of a run, and the states a core reaches from its creation.\<close>

inductive core_steps :: "vec_ops \<Rightarrow> raft_core \<Rightarrow> raft_core \<Rightarrow> bool" for V where
  none: "core_steps V core core"
| more_calls: "core_steps V core core' \<Longrightarrow> call_enabled V core' call \<Longrightarrow>
     api_exec V core' call rd = (s, core'', rd') \<Longrightarrow> core_steps V core core''"

inductive core_reachable :: "vec_ops \<Rightarrow> core_config \<Rightarrow> raft_core \<Rightarrow> bool" for V config where
  created: "config_ok config \<Longrightarrow> vec_contract V (config_max_entries config) \<Longrightarrow>
     tr_raft_core_create V True config = Inr core \<Longrightarrow> log_room (c_log core) 1 \<Longrightarrow> core_reachable V config core"
| called: "core_reachable V config core \<Longrightarrow> call_enabled V core call \<Longrightarrow>
     api_exec V core call rd = (s, core', rd') \<Longrightarrow> core_reachable V config core'"

lemma core_steps_safe:
  assumes "core_steps V core core'" and "core_wf core" and "\<not> c_in_call core"
  shows "core_wf core' \<and> core_extends core core' \<and> \<not> c_in_call core'"
  using assms
proof (induction rule: core_steps.induct)
  case (none core)
  then show ?case by simp
next
  case (more_calls core core' call rd s core'' rd')
  then show ?case using exec_safe(1-3) [OF _ more_calls.hyps(2,3)] core_extends_trans by blast
qed

lemma core_reachable_wf: "core_reachable V config core \<Longrightarrow> core_wf core \<and> \<not> c_in_call core"
proof (induction rule: core_reachable.induct)
  case (created core)
  from create_wf(1,2) [OF created(2,1,4,3)] show ?case by simp
next
  case (called core call rd s core' rd')
  then show ?case using exec_safe(1,3) by blast
qed

lemma core_reachable_steps:
  "core_steps V core core' \<Longrightarrow> core_reachable V config core \<Longrightarrow> core_reachable V config core'"
  by (induction rule: core_steps.induct) (auto intro: core_reachable.called)

end
