(* ===== verification/Raft_Core_Campaign.thy ===== *)
theory Raft_Core_Campaign
  imports Raft_Core_Reachable
begin

text \<open>
  How a core comes to lead: which calls let it enter or keep the candidate and leader roles, and whose
  votes it counts. A core that becomes leader holds a quorum of its configuration whose members are
  itself or answered its vote request of the same term with a grant.
\<close>

section \<open>Operations that leave the campaign alone\<close>

definition same_campaign :: "raft_core \<Rightarrow> raft_core \<Rightarrow> bool" where
  "same_campaign core core' \<longleftrightarrow>
     c_role core' = c_role core \<and> c_term core' = c_term core \<and> c_votes core' = c_votes core
     \<and> c_peers core' = c_peers core \<and> c_transition core' = c_transition core \<and> c_self_id core' = c_self_id core"

text \<open>The core ends as a follower or pre-candidate, keeps its campaign, or goes on to lead in its term.\<close>

definition no_campaign :: "raft_core \<Rightarrow> raft_core \<Rightarrow> bool" where
  "no_campaign core core' \<longleftrightarrow>
     c_role core' \<in> {TR_RAFT_FOLLOWER, TR_RAFT_PRE_CANDIDATE} \<or> same_campaign core core'
     \<or> (c_role core = TR_RAFT_LEADER \<and> c_role core' = TR_RAFT_LEADER \<and> c_term core' = c_term core)"

lemma same_campaign_refl [simp, intro]: "same_campaign core core"
  by (simp add: same_campaign_def)

lemma same_campaign_trans: "same_campaign a b \<Longrightarrow> same_campaign b c \<Longrightarrow> same_campaign a c"
  by (simp add: same_campaign_def)

lemma no_campaign_refl [simp, intro]: "no_campaign core core"
  by (simp add: no_campaign_def)

lemma no_campaign_same [intro]: "same_campaign core core' \<Longrightarrow> no_campaign core core'"
  by (simp add: no_campaign_def)

lemma no_campaign_trans: "no_campaign a b \<Longrightarrow> no_campaign b c \<Longrightarrow> no_campaign a c"
  by (auto simp: no_campaign_def same_campaign_def)

lemma no_campaign_follower [simp]: "no_campaign core (tr_become_follower core' t)"
  by (simp add: no_campaign_def)

lemma foldl_campaign:
  assumes "\<And>core rd i. same_campaign core (fst (f (core, rd) i))"
  shows "same_campaign core (fst (foldl f (core, rd) is))"
proof (induction "is" arbitrary: core rd)
  case (Cons i "is")
  obtain core1 rd1 where step: "f (core, rd) i = (core1, rd1)" by fastforce
  with assms [of core rd i] have "same_campaign core core1" by simp
  with Cons.IH [of core1 rd1] step show ?case by (auto intro: same_campaign_trans)
qed simp

lemma emit_replication_campaign: "same_campaign core (fst (snd (tr_emit_replication core rd i ah)))"
proof -
  obtain b core' rd' where e: "tr_emit_replication core rd i ah = (b, core', rd')" by (metis prod_cases3)
  show ?thesis
    using e by (cases rule: emit_replication_cases) (simp_all add: e same_campaign_def)
qed

lemma broadcast_campaign: "same_campaign core (fst (tr_broadcast_replication core rd))"
  unfolding tr_broadcast_replication_def
  by (rule foldl_campaign) (simp add: emit_replication_campaign)

lemma fill_round_campaign: "same_campaign core (fst (snd (fill_round core rd)))"
proof -
  have "same_campaign core (fst (snd (foldl fill_round_peer (b, core, rd) is)))" for b core rd "is"
  proof (induction "is" arbitrary: b core rd)
    case (Cons i "is")
    obtain b1 core1 rd1 where step: "fill_round_peer (b, core, rd) i = (b1, core1, rd1)" by (metis prod_cases3)
    then have "same_campaign core core1"
      using emit_replication_campaign [of core rd i False]
      by (auto simp: fill_round_peer_def split: if_splits prod.splits)
    with Cons.IH [where core = core1 and rd = rd1 and b = b1] step show ?case by (auto intro: same_campaign_trans)
  qed simp
  then show ?thesis by (simp add: fill_round_def)
qed

lemma fill_loop_campaign: "same_campaign core (fst (fill_loop core rd))"
proof (induction core rd rule: fill_loop.induct)
  case (1 core rd)
  obtain b core1 rd1 where r: "fill_round core rd = (b, core1, rd1)" by (metis prod_cases3)
  with fill_round_campaign [of core rd] have "same_campaign core core1" by simp
  with 1 [OF r [symmetric] refl] r show ?case
    by (subst fill_loop.simps) (auto intro: same_campaign_trans)
qed

lemma fill_windows_campaign: "same_campaign core (fst (tr_fill_replication_windows core rd))"
proof (cases "c_role core = TR_RAFT_LEADER")
  case True
  let ?f = "\<lambda>(core, ready) i. if tr_peer_id core i \<noteq> c_self_id core
      \<and> arr_get 0 (c_next_index core) (int i) \<le> log_base_index (c_log core)
     then snd (tr_emit_replication core ready i False) else (core, ready)"
  obtain core1 rd1 where f: "foldl ?f (core, rd) [0..<tr_peer_count core] = (core1, rd1)" by fastforce
  have "same_campaign core (fst (foldl ?f (core, rd) [0..<tr_peer_count core]))"
    by (rule foldl_campaign) (simp add: emit_replication_campaign)
  with f True fill_loop_campaign [of core1 rd1] show ?thesis
    by (auto simp: tr_fill_replication_windows_def intro: same_campaign_trans)
qed (simp add: tr_fill_replication_windows_def)

lemma fill_peer_campaign: "same_campaign core (fst (tr_fill_peer_replication_window core rd i))"
proof -
  have loop: "same_campaign core (fst (fill_peer_loop core rd i))" for core rd
  proof (induction core rd i rule: fill_peer_loop.induct)
    case (1 core rd i)
    obtain b core1 rd1 where e: "tr_emit_replication core rd i False = (b, core1, rd1)" by (metis prod_cases3)
    with emit_replication_campaign [of core rd i False] have "same_campaign core core1" by simp
    with 1 e show ?case
      by (subst fill_peer_loop.simps) (auto split: bool.splits intro: same_campaign_trans)
  qed
  show ?thesis
    using loop emit_replication_campaign [of core rd i False] by (simp add: tr_fill_peer_replication_window_def)
qed

lemma finish_campaign: "tr_finish core rd p = (s, core', rd') \<Longrightarrow> same_campaign core core'"
  by (auto simp: tr_finish_def Let_def same_campaign_def split: if_splits)

lemma leader_kept:
  "c_role core = TR_RAFT_LEADER \<Longrightarrow> c_role core' \<in> {TR_RAFT_LEADER, TR_RAFT_FOLLOWER} \<Longrightarrow>
     c_term core' = c_term core \<Longrightarrow> no_campaign core core'"
  by (auto simp: no_campaign_def)

lemma sync_campaign:
  assumes "c_role core = TR_RAFT_LEADER" and "tr_core_sync_membership core = (s, core')"
  shows "no_campaign core core'"
  using assms by (intro leader_kept) (auto simp: tr_core_sync_membership_def Let_def split: sum.splits if_splits)

lemma update_commit_campaign:
  assumes "c_role core = TR_RAFT_LEADER" and "tr_update_commit core rd = (s, core', rd')"
  shows "no_campaign core core'"
proof -
  have "no_campaign core core1"
    if "tr_core_sync_membership (core\<lparr>c_commit_index := i, c_transition := t\<rparr>) = (s, core1)" for i t s core1
    using sync_campaign [OF _ that] assms(1) by (auto simp: no_campaign_def same_campaign_def)
  with assms show ?thesis
    by (auto simp: tr_update_commit_def Let_def split: sum.splits option.splits prod.splits if_splits)
qed

lemma commit_broadcast_campaign:
  assumes "c_role core = TR_RAFT_LEADER" and "tr_update_commit core rd = (s, core1, rd1)"
    and "tr_broadcast_replication core1 rd1 = (core2, rd2)"
  shows "no_campaign core core2"
  using update_commit_campaign [OF assms(1,2)] broadcast_campaign [of core1 rd1] assms(3)
  by (auto intro: no_campaign_trans)

lemma append_configuration_campaign:
  assumes "c_role core = TR_RAFT_LEADER" and "tr_core_append_configuration V core c rd = (s, core', rd')"
  shows "no_campaign core core'"
proof -
  have "no_campaign core core2"
    if "tr_update_commit core1 rd1 = (s, core2, rd2)" "c_role core1 = TR_RAFT_LEADER" "c_term core1 = c_term core"
    for core1 rd1 s core2 rd2
    using update_commit_campaign [OF that(2,1)] that assms(1) by (auto simp: no_campaign_def same_campaign_def)
  moreover have "no_campaign core core3"
    if "tr_update_commit core1 rd1 = (s, core2, rd2)" "tr_broadcast_replication core2 rd2 = (core3, rd3)"
      "c_role core1 = TR_RAFT_LEADER" "c_term core1 = c_term core"
    for core1 rd1 s core2 rd2 core3 rd3
    using commit_broadcast_campaign [OF that(3,1,2)] that assms(1) by (auto simp: no_campaign_def same_campaign_def)
  moreover have "no_campaign core core1" if "c_role core1 = TR_RAFT_LEADER" "c_term core1 = c_term core" for core1
    using that assms(1) by (auto simp: no_campaign_def)
  ultimately show ?thesis
    using assms unfolding tr_core_append_configuration_def Let_def tr_require_capacity_def
    by (auto split: prod.splits sum.splits option.splits if_splits)
qed

section \<open>The public operations apart from the clock and messages\<close>

lemma flag_campaign [simp]: "no_campaign core (core'\<lparr>c_in_call := b\<rparr>) \<longleftrightarrow> no_campaign core core'"
  "no_campaign (core\<lparr>c_in_call := b\<rparr>) core' \<longleftrightarrow> no_campaign core core'"
  by (simp_all add: no_campaign_def same_campaign_def)

lemma begin_campaign:
  assumes "(case tr_begin core rd of (result, core, rd, p) \<Rightarrow>
            if result \<noteq> SALTS_OK then (result, core, rd) else body core rd p) = (s, core', rd')"
    and "\<And>p. body (core\<lparr>c_in_call := True\<rparr>) (tr_reset_ready rd) p = (s, core', rd') \<Longrightarrow> no_campaign core core'"
  shows "no_campaign core core'"
  using assms by (auto simp: tr_begin_def Let_def split: if_splits)

lemma capacity_campaign:
  assumes "(case tr_require_capacity core0 rd1 n of (result, core, rd) \<Rightarrow>
              if result \<noteq> SALTS_OK then (result, core, rd) else body core rd) = (s, core', rd')"
    and "no_campaign core core0" and "body core0 rd1 = (s, core', rd') \<Longrightarrow> no_campaign core core'"
  shows "no_campaign core core'"
  using assms by (auto simp: tr_require_capacity_def split: if_splits)

lemma guard_campaign:
  assumes "(if A then (e, core0, rd1) else X) = (s, core', rd')" and "no_campaign core core0"
    and "\<not> A \<Longrightarrow> X = (s, core', rd') \<Longrightarrow> no_campaign core core'"
  shows "no_campaign core core'"
  using assms by (cases A) auto

lemma finish_no_campaign:
  "tr_finish core1 rd p = (s, core', rd') \<Longrightarrow> no_campaign core core1 \<Longrightarrow> no_campaign core core'"
  using finish_campaign no_campaign_trans by blast

lemma leader_step:
  "c_role core = TR_RAFT_LEADER \<Longrightarrow> c_role core1 = TR_RAFT_LEADER \<Longrightarrow> c_term core1 = c_term core \<Longrightarrow>
     no_campaign core1 core2 \<Longrightarrow> no_campaign core core2"
  by (auto simp: no_campaign_def same_campaign_def)

lemma propose_batch_campaign:
  assumes eq: "tr_raft_core_propose_batch V core ps rd = (s, core', rd')"
  shows "no_campaign core core'"
proof -
  have commit: "no_campaign core core2"
    if "tr_update_commit core1 rd1 = (s1, core2, rd2)" "c_role core = TR_RAFT_LEADER" "c_role core1 = TR_RAFT_LEADER"
      "c_term core1 = c_term core" for core1 rd1 s1 core2 rd2
    using leader_step [OF that(2-4) update_commit_campaign [OF that(3,1)]] .
  have send: "no_campaign core core4"
    if "tr_update_commit core1 rd1 = (s1, core2, rd2)" "c_role core = TR_RAFT_LEADER" "c_role core1 = TR_RAFT_LEADER"
      "c_term core1 = c_term core" "tr_broadcast_replication core2 rd2 = (core3, rd3)"
      "tr_finish core3 rd3 p = (s, core4, rd4)" for core1 rd1 s1 core2 rd2 core3 rd3 p s core4 rd4
    using leader_step [OF that(2-4) commit_broadcast_campaign [OF that(3,1,5)]] finish_no_campaign [OF that(6)] by blast
  show ?thesis
    using eq unfolding tr_raft_core_propose_batch_def Let_def tr_begin_def tr_require_capacity_def
    by (auto split: option.splits prod.splits if_splits intro: leader_kept dest: commit send)
qed

lemma change_membership_campaign:
  assumes eq: "tr_raft_core_change_membership V core c rd = (s, core', rd')"
  shows "no_campaign core core'"
proof -
  have conf: "no_campaign core core1"
    if "tr_core_append_configuration V (core\<lparr>c_in_call := True\<rparr>) j rd1 = (s1, core1, rd2)" "c_role core = TR_RAFT_LEADER"
    for j rd1 s1 core1 rd2
    using append_configuration_campaign [OF _ that(1)] that(2) by simp
  have fin: "no_campaign core core2"
    if "tr_core_append_configuration V (core\<lparr>c_in_call := True\<rparr>) j rd1 = (s1, core1, rd2)" "c_role core = TR_RAFT_LEADER"
      "tr_finish core1 rd2 p = (s, core2, rd3)" for j rd1 s1 core1 rd2 p s core2 rd3
    using finish_no_campaign [OF that(3) conf [OF that(1,2)]] .
  show ?thesis
    using eq unfolding tr_raft_core_change_membership_def Let_def tr_begin_def
    by (auto split: prod.splits if_splits sum.splits dest: conf fin finish_no_campaign)
qed

lemma transfer_campaign:
  assumes eq: "tr_raft_core_transfer_leadership core n rd = (s, core', rd')"
  shows "no_campaign core core'"
proof -
  have rep: "no_campaign core core3"
    if "tr_emit_replication core1 rd1 i False = (b, core2, rd2)" "c_role core = TR_RAFT_LEADER" "c_role core1 = TR_RAFT_LEADER"
      "c_term core1 = c_term core" "tr_finish (core2\<lparr>c_transfer_sent := False\<rparr>) rd2 p = (s, core3, rd3)"
    for core1 rd1 i b core2 rd2 p s core3 rd3
    using emit_replication_campaign [of core1 rd1 i False] finish_campaign [OF that(5)] that(1-4)
    by (intro leader_kept) (simp_all add: same_campaign_def)
  have sent: "no_campaign core core3"
    if "tr_finish core2 rd2 p = (s, core3, rd3)" "c_role core = TR_RAFT_LEADER" "c_role core2 = TR_RAFT_LEADER"
      "c_term core2 = c_term core" for core2 rd2 p s core3 rd3
    using finish_campaign [OF that(1)] that(2-4) by (intro leader_kept) (simp_all add: same_campaign_def)
  show ?thesis
    using eq unfolding tr_raft_core_transfer_leadership_def Let_def tr_begin_def tr_require_capacity_def
    by (auto split: prod.splits if_splits dest: rep sent)
qed

lemma snapshot_completed_campaign:
  assumes "tr_raft_core_snapshot_completed core n i rd = (s, core', rd')"
  shows "no_campaign core core'"
proof -
  have rep: "no_campaign core core2"
    if "tr_fill_peer_replication_window core1 rd1 j = (core2, rd2)" "c_role core = TR_RAFT_LEADER"
      "c_role core1 = TR_RAFT_LEADER" "c_term core1 = c_term core" for core1 rd1 j core2 rd2
    using leader_step [OF that(2-4)] fill_peer_campaign [of core1 rd1 j] that(1) by auto
  show ?thesis
    using assms unfolding tr_raft_core_snapshot_completed_def Let_def tr_begin_def tr_require_capacity_def
    by (auto split: prod.splits if_splits dest: rep finish_no_campaign)
qed

lemma barrier_campaign:
  "same_campaign core (fst (tr_read_start_active_barrier (tr_read_move_waiting_to_active core) rd))"
  "same_campaign core (fst (tr_read_emit_active core rd))"
  by (auto simp: same_campaign_def tr_read_start_active_barrier_def tr_read_move_waiting_to_active_def Let_def
      read_emit_active_frame tr_read_clear_active_def)

lemma barrier_finish_campaign:
  assumes "tr_read_start_active_barrier (tr_read_move_waiting_to_active core1) rd = (core2, rd2)"
    and "same_campaign core core1"
  shows "no_campaign core core2"
  using barrier_campaign(1) [of core1 rd] assms by (auto intro: same_campaign_trans)

lemma read_index_campaign:
  assumes eq: "tr_raft_core_read_index core c rd = (s, core', rd')"
  shows "no_campaign core core'"
proof -
  have bar: "no_campaign core core3"
    if "tr_read_start_active_barrier (tr_read_move_waiting_to_active core1) rd1 = (core2, rd2)" "same_campaign core core1"
      "tr_finish core2 rd2 p = (s, core3, rd3)" for core1 rd1 core2 rd2 p s core3 rd3
    using finish_no_campaign [OF that(3) barrier_finish_campaign [OF that(1,2)]] .
  have fin: "no_campaign core core2" if "tr_finish core1 rd1 p = (s, core2, rd2)" "same_campaign core core1"
    for core1 rd1 p s core2 rd2
    using finish_no_campaign [OF that(1) no_campaign_same [OF that(2)]] .
  have same: "same_campaign core (core\<lparr>c_in_call := True, c_waiting_read_contexts := w\<rparr>)"
    "same_campaign core (core\<lparr>c_in_call := True, c_pending_read_contexts := w\<rparr>)" for w
    by (simp_all add: same_campaign_def)
  show ?thesis
    using eq unfolding tr_raft_core_read_index_def Let_def tr_begin_def tr_require_capacity_def
    by (auto split: prod.splits if_splits dest: bar fin simp: same)
qed

lemma poll_campaign:
  assumes eq: "tr_raft_core_poll core rd = (s, core', rd')"
  shows "no_campaign core core'"
proof -
  have fill: "no_campaign core core3"
    if "tr_fill_replication_windows core1 rd1 = (core2, rd2)" "no_campaign core core1"
      "tr_finish core2 rd2 p = (s, core3, rd3)" for core1 rd1 core2 rd2 p s core3 rd3
    using finish_no_campaign [OF that(3)] fill_windows_campaign [of core1 rd1] that(1,2)
    by (auto intro: no_campaign_trans)
  have bar: "no_campaign core core2"
    if "tr_read_start_active_barrier (tr_read_move_waiting_to_active (core\<lparr>c_in_call := True\<rparr>)) rd1 = (core2, rd2)"
    for rd1 core2 rd2
    by (rule barrier_finish_campaign [OF that]) (simp add: same_campaign_def)
  show ?thesis
    using eq unfolding tr_raft_core_poll_def Let_def tr_begin_def tr_require_capacity_def
    by (auto split: prod.splits if_splits dest!: bar fill)
qed

section \<open>Votes\<close>

text \<open>The peers whose bit is set in a mask.\<close>

definition voters_of :: "raft_core \<Rightarrow> u32 \<Rightarrow> node_id set" where
  "voters_of core v = {tr_peer_id core i | i. i < tr_peer_count core \<and> bit v i}"

text \<open>A step that counts at most the votes \<open>G\<close> in addition: whoever stands behind a candidate or a new
  leader is the core itself, stood behind it before, or is in \<open>G\<close>.\<close>

definition supporter :: "node_id set \<Rightarrow> raft_core \<Rightarrow> raft_core \<Rightarrow> node_id \<Rightarrow> bool" where
  "supporter G core core' n \<longleftrightarrow> n = c_self_id core'
     \<or> c_role core = TR_RAFT_CANDIDATE \<and> c_term core' = c_term core \<and> (n \<in> voters_of core (c_votes core) \<or> n \<in> G)"

definition campaign_step :: "node_id set \<Rightarrow> raft_core \<Rightarrow> raft_core \<Rightarrow> bool" where
  "campaign_step G core core' \<longleftrightarrow>
     (c_role core' = TR_RAFT_CANDIDATE \<longrightarrow> (\<forall>n \<in> voters_of core' (c_votes core'). supporter G core core' n))
     \<and> (c_role core' = TR_RAFT_LEADER \<longrightarrow>
          c_role core = TR_RAFT_LEADER \<and> c_term core' = c_term core
          \<or> (\<exists>v. tr_core_has_quorum core' v \<and> (\<forall>n \<in> voters_of core' v. supporter G core core' n)))"

lemma voters_of_frame: "c_peers core' = c_peers core \<Longrightarrow> voters_of core' v = voters_of core v"
  by (simp add: voters_of_def tr_peer_id_def tr_peer_count_def)

lemma no_campaign_step:
  assumes "no_campaign core core'"
  shows "campaign_step G core core'"
  using assms voters_of_frame [of core' core]
  by (auto simp: no_campaign_def same_campaign_def campaign_step_def supporter_def)

lemma campaign_step_refl [simp]: "campaign_step G core core"
  by (rule no_campaign_step) simp

lemma has_quorum_same:
  assumes "c_peers core' = c_peers core" and "c_transition core' = c_transition core"
  shows "tr_core_has_quorum core' v = tr_core_has_quorum core v"
proof -
  have "member_acks_loop core' u i ms acks = member_acks_loop core u i ms acks" for u i ms acks
    using assms(1) by (induction core u i ms acks rule: member_acks_loop.induct) (simp_all add: Let_def tr_peer_index_def)
  with assms(2) show ?thesis by (simp add: tr_core_has_quorum_def Let_def tr_core_membership_def)
qed

text \<open>What follows a step inside the same call.\<close>

lemma campaign_step_same:
  assumes "campaign_step G core core1" and "same_campaign core1 core'"
  shows "campaign_step G core core'"
  using assms voters_of_frame [of core' core1] has_quorum_same [of core' core1]
  by (auto simp: same_campaign_def campaign_step_def supporter_def)

lemma voters_of_self:
  assumes "membership_wf core" and "c_self_is_voter core"
  shows "voters_of core (u32_shl1 (tr_voter_index core (c_self_id core))) = {c_self_id core}"
proof -
  obtain k where k: "tr_voter_index core (c_self_id core) = int k" "k < tr_peer_count core" "tr_peer_id core k = c_self_id core"
    using self_voter_index [OF assms] .
  have "tr_peer_count core \<le> 31" using peer_set_facts(3) [OF assms(1)] by (simp add: tr_peer_count_def)
  with k show ?thesis by (auto simp: voters_of_def)
qed

lemma become_leader_step:
  assumes quorum: "tr_core_has_quorum core1 v" and support: "\<forall>n \<in> voters_of core1 v. supporter G core core1 n"
    and eq: "tr_become_leader core1 rd = (core', rd')"
  shows "campaign_step G core core'"
proof -
  have "same_campaign (leader_state core1) core'"
    using broadcast_campaign [of "leader_state core1" rd] eq by (simp add: tr_become_leader_def)
  then have frame: "c_peers core' = c_peers core1" "c_transition core' = c_transition core1" "c_role core' = TR_RAFT_LEADER"
    "c_term core' = c_term core1" "c_self_id core' = c_self_id core1" by (simp_all add: same_campaign_def)
  have "tr_core_has_quorum core' v" using has_quorum_same [OF frame(1,2)] quorum by simp
  moreover have "\<forall>n \<in> voters_of core' v. supporter G core core' n"
    using support voters_of_frame [OF frame(1)] frame(4,5) by (simp add: supporter_def)
  ultimately show ?thesis using frame(3) by (auto simp: campaign_step_def)
qed

lemma start_election_step:
  assumes wf: "membership_wf core1" and voter: "c_self_is_voter core1" and self: "c_self_id core1 = c_self_id core"
    and eq: "tr_start_election core1 rd = (core', rd')"
  shows "campaign_step G core core'"
proof -
  let ?c = "candidate_state core1"
  have mem: "membership_wf ?c = membership_wf core1"
    by (simp add: candidate_state_def membership_wf_def tr_core_membership_def)
  have "voters_of ?c (c_votes ?c) = {c_self_id core1}"
    using voters_of_self [OF wf voter] voters_of_frame [of ?c core1] by (simp add: candidate_state_def)
  then have support: "\<forall>n \<in> voters_of ?c (c_votes ?c). supporter G core ?c n"
    by (simp add: supporter_def candidate_state_def)
  show ?thesis
  proof (cases "tr_core_has_quorum ?c (c_votes ?c)")
    case True
    with eq have "tr_become_leader ?c rd = (core', rd')" by (simp add: start_election_eq)
    from become_leader_step [OF True support this] show ?thesis .
  next
    case False
    with eq have "core' = ?c" by (simp add: start_election_eq)
    with support show ?thesis by (simp add: campaign_step_def) (simp add: candidate_state_def)
  qed
qed

section \<open>Messages\<close>

text \<open>The vote a message brings.\<close>

definition vote_in :: "raft_core \<Rightarrow> message \<Rightarrow> node_id set" where
  "vote_in core m =
     (if m_type m = TR_RAFT_MSG_VOTE_RESPONSE \<and> m_granted m \<and> m_term m = c_term core then {m_from m} else {})"

lemma heartbeat_request_campaign:
  assumes "tr_step_heartbeat_request V core m rd = (SALTS_OK, core', rd')"
  shows "no_campaign core core'"
proof -
  have mem: "c_role core2 = TR_RAFT_FOLLOWER"
    if "heartbeat_membership core1 t b = (SALTS_OK, core2)" "c_role core1 = TR_RAFT_FOLLOWER" for core1 t b core2
    using that by (auto simp: heartbeat_membership_def Let_def split: sum.splits if_splits)
  have commit: "c_role core2 = TR_RAFT_FOLLOWER"
    if "heartbeat_commit core1 m b = (SALTS_OK, core2)" "c_role core1 = TR_RAFT_FOLLOWER" for core1 b core2
    using that by (auto simp: heartbeat_commit_def tr_core_sync_membership_def Let_def split: sum.splits if_splits)
  show ?thesis
  proof (cases "m_term m < c_term core")
    case True
    with assms have "core' = core"
      by (auto simp: tr_step_heartbeat_request_def Let_def split: prod.splits bool.splits)
    then show ?thesis by simp
  next
    case False
    with assms have "c_role core' = TR_RAFT_FOLLOWER"
      unfolding tr_step_heartbeat_request_def Let_def
      by (simp split: prod.splits if_splits) (auto dest!: mem commit)
    then show ?thesis by (simp add: no_campaign_def)
  qed
qed

lemma heartbeat_response_campaign:
  assumes eq: "tr_step_heartbeat_response core m rd i = (s, core', rd')"
  shows "no_campaign core core'"
proof (cases "m_term m > c_term core \<or> c_role core \<noteq> TR_RAFT_LEADER \<or> m_term m \<noteq> c_term core")
  case True
  with eq show ?thesis by (auto simp: tr_step_heartbeat_response_def Let_def split: if_splits)
next
  case False
  then have role: "c_role core = TR_RAFT_LEADER" by simp
  have upd: "no_campaign core core2" if "tr_update_commit core1 rd1 = (s1, core2, rd2)" "c_role core1 = TR_RAFT_LEADER"
    "c_term core1 = c_term core" for core1 rd1 s1 core2 rd2
    using leader_step [OF role that(2,3) update_commit_campaign [OF that(2,1)]] .
  have kept: "no_campaign core core1" if "c_role core1 = TR_RAFT_LEADER" "c_term core1 = c_term core" for core1
    using leader_kept [OF role, of core1] that by simp
  define core1 where "core1 = (if tr_raft_membership_is_voter (tr_core_membership core) (m_from m)
     then core\<lparr>c_recent_active := c_recent_active core OR u32_shl1 i\<rparr> else core)"
  have r1: "c_role core1 = TR_RAFT_LEADER" "c_term core1 = c_term core" using role by (simp_all add: core1_def)
  have granted: "no_campaign core core2" if "response_granted core1 m rd i = (s1, core2, rd2)" for s1 core2 rd2
    using that r1 unfolding response_granted_def Let_def by (auto split: if_splits dest: upd intro: kept)
  have rejected: "no_campaign core (response_rejected core1 m i j)" for j
    using r1 by (intro kept) (simp_all add: response_rejected_def Let_def)
  have fill: "no_campaign core core3"
    if "tr_fill_peer_replication_window core2 rd2 j = (core3, rd3)" "no_campaign core core2" for core2 rd2 j core3 rd3
    using fill_peer_campaign [of core2 rd2 j] that by (auto intro: no_campaign_trans)
  have sent: "no_campaign core (core2\<lparr>c_transfer_sent := b\<rparr>)" if "no_campaign core core2" for core2 b
    using that by (simp add: no_campaign_def same_campaign_def)
  from False have g: "\<not> m_term m > c_term core" "\<not> (c_role core \<noteq> TR_RAFT_LEADER \<or> m_term m \<noteq> c_term core)" by auto
  show ?thesis
    using eq [unfolded tr_step_heartbeat_response_def Let_def if_not_P [OF g(1)] if_not_P [OF g(2)], folded core1_def]
    by (auto split: prod.splits if_splits dest: fill granted intro: rejected sent)
qed

lemma vote_response_step:
  assumes wf: "membership_wf core" and vi: "0 \<le> tr_voter_index core (m_from m)" and type: "m_type m = TR_RAFT_MSG_VOTE_RESPONSE"
    and eq: "tr_step_vote_response core m rd (tr_voter_index core (m_from m)) = (core', rd')"
  shows "campaign_step (vote_in core m) core core'"
proof (cases "m_term m > c_term core \<or> c_role core \<noteq> TR_RAFT_CANDIDATE \<or> m_term m \<noteq> c_term core \<or> \<not> m_granted m
    \<or> c_votes core AND u32_shl1 (tr_voter_index core (m_from m)) \<noteq> 0")
  case True
  with eq have "no_campaign core core'"
    by (auto simp: tr_step_vote_response_def Let_def split: if_splits)
  then show ?thesis by (rule no_campaign_step)
next
  case False
  let ?bit = "u32_shl1 (tr_voter_index core (m_from m))"
  let ?core = "core\<lparr>c_votes := c_votes core OR ?bit\<rparr>"
  have g: "\<not> m_term m > c_term core" "\<not> (c_role core \<noteq> TR_RAFT_CANDIDATE \<or> m_term m \<noteq> c_term core \<or> \<not> m_granted m
    \<or> c_votes core AND ?bit \<noteq> 0)" using False by auto
  have from_m: "vote_in core m = {m_from m}" using False type by (simp add: vote_in_def)
  obtain k where k: "tr_voter_index core (m_from m) = int k" using vi by (metis nonneg_int_cases)
  then have "tr_peer_index core (m_from m) = int k" using voter_index_iff(2) [OF wf vi] by simp
  then have kp: "k < tr_peer_count core" "tr_peer_id core k = m_from m"
    using voter_index_iff(4) [OF wf, of "m_from m"] by simp_all
  have "tr_peer_count core \<le> 31" using peer_set_facts(3) [OF wf] by (simp add: tr_peer_count_def)
  with k kp have "voters_of ?core (c_votes ?core) \<subseteq> voters_of core (c_votes core) \<union> {m_from m}"
    by (auto simp: voters_of_def tr_peer_id_def tr_peer_count_def bit_or_iff)
  then have support: "\<forall>n \<in> voters_of ?core (c_votes ?core). supporter (vote_in core m) core ?core n"
    using False from_m by (auto simp: supporter_def)
  note eq1 = eq [unfolded tr_step_vote_response_def Let_def if_not_P [OF g(1)] if_not_P [OF g(2)]]
  show ?thesis
  proof (cases "tr_core_has_quorum ?core (c_votes ?core)")
    case True
    from become_leader_step [OF True support eq1 [unfolded if_P [OF True]]] show ?thesis .
  next
    case no: False
    from eq1 [unfolded if_not_P [OF no]] have "core' = ?core" by simp
    with support False show ?thesis by (simp add: campaign_step_def)
  qed
qed

lemma pre_vote_response_step:
  assumes wf: "core_wf core" and eq: "tr_step_pre_vote_response core m rd vi = (core', rd')"
  shows "campaign_step G core core'"
proof (cases "m_term m > c_term core \<or> c_role core \<noteq> TR_RAFT_PRE_CANDIDATE \<or> m_campaign_term m \<noteq> c_campaign_term core
    \<or> \<not> m_granted m \<or> c_pre_votes core AND u32_shl1 vi \<noteq> 0")
  case True
  with eq have "no_campaign core core'"
    by (auto simp: tr_step_pre_vote_response_def Let_def split: if_splits)
  then show ?thesis by (rule no_campaign_step)
next
  case False
  let ?core = "core\<lparr>c_pre_votes := c_pre_votes core OR u32_shl1 vi\<rparr>"
  have g: "\<not> m_term m > c_term core" "\<not> (c_role core \<noteq> TR_RAFT_PRE_CANDIDATE \<or> m_campaign_term m \<noteq> c_campaign_term core
    \<or> \<not> m_granted m \<or> c_pre_votes core AND u32_shl1 vi \<noteq> 0)" using False by auto
  have "membership_wf ?core" "c_self_is_voter ?core" "c_self_id ?core = c_self_id core"
    using wf False by (auto simp: core_wf_def membership_wf_def tr_core_membership_def role_wf_def)
  note start = start_election_step [OF this]
  from eq [unfolded tr_step_pre_vote_response_def Let_def if_not_P [OF g(1)] if_not_P [OF g(2)]] start
  show ?thesis using False by (auto simp: no_campaign_def intro: no_campaign_step split: if_splits)
qed

lemma start_pre_vote_step:
  assumes wf: "membership_wf core1" and voter: "c_self_is_voter core1" and self: "c_self_id core1 = c_self_id core"
    and eq: "tr_start_pre_vote core1 rd = (core', rd')"
  shows "campaign_step G core core'"
proof -
  define core2 where "core2 = core1\<lparr>c_role := TR_RAFT_PRE_CANDIDATE, c_leader_id := 0,
      c_campaign_term := c_term core1 + 1, c_pre_votes := u32_shl1 (tr_voter_index core1 (c_self_id core1)), c_votes := 0\<rparr>"
  have "membership_wf core2" "c_self_is_voter core2" "c_self_id core2 = c_self_id core"
    using wf voter self by (simp_all add: core2_def membership_wf_def tr_core_membership_def)
  note start = start_election_step [OF this]
  have "c_role core2 = TR_RAFT_PRE_CANDIDATE" by (simp add: core2_def)
  then have "no_campaign core core2" by (simp add: no_campaign_def)
  with eq [unfolded tr_start_pre_vote_def Let_def, folded core2_def] start show ?thesis
    by (auto intro: no_campaign_step split: if_splits)
qed

lemma dispatch_step:
  assumes wf: "core_wf core" and vi: "m_type m \<noteq> TR_RAFT_MSG_HEARTBEAT_RESPONSE \<Longrightarrow> m_type m \<noteq> TR_RAFT_MSG_APPEND_RESPONSE \<Longrightarrow>
      0 \<le> tr_voter_index core (m_from m)"
    and eq: "step_dispatch V core m rd i (tr_voter_index core (m_from m)) = (SALTS_OK, core', rd')"
  shows "campaign_step (vote_in core m) core core'"
proof -
  have mem: "membership_wf core" using wf by (simp add: core_wf_def)
  show ?thesis
  proof (cases "m_type m")
    case TR_RAFT_MSG_PRE_VOTE_RESPONSE
    with eq show ?thesis by (simp add: step_dispatch_def pre_vote_response_step [OF wf])
  next
    case TR_RAFT_MSG_VOTE_RESPONSE
    with eq vi show ?thesis by (simp add: step_dispatch_def vote_response_step [OF mem])
  next
    case TR_RAFT_MSG_TIMEOUT_NOW
    have start: "campaign_step (vote_in core m) core core'"
      if "tr_start_election (core\<lparr>c_campaign_term := t, c_election_elapsed_ticks := e\<rparr>) rd = (core', rd')" "c_self_is_voter core" for t e
      using mem that by (intro start_election_step [OF _ _ _ that(1)]) (simp_all add: membership_wf_def tr_core_membership_def)
    with TR_RAFT_MSG_TIMEOUT_NOW eq show ?thesis
      by (auto simp: step_dispatch_def tr_step_timeout_now_def split: if_splits intro: no_campaign_step)
  next
    case TR_RAFT_MSG_PRE_VOTE_REQUEST
    with eq show ?thesis
      by (intro no_campaign_step no_campaign_same)
        (auto simp: step_dispatch_def tr_step_pre_vote_request_def same_campaign_def Let_def split: prod.splits)
  next
    case TR_RAFT_MSG_VOTE_REQUEST
    with eq show ?thesis
      by (intro no_campaign_step)
        (auto simp: step_dispatch_def vote_request_eq no_campaign_def same_campaign_def Let_def split: if_splits)
  next
    case TR_RAFT_MSG_READ_INDEX_REQUEST
    with eq show ?thesis
      by (intro no_campaign_step)
        (auto simp: step_dispatch_def tr_step_read_index_request_def split: if_splits prod.splits bool.splits)
  next
    case TR_RAFT_MSG_READ_INDEX_RESPONSE
    have bar: "no_campaign core core3"
      if "tr_read_start_active_barrier (tr_read_move_waiting_to_active core2) rd2 = (core3, rd3)"
        "tr_read_emit_active (core\<lparr>c_pending_read_acks := u\<rparr>) rd1 = (core2, rd2)" for u rd1 core2 rd2 core3 rd3
      using barrier_finish_campaign [OF that(1)] barrier_campaign(2) [of "core\<lparr>c_pending_read_acks := u\<rparr>" rd1] that(2)
      by (auto simp: same_campaign_def)
    have em: "no_campaign core core2"
      if "tr_read_emit_active (core\<lparr>c_pending_read_acks := u\<rparr>) rd1 = (core2, rd2)" for u rd1 core2 rd2
      using barrier_campaign(2) [of "core\<lparr>c_pending_read_acks := u\<rparr>" rd1] that by (auto simp: same_campaign_def no_campaign_def)
    have ack: "no_campaign core (core\<lparr>c_pending_read_acks := u\<rparr>)" for u
      by (simp add: no_campaign_def same_campaign_def)
    from TR_RAFT_MSG_READ_INDEX_RESPONSE eq have "no_campaign core core'"
      by (auto simp: step_dispatch_def tr_step_read_index_response_def Let_def split: if_splits prod.splits
          dest: bar em intro: ack)
    then show ?thesis by (rule no_campaign_step)
  next
    case TR_RAFT_MSG_HEARTBEAT_REQUEST
    with eq show ?thesis by (auto simp: step_dispatch_def intro: no_campaign_step heartbeat_request_campaign)
  next
    case TR_RAFT_MSG_APPEND_REQUEST
    with eq show ?thesis by (auto simp: step_dispatch_def intro: no_campaign_step heartbeat_request_campaign)
  next
    case TR_RAFT_MSG_HEARTBEAT_RESPONSE
    with eq show ?thesis by (auto simp: step_dispatch_def intro: no_campaign_step heartbeat_response_campaign)
  next
    case TR_RAFT_MSG_APPEND_RESPONSE
    with eq show ?thesis by (auto simp: step_dispatch_def intro: no_campaign_step heartbeat_response_campaign)
  next
    case TR_RAFT_MSG_OTHER
    with eq show ?thesis by (simp add: step_dispatch_def)
  qed
qed

section \<open>Every call\<close>

lemma step_campaign:
  assumes wf: "core_wf core" and nocall: "\<not> c_in_call core" and eq: "tr_raft_core_step V core m rd = (s, core', rd')"
    and ok: "s = SALTS_OK"
  shows "campaign_step (vote_in core m) core core'"
proof -
  let ?core = "core\<lparr>c_in_call := True\<rparr>"
  have same: "same_campaign core ?core" by (simp add: same_campaign_def)
  have index: "tr_voter_index ?core n = tr_voter_index core n" for n
    by (simp add: tr_voter_index_def tr_peer_index_def tr_core_membership_def)
  obtain rd1 i core1 rd2 p where d: "step_dispatch V ?core m rd1 i (tr_voter_index core (m_from m)) = (SALTS_OK, core1, rd2)"
    and fin: "tr_finish core1 rd2 p = (s, core', rd')"
    and vi: "m_type m \<noteq> TR_RAFT_MSG_HEARTBEAT_RESPONSE \<Longrightarrow> m_type m \<noteq> TR_RAFT_MSG_APPEND_RESPONSE \<Longrightarrow>
      0 \<le> tr_voter_index core (m_from m)"
    using eq ok unfolding tr_raft_core_step_def Let_def tr_begin_def tr_require_capacity_def
    by (auto split: prod.splits if_splits option.splits)
  have "campaign_step (vote_in ?core m) ?core core1"
    using dispatch_step [of ?core m V rd1 i core1 rd2] core_wf_in_call [OF wf] vi d by (simp add: index)
  from campaign_step_same [OF this finish_campaign [OF fin]] show ?thesis
    using voters_of_frame [of ?core core]
    by (simp add: campaign_step_def supporter_def vote_in_def)
qed

lemma tick_age_campaign: "same_campaign core (foldl (tick_age_peer e) core is)"
proof (induction "is" arbitrary: core)
  case (Cons i "is")
  have "same_campaign core (tick_age_peer e core i)"
    by (auto simp: tick_age_peer_def same_campaign_def Let_def split: prod.splits)
  with Cons.IH show ?case by (auto intro: same_campaign_trans)
qed simp

lemma tick_leader_campaign:
  assumes eq: "tick_leader e core rd p = (s, core', rd')"
  shows "no_campaign core core'"
proof -
  define due where "due = ticks_reached (c_check_quorum_elapsed_ticks core) e (c_election_timeout_ticks core)"
  define core1 where "core1 = (if due then core\<lparr>c_check_quorum_elapsed_ticks := 0,
      c_recent_active := u32_shl1 (tr_voter_index core (c_self_id core))\<rparr>
    else core\<lparr>c_check_quorum_elapsed_ticks := c_check_quorum_elapsed_ticks core + e\<rparr>)"
  define core2 where "core2 = tick_transfer e core1"
  define core3 where "core3 = foldl (tick_age_peer e) core2 [0..<tr_peer_count core2]"
  have "same_campaign core core2" by (simp add: core2_def core1_def tick_transfer_def same_campaign_def)
  then have same: "same_campaign core core3"
    unfolding core3_def by (rule same_campaign_trans [OF _ tick_age_campaign])
  have send: "no_campaign core core5"
    if "tr_broadcast_replication (core3\<lparr>c_heartbeat_elapsed_ticks := t\<rparr>) rd1 = (core4, rd4)"
      "tr_finish core4 rd4 p = (s, core5, rd5)" for t rd1 core4 rd4 s core5 rd5
    using broadcast_campaign [of "core3\<lparr>c_heartbeat_elapsed_ticks := t\<rparr>" rd1] that(1) same
    by (intro finish_no_campaign [OF that(2)]) (auto simp: same_campaign_def no_campaign_def)
  have kept: "no_campaign core core5" if "tr_finish (core3\<lparr>c_heartbeat_elapsed_ticks := t\<rparr>) rd1 p = (s, core5, rd5)"
    for t rd1 s core5 rd5
    using same by (intro finish_no_campaign [OF that]) (auto simp: same_campaign_def no_campaign_def)
  show ?thesis
    using eq [unfolded tick_leader_def Let_def, folded due_def, folded core1_def, folded core2_def, folded core3_def] same
    by (auto simp: tr_require_capacity_def split: if_splits prod.splits dest: send kept finish_no_campaign)
qed

lemma tick_other_step:
  assumes mem: "membership_wf core" and eq: "tick_other tk core rd p = (s, core', rd')"
  shows "campaign_step G core core'"
proof -
  have pre: "campaign_step G core core3"
    if "tr_start_pre_vote (core\<lparr>c_election_elapsed_ticks := a, c_election_timeout_ticks := b\<rparr>) rd1 = (core2, rd2)"
      "c_self_is_voter core" "tr_finish core2 rd2 p = (s, core3, rd3)" for a b rd1 core2 rd2 s core3 rd3
    using mem that(2)
    by (intro campaign_step_same [OF start_pre_vote_step [OF _ _ _ that(1)] finish_campaign [OF that(3)]])
      (simp_all add: membership_wf_def tr_core_membership_def)
  have fin: "campaign_step G core core2" if "tr_finish core1 rd1 p = (s, core2, rd2)" "same_campaign core core1"
    for core1 rd1 s core2 rd2
    using finish_no_campaign [OF that(1) no_campaign_same [OF that(2)]] by (rule no_campaign_step)
  have timers: "same_campaign core (core\<lparr>c_election_elapsed_ticks := a\<rparr>)"
    "same_campaign core (core\<lparr>c_election_elapsed_ticks := a, c_election_timeout_ticks := b\<rparr>)" for a b
    by (simp_all add: same_campaign_def)
  show ?thesis
    using eq unfolding tick_other_def Let_def tr_require_capacity_def
    by (auto split: if_splits prod.splits dest: pre fin intro: no_campaign_step simp: timers)
qed

lemma tick_campaign:
  assumes wf: "core_wf core" and eq: "tr_raft_core_tick V core tk rd = (s, core', rd')"
  shows "campaign_step G core core'"
proof -
  let ?core = "core\<lparr>c_in_call := True\<rparr>"
  have shift: "campaign_step G ?core core2 \<longleftrightarrow> campaign_step G core core2" for core2
    using voters_of_frame [of ?core core] by (simp add: campaign_step_def supporter_def)
  have mem: "membership_wf ?core" using core_wf_in_call [OF wf, of True] by (simp add: core_wf_def)
  have conf: "campaign_step G core core2"
    if "tr_core_append_configuration V ?core c rd1 = (s1, core2, rd2)" "c_role core = TR_RAFT_LEADER" for c rd1 s1 core2 rd2
    using append_configuration_campaign [OF _ that(1)] that(2) by (intro no_campaign_step) simp
  have flag: "campaign_step G core (core2\<lparr>c_in_call := b\<rparr>)" if "campaign_step G core core2" for core2 b
    by (rule campaign_step_same [OF that]) (simp add: same_campaign_def)
  have fin: "campaign_step G core core3"
    if "tr_finish core2 rd2 p = (s, core3, rd3)" "campaign_step G core core2" for core2 rd2 p s core3 rd3
    by (rule campaign_step_same [OF that(2) finish_campaign [OF that(1)]])
  have leader: "campaign_step G core core2" if "tick_leader e ?core rd1 p = (s, core2, rd2)" for e rd1 p s core2 rd2
    using tick_leader_campaign [OF that] by (intro no_campaign_step) simp
  have other: "campaign_step G core core2" if "tick_other tk ?core rd1 p = (s, core2, rd2)" for rd1 p s core2 rd2
    using tick_other_step [OF mem that, of G] by (simp add: shift)
  have same: "campaign_step G core ?core" by (rule no_campaign_step) simp
  show ?thesis
    using eq unfolding tr_raft_core_tick_def tr_begin_def Let_def
    by (auto split: if_splits prod.splits sum.splits dest: conf leader other fin intro: flag same)
qed

fun call_votes :: "raft_core \<Rightarrow> api_call \<Rightarrow> node_id set" where
  "call_votes core (Call_step m) = vote_in core m"
| "call_votes core _ = {}"

lemma update_campaign:
  "tr_raft_core_ack_ready core n = (s, core') \<Longrightarrow> same_campaign core core'"
  "tr_raft_core_ack_applied core i = (s, core') \<Longrightarrow> same_campaign core core'"
  "tr_raft_core_advance core = (s, core') \<Longrightarrow> same_campaign core core'"
  "tr_raft_core_set_peer_paused core j b = (s, core') \<Longrightarrow> same_campaign core core'"
  "tr_raft_core_compact V core point = (s, core') \<Longrightarrow> same_campaign core core'"
  by (auto simp: tr_raft_core_ack_ready_def tr_raft_core_ack_applied_def tr_raft_core_advance_def
      tr_raft_core_set_peer_paused_def Let_def same_campaign_def split: if_splits elim: compact_cases)

lemma exec_campaign:
  assumes wf: "core_wf core" and en: "call_enabled V core call" and eq: "api_exec V core call rd = (s, core', rd')"
  shows "campaign_step (call_votes core call) core core'"
proof -
  have nocall: "\<not> c_in_call core" using en by (simp add: call_enabled_def)
  show ?thesis
  proof (cases call)
    case (Call_step m)
    with eq exec_safe(5) [OF wf en eq] step_campaign [OF wf nocall] show ?thesis by (cases "s = SALTS_OK") auto
  next
    case (Call_tick t)
    with eq show ?thesis by (simp add: tick_campaign [OF wf])
  next
    case (Call_propose p)
    with eq show ?thesis
      by (cases p) (auto simp: tr_raft_core_propose_def intro: no_campaign_step propose_batch_campaign)
  qed (use eq in \<open>auto simp: no_ready_eq dest: update_campaign
    intro: no_campaign_step propose_batch_campaign change_membership_campaign transfer_campaign read_index_campaign
      poll_campaign snapshot_completed_campaign\<close>)
qed

section \<open>Quorums\<close>

lemma member_acks_bits:
  assumes "i + length ms \<le> 31"
  shows "bit (member_acks_loop core v i ms acks) k \<longleftrightarrow>
    bit acks k \<or> (\<exists>j < length ms. k = i + j \<and> 0 \<le> tr_peer_index core (cm_node_id (ms ! j))
      \<and> u32_test v (tr_peer_index core (cm_node_id (ms ! j))))"
  using assms
proof (induction core v i ms acks rule: member_acks_loop.induct)
  case (2 core v i m ms acks)
  let ?p = "tr_peer_index core (cm_node_id m)"
  have "bit (member_acks_loop core v i (m # ms) acks) k \<longleftrightarrow>
      bit (if 0 \<le> ?p \<and> u32_test v ?p then acks OR u32_shl1 (int i) else acks) k
      \<or> (\<exists>j < length ms. k = Suc i + j \<and> 0 \<le> tr_peer_index core (cm_node_id (ms ! j))
          \<and> u32_test v (tr_peer_index core (cm_node_id (ms ! j))))"
    using 2 by (simp add: Let_def)
  also have "bit (if 0 \<le> ?p \<and> u32_test v ?p then acks OR u32_shl1 (int i) else acks) k
      \<longleftrightarrow> bit acks k \<or> (k = i \<and> 0 \<le> ?p \<and> u32_test v ?p)"
    using 2(2) by (auto simp: bit_or_iff)
  finally show ?case by (auto simp: less_Suc_eq_0_disj)
qed simp

lemma core_quorum:
  assumes wf: "membership_wf core" and q: "tr_core_has_quorum core v"
  shows "conf_quorum (tr_core_membership core) (voters_of core v)"
proof -
  let ?c = "tr_core_membership core"
  have valid: "conf_valid ?c"
    using wf by (simp add: membership_wf_def transition_wf_def tr_core_membership_def
        tr_raft_membership_transition_committed_def)
  then have len: "length (conf_members ?c) \<le> 31" by (simp add: conf_valid_def)
  let ?acks = "member_acks_loop core v 0 (conf_members ?c) 0"
  have "acked_ids ?c ?acks \<subseteq> voters_of core v"
  proof
    fix n assume "n \<in> acked_ids ?c ?acks"
    then obtain i where i: "i < length (conf_members ?c)" "n = cm_node_id (conf_members ?c ! i)" "bit ?acks i"
      by (auto simp: acked_ids_def)
    then have p: "0 \<le> tr_peer_index core n" "u32_test v (tr_peer_index core n)"
      using member_acks_bits [of 0 "conf_members ?c" core v 0 i] len by auto
    then obtain k where k: "tr_peer_index core n = int k" by (metis nonneg_int_cases)
    then have "k < tr_peer_count core" "tr_peer_id core k = n" using voter_index_iff(4) [OF wf p(1)] by simp_all
    moreover have "tr_peer_count core \<le> 31" using peer_set_facts(3) [OF wf] by (simp add: tr_peer_count_def)
    ultimately show "n \<in> voters_of core v" using p(2) k by (auto simp: voters_of_def)
  qed
  moreover have "conf_quorum ?c (acked_ids ?c ?acks)"
    using q has_quorum_iff [OF conf_valid_distinct [OF valid] len] by (simp add: tr_core_has_quorum_def Let_def)
  ultimately show ?thesis using conf_q.quorum_mono by blast
qed

end
