(* ===== verification/Raft_Cluster.thy ===== *)
theory Raft_Cluster
  imports Raft_Core_Campaign
begin

text \<open>
  A cluster of cores that exchange the messages of their Ready records. The network may lose,
  duplicate, delay and reorder messages; nodes call any public operation at any time, and restart from
  the term and the vote they had. Histories of votes and elections record what happened.
\<close>

section \<open>Steps of a cluster\<close>

record cluster =
  cl_nodes :: "node_id \<Rightarrow> raft_core option"
  cl_net :: "message set"
  cl_votes :: "(node_id \<times> raft_term \<times> node_id) set"
  cl_elections :: "(node_id \<times> raft_term \<times> conf) set"

definition cluster_init :: cluster where
  "cluster_init = \<lparr>cl_nodes = (\<lambda>_. None), cl_net = {}, cl_votes = {}, cl_elections = {}\<rparr>"

definition sent_messages :: "api_call \<Rightarrow> salts_status \<Rightarrow> ready \<Rightarrow> message set" where
  "sent_messages call s rd = (if fills_ready call \<and> s = SALTS_OK then set (r_messages rd) else {})"

definition vote_record :: "node_id \<Rightarrow> raft_core \<Rightarrow> (node_id \<times> raft_term \<times> node_id) set" where
  "vote_record n core = (if c_voted_for core \<noteq> 0 then {(n, c_term core, c_voted_for core)} else {})"

definition election_record :: "node_id \<Rightarrow> raft_core \<Rightarrow> raft_core \<Rightarrow> (node_id \<times> raft_term \<times> conf) set" where
  "election_record n core core' =
     (if c_role core' = TR_RAFT_LEADER \<and> \<not> (c_role core = TR_RAFT_LEADER \<and> c_term core' = c_term core)
      then {(n, c_term core', tr_core_membership core')} else {})"

inductive cluster_step :: "vec_ops \<Rightarrow> cluster \<Rightarrow> cluster \<Rightarrow> bool" for V where
  start: "cl_nodes S n = None \<Longrightarrow> config_ok config \<Longrightarrow> vec_contract V (config_max_entries config) \<Longrightarrow>
     cfg_self_id config = n \<Longrightarrow> cfg_initial_vote config = 0 \<Longrightarrow>
     tr_raft_core_create V True config = Inr core \<Longrightarrow> log_room (c_log core) 1 \<Longrightarrow>
     cluster_step V S (S\<lparr>cl_nodes := (cl_nodes S)(n := Some core)\<rparr>)"
| restart: "cl_nodes S n = Some core \<Longrightarrow> config_ok config \<Longrightarrow> vec_contract V (config_max_entries config) \<Longrightarrow>
     cfg_self_id config = n \<Longrightarrow> cfg_initial_term config = c_term core \<Longrightarrow>
     cfg_initial_vote config = c_voted_for core \<Longrightarrow>
     tr_raft_core_create V True config = Inr core' \<Longrightarrow> log_room (c_log core') 1 \<Longrightarrow>
     cluster_step V S (S\<lparr>cl_nodes := (cl_nodes S)(n := Some core')\<rparr>)"
| exec: "cl_nodes S n = Some core \<Longrightarrow> log_vec_ok V (c_log core) \<Longrightarrow> log_room (c_log core) 17 \<Longrightarrow>
     (\<And>m. call = Call_step m \<Longrightarrow> m \<in> cl_net S) \<Longrightarrow>
     api_exec V core call rd = (s, core', rd') \<Longrightarrow>
     cluster_step V S (S\<lparr>cl_nodes := (cl_nodes S)(n := Some core'),
       cl_net := cl_net S \<union> sent_messages call s rd',
       cl_votes := cl_votes S \<union> vote_record n core',
       cl_elections := cl_elections S \<union> election_record n core core'\<rparr>)"

inductive cluster_reachable :: "vec_ops \<Rightarrow> cluster \<Rightarrow> bool" for V where
  init: "cluster_reachable V cluster_init"
| step: "cluster_reachable V S \<Longrightarrow> cluster_step V S S' \<Longrightarrow> cluster_reachable V S'"

section \<open>The invariant\<close>

definition node_inv :: "cluster \<Rightarrow> node_id \<Rightarrow> raft_core \<Rightarrow> bool" where
  "node_inv S n core \<longleftrightarrow>
     core_wf core \<and> \<not> c_in_call core \<and> c_self_id core = n
     \<and> (c_voted_for core \<noteq> 0 \<longrightarrow> (n, c_term core, c_voted_for core) \<in> cl_votes S)
     \<and> (\<forall>t c. (n, t, c) \<in> cl_votes S \<longrightarrow> t \<le> c_term core \<and> (t = c_term core \<longrightarrow> c_voted_for core = c))
     \<and> (c_role core = TR_RAFT_CANDIDATE \<longrightarrow>
          (\<forall>k \<in> voters_of core (c_votes core). (k, c_term core, n) \<in> cl_votes S))
     \<and> (c_role core = TR_RAFT_LEADER \<longrightarrow> (\<exists>c. (n, c_term core, c) \<in> cl_elections S))"

definition message_inv :: "cluster \<Rightarrow> message \<Rightarrow> bool" where
  "message_inv S m \<longleftrightarrow> message_wf m
     \<and> (m_type m = TR_RAFT_MSG_VOTE_RESPONSE \<and> m_granted m \<longrightarrow> (m_from m, m_term m, m_to m) \<in> cl_votes S)"

definition cluster_inv :: "cluster \<Rightarrow> bool" where
  "cluster_inv S \<longleftrightarrow>
     (\<forall>n core. cl_nodes S n = Some core \<longrightarrow> node_inv S n core)
     \<and> (\<forall>m \<in> cl_net S. message_inv S m)
     \<and> (\<forall>n t c. (n, t, c) \<in> cl_votes S \<longrightarrow> c \<noteq> 0 \<and> cl_nodes S n \<noteq> None)
     \<and> (\<forall>n t c d. (n, t, c) \<in> cl_votes S \<longrightarrow> (n, t, d) \<in> cl_votes S \<longrightarrow> c = d)
     \<and> (\<forall>l t c. (l, t, c) \<in> cl_elections S \<longrightarrow> (\<exists>Q. conf_quorum c Q \<and> (\<forall>k \<in> Q. (k, t, l) \<in> cl_votes S)))"

lemma cluster_init_inv: "cluster_inv cluster_init"
  by (simp add: cluster_inv_def cluster_init_def)

lemma created_node_inv:
  assumes "tr_raft_core_create V True config = Inr core" and "config_ok config"
    and "vec_contract V (config_max_entries config)" and "log_room (c_log core) 1"
    and "cfg_initial_vote config \<noteq> 0 \<longrightarrow> (cfg_self_id config, cfg_initial_term config, cfg_initial_vote config) \<in> cl_votes S"
    and "\<forall>t c. (cfg_self_id config, t, c) \<in> cl_votes S \<longrightarrow>
      t \<le> cfg_initial_term config \<and> (t = cfg_initial_term config \<longrightarrow> cfg_initial_vote config = c)"
  shows "node_inv S (cfg_self_id config) core"
  using create_wf [OF assms(3,2,4,1)] assms(5,6) by (simp add: node_inv_def)

lemma set_node_inv:
  assumes "cluster_inv S" and "node_inv S n core"
  shows "cluster_inv (S\<lparr>cl_nodes := (cl_nodes S)(n := Some core)\<rparr>)"
  using assms by (auto simp: cluster_inv_def node_inv_def message_inv_def)

text \<open>Histories only grow, so that facts about other nodes and older messages stay.\<close>

lemma node_inv_grow:
  assumes "node_inv S k core" and "k \<noteq> n"
    and "cl_votes S' = cl_votes S \<union> vote_record n core'" and "cl_elections S \<subseteq> cl_elections S'"
  shows "node_inv S' k core"
  using assms unfolding node_inv_def vote_record_def by (auto split: if_splits)

lemma message_inv_grow: "message_inv S m \<Longrightarrow> cl_votes S \<subseteq> cl_votes S' \<Longrightarrow> message_inv S' m"
  by (auto simp: message_inv_def)

lemma exec_node_inv:
  assumes inv: "cluster_inv S" and node: "cl_nodes S n = Some core"
    and vec: "log_vec_ok V (c_log core)" and room: "log_room (c_log core) 17"
    and net: "\<And>m. call = Call_step m \<Longrightarrow> m \<in> cl_net S" and eq: "api_exec V core call rd = (s, core', rd')"
    and votes: "cl_votes S' = cl_votes S \<union> vote_record n core'"
    and elections: "cl_elections S' = cl_elections S \<union> election_record n core core'"
  shows "node_inv S' n core'" and "\<forall>m \<in> sent_messages call s rd'. message_inv S' m"
    and "\<forall>(l, t, c) \<in> election_record n core core'. \<exists>Q. conf_quorum c Q \<and> (\<forall>k \<in> Q. (k, t, l) \<in> cl_votes S')"
proof -
  have ni: "node_inv S n core" and msgs: "\<forall>m \<in> cl_net S. message_inv S m"
    using inv node by (auto simp: cluster_inv_def)
  have wf: "core_wf core" and self: "c_self_id core = n" using ni by (simp_all add: node_inv_def)
  have wfm: "call_wf call" using net msgs by (cases call) (auto simp: message_inv_def)
  then have en: "call_enabled V core call" using ni vec room by (simp add: call_enabled_def node_inv_def)
  note safe = exec_safe [OF wf en eq] and camp = exec_campaign [OF wf en eq]
  have ext: "c_self_id core' = n" "c_term core \<le> c_term core'"
    "c_term core' = c_term core \<and> c_voted_for core \<noteq> 0 \<longrightarrow> c_voted_for core' = c_voted_for core"
    using safe(2) self by (auto simp: core_extends_def)
  have own: "(n, c_term core', n) \<in> cl_votes S'" if "c_role core' \<in> {TR_RAFT_CANDIDATE, TR_RAFT_LEADER}"
  proof -
    have "c_voted_for core' = n" "n \<noteq> 0"
      using safe(1) that ext(1) by (auto simp: core_wf_def role_wf_def membership_wf_def)
    then show ?thesis by (simp add: votes vote_record_def)
  qed
  have granted: "(k, c_term core, n) \<in> cl_votes S" if k: "k \<in> call_votes core call" and "core' \<noteq> core" for k
  proof -
    from k obtain m where m: "call = Call_step m" "m_type m = TR_RAFT_MSG_VOTE_RESPONSE" "m_granted m"
      "m_term m = c_term core" "k = m_from m"
      by (cases call) (auto simp: vote_in_def split: if_splits)
    have "m_to m = n"
      using eq m(1) that(2) self by (auto simp: tr_raft_core_step_def split: if_splits)
    then show ?thesis using net [OF m(1)] msgs m by (auto simp: message_inv_def)
  qed
  have support: "(k, c_term core', n) \<in> cl_votes S'"
    if "supporter (call_votes core call) core core' k" "c_role core' \<in> {TR_RAFT_CANDIDATE, TR_RAFT_LEADER}"
      "core' \<noteq> core" for k
  proof (cases "k = n")
    case True
    with own [OF that(2)] show ?thesis by simp
  next
    case False
    with that(1) ext(1) have s: "c_role core = TR_RAFT_CANDIDATE" "c_term core' = c_term core"
      "k \<in> voters_of core (c_votes core) \<or> k \<in> call_votes core call" by (auto simp: supporter_def)
    then have "(k, c_term core, n) \<in> cl_votes S"
      using ni granted [OF _ that(3)] by (auto simp: node_inv_def)
    with s(2) show ?thesis by (simp add: votes)
  qed
  have new: "\<exists>Q. conf_quorum c Q \<and> (\<forall>k \<in> Q. (k, t, l) \<in> cl_votes S')"
    if r: "(l, t, c) \<in> election_record n core core'" for l t c
  proof -
    have lead: "c_role core' = TR_RAFT_LEADER" "\<not> (c_role core = TR_RAFT_LEADER \<and> c_term core' = c_term core)"
      "l = n" "t = c_term core'" "c = tr_core_membership core'"
      using r by (auto simp: election_record_def split: if_splits)
    then obtain v where v: "tr_core_has_quorum core' v"
      "\<forall>k \<in> voters_of core' v. supporter (call_votes core call) core core' k"
      using camp by (auto simp: campaign_step_def)
    have "core' \<noteq> core" using lead(1,2) by auto
    then have "\<forall>k \<in> voters_of core' v. (k, t, l) \<in> cl_votes S'" using support v(2) lead(1,3,4) by simp
    moreover have "conf_quorum c (voters_of core' v)"
      using core_quorum [OF _ v(1)] safe(1) lead(5) by (simp add: core_wf_def)
    ultimately show ?thesis by blast
  qed
  then show "\<forall>(l, t, c) \<in> election_record n core core'. \<exists>Q. conf_quorum c Q \<and> (\<forall>k \<in> Q. (k, t, l) \<in> cl_votes S')"
    by blast
  show "\<forall>m \<in> sent_messages call s rd'. message_inv S' m"
  proof
    fix m assume "m \<in> sent_messages call s rd'"
    then have m: "message_ok core' m"
      using safe(6) by (auto simp: sent_messages_def call_done_def ready_ok_def split: if_splits)
    moreover have "log_wf (c_log core')" using safe(1) by (simp add: core_wf_def)
    ultimately have "message_wf m" by (rule message_ok_wf)
    with m ext(1) show "message_inv S' m"
      by (auto simp: message_inv_def message_ok_def votes vote_record_def)
  qed
  have history: "\<forall>t c. (n, t, c) \<in> cl_votes S' \<longrightarrow> t \<le> c_term core' \<and> (t = c_term core' \<longrightarrow> c_voted_for core' = c)"
  proof (intro allI impI)
    fix t c assume "(n, t, c) \<in> cl_votes S'"
    then consider "(n, t, c) \<in> cl_votes S" | "t = c_term core'" "c = c_voted_for core'"
      by (auto simp: votes vote_record_def split: if_splits)
    then show "t \<le> c_term core' \<and> (t = c_term core' \<longrightarrow> c_voted_for core' = c)"
    proof cases
      case 1
      then have "t \<le> c_term core" "t = c_term core \<longrightarrow> c_voted_for core = c" "c \<noteq> 0"
        using ni inv by (auto simp: node_inv_def cluster_inv_def)
      with ext(2,3) show ?thesis by auto
    qed simp
  qed
  have leader: "c_role core' = TR_RAFT_LEADER \<longrightarrow> (\<exists>c. (n, c_term core', c) \<in> cl_elections S')"
    using ni by (auto simp: elections election_record_def node_inv_def)
  have candidate: "c_role core' = TR_RAFT_CANDIDATE \<longrightarrow> (\<forall>k \<in> voters_of core' (c_votes core'). (k, c_term core', n) \<in> cl_votes S')"
  proof (cases "core' = core")
    case True
    with ni show ?thesis by (auto simp: node_inv_def votes)
  next
    case False
    with camp support show ?thesis by (auto simp: campaign_step_def)
  qed
  have voted: "c_voted_for core' \<noteq> 0 \<longrightarrow> (n, c_term core', c_voted_for core') \<in> cl_votes S'"
    by (simp add: votes vote_record_def)
  show "node_inv S' n core'"
    using safe(1,3) ext(1) voted history leader candidate unfolding node_inv_def by blast
qed

lemma cluster_step_inv:
  assumes "cluster_step V S S'" and inv: "cluster_inv S"
  shows "cluster_inv S'"
  using assms(1)
proof (cases rule: cluster_step.cases)
  case (start n config core)
  have "(n, t, c) \<notin> cl_votes S" for t c using inv start(2) unfolding cluster_inv_def by blast
  then have "node_inv S n core"
    using created_node_inv [OF start(7,3,4,8), of S] start(5,6) by auto
  from set_node_inv [OF inv this] start(1) show ?thesis by simp
next
  case (restart n core config core')
  have "node_inv S n core" using inv restart(2) by (auto simp: cluster_inv_def)
  then have "node_inv S n core'"
    using created_node_inv [OF restart(8,3,4,9), of S] restart(5-7) by (auto simp: node_inv_def)
  from set_node_inv [OF inv this] restart(1) show ?thesis by simp
next
  case (exec n core call rd s core' rd')
  have votes: "cl_votes S' = cl_votes S \<union> vote_record n core'"
    and elections: "cl_elections S' = cl_elections S \<union> election_record n core core'"
    and nodes: "cl_nodes S' = (cl_nodes S)(n := Some core')"
    and net: "cl_net S' = cl_net S \<union> sent_messages call s rd'"
    using exec(1) by simp_all
  note new = exec_node_inv [OF inv exec(2-6) votes elections]
  have others: "node_inv S' k c" if "cl_nodes S k = Some c" "k \<noteq> n" for k c
  proof (rule node_inv_grow [OF _ that(2) votes])
    show "node_inv S k c" using inv that(1) unfolding cluster_inv_def by blast
  qed (simp add: elections)
  have nodes': "node_inv S' k c" if "cl_nodes S' k = Some c" for k c
    using that nodes new(1) others by (auto split: if_splits)
  have msgs: "\<forall>m \<in> cl_net S'. message_inv S' m"
  proof
    fix m assume "m \<in> cl_net S'"
    then consider "m \<in> cl_net S" | "m \<in> sent_messages call s rd'" by (auto simp: net)
    then show "message_inv S' m"
    proof cases
      case 1
      then have "message_inv S m" using inv unfolding cluster_inv_def by blast
      then show ?thesis by (rule message_inv_grow) (simp add: votes)
    qed (use new(2) in blast)
  qed
  have known: "\<forall>k t c. (k, t, c) \<in> cl_votes S' \<longrightarrow> c \<noteq> 0 \<and> cl_nodes S' k \<noteq> None"
  proof (intro allI impI)
    fix k t c assume "(k, t, c) \<in> cl_votes S'"
    then consider "(k, t, c) \<in> cl_votes S" | "k = n" "c \<noteq> 0" by (auto simp: votes vote_record_def split: if_splits)
    then show "c \<noteq> 0 \<and> cl_nodes S' k \<noteq> None"
    proof cases
      case 1
      with inv have "c \<noteq> 0 \<and> cl_nodes S k \<noteq> None" unfolding cluster_inv_def by blast
      then show ?thesis by (simp add: nodes)
    qed (simp add: nodes)
  qed
  have unique: "\<forall>k t c d. (k, t, c) \<in> cl_votes S' \<longrightarrow> (k, t, d) \<in> cl_votes S' \<longrightarrow> c = d"
  proof (intro allI impI)
    fix k t c d assume a: "(k, t, c) \<in> cl_votes S'" "(k, t, d) \<in> cl_votes S'"
    show "c = d"
    proof (cases "(k, t, c) \<in> cl_votes S \<and> (k, t, d) \<in> cl_votes S")
      case True
      with inv show ?thesis unfolding cluster_inv_def by blast
    next
      case False
      with a have "k = n" "t = c_term core'" by (auto simp: votes vote_record_def split: if_splits)
      with new(1) a show ?thesis unfolding node_inv_def by blast
    qed
  qed
  have elected: "\<forall>l t c. (l, t, c) \<in> cl_elections S' \<longrightarrow> (\<exists>Q. conf_quorum c Q \<and> (\<forall>k \<in> Q. (k, t, l) \<in> cl_votes S'))"
    using inv new(3) unfolding elections votes cluster_inv_def by fast
  show ?thesis unfolding cluster_inv_def using nodes' msgs known unique elected by blast
qed

lemma cluster_reachable_inv: "cluster_reachable V S \<Longrightarrow> cluster_inv S"
  by (induction rule: cluster_reachable.induct) (auto intro: cluster_init_inv cluster_step_inv)

section \<open>Election safety\<close>

text \<open>Two configurations whose quorums always meet, as the joint configuration does with the one it
  replaces and with the one it leads to.\<close>

definition conf_overlap :: "conf \<Rightarrow> conf \<Rightarrow> bool" where
  "conf_overlap c d \<longleftrightarrow> (\<forall>P Q. conf_quorum c P \<longrightarrow> conf_quorum d Q \<longrightarrow> P \<inter> Q \<noteq> {})"

lemma conf_overlap_refl: "conf_overlap c c"
  using conf_q.quorum_intersect by (auto simp: conf_overlap_def)

lemma cluster_one_leader:
  assumes "cluster_inv S" and "(a, t, c) \<in> cl_elections S" and "(b, t, d) \<in> cl_elections S" and "conf_overlap c d"
  shows "a = b"
proof -
  obtain P Q where "conf_quorum c P" "\<forall>k \<in> P. (k, t, a) \<in> cl_votes S" "conf_quorum d Q" "\<forall>k \<in> Q. (k, t, b) \<in> cl_votes S"
    using assms(1-3) unfolding cluster_inv_def by meson
  moreover then obtain k where "k \<in> P" "k \<in> Q" using assms(4) unfolding conf_overlap_def by blast
  ultimately have "(k, t, a) \<in> cl_votes S" "(k, t, b) \<in> cl_votes S" by blast+
  with assms(1) show ?thesis unfolding cluster_inv_def by blast
qed

end
