(* ===== verification/Raft_Core_Follower.thy ===== *)
theory Raft_Core_Follower
  imports Raft_Core_Append
begin

text \<open>
  What a follower does with an accepted append or heartbeat request: the log and the commit index it
  ends with, and the answer it sends.
\<close>

lemma matched_iff:
  assumes "log_wf l" "log_vec_ok V l" "incoming_ok prev es" "log_room l 1"
    and "tr_raft_log_reconcile V l prev trm es prot = (SALTS_OK, l', r)"
  shows "rr_matched r \<longleftrightarrow> tr_raft_log_matches l prev trm"
  by (cases rule: reconcile_cases [OF assms, case_names error unmatched unchanged changed];
      simp add: reconcile_zero_def)

text \<open>The states a successful request runs through.\<close>

lemma heartbeat_request_success:
  assumes wf: "core_wf core" and vec: "log_vec_ok V (c_log core)" and room: "log_room (c_log core) 9"
    and inc: "incoming_ok (m_previous_log_index m) (m_entries m)" "length (m_entries m) \<le> 8"
    and trm: "c_term core \<le> m_term m"
    and eq: "tr_step_heartbeat_request V core m rd = (SALTS_OK, core', rd')"
  obtains t l r core3 where
    "(if tr_raft_log_matches (c_log core) (m_previous_log_index m) (m_previous_log_term m)
      then tr_core_rebuild_pending_transition core (m_previous_log_index m) (m_entries m)
      else (SALTS_OK, c_transition core)) = (SALTS_OK, t)"
    "tr_raft_log_reconcile V (c_log core) (m_previous_log_index m) (m_previous_log_term m) (m_entries m)
       (c_commit_index core) = (SALTS_OK, l, r)"
    "core_wf core3" "c_role core3 = TR_RAFT_FOLLOWER" "c_log core3 = l" "log_room l 1"
    "c_term core3 = m_term m" "c_commit_index core3 = c_commit_index core" "rr_matched r \<Longrightarrow> c_transition core3 = t"
    "heartbeat_commit core3 m (rr_matched r) = (SALTS_OK, core')"
    "rd' = heartbeat_answer core' m (if m_type m = TR_RAFT_MSG_APPEND_REQUEST
        then TR_RAFT_MSG_APPEND_RESPONSE else TR_RAFT_MSG_HEARTBEAT_RESPONSE) r
      (heartbeat_report core' (c_commit_index core) r rd)"
proof -
  have nt: "\<not> m_term m < c_term core" using trm by simp
  obtain s1 t where reb: "(if tr_raft_log_matches (c_log core) (m_previous_log_index m) (m_previous_log_term m)
             then tr_core_rebuild_pending_transition core (m_previous_log_index m) (m_entries m)
             else (SALTS_OK, c_transition core)) = (s1, t)" by fastforce
  obtain s2 l r where rec: "tr_raft_log_reconcile V (c_log core) (m_previous_log_index m) (m_previous_log_term m)
      (m_entries m) (c_commit_index core) = (s2, l, r)" by (metis prod_cases3)
  note eq1 = eq [unfolded tr_step_heartbeat_request_def Let_def if_not_P [OF nt] reb rec prod.case
      follow_state_def [symmetric]]
  have ok: "s1 = SALTS_OK" "s2 = SALTS_OK" using eq1 by (auto split: if_splits)
  from follow_membership [OF wf vec room inc reb [unfolded ok] rec [unfolded ok]] obtain core3 where
    c3: "heartbeat_membership (follow_state core l m) t (rr_matched r) = (SALTS_OK, core3)" "core_wf core3"
    "c_role core3 = TR_RAFT_FOLLOWER" "c_log core3 = l" "log_room l 1" "c_term core3 = max (c_term core) (m_term m)"
    "c_commit_index core3 = c_commit_index core" "rr_matched r \<Longrightarrow> c_transition core3 = t" by metis
  obtain s4 core4 where c4: "heartbeat_commit core3 m (rr_matched r) = (s4, core4)" by fastforce
  note eq2 = eq1 [unfolded ok c3(1) c4 prod.case]
  have "s4 = SALTS_OK" "core4 = core'"
    "rd' = heartbeat_answer core' m (if m_type m = TR_RAFT_MSG_APPEND_REQUEST
        then TR_RAFT_MSG_APPEND_RESPONSE else TR_RAFT_MSG_HEARTBEAT_RESPONSE) r
      (heartbeat_report core' (c_commit_index core) r rd)"
    using eq2 by (auto split: if_splits)
  with reb rec c3 c4 ok trm show thesis by (intro that) (auto simp: max_def)
qed

text \<open>The commit index a follower ends with.\<close>

lemma heartbeat_commit_index:
  assumes "core_wf core" and "c_role core = TR_RAFT_FOLLOWER" and "log_room (c_log core) 1"
    and "heartbeat_commit core m matched = (SALTS_OK, core')"
  shows "c_commit_index core' =
      (if matched \<and> m_leader_commit m > c_commit_index core
       then tr_raft_membership_transition_commit_limit (c_transition core)
              (min (m_leader_commit m) (tr_raft_log_last_index (c_log core)))
       else c_commit_index core)"
    and "core_same_log core core'"
proof -
  show "core_same_log core core'" by (rule heartbeat_commit_wf [OF assms(1-3), of m matched]) (use assms(4) in auto)
  have same: "c_commit_index b = c_commit_index a" if "tr_core_sync_membership a = (s, b)" for a b s
    using that by (auto simp: tr_core_sync_membership_def Let_def split: sum.splits if_splits)
  let ?last = "tr_raft_log_last_index (c_log core)"
  let ?commit = "tr_raft_membership_transition_commit_limit (c_transition core) (min (m_leader_commit m) ?last)"
  show "c_commit_index core' =
      (if matched \<and> m_leader_commit m > c_commit_index core then ?commit else c_commit_index core)"
  proof (cases "matched \<and> m_leader_commit m > c_commit_index core")
    case True
    have "(if m_leader_commit m < ?last then m_leader_commit m else ?last) = min (m_leader_commit m) ?last"
      by (auto simp: min_def)
    with assms(4) True have "tr_core_sync_membership (core\<lparr>c_commit_index := ?commit,
        c_transition := tr_raft_membership_transition_apply (c_transition core) ?commit\<rparr>) = (SALTS_OK, core')"
      by (simp add: heartbeat_commit_def Let_def)
    from same [OF this] True show ?thesis by simp
  next
    case False
    with assms(4) show ?thesis by (auto simp: heartbeat_commit_def)
  qed
qed

text \<open>The log a follower ends with.\<close>

lemma heartbeat_request_log:
  assumes wf: "core_wf core" and vec: "log_vec_ok V (c_log core)" and room: "log_room (c_log core) 9"
    and inc: "incoming_ok (m_previous_log_index m) (m_entries m)" "length (m_entries m) \<le> 8"
    and trm: "c_term core \<le> m_term m" and rd: "fresh rd"
    and eq: "tr_step_heartbeat_request V core m rd = (SALTS_OK, core', rd')"
  defines "matched \<equiv> tr_raft_log_matches (c_log core) (m_previous_log_index m) (m_previous_log_term m)"
  shows "matched \<Longrightarrow> k < length (m_entries m) \<Longrightarrow>
      tr_raft_log_get (c_log core') (m_previous_log_index m + of_nat k + 1) = Some (m_entries m ! k)"
    and "matched \<Longrightarrow> i \<le> m_previous_log_index m \<Longrightarrow> tr_raft_log_get (c_log core') i = tr_raft_log_get (c_log core) i"
    and "\<not> matched \<Longrightarrow> c_log core' = c_log core"
    and "matched \<Longrightarrow> m_entries m = [] \<Longrightarrow> c_log core' = c_log core"
    and "c_role core' = TR_RAFT_FOLLOWER" and "c_term core' = m_term m"
    and "x \<in> set (r_messages rd') \<Longrightarrow> m_granted x = matched
           \<and> m_match_index x = (if matched then m_previous_log_index m + of_nat (length (m_entries m)) else 0)"
    and "\<not> matched \<Longrightarrow> c_commit_index core' = c_commit_index core"
    and "matched \<Longrightarrow> tr_core_rebuild_pending_transition core (m_previous_log_index m) (m_entries m) = (SALTS_OK, t) \<Longrightarrow>
      m_leader_commit m > c_commit_index core \<Longrightarrow>
      c_commit_index core' = tr_raft_membership_transition_commit_limit t
        (min (m_leader_commit m) (tr_raft_log_last_index (c_log core')))"
proof -
  have lw: "log_wf (c_log core)" using wf by (simp add: core_wf_def)
  have room1: "log_room (c_log core) 1" by (rule log_room_mono [OF room]) simp
  obtain t' l r core3 where
    reb: "(if matched then tr_core_rebuild_pending_transition core (m_previous_log_index m) (m_entries m)
      else (SALTS_OK, c_transition core)) = (SALTS_OK, t')"
    and rec: "tr_raft_log_reconcile V (c_log core) (m_previous_log_index m) (m_previous_log_term m) (m_entries m)
       (c_commit_index core) = (SALTS_OK, l, r)"
    and c3: "core_wf core3" "c_role core3 = TR_RAFT_FOLLOWER" "c_log core3 = l" "log_room l 1"
      "c_term core3 = m_term m" "c_commit_index core3 = c_commit_index core" "rr_matched r \<Longrightarrow> c_transition core3 = t'"
    and com: "heartbeat_commit core3 m (rr_matched r) = (SALTS_OK, core')"
    and ans: "rd' = heartbeat_answer core' m (if m_type m = TR_RAFT_MSG_APPEND_REQUEST
        then TR_RAFT_MSG_APPEND_RESPONSE else TR_RAFT_MSG_HEARTBEAT_RESPONSE) r
      (heartbeat_report core' (c_commit_index core) r rd)"
    using heartbeat_request_success [OF wf vec room inc trm eq, folded matched_def] by metis
  have m: "rr_matched r \<longleftrightarrow> matched" unfolding matched_def by (rule matched_iff [OF lw vec inc(1) room1 rec])
  note agree = reconcile_agreement [OF lw vec inc(1) room1 rec]
  have "log_room (c_log core3) 1" using c3 by simp
  note ci = heartbeat_commit_index [OF c3(1,2) this com]
  have log: "c_log core' = l" "c_term core' = m_term m" using ci(2) c3 by (simp_all add: core_same_log_def)
  show "matched \<Longrightarrow> k < length (m_entries m) \<Longrightarrow>
      tr_raft_log_get (c_log core') (m_previous_log_index m + of_nat k + 1) = Some (m_entries m ! k)"
    and "matched \<Longrightarrow> i \<le> m_previous_log_index m \<Longrightarrow> tr_raft_log_get (c_log core') i = tr_raft_log_get (c_log core) i"
    using agree(2,3) m log by auto
  show "\<not> matched \<Longrightarrow> c_log core' = c_log core" using reconcile_bounds(2) [OF lw vec inc room rec] m log by simp
  show "matched \<Longrightarrow> m_entries m = [] \<Longrightarrow> c_log core' = c_log core"
    using m log by (cases rule: reconcile_cases [OF lw vec inc(1) room1 rec, case_names error unmatched unchanged changed])
      simp_all
  show "c_term core' = m_term m" by (rule log)
  show "c_role core' = TR_RAFT_FOLLOWER"
    by (rule heartbeat_commit_wf [OF c3(1,2), of m "rr_matched r"]) (use c3(3,4) com in auto)
  show "x \<in> set (r_messages rd') \<Longrightarrow> m_granted x = matched
           \<and> m_match_index x = (if matched then m_previous_log_index m + of_nat (length (m_entries m)) else 0)"
    using rd report_ready(1) [OF rd, of core' "c_commit_index core" r] m
    by (auto simp: ans heartbeat_answer_def tr_emit_def update_last_message_def fresh_def split: if_splits)
  show "\<not> matched \<Longrightarrow> c_commit_index core' = c_commit_index core" using ci(1) m c3 by simp
  show "c_commit_index core' = tr_raft_membership_transition_commit_limit t
        (min (m_leader_commit m) (tr_raft_log_last_index (c_log core')))"
    if "matched" "tr_core_rebuild_pending_transition core (m_previous_log_index m) (m_entries m) = (SALTS_OK, t)"
      "m_leader_commit m > c_commit_index core"
    using that ci(1) m c3 reb log by simp
qed

end
