(* ===== verification/Raft_Core_Delivery.thy ===== *)
theory Raft_Core_Delivery
  imports Raft_Core_Reachable
begin

text \<open>
  The hand-over of committed entries to the state machine: the runs of a core together with the
  entries the caller has admitted so far and those of the last Ready record, and that the admitted
  entries are the committed ones, each once and in order.
\<close>

section \<open>Runs with their deliveries\<close>

text \<open>A successful call that fills a Ready record replaces the entries on offer; \<open>tr_raft_core_ack_ready\<close>
  admits a prefix of them and \<open>tr_raft_core_advance\<close> all of them; every other call keeps both.\<close>

fun takes_delivery :: "api_call \<Rightarrow> bool" where
  "takes_delivery (Call_ack_ready n) = True"
| "takes_delivery Call_advance = True"
| "takes_delivery _ = False"

inductive delivery_run :: "vec_ops \<Rightarrow> raft_core \<Rightarrow> raft_core \<Rightarrow> entry list \<Rightarrow> entry list \<Rightarrow> bool" for V core0 where
  first_state: "delivery_run V core0 core0 [] []"
| offered: "delivery_run V core0 core done_es es \<Longrightarrow> call_enabled V core call \<Longrightarrow> fills_ready call \<Longrightarrow>
     api_exec V core call rd = (SALTS_OK, core', rd') \<Longrightarrow>
     delivery_run V core0 core' done_es (r_committed_entries rd')"
| admitted: "delivery_run V core0 core done_es es \<Longrightarrow> call_enabled V core (Call_ack_ready n) \<Longrightarrow>
     tr_raft_core_ack_ready core n = (SALTS_OK, core') \<Longrightarrow>
     delivery_run V core0 core' (done_es @ take n es) []"
| advanced: "delivery_run V core0 core done_es es \<Longrightarrow> call_enabled V core Call_advance \<Longrightarrow>
     tr_raft_core_advance core = (SALTS_OK, core') \<Longrightarrow>
     delivery_run V core0 core' (done_es @ es) []"
| other_call: "delivery_run V core0 core done_es es \<Longrightarrow> call_enabled V core call \<Longrightarrow>
     api_exec V core call rd = (s, core', rd') \<Longrightarrow>
     s \<noteq> SALTS_OK \<or> \<not> fills_ready call \<and> \<not> takes_delivery call \<Longrightarrow>
     delivery_run V core0 core' done_es es"

section \<open>The entries on offer\<close>

text \<open>The entries of the outstanding Ready record are those after the admitted index.\<close>

definition on_offer :: "raft_core \<Rightarrow> entry list \<Rightarrow> bool" where
  "on_offer core es \<longleftrightarrow>
     length es = (if c_pending_apply_index core = 0 then 0
                  else unat (c_pending_apply_index core) - unat (c_apply_admitted_index core))
     \<and> (\<forall>k < length es. tr_raft_log_get (c_log core) (c_apply_admitted_index core + of_nat k + 1) = Some (es ! k))"

text \<open>The entries admitted since index \<open>a\<close>: numbered without gap up to the admitted index, and still those
  of the log as far as it has not been compacted.\<close>

definition admitted_since :: "raft_index \<Rightarrow> raft_core \<Rightarrow> entry list \<Rightarrow> bool" where
  "admitted_since a core es \<longleftrightarrow>
     unat (c_apply_admitted_index core) = unat a + length es
     \<and> (\<forall>k < length es. e_index (es ! k) = a + of_nat k + 1
          \<and> (log_base_index (c_log core) < e_index (es ! k) \<longrightarrow>
               tr_raft_log_get (c_log core) (e_index (es ! k)) = Some (es ! k)))"

lemma delivered_on_offer:
  assumes wf: "core_wf core" and "delivered core rd"
  shows "on_offer core (r_committed_entries rd)"
proof (cases "r_committed_entries rd = []")
  case True
  with assms(2) have "c_commit_index core \<le> c_apply_admitted_index core" by (simp add: delivered_def u64_le_unat)
  with wf have "c_pending_apply_index core \<noteq> 0 \<longrightarrow> c_pending_apply_index core \<le> c_apply_admitted_index core"
    by (auto simp: core_wf_def index_order_def intro: order_trans)
  with True show ?thesis by (auto simp: on_offer_def u64_le_unat)
next
  case False
  then have "0 < length (r_committed_entries rd)" by simp
  with assms(2) have "c_pending_apply_index core = c_commit_index core" "c_commit_index core \<noteq> 0"
    by (auto simp: delivered_def)
  with assms(2) show ?thesis by (auto simp: on_offer_def delivered_def)
qed

lemma index_sum_le:
  assumes "k < n" and "unat a + n \<le> unat (c :: u64)"
  shows "unat (a + of_nat k + 1) = unat a + k + 1" and "a < a + of_nat k + 1" and "a + of_nat k + 1 \<le> c"
proof -
  show "unat (a + of_nat k + 1) = unat a + k + 1"
    using unat_plus_nat [of a "k + 1"] assms unat_u64_less [of c] by (simp add: ac_simps)
  then show "a < a + of_nat k + 1" "a + of_nat k + 1 \<le> c" using assms by (simp_all add: u64_less_unat u64_le_unat)
qed

lemma on_offer_commit:
  assumes "core_wf core" and "on_offer core es"
  shows "unat (c_apply_admitted_index core) + length es \<le> unat (c_commit_index core)"
  using assms by (auto simp: on_offer_def core_wf_def index_order_def u64_le_unat split: if_splits)

text \<open>A step that keeps the indices of the hand-over and the committed entries keeps both.\<close>

lemma on_offer_keep:
  assumes wf: "core_wf core" and wf': "core_wf core'" and ext: "core_extends core core'" and offer: "on_offer core es"
    and same: "c_pending_apply_index core' = c_pending_apply_index core"
      "c_apply_admitted_index core' = c_apply_admitted_index core"
  shows "on_offer core' es"
proof -
  let ?a = "c_apply_admitted_index core"
  have "log_base_index (c_log core') \<le> ?a"
    using wf' same(2) by (auto simp: core_wf_def index_order_def intro: order_trans)
  then have "tr_raft_log_get (c_log core') (?a + of_nat k + 1) = tr_raft_log_get (c_log core) (?a + of_nat k + 1)"
    if "k < length es" for k
    using index_sum_le(2,3) [OF that on_offer_commit [OF wf offer]] ext
    by (auto simp: core_extends_def log_keeps_def)
  with offer show ?thesis by (simp add: on_offer_def same)
qed

lemma admitted_since_keep:
  assumes wf: "core_wf core" and ext: "core_extends core core'" and adm: "admitted_since a core es"
    and same: "c_apply_admitted_index core' = c_apply_admitted_index core"
  shows "admitted_since a core' es"
proof -
  have le: "unat a + length es \<le> unat (c_commit_index core)"
    using adm wf by (simp add: admitted_since_def core_wf_def index_order_def u64_le_unat)
  have "tr_raft_log_get (c_log core') (e_index (es ! k)) = Some (es ! k)"
    if "k < length es" "log_base_index (c_log core') < e_index (es ! k)" for k
  proof -
    have "e_index (es ! k) \<le> c_commit_index core" "log_base_index (c_log core) < e_index (es ! k)"
      using adm that(1) index_sum_le(3) [OF that(1) le] ext that(2)
      by (auto simp: admitted_since_def core_extends_def log_keeps_def)
    moreover have "tr_raft_log_get (c_log core) (e_index (es ! k)) = Some (es ! k)"
      using adm that(1) calculation(2) unfolding admitted_since_def by blast
    ultimately show ?thesis using that(2) ext by (simp add: core_extends_def log_keeps_def)
  qed
  with adm show ?thesis by (simp add: admitted_since_def same)
qed

lemma admitted_since_more:
  assumes wf: "core_wf core" and offer: "on_offer core es" and adm: "admitted_since a core done_es" and n: "n \<le> length es"
    and log: "c_log core' = c_log core"
    and idx: "unat (c_apply_admitted_index core') = unat (c_apply_admitted_index core) + n"
  shows "admitted_since a core' (done_es @ take n es)"
proof -
  let ?b = "c_apply_admitted_index core"
  have lw: "log_wf (c_log core)" using wf by (simp add: core_wf_def)
  have b: "unat ?b = unat a + length done_es" using adm by (simp add: admitted_since_def)
  have new: "e_index (es ! j) = a + of_nat (length done_es + j) + 1
      \<and> tr_raft_log_get (c_log core) (e_index (es ! j)) = Some (es ! j)" if "j < n" for j
  proof -
    have j: "j < length es" using that n by simp
    have "?b = a + of_nat (length done_es)" using arg_cong [OF b, of "of_nat :: nat \<Rightarrow> u64"] by simp
    moreover from offer j have get: "tr_raft_log_get (c_log core) (?b + of_nat j + 1) = Some (es ! j)"
      by (simp add: on_offer_def)
    moreover from log_get_Some(1) [OF lw get] have "e_index (es ! j) = ?b + of_nat j + 1" .
    ultimately show ?thesis by (simp add: ac_simps)
  qed
  show ?thesis
    unfolding admitted_since_def log
  proof (intro conjI allI impI)
    show "unat (c_apply_admitted_index core') = unat a + length (done_es @ take n es)" using idx b n by simp
    fix k assume k: "k < length (done_es @ take n es)"
    consider "k < length done_es" | j where "k = length done_es + j" "j < n"
      using k n by (metis add_less_cancel_left le_add_diff_inverse length_append length_take min.absorb2 not_less)
    then have "e_index ((done_es @ take n es) ! k) = a + of_nat k + 1
        \<and> (log_base_index (c_log core) < e_index ((done_es @ take n es) ! k) \<longrightarrow>
             tr_raft_log_get (c_log core) (e_index ((done_es @ take n es) ! k)) = Some ((done_es @ take n es) ! k))"
    proof cases
      case 1
      then have "(done_es @ take n es) ! k = done_es ! k" by (simp add: nth_append)
      with 1 adm show ?thesis unfolding admitted_since_def by metis
    next
      case (2 j)
      then have "(done_es @ take n es) ! k = es ! j" by (simp add: nth_append)
      with 2 new [OF 2(2)] show ?thesis by metis
    qed
    then show "e_index ((done_es @ take n es) ! k) = a + of_nat k + 1"
      "log_base_index (c_log core) < e_index ((done_es @ take n es) ! k) \<Longrightarrow>
       tr_raft_log_get (c_log core) (e_index ((done_es @ take n es) ! k)) = Some ((done_es @ take n es) ! k)"
      by blast+
  qed
qed

section \<open>Exactly once and in order\<close>

lemma other_call_same:
  assumes wf: "core_wf core" and en: "call_enabled V core call" and eq: "api_exec V core call rd = (s, core', rd')"
    and other: "s \<noteq> SALTS_OK \<or> \<not> fills_ready call \<and> \<not> takes_delivery call"
  shows "c_pending_apply_index core' = c_pending_apply_index core"
    and "c_apply_admitted_index core' = c_apply_admitted_index core"
proof -
  have "c_pending_apply_index core' = c_pending_apply_index core
      \<and> c_apply_admitted_index core' = c_apply_admitted_index core"
  proof (cases "s = SALTS_OK")
    case False
    from exec_safe(5) [OF wf en eq this] show ?thesis by (auto simp: quiet_def core_same_log_def)
  next
    case True
    with other eq show ?thesis
      by (cases call) (auto simp: no_ready_eq tr_raft_core_ack_applied_def tr_raft_core_compact_def
          tr_raft_core_set_peer_paused_def Let_def split: if_splits sum.splits prod.splits)
  qed
  then show "c_pending_apply_index core' = c_pending_apply_index core"
    "c_apply_admitted_index core' = c_apply_admitted_index core" by simp_all
qed

lemma ack_ready_update:
  assumes "core_wf core" and "on_offer core es" and "tr_raft_core_ack_ready core n = (SALTS_OK, core')"
  shows "n \<le> length es" and "c_log core' = c_log core" and "c_pending_apply_index core' = 0"
    and "unat (c_apply_admitted_index core') = unat (c_apply_admitted_index core) + n"
  using assms ack_ready_safe(2) [OF assms(1,3)]
  by (auto simp: tr_raft_core_ack_ready_def on_offer_def Let_def unat_minus_le not_less split: if_splits)

lemma advance_update:
  assumes "core_wf core" and "on_offer core es" and "tr_raft_core_advance core = (SALTS_OK, core')"
  shows "c_log core' = c_log core" and "c_pending_apply_index core' = 0"
    and "unat (c_apply_admitted_index core') = unat (c_apply_admitted_index core) + length es"
  using assms
  by (auto simp: tr_raft_core_advance_def on_offer_def u64_le_unat not_less split: if_splits)

lemma delivery_run_inv:
  assumes "delivery_run V core0 core done_es es"
    and "core_wf core0" and "\<not> c_in_call core0" and "c_pending_apply_index core0 = 0"
  shows "core_wf core \<and> on_offer core es \<and> admitted_since (c_apply_admitted_index core0) core done_es
    \<and> core_steps V core0 core"
  using assms
proof (induction rule: delivery_run.induct)
  case first_state
  then show ?case by (simp add: on_offer_def admitted_since_def core_steps.none)
next
  case (offered core done_es es call rd core' rd')
  then have IH: "core_wf core" "admitted_since (c_apply_admitted_index core0) core done_es" "core_steps V core0 core"
    by auto
  note safe = exec_safe [OF IH(1) offered.hyps(2,4)]
  from safe(6) offered.hyps(3) have "delivered core' rd'" "c_apply_admitted_index core' = c_apply_admitted_index core"
    by (auto simp: call_done_def)
  with delivered_on_offer [OF safe(1)] admitted_since_keep [OF IH(1) safe(2) IH(2)] safe(1)
    core_steps.more_calls [OF IH(3) offered.hyps(2,4)]
  show ?case by blast
next
  case (admitted core done_es es n core')
  then have IH: "core_wf core" "on_offer core es" "admitted_since (c_apply_admitted_index core0) core done_es"
    "core_steps V core0 core" by auto
  have e: "api_exec V core (Call_ack_ready n) undefined = (SALTS_OK, core', undefined)"
    using admitted.hyps(3) by (simp add: no_ready_def)
  note up = ack_ready_update [OF IH(1,2) admitted.hyps(3)]
  from exec_safe(1) [OF IH(1) admitted.hyps(2) e] admitted_since_more [OF IH(1-3) up(1,2,4)] up(3)
    core_steps.more_calls [OF IH(4) admitted.hyps(2) e]
  show ?case by (simp add: on_offer_def)
next
  case (advanced core done_es es core')
  then have IH: "core_wf core" "on_offer core es" "admitted_since (c_apply_admitted_index core0) core done_es"
    "core_steps V core0 core" by auto
  have e: "api_exec V core Call_advance undefined = (SALTS_OK, core', undefined)"
    using advanced.hyps(3) by (simp add: no_ready_def)
  note up = advance_update [OF IH(1,2) advanced.hyps(3)]
  from exec_safe(1) [OF IH(1) advanced.hyps(2) e] admitted_since_more [OF IH(1-3) order.refl up(1,3)] up(2)
    core_steps.more_calls [OF IH(4) advanced.hyps(2) e]
  show ?case by (simp add: on_offer_def)
next
  case (other_call core done_es es call rd s core' rd')
  then have IH: "core_wf core" "on_offer core es" "admitted_since (c_apply_admitted_index core0) core done_es"
    "core_steps V core0 core" by auto
  note safe = exec_safe [OF IH(1) other_call.hyps(2,3)]
  note same = other_call_same [OF IH(1) other_call.hyps(2-4)]
  from on_offer_keep [OF IH(1) safe(1,2) IH(2) same] admitted_since_keep [OF IH(1) safe(2) IH(3) same(2)] safe(1)
    core_steps.more_calls [OF IH(4) other_call.hyps(2,3)]
  show ?case by blast
qed

end
