(* ===== verification/Raft_Core_Example.thy ===== *)
theory Raft_Core_Example
  imports Raft_Core_Delivery
begin

text \<open>
  Concrete cores that the witnesses of the properties evaluate: a core that is the only voter of its
  group and becomes leader at its first timeout, with a learner to replicate to, and a follower in a
  group of three voters.
\<close>

definition ex_config :: core_config where
  "ex_config = \<lparr>cfg_self_id = 1, cfg_voters = Id_array [1], cfg_learners = Id_array [2],
     cfg_initial_configuration = None, cfg_heartbeat_ticks = 1, cfg_election_min_ticks = 3,
     cfg_election_max_ticks = 6, cfg_initial_election_timeout_ticks = 3, cfg_initial_term = 0,
     cfg_initial_vote = 0, cfg_initial_last_log_index = 0, cfg_initial_last_log_term = 0,
     cfg_initial_log_entries = Entry_null 0, cfg_initial_commit_index = 0, cfg_initial_applied_index = 0,
     cfg_max_log_entries = 32, cfg_max_pending_reads = 0, cfg_max_inflight_append_requests = 0\<rparr>"

definition ex_solo :: raft_core where
  "ex_solo = projr (tr_raft_core_create list_vec True ex_config)"

definition ex_ready :: ready where
  "ex_ready = \<lparr>r_messages_null = False, r_messages = [], r_message_capacity = 4,
      r_hard_state_changed = False, r_term = 0, r_voted_for = 0, r_role_changed = False,
      r_role = TR_RAFT_FOLLOWER, r_log_changed = False, r_log_truncate_from = 0, r_log_entries = [],
      r_log_entry_count = 0, r_commit_changed = False, r_commit_index = 0, r_committed_entries = [],
      r_committed_entry_count = 0, r_read_state_ready = False, r_read_state = read_state_zero,
      r_read_states = [], r_snapshot_requests = []\<rparr>"

definition ex_tick :: tick where
  "ex_tick = \<lparr>tick_elapsed_ticks = 3, tick_next_election_timeout_ticks = 4\<rparr>"

text \<open>The leader, before and after the first Ready record is acknowledged.\<close>

definition ex_elected :: raft_core where
  "ex_elected = fst (snd (tr_raft_core_tick list_vec ex_solo ex_tick ex_ready))"

definition ex_leader :: raft_core where
  "ex_leader = snd (tr_raft_core_ack_ready ex_elected 0)"

definition ex_proposal :: proposal where
  "ex_proposal = \<lparr>pr_command_id = 7, pr_data = Byte_array [5]\<rparr>"

definition ex_command_entry :: entry where
  "ex_command_entry = \<lparr>e_index = 1, e_term = 1, e_command_id = 7, e_data = [5]\<rparr>"

definition ex_committed :: raft_core where
  "ex_committed = fst (snd (tr_raft_core_propose list_vec ex_leader (Some ex_proposal) ex_ready))"

definition ex_admitted :: raft_core where
  "ex_admitted = snd (tr_raft_core_ack_ready ex_committed 1)"

definition ex_short_tick :: tick where
  "ex_short_tick = \<lparr>tick_elapsed_ticks = 1, tick_next_election_timeout_ticks = 4\<rparr>"

abbreviation ex_log_of :: "entry list \<Rightarrow> raft_log" where
  "ex_log_of es \<equiv> \<lparr>log_entries = es, log_max_entries = 32, log_base_index = 0, log_base_term = 0\<rparr>"

text \<open>The run is evaluated once, from the creation to a committed proposal and to a tick of the leader for
  which the caller gave no room.\<close>

lemma ex_run_facts:
  "(case tr_raft_core_create list_vec True ex_config of Inl e \<Rightarrow> None | Inr c0 \<Rightarrow>
     (case tr_raft_core_tick list_vec c0 ex_tick ex_ready of (s1, c1, rd1) \<Rightarrow>
     (case tr_raft_core_ack_ready c1 0 of (s2, c2) \<Rightarrow>
     (case tr_raft_core_propose list_vec c2 (Some ex_proposal) ex_ready of (s3, c3, rd3) \<Rightarrow>
     (case tr_raft_core_tick list_vec c2 ex_short_tick (ex_ready\<lparr>r_message_capacity := 0\<rparr>) of (s4, c4, rd4) \<Rightarrow>
       Some ((c_log c0, c_in_call c0, tr_peer_paused c0 2, c_self_is_voter c0, c_term c0, c_voted_for c0, c_self_id c0,
               c_pending_apply_index c0),
             (s1, c_role c1, c_term c1, c_voted_for c1, c_in_call c1, c_ready_outstanding c1, c_commit_index c1,
               c_log c1, map m_to (r_messages rd1), tr_core_membership c1),
             (s2, c_role c2, tr_raft_membership_transition_needs_final (c_transition c2),
               ticks_reached (c_check_quorum_elapsed_ticks c2) 1 (c_election_timeout_ticks c2), c_log c2, c_in_call c2),
             (s3, c_commit_index c3, c_log c3, c_in_call c3, r_committed_entries rd3, fst (tr_raft_core_ack_ready c3 1)),
             s4))))))
   = Some ((ex_log_of [], False, False, True, 0, 0, 1, 0),
       (SALTS_OK, TR_RAFT_LEADER, 1, 1, False, True, 0, ex_log_of [], [2],
         \<lparr>conf_phase = TR_RAFT_CONF_FINAL, conf_transition_id = 0,
          conf_members = [\<lparr>cm_node_id = 1, cm_roles = 3\<rparr>, \<lparr>cm_node_id = 2, cm_roles = 4\<rparr>]\<rparr>),
       (SALTS_OK, TR_RAFT_LEADER, False, False, ex_log_of [], False),
       (SALTS_OK, 1, ex_log_of [ex_command_entry], False, [ex_command_entry], SALTS_OK), SALTS_ENOSPC)"
  by code_simp

lemma ex_solo_created: "tr_raft_core_create list_vec True ex_config = Inr ex_solo"
  using ex_run_facts by (cases "tr_raft_core_create list_vec True ex_config") (simp_all add: ex_solo_def)

lemma ex_solo_facts:
  "c_log ex_solo = ex_log_of []" "c_in_call ex_solo = False" "tr_peer_paused ex_solo 2 = False" "c_self_is_voter ex_solo"
  "c_term ex_solo = 0" "c_voted_for ex_solo = 0" "c_self_id ex_solo = 1" "c_pending_apply_index ex_solo = 0"
  using ex_run_facts by (simp_all add: ex_solo_created split: prod.splits)

lemma ex_elected_facts:
  "(case tr_raft_core_tick list_vec ex_solo ex_tick ex_ready of (s, core, rd) \<Rightarrow>
     (s, c_role core, c_term core, c_voted_for core, c_in_call core, c_ready_outstanding core, c_commit_index core,
      c_log core, map m_to (r_messages rd), tr_core_membership core))
   = (SALTS_OK, TR_RAFT_LEADER, 1, 1, False, True, 0, ex_log_of [], [2],
      \<lparr>conf_phase = TR_RAFT_CONF_FINAL, conf_transition_id = 0,
       conf_members = [\<lparr>cm_node_id = 1, cm_roles = 3\<rparr>, \<lparr>cm_node_id = 2, cm_roles = 4\<rparr>]\<rparr>)"
  using ex_run_facts by (simp add: ex_solo_created split: prod.splits)

lemma ex_config_ok: "config_ok ex_config"
  by (simp add: config_ok_def ex_config_def)

lemma ex_log_fresh:
  "l = ex_log_of [] \<Longrightarrow> n < 100 \<Longrightarrow> log_room l n"
  by (simp add: log_room_def tr_raft_log_last_index_def tr_raft_log_count_def)

lemma ex_solo_reachable: "core_reachable list_vec ex_config ex_solo"
  using ex_solo_facts by (intro core_reachable.created [OF ex_config_ok _ ex_solo_created]) (simp_all add: ex_log_fresh)

lemma ex_solo_wf: "core_wf ex_solo" "\<not> c_in_call ex_solo"
  using core_reachable_wf [OF ex_solo_reachable] by simp_all

lemma ex_solo_enabled: "call_enabled list_vec ex_solo (Call_tick t)"
  using ex_solo_facts by (simp add: call_enabled_def ex_log_fresh)

lemma ex_elected_exec:
  obtains rd where "api_exec list_vec ex_solo (Call_tick ex_tick) ex_ready = (SALTS_OK, ex_elected, rd)"
    and "map m_to (r_messages rd) = [2]"
  using ex_elected_facts by (cases "tr_raft_core_tick list_vec ex_solo ex_tick ex_ready") (simp add: ex_elected_def)

lemma ex_elected_state:
  "c_role ex_elected = TR_RAFT_LEADER" "c_term ex_elected = 1" "c_voted_for ex_elected = 1" "\<not> c_in_call ex_elected"
  "c_ready_outstanding ex_elected" "c_commit_index ex_elected = 0"
  "c_log ex_elected = ex_log_of []"
  "tr_core_membership ex_elected = \<lparr>conf_phase = TR_RAFT_CONF_FINAL, conf_transition_id = 0,
       conf_members = [\<lparr>cm_node_id = 1, cm_roles = 3\<rparr>, \<lparr>cm_node_id = 2, cm_roles = 4\<rparr>]\<rparr>"
  using ex_elected_facts by (auto simp: ex_elected_def split: prod.splits)

lemma ex_elected_steps: "core_steps list_vec ex_solo ex_elected"
  by (rule ex_elected_exec) (rule core_steps.more_calls [OF core_steps.none ex_solo_enabled])

lemma ex_elected_reachable: "core_reachable list_vec ex_config ex_elected"
  by (rule core_reachable_steps [OF ex_elected_steps ex_solo_reachable])

section \<open>A committed proposal\<close>

lemma ex_leader_facts:
  "tr_raft_core_ack_ready ex_elected 0 = (SALTS_OK, ex_leader)" "c_role ex_leader = TR_RAFT_LEADER"
  "\<not> tr_raft_membership_transition_needs_final (c_transition ex_leader)"
  "\<not> ticks_reached (c_check_quorum_elapsed_ticks ex_leader) 1 (c_election_timeout_ticks ex_leader)"
  "c_log ex_leader = ex_log_of []" "\<not> c_in_call ex_leader"
  "fst (tr_raft_core_tick list_vec ex_leader ex_short_tick (ex_ready\<lparr>r_message_capacity := 0\<rparr>)) = SALTS_ENOSPC"
  using ex_run_facts by (auto simp: ex_solo_created ex_elected_def ex_leader_def split: prod.splits)

lemma ex_committed_facts:
  "(case tr_raft_core_propose list_vec ex_leader (Some ex_proposal) ex_ready of (s, core, rd) \<Rightarrow>
     (s, c_commit_index core, c_log core, c_in_call core, r_committed_entries rd, fst (tr_raft_core_ack_ready core 1)))
   = (SALTS_OK, 1, ex_log_of [ex_command_entry], False, [ex_command_entry], SALTS_OK)"
  using ex_run_facts by (auto simp: ex_solo_created ex_elected_def ex_leader_def split: prod.splits)

lemma ex_elected_enabled: "call_enabled list_vec ex_elected (Call_ack_ready n)"
  by (simp add: call_enabled_def ex_elected_state ex_log_fresh)

lemma ex_leader_enabled: "call_wf call \<Longrightarrow> call_enabled list_vec ex_leader call"
  by (simp add: call_enabled_def ex_leader_facts ex_log_fresh)

lemma ex_leader_reachable: "core_reachable list_vec ex_config ex_leader"
  by (rule core_reachable.called [OF ex_elected_reachable ex_elected_enabled, of 0 ex_ready SALTS_OK _ ex_ready])
    (simp add: ex_leader_facts no_ready_def)

lemma ex_committed_exec:
  obtains rd where "tr_raft_core_propose list_vec ex_leader (Some ex_proposal) ex_ready = (SALTS_OK, ex_committed, rd)"
    and "r_committed_entries rd = [ex_command_entry]"
  using ex_committed_facts
  by (cases "tr_raft_core_propose list_vec ex_leader (Some ex_proposal) ex_ready") (simp add: ex_committed_def)

lemma ex_committed_state:
  "c_log ex_committed = ex_log_of [ex_command_entry]" "c_commit_index ex_committed = 1" "\<not> c_in_call ex_committed"
  "tr_raft_core_ack_ready ex_committed 1 = (SALTS_OK, ex_admitted)"
  using ex_committed_facts by (auto simp: ex_committed_def ex_admitted_def prod_eq_iff split: prod.splits)

lemma ex_committed_enabled: "call_enabled list_vec ex_committed (Call_ack_ready n)"
  by (simp add: call_enabled_def ex_committed_state log_room_def tr_raft_log_last_index_def tr_raft_log_count_def)

section \<open>A log that lags behind\<close>

text \<open>A node whose log ends in an entry of term 1 that the group has replaced by a committed entry of
  term 2, the node that has this entry, and two messages the latter may send.\<close>

definition ex_old_config :: core_config where
  "ex_old_config = ex_config\<lparr>cfg_self_id := 2, cfg_initial_term := 1,
     cfg_initial_log_entries := Entry_array [ex_command_entry, ex_command_entry\<lparr>e_index := 2, e_command_id := 8\<rparr>]\<rparr>"

definition ex_new_config :: core_config where
  "ex_new_config = ex_config\<lparr>cfg_initial_term := 2, cfg_initial_commit_index := 2,
     cfg_initial_log_entries := Entry_array [ex_command_entry,
       ex_command_entry\<lparr>e_index := 2, e_term := 2, e_command_id := 9\<rparr>]\<rparr>"

definition ex_old :: raft_core where
  "ex_old = projr (tr_raft_core_create list_vec True ex_old_config)"

definition ex_new :: raft_core where
  "ex_new = projr (tr_raft_core_create list_vec True ex_new_config)"

definition ex_beat :: message where
  "ex_beat = \<lparr>m_type = TR_RAFT_MSG_HEARTBEAT_REQUEST, m_from = 1, m_to = 2, m_term = 2, m_campaign_term = 0,
     m_last_log_index = 2, m_last_log_term = 2, m_leader_commit = 2, m_previous_log_index = 1, m_previous_log_term = 1,
     m_match_index = 0, m_reject_hint = 0, m_entries = [], m_granted = False, m_context_id = 0\<rparr>"

definition ex_append :: message where
  "ex_append = ex_beat\<lparr>m_type := TR_RAFT_MSG_APPEND_REQUEST,
     m_entries := [ex_command_entry\<lparr>e_index := 2, e_term := 2, e_command_id := 9\<rparr>]\<rparr>"

lemma ex_old_facts:
  "(case tr_raft_core_create list_vec True ex_old_config of Inl e \<Rightarrow> None | Inr c \<Rightarrow>
     Some (c_log c, c_term c, c_commit_index c,
       fst (tr_step_heartbeat_request list_vec c ex_append (tr_reset_ready ex_ready)),
       fst (tr_step_heartbeat_request list_vec c ex_beat (tr_reset_ready ex_ready)),
       (case tr_core_rebuild_pending_transition c 1 [] of (s, t) \<Rightarrow> (s, tr_pending t))))
   = Some (ex_log_of [ex_command_entry, ex_command_entry\<lparr>e_index := 2, e_command_id := 8\<rparr>], 1, 0,
       SALTS_OK, SALTS_OK, (SALTS_OK, []))"
  by code_simp

lemma ex_new_facts:
  "(case tr_raft_core_create list_vec True ex_new_config of Inl e \<Rightarrow> None | Inr c \<Rightarrow>
     Some (c_log c, c_term c, c_commit_index c, c_self_id c))
   = Some (ex_log_of [ex_command_entry, ex_command_entry\<lparr>e_index := 2, e_term := 2, e_command_id := 9\<rparr>], 2, 2, 1)"
  by code_simp

lemma ex_old_created: "tr_raft_core_create list_vec True ex_old_config = Inr ex_old"
  using ex_old_facts by (cases "tr_raft_core_create list_vec True ex_old_config") (simp_all add: ex_old_def)

lemma ex_new_created: "tr_raft_core_create list_vec True ex_new_config = Inr ex_new"
  using ex_new_facts by (cases "tr_raft_core_create list_vec True ex_new_config") (simp_all add: ex_new_def)

lemma ex_lag_config_ok: "config_ok ex_old_config" "config_ok ex_new_config"
  by (simp_all add: config_ok_def ex_old_config_def ex_new_config_def ex_config_def ex_command_entry_def incoming_ok_def
      entries_at_def all_less_Suc entry_ok_def)

lemma ex_lag_room: "n < 100 \<Longrightarrow> log_room (ex_log_of [a, b]) n"
  by (simp add: log_room_def tr_raft_log_last_index_def tr_raft_log_count_def)

lemma ex_lag_state:
  "c_log ex_old = ex_log_of [ex_command_entry, ex_command_entry\<lparr>e_index := 2, e_command_id := 8\<rparr>]"
  "c_term ex_old = 1" "c_commit_index ex_old = 0"
  "c_log ex_new = ex_log_of [ex_command_entry, ex_command_entry\<lparr>e_index := 2, e_term := 2, e_command_id := 9\<rparr>]"
  "c_term ex_new = 2" "c_commit_index ex_new = 2" "c_self_id ex_new = 1"
  using ex_old_facts ex_new_facts by (simp_all add: ex_old_created ex_new_created)

lemma ex_lag_wf: "core_wf ex_old" "core_wf ex_new"
proof -
  have "vec_contract list_vec (config_max_entries ex_old_config)" "vec_contract list_vec (config_max_entries ex_new_config)"
    by simp_all
  note this(1)
  then show "core_wf ex_old"
    by (rule create_wf(1) [OF _ ex_lag_config_ok(1) _ ex_old_created]) (simp add: ex_lag_state ex_lag_room)
  show "core_wf ex_new"
    by (rule create_wf(1) [OF _ ex_lag_config_ok(2) _ ex_new_created]) (simp_all add: ex_lag_state ex_lag_room)
qed

section \<open>A leader with an inherited configuration change\<close>

text \<open>A node that restarts with an uncommitted joint configuration of term 1 in its log and is elected
  in term 2.\<close>

definition ex_joint_entry :: entry where
  "ex_joint_entry = \<lparr>e_index = 1, e_term = 1, e_command_id = 0,
     e_data = [84, 82, 67, 70, 1, 1, 2, 0, 0, 0, 0, 0, 0, 0, 0, 5, 0, 0, 0, 0, 0, 0,
               0, 1, 3, 0, 0, 0, 0, 0, 0, 0, 2, 2]\<rparr>"

definition ex_restart_config :: core_config where
  "ex_restart_config = ex_config\<lparr>cfg_initial_term := 1, cfg_initial_log_entries := Entry_array [ex_joint_entry]\<rparr>"

definition ex_restarted :: raft_core where
  "ex_restarted = projr (tr_raft_core_create list_vec True ex_restart_config)"

definition ex_stuck :: raft_core where
  "ex_stuck = fst (snd (tr_raft_core_tick list_vec ex_restarted ex_tick ex_ready))"

lemma ex_stuck_run:
  "(case tr_raft_core_create list_vec True ex_restart_config of Inl e \<Rightarrow> None | Inr c0 \<Rightarrow>
     (case tr_raft_core_tick list_vec c0 ex_tick ex_ready of (s, c, rd) \<Rightarrow>
       Some (c_log c0, s, c_role c, c_term c, c_commit_index c, map snd (tr_pending (c_transition c)),
         tr_core_match_quorum c 1, c_log c)))
   = Some (ex_log_of [ex_joint_entry], SALTS_OK, TR_RAFT_LEADER, 2, 0, [1], True, ex_log_of [ex_joint_entry])"
  by code_simp

lemma ex_restarted_created: "tr_raft_core_create list_vec True ex_restart_config = Inr ex_restarted"
  using ex_stuck_run by (cases "tr_raft_core_create list_vec True ex_restart_config") (simp_all add: ex_restarted_def)

lemma ex_stuck_state:
  "c_role ex_stuck = TR_RAFT_LEADER" "c_term ex_stuck = 2" "c_commit_index ex_stuck = 0"
  "map snd (tr_pending (c_transition ex_stuck)) = [1]" "tr_core_match_quorum ex_stuck 1"
  "c_log ex_stuck = ex_log_of [ex_joint_entry]" "c_log ex_restarted = ex_log_of [ex_joint_entry]"
  "fst (tr_raft_core_tick list_vec ex_restarted ex_tick ex_ready) = SALTS_OK"
  using ex_stuck_run by (auto simp: ex_restarted_created ex_stuck_def split: prod.splits)

end
