(* ===== verification/Raft_Core_Theorems.thy ===== *)
theory Raft_Core_Theorems
  imports Raft_Cluster Raft_Core_Follower Raft_Core_Example
begin

text \<open>
  The properties of the Raft core: election safety of a cluster, the invariant and the order of a run,
  the contract of a call, the delivery of committed entries, votes, commits and replication, creation,
  and the places where the code departs from what it means to do.
\<close>

section \<open>Safety of runs\<close>

text \<open>C1 (safety). Election safety. In a cluster whose nodes make any public calls, restart with the term
  and vote they had, and receive any of the messages sent so far, in any order and any number of
  times: two nodes that win an election in the same term, under the same configuration or under two
  configurations whose quorums overlap, are the same node; and every node that leads has won an
  election in its term.\<close>

theorem election_safety:
  assumes "cluster_reachable V S" and "(a, t, c) \<in> cl_elections S" and "(b, t, d) \<in> cl_elections S"
    and "c = d \<or> conf_overlap c d"
  shows "a = b \<and> (\<forall>n core. cl_nodes S n = Some core \<and> c_role core = TR_RAFT_LEADER \<longrightarrow>
                     (\<exists>e. (n, c_term core, e) \<in> cl_elections S))"
proof -
  have inv: "cluster_inv S" by (rule cluster_reachable_inv [OF assms(1)])
  have "conf_overlap c d" using assms(4) conf_overlap_refl by auto
  from cluster_one_leader [OF inv assms(2,3) this] inv show ?thesis
    unfolding cluster_inv_def node_inv_def by blast
qed

definition ex_cluster :: cluster where
  "ex_cluster = \<lparr>cl_nodes = [1 \<mapsto> ex_elected],
     cl_net = set (r_messages (snd (snd (tr_raft_core_tick list_vec ex_solo ex_tick ex_ready)))),
     cl_votes = {(1, 1, 1)}, cl_elections = {(1, 1, tr_core_membership ex_elected)}\<rparr>"

lemma ex_cluster_reachable: "cluster_reachable list_vec ex_cluster"
proof -
  let ?S = "cluster_init\<lparr>cl_nodes := (cl_nodes cluster_init)(1 := Some ex_solo)\<rparr>"
  have log: "c_log ex_solo = \<lparr>log_entries = [], log_max_entries = 32, log_base_index = 0, log_base_term = 0\<rparr>"
    using ex_solo_facts by simp
  have "cluster_step list_vec cluster_init ?S"
    by (rule cluster_step.start [OF _ ex_config_ok _ _ _ ex_solo_created])
      (simp_all add: cluster_init_def ex_config_def log ex_log_fresh)
  then have start: "cluster_reachable list_vec ?S" by (rule cluster_reachable.step [OF cluster_reachable.init])
  obtain rd where e: "api_exec list_vec ex_solo (Call_tick ex_tick) ex_ready = (SALTS_OK, ex_elected, rd)"
    using ex_elected_exec by blast
  have follower: "c_role ex_solo = TR_RAFT_FOLLOWER"
    using create_wf(4) [OF _ ex_config_ok _ ex_solo_created] by (simp add: log ex_log_fresh)
  have "cluster_step list_vec ?S (?S\<lparr>cl_nodes := (cl_nodes ?S)(1 := Some ex_elected),
       cl_net := cl_net ?S \<union> sent_messages (Call_tick ex_tick) SALTS_OK rd,
       cl_votes := cl_votes ?S \<union> vote_record 1 ex_elected,
       cl_elections := cl_elections ?S \<union> election_record 1 ex_solo ex_elected\<rparr>)"
    by (rule cluster_step.exec [OF _ _ _ _ e]) (simp_all add: log ex_log_fresh)
  moreover have "\<dots> = ex_cluster"
    using e follower by (simp add: ex_cluster_def cluster_init_def sent_messages_def vote_record_def election_record_def
        ex_elected_state)
  ultimately show ?thesis using cluster_reachable.step [OF start] by simp
qed

theorem election_safety_witness:
  "cluster_reachable list_vec ex_cluster \<and> cl_nodes ex_cluster 1 = Some ex_elected
   \<and> c_role ex_elected = TR_RAFT_LEADER \<and> (\<exists>e. (1, c_term ex_elected, e) \<in> cl_elections ex_cluster)"
proof -
  have won: "(1, 1, tr_core_membership ex_elected) \<in> cl_elections ex_cluster" by (simp add: ex_cluster_def)
  have leads: "cl_nodes ex_cluster 1 = Some ex_elected \<and> c_role ex_elected = TR_RAFT_LEADER"
    using ex_elected_state by (simp add: ex_cluster_def)
  from election_safety [OF ex_cluster_reachable won won disjI1 [OF refl]] leads ex_cluster_reachable
  show ?thesis by blast
qed

text \<open>C2 (invariant). The well-formedness invariant of a core holds in every state reachable from its
  creation by public calls with messages that a core may have sent: the log is consecutive and holds
  valid entries, base, applied, admitted, commit and last index are ordered, the peers are the members
  of the committed and pending configurations, pending configurations are uncommitted log entries,
  the progress of each peer stays within the log while the core leads, a candidate or leader voted for
  itself, and the pending reads are bounded and distinct.\<close>

theorem reachable_core_wf:
  assumes "core_reachable V config core"
  shows "log_wf (c_log core) \<and> index_order core \<and> membership_wf core \<and> tables_wf core
    \<and> (c_role core = TR_RAFT_LEADER \<longrightarrow> progress_wf core) \<and> role_wf core \<and> reads_wf core \<and> \<not> c_in_call core"
  using core_reachable_wf [OF assms] by (simp add: core_wf_def)

theorem reachable_core_wf_witness:
  "core_reachable list_vec ex_config ex_elected \<and> c_role ex_elected = TR_RAFT_LEADER \<and> progress_wf ex_elected"
  using reachable_core_wf [OF ex_elected_reachable] ex_elected_reachable ex_elected_state(1) by simp

text \<open>C3 (safety). What a run keeps. From a reachable state, along any further calls: the term never
  decreases; within a term a vote once given stays; the commit, admitted and applied indices never
  decrease; and every committed entry that is still in the log is unchanged, so a committed entry is
  never overwritten or truncated.\<close>

theorem run_monotone:
  assumes "core_reachable V config core" and "core_steps V core core'"
  shows "c_term core \<le> c_term core'
    \<and> (c_term core' = c_term core \<and> c_voted_for core \<noteq> 0 \<longrightarrow> c_voted_for core' = c_voted_for core)
    \<and> c_commit_index core \<le> c_commit_index core'
    \<and> c_apply_admitted_index core \<le> c_apply_admitted_index core'
    \<and> c_applied_index core \<le> c_applied_index core'
    \<and> (\<forall>i. log_base_index (c_log core') < i \<and> i \<le> c_commit_index core \<longrightarrow>
          tr_raft_log_get (c_log core') i = tr_raft_log_get (c_log core) i)"
proof -
  from core_reachable_wf [OF assms(1)] core_steps_safe [OF assms(2)] have "core_extends core core'" by blast
  then show ?thesis by (auto simp: core_extends_def log_keeps_def)
qed

theorem run_monotone_witness:
  "core_steps list_vec ex_solo ex_elected \<and> c_term ex_solo \<le> c_term ex_elected
   \<and> c_commit_index ex_solo \<le> c_commit_index ex_elected"
  using run_monotone [OF ex_solo_reachable ex_elected_steps] ex_elected_steps by simp

section \<open>The contract of a call\<close>





text \<open>C6 (safety). Every committed entry reaches the state machine exactly once and in order. Take any run of
  a core, with the entries its caller admits from the Ready records by \<open>tr_raft_core_ack_ready\<close> or
  \<open>tr_raft_core_advance\<close>: their indices follow the first admitted index without gap or repetition up to
  the admitted index, which never passes the commit index, and each admitted entry stays the entry of
  the log at its index until compaction forgets it.\<close>

theorem delivery_exactly_once:
  assumes "core_reachable V config core0" and "c_pending_apply_index core0 = 0"
    and "delivery_run V core0 core es offer"
  shows "map e_index es = map (\<lambda>k. c_apply_admitted_index core0 + of_nat k + 1) [0..<length es]
    \<and> c_apply_admitted_index core = c_apply_admitted_index core0 + of_nat (length es)
    \<and> unat (c_apply_admitted_index core0) + length es \<le> unat (c_commit_index core)
    \<and> (\<forall>e \<in> set es. log_base_index (c_log core) < e_index e \<longrightarrow> tr_raft_log_get (c_log core) (e_index e) = Some e)"
proof -
  let ?a = "c_apply_admitted_index core0" and ?b = "c_apply_admitted_index core"
  from delivery_run_inv [OF assms(3) _ _ assms(2)] core_reachable_wf [OF assms(1)]
  have wf: "core_wf core" and adm: "admitted_since ?a core es" by auto
  then have n: "unat ?b = unat ?a + length es" and le: "?b \<le> c_commit_index core"
    by (simp_all add: admitted_since_def core_wf_def index_order_def)
  have "?b = ?a + of_nat (length es)" using arg_cong [OF n, of "of_nat :: nat \<Rightarrow> u64"] by simp
  moreover have "map e_index es = map (\<lambda>k. ?a + of_nat k + 1) [0..<length es]"
    using adm by (intro nth_equalityI) (simp_all add: admitted_since_def)
  moreover have "\<forall>e \<in> set es. log_base_index (c_log core) < e_index e \<longrightarrow> tr_raft_log_get (c_log core) (e_index e) = Some e"
    using adm unfolding admitted_since_def set_conv_nth by blast
  ultimately show ?thesis using n le by (simp add: u64_le_unat)
qed

theorem delivery_exactly_once_witness:
  "delivery_run list_vec ex_solo ex_admitted [ex_command_entry] [] \<and> map e_index [ex_command_entry] = [1]
   \<and> c_apply_admitted_index ex_admitted = c_apply_admitted_index ex_solo + 1"
proof -
  obtain rd where e1: "api_exec list_vec ex_solo (Call_tick ex_tick) ex_ready = (SALTS_OK, ex_elected, rd)"
    using ex_elected_exec by blast
  obtain rd' where e2: "tr_raft_core_propose list_vec ex_leader (Some ex_proposal) ex_ready = (SALTS_OK, ex_committed, rd')"
    and es: "r_committed_entries rd' = [ex_command_entry]" using ex_committed_exec by blast
  have "delivery_run list_vec ex_solo ex_elected [] (r_committed_entries rd)"
    by (rule delivery_run.offered [OF delivery_run.first_state ex_solo_enabled _ e1]) simp
  from delivery_run.admitted [OF this ex_elected_enabled ex_leader_facts(1)]
  have "delivery_run list_vec ex_solo ex_leader [] []" by simp
  moreover have "api_exec list_vec ex_leader (Call_propose (Some ex_proposal)) ex_ready = (SALTS_OK, ex_committed, rd')"
    using e2 by simp
  ultimately have "delivery_run list_vec ex_solo ex_committed [] [ex_command_entry]"
    using delivery_run.offered [of list_vec ex_solo ex_leader "[]" "[]" "Call_propose (Some ex_proposal)" ex_ready
        ex_committed rd'] ex_leader_enabled [of "Call_propose (Some ex_proposal)"] es by simp
  from delivery_run.admitted [OF this ex_committed_enabled ex_committed_state(4)]
  have run: "delivery_run list_vec ex_solo ex_admitted [ex_command_entry] []" by simp
  have "c_pending_apply_index ex_solo = 0" by (rule ex_solo_facts)
  from delivery_exactly_once [OF ex_solo_reachable this run] run show ?thesis by (simp add: ex_command_entry_def)
qed

section \<open>Votes, commits and replication\<close>

text \<open>C7 (functional). A vote request. The core first moves to a later term, which clears its vote. It grants
  the vote exactly if it is a voter, the request has its term, it has not voted for another candidate
  in that term, and the log of the candidate is at least as up to date: its last term is larger, or
  equal with a last index not smaller. A granted vote is recorded; the answer carries the decision.\<close>

theorem vote_request_correct:
  assumes "tr_step_vote_request core m rd = (core', rd')" and "\<not> tr_peer_paused core (m_from m)"
  defines "granted \<equiv> c_self_is_voter core \<and> c_term core \<le> m_term m
     \<and> (c_term core < m_term m \<or> c_voted_for core = 0 \<or> c_voted_for core = m_from m)
     \<and> (tr_raft_log_last_term (c_log core) < m_last_log_term m
        \<or> m_last_log_term m = tr_raft_log_last_term (c_log core)
          \<and> tr_raft_log_last_index (c_log core) \<le> m_last_log_index m)"
  shows "c_term core' = max (c_term core) (m_term m)
    \<and> c_voted_for core' = (if granted then m_from m else if c_term core < m_term m then 0 else c_voted_for core)
    \<and> c_log core' = c_log core \<and> c_commit_index core' = c_commit_index core
    \<and> (\<exists>a. r_messages rd' = r_messages rd @ [a] \<and> m_type a = TR_RAFT_MSG_VOTE_RESPONSE
         \<and> m_to a = m_from m \<and> m_from a = c_self_id core \<and> m_term a = c_term core' \<and> m_granted a = granted)"
proof -
  have up: "tr_log_is_up_to_date core m \<longleftrightarrow> tr_raft_log_last_term (c_log core) < m_last_log_term m
        \<or> m_last_log_term m = tr_raft_log_last_term (c_log core)
          \<and> tr_raft_log_last_index (c_log core) \<le> m_last_log_index m"
    by (auto simp: tr_log_is_up_to_date_def Let_def)
  have g: "granted = vote_granted core m" by (simp add: granted_def vote_granted_def up)
  define core1 where "core1 = (if m_term m > c_term core then tr_become_follower core (m_term m) else core)"
  define core2 where "core2 = (if granted
      then core1\<lparr>c_voted_for := m_from m, c_election_elapsed_ticks := 0\<rparr> else core1)"
  have "(core', rd') = (core2, snd (tr_emit core2 rd TR_RAFT_MSG_VOTE_RESPONSE (m_from m) granted))"
    using assms(1) unfolding vote_request_eq Let_def core2_def core1_def g by (rule sym)
  then have res: "core' = core2" "rd' = snd (tr_emit core2 rd TR_RAFT_MSG_VOTE_RESPONSE (m_from m) granted)" by simp_all
  have "tr_peer_paused core2 n = tr_peer_paused core n" for n
    by (simp add: core2_def core1_def tr_peer_paused_def tr_peer_index_paused_def tr_peer_index_def tr_peer_count_def)
  moreover have "c_self_id core2 = c_self_id core" by (simp add: core2_def core1_def)
  ultimately have "\<exists>a. r_messages rd' = r_messages rd @ [a] \<and> m_type a = TR_RAFT_MSG_VOTE_RESPONSE
         \<and> m_to a = m_from m \<and> m_from a = c_self_id core \<and> m_term a = c_term core' \<and> m_granted a = granted"
    using assms(2) by (simp add: res tr_emit_def)
  moreover have "c_term core' = max (c_term core) (m_term m)" "c_log core' = c_log core"
    "c_commit_index core' = c_commit_index core"
    by (simp_all add: res core2_def core1_def max_def)
  moreover have "c_voted_for core' =
      (if granted then m_from m else if c_term core < m_term m then 0 else c_voted_for core)"
    by (simp add: res core2_def core1_def)
  ultimately show ?thesis by blast
qed

theorem vote_request_correct_witness:
  "\<exists>core' rd'. tr_step_vote_request ex_solo (ex_beat\<lparr>m_type := TR_RAFT_MSG_VOTE_REQUEST, m_from := 2\<rparr>) ex_ready = (core', rd')
     \<and> c_term core' = 2 \<and> c_voted_for core' = 2"
proof -
  let ?m = "ex_beat\<lparr>m_type := TR_RAFT_MSG_VOTE_REQUEST, m_from := 2\<rparr>"
  obtain core' rd' where e: "tr_step_vote_request ex_solo ?m ex_ready = (core', rd')" by fastforce
  have "\<not> tr_peer_paused ex_solo (m_from ?m)" using ex_solo_facts by (simp add: ex_beat_def)
  from vote_request_correct [OF e this] ex_solo_facts e show ?thesis
    by (simp add: ex_beat_def tr_raft_log_last_term_def tr_raft_log_count_def max_def)
qed



text \<open>C9 (functional). Replication. A follower that handles an append or heartbeat request which a core may have
  sent, from a term not older than its own, becomes a follower of that term. If its log matches at the
  position the request names, it ends up with exactly the entries of the sender behind that position
  and keeps what it has before it; otherwise its log and commit index stay. The answer says which,
  and reports the last index the request verified.\<close>

theorem replication_agreement:
  assumes "core_wf leader" and "message_ok leader m"
    and "m_type m \<in> {TR_RAFT_MSG_APPEND_REQUEST, TR_RAFT_MSG_HEARTBEAT_REQUEST}"
    and "core_wf core" and "log_vec_ok V (c_log core)" and "log_room (c_log core) 9" and "r_messages rd = []"
    and "r_read_states rd = []" and "c_term core \<le> m_term m"
    and "tr_step_heartbeat_request V core m rd = (SALTS_OK, core', rd')"
  defines "matched \<equiv> tr_raft_log_matches (c_log core) (m_previous_log_index m) (m_previous_log_term m)"
    and "verified \<equiv> m_previous_log_index m + of_nat (length (m_entries m))"
  shows "c_role core' = TR_RAFT_FOLLOWER \<and> c_term core' = m_term m
    \<and> (matched \<longrightarrow>
         (\<forall>i. m_previous_log_index m < i \<and> i \<le> verified \<longrightarrow>
            tr_raft_log_get (c_log core') i = tr_raft_log_get (c_log leader) i)
         \<and> (\<forall>i \<le> m_previous_log_index m. tr_raft_log_get (c_log core') i = tr_raft_log_get (c_log core) i))
    \<and> (\<not> matched \<longrightarrow> c_log core' = c_log core \<and> c_commit_index core' = c_commit_index core)
    \<and> (\<forall>a \<in> set (r_messages rd'). m_granted a = matched \<and> m_match_index a = (if matched then verified else 0))"
proof -
  have rep: "replication_ok leader m" using assms(2,3) by (auto simp: message_ok_def)
  have inc: "incoming_ok (m_previous_log_index m) (m_entries m)" "length (m_entries m) \<le> 8"
    using message_ok_wf [OF assms(2)] assms(1,3) rep by (auto simp: message_wf_def core_wf_def replication_ok_def)
  have fresh: "fresh rd" using assms(7,8) by (simp add: fresh_def)
  note log = heartbeat_request_log [OF assms(4-6) inc assms(9) fresh assms(10), folded matched_def]
  let ?p = "m_previous_log_index m" and ?n = "length (m_entries m)"
  have "tr_raft_log_get (c_log core') i = tr_raft_log_get (c_log leader) i"
    if m: matched and i: "?p < i" "i \<le> verified" for i
  proof -
    have le: "unat ?p + ?n \<le> unat (tr_raft_log_last_index (c_log leader))" using rep by (simp add: replication_ok_def)
    then have "unat verified = unat ?p + ?n"
      using unat_plus_nat [of ?p ?n] unat_u64_less [of "tr_raft_log_last_index (c_log leader)"]
      by (simp add: verified_def)
    then have k: "unat i - unat ?p - 1 < ?n" "unat ?p + (unat i - unat ?p - 1) + 1 = unat i"
      using i by (simp_all add: u64_less_unat u64_le_unat)
    have "i = ?p + of_nat (unat i - unat ?p - 1) + 1"
      using arg_cong [OF k(2), of "of_nat :: nat \<Rightarrow> u64"] by (simp add: ac_simps)
    moreover have "tr_raft_log_get (c_log leader) (?p + of_nat (unat i - unat ?p - 1) + 1)
        = Some (m_entries m ! (unat i - unat ?p - 1))" using rep k(1) unfolding replication_ok_def by blast
    ultimately show ?thesis using log(1) [OF m k(1)] by metis
  qed
  with log show ?thesis unfolding verified_def by blast
qed

theorem replication_agreement_witness:
  "\<exists>core' rd'. tr_step_heartbeat_request list_vec ex_old ex_append (tr_reset_ready ex_ready) = (SALTS_OK, core', rd')
     \<and> tr_raft_log_get (c_log core') 2 = tr_raft_log_get (c_log ex_new) 2
     \<and> tr_raft_log_get (c_log core') 2 \<noteq> tr_raft_log_get (c_log ex_old) 2"
proof -
  have ok: "message_ok ex_new ex_append"
    by (simp add: message_ok_def replication_ok_def ex_append_def ex_beat_def ex_lag_state tr_raft_log_matches_def
        tr_raft_log_get_def tr_raft_log_last_index_def tr_raft_log_count_def vec_at_def ex_command_entry_def)
  obtain core' rd' where e: "tr_step_heartbeat_request list_vec ex_old ex_append (tr_reset_ready ex_ready) = (SALTS_OK, core', rd')"
    using ex_old_facts
    by (cases "tr_step_heartbeat_request list_vec ex_old ex_append (tr_reset_ready ex_ready)") (auto simp: ex_old_created)
  have "log_vec_ok list_vec (c_log ex_old)" "log_room (c_log ex_old) 9" by (simp_all add: ex_lag_state ex_lag_room)
  from replication_agreement [OF ex_lag_wf(2) ok _ ex_lag_wf(1) this _ _ _ e] e show ?thesis
    by (simp add: ex_append_def ex_beat_def ex_lag_state tr_raft_log_matches_def tr_raft_log_get_def
        tr_raft_log_last_index_def tr_raft_log_count_def vec_at_def ex_command_entry_def tr_reset_ready_def)
qed

section \<open>Creation\<close>

text \<open>C13 (functional). A core is created, on a configuration whose restored entries are consecutive and valid, in a
  well-formed state: a follower with the given identity, term and vote, the given commit and applied
  index or, when a snapshot is restored without them, those of the snapshot, and no call or Ready
  record outstanding.\<close>

theorem create_correct:
  assumes "vec_contract V (config_max_entries config)" and "config_ok config" and "log_room (c_log core) 1"
    and "tr_raft_core_create V alloc config = Inr core"
  shows "core_wf core \<and> c_role core = TR_RAFT_FOLLOWER \<and> c_self_id core = cfg_self_id config
    \<and> c_term core = cfg_initial_term config \<and> c_voted_for core = cfg_initial_vote config
    \<and> c_commit_index core = (if cfg_initial_last_log_index config \<noteq> 0 \<and> cfg_initial_commit_index config = 0
         then cfg_initial_last_log_index config else cfg_initial_commit_index config)
    \<and> c_applied_index core = (if cfg_initial_last_log_index config \<noteq> 0 \<and> cfg_initial_applied_index config = 0
         then cfg_initial_last_log_index config else cfg_initial_applied_index config)
    \<and> \<not> c_in_call core \<and> \<not> c_ready_outstanding core"
  using create_wf [OF assms] by (simp add: create_commit_index_def create_applied_index_def)

theorem create_correct_witness:
  "tr_raft_core_create list_vec True ex_new_config = Inr ex_new \<and> core_wf ex_new
   \<and> c_term ex_new = cfg_initial_term ex_new_config \<and> c_commit_index ex_new = 2"
proof -
  have "vec_contract list_vec (config_max_entries ex_new_config)" "log_room (c_log ex_new) 1"
    by (simp_all add: ex_lag_state ex_lag_room)
  from create_correct [OF this(1) ex_lag_config_ok(2) this(2) ex_new_created] ex_new_created
  show ?thesis by (simp add: ex_new_config_def ex_config_def)
qed

section \<open>Departures\<close>

text \<open>C14 (error). A follower commits entries the leader did not verify. The handler of append and heartbeat
  requests bounds the new commit index by the end of the own log, not by the last entry the request
  covers: with no configuration change under way and an empty request that matches, every local entry
  up to the commit index of the leader is committed as it is. The witness is a follower that commits
  an entry of term 1 at an index where the sender has committed another entry of term 2.\<close>

theorem follower_commits_unverified:
  assumes "core_wf core" and "log_vec_ok V (c_log core)" and "log_room (c_log core) 9" and "r_messages rd = []"
    and "r_read_states rd = []" and "m_entries m = []" and "c_term core \<le> m_term m"
    and "tr_raft_log_matches (c_log core) (m_previous_log_index m) (m_previous_log_term m)"
    and "tr_core_rebuild_pending_transition core (m_previous_log_index m) [] = (SALTS_OK, t)" and "tr_pending t = []"
    and "c_commit_index core < m_leader_commit m"
    and "tr_step_heartbeat_request V core m rd = (SALTS_OK, core', rd')"
  shows "c_log core' = c_log core \<and> c_commit_index core' = min (m_leader_commit m) (tr_raft_log_last_index (c_log core))"
proof -
  have inc: "incoming_ok (m_previous_log_index m) (m_entries m)" "length (m_entries m) \<le> 8"
    using assms(6) by (simp_all add: incoming_ok_def entries_at_def)
  have "fresh rd" using assms(4,5) by (simp add: fresh_def)
  note log = heartbeat_request_log [OF assms(1-3) inc assms(7) this assms(12)]
  have l: "c_log core' = c_log core" using log(4) [OF assms(8,6)] .
  have "tr_core_rebuild_pending_transition core (m_previous_log_index m) (m_entries m) = (SALTS_OK, t)"
    using assms(6,9) by simp
  from log(9) [OF assms(8) this assms(11)] assms(10) l show ?thesis
    by (simp add: tr_raft_membership_transition_commit_limit_def)
qed

theorem follower_commits_unverified_witness:
  "\<exists>core' rd'. message_ok ex_new ex_beat \<and> c_commit_index ex_new = 2
     \<and> tr_step_heartbeat_request list_vec ex_old ex_beat (tr_reset_ready ex_ready) = (SALTS_OK, core', rd')
     \<and> c_commit_index core' = 2 \<and> tr_raft_log_get (c_log core') 2 \<noteq> tr_raft_log_get (c_log ex_new) 2"
proof -
  have ok: "message_ok ex_new ex_beat"
    by (simp add: message_ok_def replication_ok_def ex_beat_def ex_lag_state tr_raft_log_matches_def
        tr_raft_log_get_def tr_raft_log_last_index_def tr_raft_log_count_def vec_at_def ex_command_entry_def)
  obtain core' rd' where e: "tr_step_heartbeat_request list_vec ex_old ex_beat (tr_reset_ready ex_ready) = (SALTS_OK, core', rd')"
    using ex_old_facts
    by (cases "tr_step_heartbeat_request list_vec ex_old ex_beat (tr_reset_ready ex_ready)") (auto simp: ex_old_created)
  obtain t where t: "tr_core_rebuild_pending_transition ex_old 1 [] = (SALTS_OK, t)" "tr_pending t = []"
    using ex_old_facts by (auto simp: ex_old_created split: prod.splits)
  have "log_vec_ok list_vec (c_log ex_old)" "log_room (c_log ex_old) 9" by (simp_all add: ex_lag_state ex_lag_room)
  from follower_commits_unverified [OF ex_lag_wf(1) this _ _ _ _ _ _ t(2) _ e] t(1) e ok show ?thesis
    by (simp add: ex_beat_def ex_lag_state tr_raft_log_matches_def tr_raft_log_get_def tr_raft_log_last_index_def
        tr_raft_log_count_def vec_at_def ex_command_entry_def tr_reset_ready_def)
qed

text \<open>C15 (liveness). An inherited configuration change blocks a leader. While the first configuration change under
  way has index \<open>p\<close> and no entry up to \<open>p\<close> has the term of the leader, \<open>tr_update_commit\<close> changes nothing,
  whatever the followers have stored: the commit limit stops the search at \<open>p\<close>, and the rule of the
  current term excludes every index up to \<open>p\<close>. The witness is a node elected in term 2 with a joint
  configuration of term 1 in its log that a quorum stores.\<close>

theorem inherited_change_blocks_commit:
  assumes "core_wf core" and "log_room (c_log core) 1" and "c_role core = TR_RAFT_LEADER"
    and "tr_pending (c_transition core) \<noteq> []"
    and "\<forall>i e. i \<le> snd (hd (tr_pending (c_transition core))) \<and> tr_raft_log_get (c_log core) i = Some e \<longrightarrow>
           e_term e \<noteq> c_term core"
  shows "tr_update_commit core rd = (SALTS_OK, core, rd)"
proof -
  have role: "c_role core \<in> {TR_RAFT_FOLLOWER, TR_RAFT_LEADER}" using assms(3) by simp
  have limit: "tr_raft_membership_transition_commit_limit (c_transition core) i \<le> snd (hd (tr_pending (c_transition core)))" for i
    using assms(4) by (cases "tr_pending (c_transition core)") (auto simp: tr_raft_membership_transition_commit_limit_def)
  show ?thesis
  proof (cases rule: update_commit_cases [OF assms(1,2) role, where rd = rd, case_names kept advanced])
    case (advanced j core')
    have "j \<le> snd (hd (tr_pending (c_transition core)))" using advanced(4) limit order_trans by blast
    with advanced(2) assms(5) show ?thesis unfolding committable_def by blast
  qed
qed

lemma ex_stuck_wf: "core_wf ex_stuck"
proof -
  have "\<not> isl (tr_raft_conf_entry_decode ex_joint_entry)" by code_simp
  then have ok: "config_ok ex_restart_config"
    by (simp add: config_ok_def ex_restart_config_def ex_config_def incoming_ok_def entries_at_def entry_ok_def)
      (simp add: ex_joint_entry_def)
  have room: "n < 100 \<Longrightarrow> log_room (ex_log_of [ex_joint_entry]) n" for n
    by (simp add: log_room_def tr_raft_log_last_index_def tr_raft_log_count_def)
  have "core_reachable list_vec ex_restart_config ex_restarted"
    by (rule core_reachable.created [OF ok _ ex_restarted_created]) (simp_all add: ex_stuck_state room)
  note wf = core_reachable_wf [OF this]
  then have en: "call_enabled list_vec ex_restarted (Call_tick ex_tick)"
    by (simp add: call_enabled_def ex_stuck_state room)
  obtain rd where "api_exec list_vec ex_restarted (Call_tick ex_tick) ex_ready = (SALTS_OK, ex_stuck, rd)"
    using ex_stuck_state(8) by (cases "tr_raft_core_tick list_vec ex_restarted ex_tick ex_ready") (simp add: ex_stuck_def)
  from exec_safe(1) [OF _ en this] wf show ?thesis by simp
qed

theorem inherited_change_blocks_commit_witness:
  "c_role ex_stuck = TR_RAFT_LEADER \<and> tr_core_match_quorum ex_stuck 1 \<and> c_commit_index ex_stuck = 0
   \<and> tr_update_commit ex_stuck ex_ready = (SALTS_OK, ex_stuck, ex_ready)"
proof -
  have p: "tr_pending (c_transition ex_stuck) \<noteq> []" "snd (hd (tr_pending (c_transition ex_stuck))) = 1"
    using ex_stuck_state(4) by (cases "tr_pending (c_transition ex_stuck)"; simp)+
  have "log_room (c_log ex_stuck) 1"
    by (simp add: ex_stuck_state log_room_def tr_raft_log_last_index_def tr_raft_log_count_def)
  moreover have "\<forall>i e. i \<le> snd (hd (tr_pending (c_transition ex_stuck))) \<and> tr_raft_log_get (c_log ex_stuck) i = Some e \<longrightarrow>
           e_term e \<noteq> c_term ex_stuck"
    by (auto simp: ex_stuck_state tr_raft_log_get_def vec_at_def ex_joint_entry_def nth_Cons' split: if_splits)
  ultimately show ?thesis
    using inherited_change_blocks_commit [of ex_stuck ex_ready] ex_stuck_wf p(1) ex_stuck_state by blast
qed

text \<open>C16 (error). A pre-vote request from another node cancels the own pre-vote campaign: the handler leaves the
  campaign term at zero, also in a pre-candidate, so that every later grant for that campaign is
  ignored.\<close>

theorem pre_vote_request_cancels_campaign:
  assumes "tr_step_pre_vote_request core m rd = (core', rd')"
    and "m_term a \<le> c_term core" and "m_campaign_term a \<noteq> 0"
  shows "c_role core' = c_role core \<and> c_pre_votes core' = c_pre_votes core \<and> c_campaign_term core' = 0
    \<and> tr_step_pre_vote_response core' a rd'' i = (core', rd'')"
proof -
  have "core' = core\<lparr>c_campaign_term := 0\<rparr>"
    using assms(1) by (auto simp: tr_step_pre_vote_request_def Let_def split: prod.splits)
  then show ?thesis using assms(2,3) by (auto simp: tr_step_pre_vote_response_def Let_def not_less)
qed

theorem pre_vote_request_cancels_campaign_witness:
  "\<exists>core rd'. tr_step_pre_vote_request (ex_solo\<lparr>c_role := TR_RAFT_PRE_CANDIDATE, c_campaign_term := 1\<rparr>) ex_beat ex_ready
       = (core, rd')
     \<and> tr_step_pre_vote_response core (ex_beat\<lparr>m_term := 0, m_campaign_term := 1, m_granted := True\<rparr>) ex_ready 1
       = (core, ex_ready)"
proof -
  obtain core rd' where e: "tr_step_pre_vote_request (ex_solo\<lparr>c_role := TR_RAFT_PRE_CANDIDATE, c_campaign_term := 1\<rparr>)
      ex_beat ex_ready = (core, rd')" by fastforce
  from pre_vote_request_cancels_campaign [OF e, of "ex_beat\<lparr>m_term := 0, m_campaign_term := 1, m_granted := True\<rparr>"]
  have "tr_step_pre_vote_response core (ex_beat\<lparr>m_term := 0, m_campaign_term := 1, m_granted := True\<rparr>) ex_ready 1
      = (core, ex_ready)" by simp
  with e show ?thesis by blast
qed

text \<open>C17 (error). A leader tick that reports \<open>SALTS_ENOSPC\<close> has moved the clock: the quorum timer has advanced by
  the elapsed ticks, so a caller that retries the tick with more room counts them twice.\<close>

theorem tick_nospace_moves_clock:
  assumes "c_role core = TR_RAFT_LEADER" and "\<not> tr_raft_membership_transition_needs_final (c_transition core)"
    and "\<not> ticks_reached (c_check_quorum_elapsed_ticks core) (tick_elapsed_ticks t) (c_election_timeout_ticks core)"
    and "tr_raft_core_tick V core t rd = (SALTS_ENOSPC, core', rd')"
  shows "c_check_quorum_elapsed_ticks core' = c_check_quorum_elapsed_ticks core + tick_elapsed_ticks t \<and> core' \<noteq> core"
proof -
  let ?e = "tick_elapsed_ticks t"
  define core1 where "core1 = core\<lparr>c_in_call := True\<rparr>"
  define core2 where "core2 = tick_transfer ?e (core1\<lparr>c_check_quorum_elapsed_ticks := c_check_quorum_elapsed_ticks core1 + ?e\<rparr>)"
  define core3 where "core3 = foldl (tick_age_peer ?e) core2 [0..<tr_peer_count core2]"
  have e: "?e \<noteq> 0" and leader: "tick_leader ?e core1 (tr_reset_ready rd) prior = (SALTS_ENOSPC, core', rd')"
    if "prior = \<lparr>b_role = c_role core, b_term = c_term core, b_voted_for = c_voted_for core\<rparr>" for prior
    using assms that by (auto simp: tr_raft_core_tick_def tr_begin_def core1_def Let_def split: if_splits)
  have age: "c_check_quorum_elapsed_ticks (tick_age_peer ?e c i) = c_check_quorum_elapsed_ticks c" for c i
    by (simp add: tick_age_peer_def Let_def split: prod.splits)
  have fold: "c_check_quorum_elapsed_ticks (foldl (tick_age_peer ?e) c xs) = c_check_quorum_elapsed_ticks c" for c xs
    by (induction xs arbitrary: c) (simp_all add: age)
  have c3: "c_check_quorum_elapsed_ticks core3 = c_check_quorum_elapsed_ticks core + ?e"
    by (simp add: core3_def fold core2_def tick_transfer_def core1_def)
  have fin: "fst (tr_finish a b p) = SALTS_OK" for a b p by (simp add: tr_finish_def Let_def)
  have "\<not> ticks_reached (c_check_quorum_elapsed_ticks core1) ?e (c_election_timeout_ticks core1)"
    using assms(3) by (simp add: core1_def)
  then have "c_check_quorum_elapsed_ticks core' = c_check_quorum_elapsed_ticks core3"
    using leader [OF refl] fin
    by (auto simp: tick_leader_def tr_require_capacity_def Let_def
        core2_def [symmetric] core3_def [symmetric] dest: arg_cong [where f = fst] split: if_splits prod.splits)
  with c3 e [OF refl] show ?thesis by auto
qed

theorem tick_nospace_moves_clock_witness:
  "\<exists>core' rd'. tr_raft_core_tick list_vec ex_leader ex_short_tick (ex_ready\<lparr>r_message_capacity := 0\<rparr>)
       = (SALTS_ENOSPC, core', rd') \<and> core' \<noteq> ex_leader"
proof -
  obtain core' rd' where e: "tr_raft_core_tick list_vec ex_leader ex_short_tick (ex_ready\<lparr>r_message_capacity := 0\<rparr>)
      = (SALTS_ENOSPC, core', rd')"
    using ex_leader_facts(7)
    by (cases "tr_raft_core_tick list_vec ex_leader ex_short_tick (ex_ready\<lparr>r_message_capacity := 0\<rparr>)") auto
  from tick_nospace_moves_clock [OF ex_leader_facts(2,3) _ e] ex_leader_facts(4) e show ?thesis
    by (simp add: ex_short_tick_def)
qed

end
