(* ===== verification/Raft_Snapshot_Stream.thy ===== *)
theory Raft_Snapshot_Stream
  imports Raft_Log
begin

text \<open>
  The vocabulary of snapshot transfer (\<open>turboraft/raft_wire_codec.h\<close>,
  \<open>turboraft/raft_snapshot_stream.h\<close>): the chunks and acknowledgements the two sides exchange, and
  the code outside the repository that they call. The incremental SHA-256 of the crypto library is
  the parameter \<open>hash_ops\<close>; the callbacks of the application are a function from the calls made so
  far and the next call to its status.
\<close>

section \<open>Messages\<close>

abbreviation (input) TR_RAFT_WIRE_MAX_SNAPSHOT_CHUNK_BYTES :: nat where
  "TR_RAFT_WIRE_MAX_SNAPSHOT_CHUNK_BYTES \<equiv> 65536"

type_synonym digest = "u8 list"

abbreviation (input) digest_zero :: digest where
  "digest_zero \<equiv> replicate 32 0"

record snapshot_chunk =
  sc_from :: node_id
  sc_to :: node_id
  sc_term :: raft_term
  sc_snapshot_index :: raft_index
  sc_snapshot_term :: raft_term
  sc_snapshot_offset :: u64
  sc_snapshot_size :: u64
  sc_snapshot_digest :: digest
  sc_has_configuration :: bool
  sc_configuration :: conf
  sc_data :: byte_array
  sc_done :: bool

abbreviation sc_data_length :: "snapshot_chunk \<Rightarrow> nat" where
  "sc_data_length chunk \<equiv> byte_count (sc_data chunk)"

record snapshot_ack =
  sa_from :: node_id
  sa_to :: node_id
  sa_term :: raft_term
  sa_snapshot_index :: raft_index
  sa_snapshot_size :: u64
  sa_next_offset :: u64
  sa_snapshot_digest :: digest
  sa_accepted :: bool

definition conf_zero :: conf where
  "conf_zero = \<lparr>conf_phase = TR_RAFT_CONF_OTHER 0, conf_transition_id = 0, conf_members = []\<rparr>"

section \<open>The incremental digest\<close>

record 'h hash_ops =
  hash_reset :: "'h \<Rightarrow> salts_status \<times> 'h"
  hash_update :: "'h \<Rightarrow> u8 list \<Rightarrow> salts_status \<times> 'h"
  hash_finish :: "'h \<Rightarrow> salts_status \<times> digest \<times> 'h"

text \<open>
  What is relied on: a stream that was reset and updated without error returns, when it finishes
  without error, the digest \<open>D\<close> of the bytes it was given. The function \<open>absorbed\<close> names those bytes.
\<close>

definition hash_contract :: "'h hash_ops \<Rightarrow> ('h \<Rightarrow> u8 list) \<Rightarrow> (u8 list \<Rightarrow> digest) \<Rightarrow> bool" where
  "hash_contract H absorbed D \<longleftrightarrow>
     (\<forall>h h'. hash_reset H h = (SALTS_OK, h') \<longrightarrow> absorbed h' = [])
     \<and> (\<forall>h xs h'. hash_update H h xs = (SALTS_OK, h') \<longrightarrow> absorbed h' = absorbed h @ xs)
     \<and> (\<forall>h d h'. hash_finish H h = (SALTS_OK, d, h') \<longrightarrow> d = D (absorbed h))"

lemma hash_contractD:
  assumes "hash_contract H absorbed D"
  shows "hash_reset H h = (SALTS_OK, h') \<Longrightarrow> absorbed h' = []"
    and "hash_update H h xs = (SALTS_OK, h') \<Longrightarrow> absorbed h' = absorbed h @ xs"
    and "hash_finish H h = (SALTS_OK, d, h') \<Longrightarrow> d = D (absorbed h)"
  using assms unfolding hash_contract_def by blast+

text \<open>An instance: a stream that keeps its bytes, with any digest function.\<close>

definition list_hash :: "(u8 list \<Rightarrow> digest) \<Rightarrow> u8 list hash_ops" where
  "list_hash D = \<lparr>hash_reset = (\<lambda>h. (SALTS_OK, [])), hash_update = (\<lambda>h xs. (SALTS_OK, h @ xs)),
     hash_finish = (\<lambda>h. (SALTS_OK, D h, h))\<rparr>"

lemma list_hash_contract: "hash_contract (list_hash D) (\<lambda>h. h) D"
  by (simp add: hash_contract_def list_hash_def)

section \<open>Memory\<close>

text \<open>\<open>malloc\<close>: a block of the requested size with unspecified contents, or null.\<close>

type_synonym heap_alloc = "nat \<Rightarrow> u8 list option"

definition alloc_ok :: "heap_alloc \<Rightarrow> bool" where
  "alloc_ok M \<longleftrightarrow> (\<forall>n block. M n = Some block \<longrightarrow> length block = n)"

text \<open>\<open>memcpy\<close> into a block at an offset.\<close>

definition block_write :: "u8 list \<Rightarrow> nat \<Rightarrow> u8 list \<Rightarrow> u8 list" where
  "block_write block offset xs = take offset block @ xs @ drop (offset + length xs) block"

lemma length_block_write [simp]:
  "offset + length xs \<le> length block \<Longrightarrow> length (block_write block offset xs) = length block"
  by (simp add: block_write_def)

lemma take_block_write:
  "offset + length xs \<le> length block \<Longrightarrow>
     take (offset + length xs) (block_write block offset xs) = take offset block @ xs"
  by (simp add: block_write_def)

section \<open>The sink of a receiver\<close>

text \<open>The calls a receiver makes to the application: the buffered installation, or the four callbacks of
  the streaming sink. \<open>sink_status\<close> is the application: the status of the next call, given those so far.\<close>

datatype sink_call =
    Sink_install raft_term raft_index raft_term conf "u8 list"
  | Sink_begin raft_term raft_index raft_term conf u64
  | Sink_write u64 "u8 list"
  | Sink_commit
  | Sink_abort

type_synonym sink_status = "sink_call list \<Rightarrow> sink_call \<Rightarrow> salts_status"

definition sink_do :: "sink_status \<Rightarrow> sink_call list \<Rightarrow> sink_call \<Rightarrow> salts_status \<times> sink_call list" where
  "sink_do K calls call = (K calls call, calls @ [call])"

text \<open>
  The application as a state machine over these calls. A snapshot becomes visible by a successful
  installation, or by a successful commit of a stream; a failed write or commit leaves the stream to
  be aborted. \<open>sink_misused\<close> records a call outside this protocol.
\<close>

record snapshot_image =
  si_leader_term :: raft_term
  si_index :: raft_index
  si_term :: raft_term
  si_configuration :: conf
  si_size :: u64
  si_data :: "u8 list"

record sink =
  sink_open :: "snapshot_image option"
  sink_failed :: bool
  sink_visible :: "snapshot_image list"
  sink_misused :: bool

fun sink_step :: "sink_call \<Rightarrow> salts_status \<Rightarrow> sink \<Rightarrow> sink" where
  "sink_step (Sink_install lt i t c xs) s k =
     (if sink_open k \<noteq> None then k\<lparr>sink_misused := True\<rparr>
      else if s = SALTS_OK
      then k\<lparr>sink_visible := sink_visible k @ [\<lparr>si_leader_term = lt, si_index = i, si_term = t, si_configuration = c,
             si_size = of_nat (length xs), si_data = xs\<rparr>]\<rparr>
      else k)"
| "sink_step (Sink_begin lt i t c n) s k =
     (if sink_open k \<noteq> None then k\<lparr>sink_misused := True\<rparr>
      else if s = SALTS_OK
      then k\<lparr>sink_open := Some \<lparr>si_leader_term = lt, si_index = i, si_term = t, si_configuration = c, si_size = n,
             si_data = []\<rparr>, sink_failed := False\<rparr>
      else k)"
| "sink_step (Sink_write off xs) s k =
     (case sink_open k of
        None \<Rightarrow> k\<lparr>sink_misused := True\<rparr>
      | Some img \<Rightarrow>
          if sink_failed k \<or> unat off \<noteq> length (si_data img)
             \<or> length (si_data img) + length xs > unat (si_size img)
          then k\<lparr>sink_misused := True\<rparr>
          else if s = SALTS_OK then k\<lparr>sink_open := Some (img\<lparr>si_data := si_data img @ xs\<rparr>)\<rparr>
          else k\<lparr>sink_failed := True\<rparr>)"
| "sink_step Sink_commit s k =
     (case sink_open k of
        None \<Rightarrow> k\<lparr>sink_misused := True\<rparr>
      | Some img \<Rightarrow>
          if sink_failed k \<or> length (si_data img) \<noteq> unat (si_size img) then k\<lparr>sink_misused := True\<rparr>
          else if s = SALTS_OK then k\<lparr>sink_open := None, sink_visible := sink_visible k @ [img]\<rparr>
          else k\<lparr>sink_failed := True\<rparr>)"
| "sink_step Sink_abort s k =
     (if sink_open k = None then k\<lparr>sink_misused := True\<rparr> else k\<lparr>sink_open := None, sink_failed := False\<rparr>)"

definition sink_init :: sink where
  "sink_init = \<lparr>sink_open = None, sink_failed = False, sink_visible = [], sink_misused = False\<rparr>"

definition sink_after :: "sink_status \<Rightarrow> sink_call list \<Rightarrow> sink" where
  "sink_after K calls =
     snd (foldl (\<lambda>(history, k) call. (history @ [call], sink_step call (K history call) k)) ([], sink_init) calls)"

lemma sink_fold_history:
  "fst (foldl (\<lambda>(history, k) call. (history @ [call], sink_step call (K history call) k)) (h, k0) calls) = h @ calls"
  by (induction calls arbitrary: h k0) simp_all

lemma sink_after_Nil [simp]: "sink_after K [] = sink_init"
  by (simp add: sink_after_def)

lemma sink_after_snoc [simp]: "sink_after K (calls @ [call]) = sink_step call (K calls call) (sink_after K calls)"
  using sink_fold_history [of K "[]" sink_init calls]
  by (auto simp: sink_after_def split: prod.splits)

end
