(* ===== verification/Raft_Snapshot_Receiver.thy ===== *)
theory Raft_Snapshot_Receiver
  imports Raft_Snapshot_Stream
begin

text \<open>
  The receiving side of a snapshot transfer (\<open>src/snapshot/raft_snapshot_receiver.c\<close>): it accepts the
  chunks of one transfer in order, keeps or forwards their bytes, verifies the digest of the whole and
  hands the snapshot to the application.
\<close>

section \<open>State\<close>

record 'h snapshot_receiver =
  rx_self_id :: node_id
  rx_max_snapshot_bytes :: u64
  rx_max_buffered_snapshot_bytes :: u64
  rx_streaming :: bool
  rx_leader_id :: node_id
  rx_leader_term :: raft_term
  rx_snapshot_index :: raft_index
  rx_snapshot_term :: raft_term
  rx_configuration :: conf
  rx_snapshot_size :: u64
  rx_next_offset :: u64
  rx_digest :: digest
  rx_data :: "u8 list option"
  rx_sha256 :: 'h
  rx_stream_started :: bool
  rx_active :: bool
  rx_completed :: bool

record receiver_config =
  rc_self_id :: node_id
  rc_max_snapshot_bytes :: u64
  rc_max_buffered_snapshot_bytes :: u64
  rc_install :: bool
  rc_stream_begin :: bool
  rc_stream_write :: bool
  rc_stream_commit :: bool
  rc_stream_abort :: bool

record receive_result =
  rr_ack :: snapshot_ack
  rr_installed :: bool

section \<open>Operations\<close>

definition tr_snapshot_receiver_clear_transfer ::
    "sink_status \<Rightarrow> 'h snapshot_receiver \<Rightarrow> sink_call list \<Rightarrow> 'h snapshot_receiver \<times> sink_call list" where
  "tr_snapshot_receiver_clear_transfer K receiver calls =
     (receiver\<lparr>rx_stream_started := False, rx_data := None, rx_leader_id := 0, rx_leader_term := 0,
        rx_snapshot_index := 0, rx_snapshot_term := 0, rx_configuration := conf_zero, rx_snapshot_size := 0,
        rx_next_offset := 0, rx_digest := digest_zero, rx_active := False, rx_completed := False\<rparr>,
      if rx_stream_started receiver then snd (sink_do K calls Sink_abort) else calls)"

definition tr_snapshot_receiver_chunk_valid :: "'h snapshot_receiver \<Rightarrow> snapshot_chunk \<Rightarrow> bool" where
  "tr_snapshot_receiver_chunk_valid receiver chunk \<longleftrightarrow>
     \<not> (sc_from chunk = 0 \<or> sc_to chunk \<noteq> rx_self_id receiver
        \<or> sc_term chunk = 0 \<or> sc_snapshot_index chunk = 0
        \<or> sc_snapshot_term chunk = 0 \<or> sc_snapshot_term chunk > sc_term chunk
        \<or> sc_snapshot_size chunk > rx_max_snapshot_bytes receiver
        \<or> sc_snapshot_offset chunk > sc_snapshot_size chunk
        \<or> sc_data_length chunk > TR_RAFT_WIRE_MAX_SNAPSHOT_CHUNK_BYTES
        \<or> (sc_data_length chunk \<noteq> 0 \<and> byte_is_null (sc_data chunk))
        \<or> sc_data_length chunk > unat (sc_snapshot_size chunk - sc_snapshot_offset chunk)
        \<or> (sc_snapshot_offset chunk = 0
           \<and> (\<not> sc_has_configuration chunk \<or> tr_raft_conf_validate (sc_configuration chunk) \<noteq> SALTS_OK))
        \<or> (sc_snapshot_offset chunk \<noteq> 0 \<and> sc_has_configuration chunk))
     \<and> sc_done chunk = (sc_snapshot_offset chunk + of_nat (sc_data_length chunk) = sc_snapshot_size chunk)
     \<and> (sc_done chunk \<or> sc_data_length chunk \<noteq> 0)"

definition tr_snapshot_receiver_identity_matches :: "'h snapshot_receiver \<Rightarrow> snapshot_chunk \<Rightarrow> bool" where
  "tr_snapshot_receiver_identity_matches receiver chunk \<longleftrightarrow>
     (sc_snapshot_offset chunk = 0 \<longrightarrow>
        sc_has_configuration chunk
        \<and> conf_phase (rx_configuration receiver) = conf_phase (sc_configuration chunk)
        \<and> conf_transition_id (rx_configuration receiver) = conf_transition_id (sc_configuration chunk)
        \<and> length (conf_members (rx_configuration receiver)) = length (conf_members (sc_configuration chunk))
        \<and> list_all2 (\<lambda>a b. cm_node_id a = cm_node_id b \<and> cm_roles a = cm_roles b)
            (conf_members (rx_configuration receiver)) (conf_members (sc_configuration chunk)))
     \<and> rx_leader_id receiver = sc_from chunk \<and> rx_leader_term receiver = sc_term chunk
     \<and> rx_snapshot_index receiver = sc_snapshot_index chunk \<and> rx_snapshot_term receiver = sc_snapshot_term chunk
     \<and> rx_snapshot_size receiver = sc_snapshot_size chunk \<and> rx_digest receiver = sc_snapshot_digest chunk"

definition receiver_begin ::
    "'h hash_ops \<Rightarrow> sink_status \<Rightarrow> 'h snapshot_receiver \<Rightarrow> sink_call list
       \<Rightarrow> salts_status \<times> 'h snapshot_receiver \<times> sink_call list" where
  "receiver_begin H K receiver calls =
     (case hash_reset H (rx_sha256 receiver) of
        (reset, h) \<Rightarrow>
          let receiver = receiver\<lparr>rx_sha256 := h\<rparr>
          in if reset \<noteq> SALTS_OK
             then (SALTS_EPROTO, tr_snapshot_receiver_clear_transfer K receiver calls)
             else if rx_streaming receiver
             then case sink_do K calls (Sink_begin (rx_leader_term receiver) (rx_snapshot_index receiver)
                         (rx_snapshot_term receiver) (rx_configuration receiver) (rx_snapshot_size receiver)) of
                    (result, calls) \<Rightarrow>
                      if result \<noteq> SALTS_OK
                      then (result, tr_snapshot_receiver_clear_transfer K receiver calls)
                      else (SALTS_OK, receiver\<lparr>rx_stream_started := True\<rparr>, calls)
             else (SALTS_OK, receiver, calls))"

definition tr_snapshot_receiver_start ::
    "'h hash_ops \<Rightarrow> heap_alloc \<Rightarrow> sink_status \<Rightarrow> 'h snapshot_receiver \<Rightarrow> snapshot_chunk \<Rightarrow> sink_call list
       \<Rightarrow> salts_status \<times> 'h snapshot_receiver \<times> sink_call list" where
  "tr_snapshot_receiver_start H M K receiver chunk calls =
     (let buffered = (\<not> rx_streaming receiver \<and> sc_snapshot_size chunk \<noteq> 0);
          data = (if buffered then M (unat (sc_snapshot_size chunk)) else None)
      in if buffered \<and> (sc_snapshot_size chunk > rx_max_buffered_snapshot_bytes receiver
                        \<or> sc_snapshot_size chunk > UINT64_MAX)
         then (SALTS_EFBIG, receiver, calls)
         else if buffered \<and> data = None then (SALTS_ENOMEM, receiver, calls)
         else case tr_snapshot_receiver_clear_transfer K receiver calls of
           (receiver, calls) \<Rightarrow>
             receiver_begin H K
               (receiver\<lparr>rx_leader_id := sc_from chunk, rx_leader_term := sc_term chunk,
                  rx_snapshot_index := sc_snapshot_index chunk, rx_snapshot_term := sc_snapshot_term chunk,
                  rx_configuration := sc_configuration chunk, rx_snapshot_size := sc_snapshot_size chunk,
                  rx_digest := sc_snapshot_digest chunk, rx_data := data, rx_active := True,
                  rx_completed := False\<rparr>) calls)"

definition tr_snapshot_receiver_prepare_ack :: "'h snapshot_receiver \<Rightarrow> snapshot_chunk \<Rightarrow> receive_result" where
  "tr_snapshot_receiver_prepare_ack receiver chunk =
     \<lparr>rr_ack = \<lparr>sa_from = rx_self_id receiver, sa_to = sc_from chunk, sa_term = sc_term chunk,
        sa_snapshot_index = sc_snapshot_index chunk, sa_snapshot_size = sc_snapshot_size chunk,
        sa_next_offset = 0, sa_snapshot_digest = sc_snapshot_digest chunk, sa_accepted = False\<rparr>,
      rr_installed = False\<rparr>"

definition tr_raft_snapshot_receiver_create ::
    "(salts_status \<times> 'h) \<Rightarrow> bool \<Rightarrow> receiver_config \<Rightarrow> salts_status + 'h snapshot_receiver" where
  "tr_raft_snapshot_receiver_create sha_create calloc_ok config =
     (if rc_self_id config = 0 \<or> rc_max_snapshot_bytes config = 0 then Inl SALTS_EINVAL
      else if (\<not> rc_install config) = (\<not> rc_stream_begin config) then Inl SALTS_EINVAL
      else if rc_install config
              \<and> (rc_max_buffered_snapshot_bytes config = 0
                 \<or> rc_max_buffered_snapshot_bytes config > rc_max_snapshot_bytes config)
      then Inl SALTS_EINVAL
      else if rc_stream_begin config
              \<and> (rc_max_buffered_snapshot_bytes config \<noteq> 0 \<or> \<not> rc_stream_write config
                 \<or> \<not> rc_stream_commit config \<or> \<not> rc_stream_abort config)
      then Inl SALTS_EINVAL
      else if \<not> calloc_ok then Inl SALTS_ENOMEM
      else case sha_create of
        (result, h) \<Rightarrow>
          if result \<noteq> SALTS_OK then Inl result
          else Inr \<lparr>rx_self_id = rc_self_id config, rx_max_snapshot_bytes = rc_max_snapshot_bytes config,
                    rx_max_buffered_snapshot_bytes = rc_max_buffered_snapshot_bytes config,
                    rx_streaming = rc_stream_begin config, rx_leader_id = 0, rx_leader_term = 0,
                    rx_snapshot_index = 0, rx_snapshot_term = 0, rx_configuration = conf_zero,
                    rx_snapshot_size = 0, rx_next_offset = 0, rx_digest = digest_zero, rx_data = None,
                    rx_sha256 = h, rx_stream_started = False, rx_active = False, rx_completed = False\<rparr>)"

definition tr_raft_snapshot_receiver_reset ::
    "sink_status \<Rightarrow> 'h snapshot_receiver \<Rightarrow> sink_call list \<Rightarrow> 'h snapshot_receiver \<times> sink_call list" where
  "tr_raft_snapshot_receiver_reset K receiver calls = tr_snapshot_receiver_clear_transfer K receiver calls"

text \<open>\<open>tr_raft_snapshot_receiver_destroy\<close>: the sink calls it makes.\<close>

definition tr_raft_snapshot_receiver_destroy ::
    "sink_status \<Rightarrow> 'h snapshot_receiver \<Rightarrow> sink_call list \<Rightarrow> sink_call list" where
  "tr_raft_snapshot_receiver_destroy K receiver calls = snd (tr_snapshot_receiver_clear_transfer K receiver calls)"

text \<open>The part of \<open>tr_raft_snapshot_receiver_handle\<close> that finds or starts the transfer of a chunk: a status
  to return with the acknowledgement, or success.\<close>

definition receiver_select ::
    "'h hash_ops \<Rightarrow> heap_alloc \<Rightarrow> sink_status \<Rightarrow> 'h snapshot_receiver \<Rightarrow> snapshot_chunk \<Rightarrow> receive_result \<Rightarrow> sink_call list
       \<Rightarrow> salts_status \<times> 'h snapshot_receiver \<times> receive_result \<times> sink_call list" where
  "receiver_select H M K receiver chunk out_result calls =
     (if \<not> rx_active receiver
      then if sc_snapshot_offset chunk \<noteq> 0 then (SALTS_EPROTO, receiver, out_result, calls)
           else case tr_snapshot_receiver_start H M K receiver chunk calls of
                  (result, receiver, calls) \<Rightarrow> (result, receiver, out_result, calls)
      else if \<not> tr_snapshot_receiver_identity_matches receiver chunk
      then if sc_snapshot_offset chunk \<noteq> 0 \<or> sc_snapshot_index chunk \<le> rx_snapshot_index receiver
              \<or> sc_term chunk < rx_leader_term receiver
           then (SALTS_EPROTO, receiver,
                 out_result\<lparr>rr_ack := (rr_ack out_result)\<lparr>sa_next_offset := rx_next_offset receiver\<rparr>\<rparr>, calls)
           else case tr_snapshot_receiver_start H M K receiver chunk calls of
                  (result, receiver, calls) \<Rightarrow> (result, receiver, out_result, calls)
      else (SALTS_OK, receiver, out_result, calls))"

text \<open>The part that stores the bytes of a chunk at the next offset.\<close>

definition receiver_store ::
    "'h hash_ops \<Rightarrow> sink_status \<Rightarrow> 'h snapshot_receiver \<Rightarrow> snapshot_chunk \<Rightarrow> sink_call list
       \<Rightarrow> salts_status \<times> 'h snapshot_receiver \<times> sink_call list" where
  "receiver_store H K receiver chunk calls =
     (if sc_data_length chunk = 0 then (SALTS_OK, receiver, calls)
      else case hash_update H (rx_sha256 receiver) (byte_list (sc_data chunk)) of
        (updated, h) \<Rightarrow>
          let receiver = receiver\<lparr>rx_sha256 := h\<rparr>
          in if updated \<noteq> SALTS_OK
             then (SALTS_EPROTO, tr_snapshot_receiver_clear_transfer K receiver calls)
             else if rx_stream_started receiver
             then case sink_do K calls (Sink_write (rx_next_offset receiver) (byte_list (sc_data chunk))) of
                    (result, calls) \<Rightarrow>
                      if result \<noteq> SALTS_OK
                      then (result, tr_snapshot_receiver_clear_transfer K receiver calls)
                      else (SALTS_OK, receiver, calls)
             else case rx_data receiver of
                    None \<Rightarrow> (C_FAULT, receiver, calls)
                  | Some block \<Rightarrow>
                      (SALTS_OK,
                       receiver\<lparr>rx_data := Some (block_write block (unat (rx_next_offset receiver))
                                                  (byte_list (sc_data chunk)))\<rparr>,
                       calls))"

text \<open>The part behind the last chunk: the digest and the installation.\<close>

definition receiver_finish ::
    "'h hash_ops \<Rightarrow> sink_status \<Rightarrow> 'h snapshot_receiver \<Rightarrow> receive_result \<Rightarrow> sink_call list
       \<Rightarrow> salts_status \<times> 'h snapshot_receiver \<times> receive_result \<times> sink_call list" where
  "receiver_finish H K receiver out_result calls =
     (case hash_finish H (rx_sha256 receiver) of
        (finished, calculated_digest, h) \<Rightarrow>
          let receiver = receiver\<lparr>rx_sha256 := h\<rparr>;
              rejected = out_result\<lparr>rr_ack := (rr_ack out_result)\<lparr>sa_accepted := False, sa_next_offset := 0\<rparr>\<rparr>
          in if finished \<noteq> SALTS_OK \<or> calculated_digest \<noteq> rx_digest receiver
             then case tr_snapshot_receiver_clear_transfer K receiver calls of
                    (receiver, calls) \<Rightarrow> (SALTS_EPROTO, receiver, rejected, calls)
             else case sink_do K calls
                         (if rx_stream_started receiver then Sink_commit
                          else Sink_install (rx_leader_term receiver) (rx_snapshot_index receiver)
                                 (rx_snapshot_term receiver) (rx_configuration receiver)
                                 (take (unat (rx_snapshot_size receiver)) (case rx_data receiver of None \<Rightarrow> [] | Some b \<Rightarrow> b))) of
                    (result, calls) \<Rightarrow>
                      if result \<noteq> SALTS_OK
                      then case tr_snapshot_receiver_clear_transfer K receiver calls of
                             (receiver, calls) \<Rightarrow> (result, receiver, rejected, calls)
                      else (SALTS_OK,
                            receiver\<lparr>rx_stream_started := False, rx_data := None, rx_completed := True\<rparr>,
                            out_result\<lparr>rr_installed := True\<rparr>, calls))"

definition tr_raft_snapshot_receiver_handle ::
    "'h hash_ops \<Rightarrow> heap_alloc \<Rightarrow> sink_status \<Rightarrow> 'h snapshot_receiver \<Rightarrow> snapshot_chunk \<Rightarrow> sink_call list
       \<Rightarrow> salts_status \<times> 'h snapshot_receiver \<times> receive_result \<times> sink_call list" where
  "tr_raft_snapshot_receiver_handle H M K receiver chunk calls =
     (let out_result = tr_snapshot_receiver_prepare_ack receiver chunk;
          answer = (\<lambda>receiver accepted. out_result\<lparr>rr_ack := (rr_ack out_result)
                      \<lparr>sa_next_offset := rx_next_offset receiver, sa_accepted := accepted\<rparr>\<rparr>)
      in if \<not> tr_snapshot_receiver_chunk_valid receiver chunk then (SALTS_EPROTO, receiver, out_result, calls)
         else case receiver_select H M K receiver chunk out_result calls of
           (result, receiver, out_result, calls) \<Rightarrow>
             if result \<noteq> SALTS_OK then (result, receiver, out_result, calls)
             else if rx_completed receiver then (SALTS_OK, receiver, answer receiver True, calls)
             else if sc_snapshot_offset chunk < rx_next_offset receiver
             then (SALTS_OK, receiver, answer receiver True, calls)
             else if sc_snapshot_offset chunk \<noteq> rx_next_offset receiver
             then (SALTS_EPROTO, receiver, answer receiver False, calls)
             else case receiver_store H K receiver chunk calls of
               (result, receiver, calls) \<Rightarrow>
                 if result \<noteq> SALTS_OK then (result, receiver, out_result, calls)
                 else let receiver = receiver\<lparr>rx_next_offset := rx_next_offset receiver
                                                 + of_nat (sc_data_length chunk)\<rparr>
                      in if \<not> sc_done chunk then (SALTS_OK, receiver, answer receiver True, calls)
                         else receiver_finish H K receiver (answer receiver True) calls)"

section \<open>The invariant\<close>

text \<open>What names a transfer, and the snapshot it would install with given bytes.\<close>

definition rx_identity :: "'h snapshot_receiver \<Rightarrow> node_id \<times> raft_term \<times> raft_index \<times> raft_term \<times> u64 \<times> digest" where
  "rx_identity rx = (rx_leader_id rx, rx_leader_term rx, rx_snapshot_index rx, rx_snapshot_term rx, rx_snapshot_size rx,
     rx_digest rx)"

definition sc_identity :: "snapshot_chunk \<Rightarrow> node_id \<times> raft_term \<times> raft_index \<times> raft_term \<times> u64 \<times> digest" where
  "sc_identity ch = (sc_from ch, sc_term ch, sc_snapshot_index ch, sc_snapshot_term ch, sc_snapshot_size ch,
     sc_snapshot_digest ch)"

definition rx_image :: "'h snapshot_receiver \<Rightarrow> u8 list \<Rightarrow> snapshot_image" where
  "rx_image rx xs = \<lparr>si_leader_term = rx_leader_term rx, si_index = rx_snapshot_index rx, si_term = rx_snapshot_term rx,
     si_configuration = rx_configuration rx, si_size = rx_snapshot_size rx, si_data = xs\<rparr>"

text \<open>The sink is used by its protocol, and a stream is open exactly while the receiver has started one.\<close>

definition rx_linked :: "sink_status \<Rightarrow> 'h snapshot_receiver \<Rightarrow> sink_call list \<Rightarrow> bool" where
  "rx_linked K rx calls \<longleftrightarrow>
     \<not> sink_misused (sink_after K calls) \<and> (rx_stream_started rx \<longleftrightarrow> sink_open (sink_after K calls) \<noteq> None)"

text \<open>The bytes received so far are those of the digest stream, of the buffer, and of the open sink.\<close>

definition rx_holding :: "('h \<Rightarrow> u8 list) \<Rightarrow> sink_status \<Rightarrow> 'h snapshot_receiver \<Rightarrow> sink_call list \<Rightarrow> bool" where
  "rx_holding absorbed K rx calls \<longleftrightarrow>
     length (absorbed (rx_sha256 rx)) = unat (rx_next_offset rx)
     \<and> (if rx_streaming rx
        then rx_stream_started rx \<and> rx_data rx = None \<and> \<not> sink_failed (sink_after K calls)
             \<and> sink_open (sink_after K calls) = Some (rx_image rx (absorbed (rx_sha256 rx)))
        else \<not> rx_stream_started rx
             \<and> (if rx_snapshot_size rx = 0 then rx_data rx = None
                else \<exists>block. rx_data rx = Some block \<and> length block = unat (rx_snapshot_size rx)
                       \<and> take (unat (rx_next_offset rx)) block = absorbed (rx_sha256 rx)))"

definition rx_inv :: "('h \<Rightarrow> u8 list) \<Rightarrow> sink_status \<Rightarrow> 'h snapshot_receiver \<Rightarrow> sink_call list \<Rightarrow> bool" where
  "rx_inv absorbed K rx calls \<longleftrightarrow>
     rx_linked K rx calls \<and> rx_next_offset rx \<le> rx_snapshot_size rx
     \<and> (if rx_active rx \<and> \<not> rx_completed rx then rx_holding absorbed K rx calls
        else \<not> rx_stream_started rx \<and> rx_data rx = None
             \<and> (if rx_active rx then rx_next_offset rx = rx_snapshot_size rx else \<not> rx_completed rx))"

lemmas rx_defs = rx_inv_def rx_linked_def rx_holding_def rx_image_def

lemma create_inv: "tr_raft_snapshot_receiver_create c ok config = Inr rx \<Longrightarrow> rx_inv absorbed K rx []"
  by (auto simp: tr_raft_snapshot_receiver_create_def rx_defs sink_init_def split: if_splits prod.splits)

lemma clear_inv:
  assumes "rx_linked K rx calls" and "tr_snapshot_receiver_clear_transfer K rx calls = (rx', calls')"
  shows "rx_inv absorbed K rx' calls'" and "sink_visible (sink_after K calls') = sink_visible (sink_after K calls)"
    and "\<not> rx_active rx'" and "rx_sha256 rx' = rx_sha256 rx"
  using assms by (auto simp: tr_snapshot_receiver_clear_transfer_def rx_inv_def rx_linked_def sink_do_def)

lemma clear_idle [simp]:
  "\<not> rx_stream_started rx \<Longrightarrow> snd (tr_snapshot_receiver_clear_transfer K rx calls) = calls"
  by (simp add: tr_snapshot_receiver_clear_transfer_def)

lemma inv_linked: "rx_inv absorbed K rx calls \<Longrightarrow> rx_linked K rx calls"
  by (simp add: rx_inv_def)

section \<open>Starting a transfer\<close>

text \<open>A transfer that begins: with success it holds no bytes, otherwise it is dropped.\<close>

lemma begin_spec:
  assumes hash: "hash_contract H absorbed D" and link: "rx_linked K rx calls" and idle: "\<not> rx_stream_started rx"
    and st: "rx_next_offset rx = 0" "rx_active rx" "\<not> rx_completed rx"
    and buffer: "if rx_streaming rx \<or> rx_snapshot_size rx = 0 then rx_data rx = None
                 else \<exists>block. rx_data rx = Some block \<and> length block = unat (rx_snapshot_size rx)"
    and eq: "receiver_begin H K rx calls = (s, rx', calls')"
  shows "rx_inv absorbed K rx' calls' \<and> sink_visible (sink_after K calls') = sink_visible (sink_after K calls)
      \<and> (s = SALTS_OK \<longrightarrow> rx_active rx' \<and> \<not> rx_completed rx' \<and> rx_identity rx' = rx_identity rx
           \<and> rx_configuration rx' = rx_configuration rx \<and> rx_next_offset rx' = 0 \<and> absorbed (rx_sha256 rx') = []
           \<and> rx_streaming rx' = rx_streaming rx)
      \<and> (s \<noteq> SALTS_OK \<longrightarrow> \<not> rx_active rx') \<and> (s = C_FAULT \<longrightarrow> (\<exists>h c. K h c = C_FAULT))"
proof -
  obtain r h where r: "hash_reset H (rx_sha256 rx) = (r, h)" by fastforce
  define rx1 where "rx1 = rx\<lparr>rx_sha256 := h\<rparr>"
  have link1: "rx_linked K rx1 calls" using link by (simp add: rx1_def rx_linked_def)
  define call where "call = Sink_begin (rx_leader_term rx1) (rx_snapshot_index rx1)
      (rx_snapshot_term rx1) (rx_configuration rx1) (rx_snapshot_size rx1)"
  define calls1 where "calls1 = calls @ [call]"
  have closed: "sink_open (sink_after K calls) = None" "\<not> sink_misused (sink_after K calls)"
    using link idle by (simp_all add: rx_linked_def)
  show ?thesis
  proof (cases "r = SALTS_OK")
    case False
    then have e: "s = SALTS_EPROTO" "tr_snapshot_receiver_clear_transfer K rx1 calls = (rx', calls')"
      using eq r by (simp_all add: receiver_begin_def rx1_def)
    from clear_inv [OF link1 e(2)] e(1) show ?thesis by auto
  next
    case True
    have h: "absorbed h = []" using hash_contractD(1) [OF hash] r True by simp
    show ?thesis
    proof (cases "rx_streaming rx")
      case False
      then have "s = SALTS_OK" "rx' = rx1" "calls' = calls" using eq r True by (simp_all add: receiver_begin_def rx1_def)
      with False h link1 st buffer idle show ?thesis
        by (auto simp: rx_inv_def rx_holding_def rx1_def rx_identity_def)
    next
      case stream: True
      show ?thesis
      proof (cases "K calls call = SALTS_OK")
        case True
        then have "s = SALTS_OK" "rx' = rx1\<lparr>rx_stream_started := True\<rparr>" "calls' = calls1"
          using eq r \<open>r = SALTS_OK\<close> stream
          by (simp_all add: receiver_begin_def sink_do_def rx1_def call_def calls1_def)
        with True stream h st closed buffer show ?thesis
          by (simp add: rx_defs calls1_def call_def rx1_def rx_identity_def)
      next
        case False
        then have e: "s = K calls call" "tr_snapshot_receiver_clear_transfer K rx1 calls1 = (rx', calls')"
          using eq r \<open>r = SALTS_OK\<close> stream
          by (simp_all add: receiver_begin_def sink_do_def rx1_def call_def calls1_def)
        have same: "sink_after K calls1 = sink_after K calls" using False closed by (simp add: calls1_def call_def)
        then have "rx_linked K rx1 calls1" using link1 by (simp add: rx_linked_def)
        from clear_inv [OF this e(2)] e(1) same False show ?thesis by auto
      qed
    qed
  qed
qed

lemma start_spec:
  assumes hash: "hash_contract H absorbed D" and alloc: "alloc_ok M" and inv: "rx_inv absorbed K rx calls"
    and eq: "tr_snapshot_receiver_start H M K rx ch calls = (s, rx', calls')"
  shows "rx_inv absorbed K rx' calls' \<and> sink_visible (sink_after K calls') = sink_visible (sink_after K calls)
      \<and> (s = SALTS_OK \<longrightarrow> rx_active rx' \<and> \<not> rx_completed rx' \<and> rx_identity rx' = sc_identity ch
           \<and> rx_configuration rx' = sc_configuration ch \<and> rx_next_offset rx' = 0 \<and> absorbed (rx_sha256 rx') = [])
      \<and> (s \<noteq> SALTS_OK \<longrightarrow> rx' = rx \<and> calls' = calls \<or> \<not> rx_active rx') \<and> (s = C_FAULT \<longrightarrow> (\<exists>h c. K h c = C_FAULT))"
proof -
  define buffered where "buffered = (\<not> rx_streaming rx \<and> sc_snapshot_size ch \<noteq> 0)"
  define data where "data = (if buffered then M (unat (sc_snapshot_size ch)) else None)"
  obtain rx1 calls1 where clear: "tr_snapshot_receiver_clear_transfer K rx calls = (rx1, calls1)" by fastforce
  note c = clear_inv [OF inv_linked [OF inv] clear]
  define rx2 where "rx2 = rx1\<lparr>rx_leader_id := sc_from ch, rx_leader_term := sc_term ch,
                  rx_snapshot_index := sc_snapshot_index ch, rx_snapshot_term := sc_snapshot_term ch,
                  rx_configuration := sc_configuration ch, rx_snapshot_size := sc_snapshot_size ch,
                  rx_digest := sc_snapshot_digest ch, rx_data := data, rx_active := True, rx_completed := False\<rparr>"
  let ?bad = "buffered \<and> sc_snapshot_size ch > rx_max_buffered_snapshot_bytes rx" and ?null = "buffered \<and> data = None"
  have eq1: "(if ?bad then (SALTS_EFBIG, rx, calls) else if ?null then (SALTS_ENOMEM, rx, calls)
      else receiver_begin H K rx2 calls1) = (s, rx', calls')"
    using eq [unfolded tr_snapshot_receiver_start_def Let_def clear prod.case, folded buffered_def, folded data_def,
        folded rx2_def] by simp
  show ?thesis
  proof (cases "?bad \<or> ?null")
    case True
    with eq1 inv show ?thesis by (auto split: if_splits)
  next
    case False
    then have b: "receiver_begin H K rx2 calls1 = (s, rx', calls')" using eq1 by auto
    have st: "rx_next_offset rx1 = 0" "\<not> rx_stream_started rx1" "rx_streaming rx1 = rx_streaming rx"
      using clear by (auto simp: tr_snapshot_receiver_clear_transfer_def)
    have link: "rx_linked K rx2 calls1" using inv_linked [OF c(1)] by (simp add: rx2_def rx_linked_def)
    have buf: "if rx_streaming rx2 \<or> rx_snapshot_size rx2 = 0 then rx_data rx2 = None
        else \<exists>block. rx_data rx2 = Some block \<and> length block = unat (rx_snapshot_size rx2)"
      using False alloc st(3) by (auto simp: rx2_def data_def buffered_def alloc_ok_def)
    have "\<not> rx_stream_started rx2" "rx_next_offset rx2 = 0" "rx_active rx2" "\<not> rx_completed rx2"
      using st by (simp_all add: rx2_def)
    note b = begin_spec [OF hash link this buf b]
    have "rx_identity rx2 = sc_identity ch" "rx_configuration rx2 = sc_configuration ch"
      by (simp_all add: rx2_def rx_identity_def sc_identity_def)
    with b c(2) show ?thesis by simp
  qed
qed

section \<open>Handling a chunk\<close>

lemma select_spec:
  assumes hash: "hash_contract H absorbed D" and alloc: "alloc_ok M" and inv: "rx_inv absorbed K rx calls"
    and eq: "receiver_select H M K rx ch out calls = (s, rx', out', calls')"
  shows "rx_inv absorbed K rx' calls' \<and> sink_visible (sink_after K calls') = sink_visible (sink_after K calls)
      \<and> (s = SALTS_OK \<longrightarrow> rx_active rx' \<and> rx_identity rx' = sc_identity ch \<and> out' = out
           \<and> (rx' = rx \<or> sc_snapshot_offset ch = 0 \<and> rx_configuration rx' = sc_configuration ch \<and> \<not> rx_completed rx'
                \<and> rx_next_offset rx' = 0 \<and> absorbed (rx_sha256 rx') = []))
      \<and> (s \<noteq> SALTS_OK \<longrightarrow> (rx' = rx \<or> \<not> rx_active rx') \<and> rr_installed out' = rr_installed out)
      \<and> (s = C_FAULT \<longrightarrow> (\<exists>h c. K h c = C_FAULT))"
proof -
  obtain s1 rx1 calls1 where st: "tr_snapshot_receiver_start H M K rx ch calls = (s1, rx1, calls1)" by (metis prod_cases3)
  note start = start_spec [OF hash alloc inv st]
  have run: ?thesis if "sc_snapshot_offset ch = 0" "s = s1" "rx' = rx1" "out' = out" "calls' = calls1"
    using that start by auto
  have kept: ?thesis if "s = SALTS_EPROTO" "rx' = rx" "rr_installed out' = rr_installed out" "calls' = calls"
    using that inv by auto
  let ?late = "sc_snapshot_offset ch \<noteq> 0 \<or> sc_snapshot_index ch \<le> rx_snapshot_index rx \<or> sc_term ch < rx_leader_term rx"
  show ?thesis
  proof (cases "rx_active rx")
    case False
    with eq st run kept show ?thesis
      by (cases "sc_snapshot_offset ch = 0") (simp_all add: receiver_select_def)
  next
    case active: True
    show ?thesis
    proof (cases "tr_snapshot_receiver_identity_matches rx ch")
      case True
      then have "rx_identity rx = sc_identity ch"
        by (simp add: tr_snapshot_receiver_identity_matches_def rx_identity_def sc_identity_def)
      moreover have "s = SALTS_OK" "rx' = rx" "out' = out" "calls' = calls"
        using eq active True by (simp_all add: receiver_select_def)
      ultimately show ?thesis using inv active by simp
    next
      case False
      show ?thesis
      proof (cases ?late)
        case True
        with eq active False show ?thesis by (intro kept) (auto simp: receiver_select_def)
      next
        case fresh: False
        with eq st active False show ?thesis by (intro run) (simp_all add: receiver_select_def)
      qed
    qed
  qed
qed

text \<open>Storing the bytes of the expected chunk.\<close>

lemma store_spec:
  assumes hash: "hash_contract H absorbed D" and inv: "rx_inv absorbed K rx calls" and act: "rx_active rx" "\<not> rx_completed rx"
    and len: "length (byte_list (sc_data ch)) = sc_data_length ch"
      "unat (rx_next_offset rx) + sc_data_length ch \<le> unat (rx_snapshot_size rx)"
    and eq: "receiver_store H K rx ch calls = (s, rx', calls')"
  defines "rx'' \<equiv> rx'\<lparr>rx_next_offset := rx_next_offset rx' + of_nat (sc_data_length ch)\<rparr>"
  shows "(s = SALTS_OK \<longrightarrow> rx_inv absorbed K rx'' calls' \<and> rx_identity rx'' = rx_identity rx
           \<and> rx_configuration rx'' = rx_configuration rx \<and> rx_active rx'' \<and> \<not> rx_completed rx''
           \<and> absorbed (rx_sha256 rx'') = absorbed (rx_sha256 rx) @ byte_list (sc_data ch)
           \<and> unat (rx_next_offset rx'') = unat (rx_next_offset rx) + sc_data_length ch)
      \<and> (s \<noteq> SALTS_OK \<longrightarrow> rx_inv absorbed K rx' calls' \<and> \<not> rx_active rx')
      \<and> sink_visible (sink_after K calls') = sink_visible (sink_after K calls)
      \<and> (s = C_FAULT \<longrightarrow> (\<exists>h c. K h c = C_FAULT))"
proof -
  let ?n = "sc_data_length ch" and ?xs = "byte_list (sc_data ch)" and ?off = "rx_next_offset rx"
  have off: "unat (?off + of_nat ?n) = unat ?off + ?n"
    using len(2) unat_plus_nat [of ?off ?n] unat_u64_less [of "rx_snapshot_size rx"] by simp
  have off_le: "?off + of_nat ?n \<le> rx_snapshot_size rx" using off len(2) by (simp add: u64_le_unat)
  have hold: "rx_holding absorbed K rx calls" and link: "rx_linked K rx calls" using inv act by (simp_all add: rx_inv_def)
  show ?thesis
  proof (cases "?n = 0")
    case True
    then have "s = SALTS_OK" "rx' = rx" "calls' = calls" "?xs = []" using eq len(1) by (simp_all add: receiver_store_def)
    moreover from this True have "rx'' = rx" by (simp add: rx''_def)
    ultimately show ?thesis using inv act True by simp
  next
    case nonempty: False
    obtain u h where u: "hash_update H (rx_sha256 rx) ?xs = (u, h)" by fastforce
    define rx1 where "rx1 = rx\<lparr>rx_sha256 := h\<rparr>"
    have link1: "rx_linked K rx1 calls" using link by (simp add: rx1_def rx_linked_def)
    show ?thesis
    proof (cases "u = SALTS_OK")
      case False
      then have e: "s = SALTS_EPROTO" "tr_snapshot_receiver_clear_transfer K rx1 calls = (rx', calls')"
        using eq nonempty u by (simp_all add: receiver_store_def rx1_def)
      from clear_inv [OF link1 e(2)] e(1) show ?thesis by auto
    next
      case True
      have h: "absorbed h = absorbed (rx_sha256 rx) @ ?xs" using hash_contractD(2) [OF hash] u True by simp
      have hl: "length (absorbed h) = unat ?off + ?n" using h hold len(1) by (simp add: rx_holding_def)
      show ?thesis
      proof (cases "rx_streaming rx")
        case stream: True
        define call where "call = Sink_write ?off ?xs"
        have open_img: "rx_stream_started rx" "sink_open (sink_after K calls) = Some (rx_image rx (absorbed (rx_sha256 rx)))"
          "\<not> sink_failed (sink_after K calls)" "rx_data rx = None" "\<not> sink_misused (sink_after K calls)"
          "length (absorbed (rx_sha256 rx)) = unat ?off"
          using hold link stream by (simp_all add: rx_holding_def rx_linked_def)
        have step: "sink_after K (calls @ [call]) = (if K calls call = SALTS_OK
            then (sink_after K calls)\<lparr>sink_open := Some (rx_image rx (absorbed h))\<rparr>
            else (sink_after K calls)\<lparr>sink_failed := True\<rparr>)"
          using open_img len h by (simp add: call_def rx_image_def)
        show ?thesis
        proof (cases "K calls call = SALTS_OK")
          case True
          then have "s = SALTS_OK" "rx' = rx1" "calls' = calls @ [call]"
            using eq nonempty u \<open>u = SALTS_OK\<close> open_img(1)
            by (simp_all add: receiver_store_def sink_do_def rx1_def call_def)
          moreover from this have "rx'' = rx1\<lparr>rx_next_offset := ?off + of_nat ?n\<rparr>" by (simp add: rx''_def rx1_def)
          ultimately show ?thesis using True step stream open_img h hl off off_le act
            by (simp add: rx_inv_def rx_linked_def rx_holding_def rx1_def rx_identity_def rx_image_def)
        next
          case False
          then have e: "s = K calls call" "tr_snapshot_receiver_clear_transfer K rx1 (calls @ [call]) = (rx', calls')"
            using eq nonempty u \<open>u = SALTS_OK\<close> open_img(1)
            by (simp_all add: receiver_store_def sink_do_def rx1_def call_def)
          have "rx_linked K rx1 (calls @ [call])"
            using False step open_img by (simp add: rx_linked_def rx1_def)
          from clear_inv [OF this e(2)] e(1) False step show ?thesis by auto
        qed
      next
        case buffered: False
        have "rx_snapshot_size rx \<noteq> 0" using nonempty len(2) by auto
        then obtain b where b: "rx_data rx = Some b" "length b = unat (rx_snapshot_size rx)"
          "take (unat ?off) b = absorbed (rx_sha256 rx)" "\<not> rx_stream_started rx"
          using hold buffered by (auto simp: rx_holding_def)
        have "s = SALTS_OK" "rx' = rx1\<lparr>rx_data := Some (block_write b (unat ?off) ?xs)\<rparr>" "calls' = calls"
          using eq nonempty u True b by (simp_all add: receiver_store_def rx1_def)
        moreover from this have "rx'' = rx1\<lparr>rx_data := Some (block_write b (unat ?off) ?xs),
            rx_next_offset := ?off + of_nat ?n\<rparr>" by (simp add: rx''_def rx1_def)
        moreover have "length (block_write b (unat ?off) ?xs) = unat (rx_snapshot_size rx)"
          using b(2) len by (simp add: length_block_write)
        moreover have "take (unat ?off + ?n) (block_write b (unat ?off) ?xs) = absorbed h"
          using take_block_write [of "unat ?off" ?xs b] b len h by simp
        ultimately show ?thesis using buffered b(4) h hl off off_le act link1 \<open>rx_snapshot_size rx \<noteq> 0\<close>
          by (simp add: rx_inv_def rx_holding_def rx1_def rx_identity_def rx_linked_def)
      qed
    qed
  qed
qed

text \<open>Verifying and installing the whole.\<close>

lemma finish_spec:
  assumes hash: "hash_contract H absorbed D" and inv: "rx_inv absorbed K rx calls" and act: "rx_active rx" "\<not> rx_completed rx"
    and full: "rx_next_offset rx = rx_snapshot_size rx" and out: "\<not> rr_installed out"
    and eq: "receiver_finish H K rx out calls = (s, rx', out', calls')"
  defines "xs \<equiv> absorbed (rx_sha256 rx)"
  shows "rx_inv absorbed K rx' calls'
      \<and> (s = SALTS_OK \<longrightarrow> out' = out\<lparr>rr_installed := True\<rparr> \<and> rx_active rx' \<and> rx_completed rx' \<and> rx_identity rx' = rx_identity rx
           \<and> rx_next_offset rx' = rx_next_offset rx \<and> rx_configuration rx' = rx_configuration rx
           \<and> sink_visible (sink_after K calls') = sink_visible (sink_after K calls) @ [rx_image rx xs]
           \<and> D xs = rx_digest rx \<and> length xs = unat (rx_snapshot_size rx))
      \<and> (s \<noteq> SALTS_OK \<longrightarrow> \<not> rr_installed out' \<and> \<not> sa_accepted (rr_ack out') \<and> \<not> rx_active rx'
           \<and> sink_visible (sink_after K calls') = sink_visible (sink_after K calls))
      \<and> (s = C_FAULT \<longrightarrow> (\<exists>h c. K h c = C_FAULT))"
proof -
  have hold: "rx_holding absorbed K rx calls" and link: "rx_linked K rx calls" using inv act by (simp_all add: rx_inv_def)
  have len: "length xs = unat (rx_snapshot_size rx)" using hold full by (simp add: rx_holding_def xs_def)
  obtain f d h where f: "hash_finish H (rx_sha256 rx) = (f, d, h)" by (metis prod_cases3)
  define rx1 where "rx1 = rx\<lparr>rx_sha256 := h\<rparr>"
  define bad where "bad = out\<lparr>rr_ack := (rr_ack out)\<lparr>sa_accepted := False, sa_next_offset := 0\<rparr>\<rparr>"
  have link1: "rx_linked K rx1 calls" using link by (simp add: rx1_def rx_linked_def)
  have dropped: ?thesis if "tr_snapshot_receiver_clear_transfer K rx1 calls1 = (rx', calls')" "rx_linked K rx1 calls1"
    "sink_visible (sink_after K calls1) = sink_visible (sink_after K calls)" "s \<noteq> SALTS_OK" "out' = bad"
    "s = C_FAULT \<longrightarrow> (\<exists>h c. K h c = C_FAULT)" for calls1
    using clear_inv [OF that(2,1)] that(3-6) out by (simp add: bad_def)
  show ?thesis
  proof (cases "f = SALTS_OK \<and> d = rx_digest rx")
    case False
    then have "s = SALTS_EPROTO" "tr_snapshot_receiver_clear_transfer K rx1 calls = (rx', calls')" "out' = bad"
      using eq f by (auto simp: receiver_finish_def rx1_def bad_def Let_def split: prod.splits)
    with link1 show ?thesis by (intro dropped) simp_all
  next
    case good: True
    then have D: "D xs = rx_digest rx" using hash_contractD(3) [OF hash] f by (simp add: xs_def)
    define call where "call = (if rx_stream_started rx then Sink_commit
        else Sink_install (rx_leader_term rx) (rx_snapshot_index rx) (rx_snapshot_term rx) (rx_configuration rx)
          (take (unat (rx_snapshot_size rx)) (case rx_data rx of None \<Rightarrow> [] | Some b \<Rightarrow> b)))"
    let ?k = "sink_after K calls"
    have step: "sink_after K (calls @ [call]) = (if K calls call = SALTS_OK
        then ?k\<lparr>sink_open := None, sink_visible := sink_visible ?k @ [rx_image rx xs]\<rparr>
        else if rx_streaming rx then ?k\<lparr>sink_failed := True\<rparr> else ?k)"
    proof (cases "rx_streaming rx")
      case True
      with hold link len show ?thesis by (simp add: rx_holding_def call_def xs_def rx_image_def)
    next
      case False
      then have "\<not> rx_stream_started rx" and o: "sink_open ?k = None" "\<not> sink_misused ?k"
        using hold link by (auto simp: rx_holding_def rx_linked_def)
      moreover have "take (unat (rx_snapshot_size rx)) (case rx_data rx of None \<Rightarrow> [] | Some b \<Rightarrow> b) = xs"
        using hold False full len by (auto simp: rx_holding_def xs_def split: if_splits)
      moreover have "?k\<lparr>sink_open := None\<rparr> = ?k" using o by (cases ?k) simp
      moreover have "rx_image rx xs = \<lparr>si_leader_term = rx_leader_term rx, si_index = rx_snapshot_index rx,
          si_term = rx_snapshot_term rx, si_configuration = rx_configuration rx, si_size = of_nat (length xs), si_data = xs\<rparr>"
        using len by (simp add: rx_image_def)
      ultimately show ?thesis using False o by (simp add: call_def)
    qed
    have call1: "(if rx_stream_started rx1 then Sink_commit
        else Sink_install (rx_leader_term rx1) (rx_snapshot_index rx1) (rx_snapshot_term rx1) (rx_configuration rx1)
          (take (unat (rx_snapshot_size rx1)) (case rx_data rx1 of None \<Rightarrow> [] | Some b \<Rightarrow> b))) = call"
      and dig: "rx_digest rx1 = rx_digest rx"
      by (simp_all add: call_def rx1_def)
    have eq1: "(if K calls call \<noteq> SALTS_OK
        then (case tr_snapshot_receiver_clear_transfer K rx1 (calls @ [call]) of (r, c) \<Rightarrow> (K calls call, r, bad, c))
        else (SALTS_OK, rx1\<lparr>rx_stream_started := False, rx_data := None, rx_completed := True\<rparr>,
              out\<lparr>rr_installed := True\<rparr>, calls @ [call])) = (s, rx', out', calls')"
      using eq [unfolded receiver_finish_def f prod.case Let_def sink_do_def, folded rx1_def, folded bad_def, unfolded call1]
        good dig by simp
    show ?thesis
    proof (cases "K calls call = SALTS_OK")
      case True
      with eq1 have "s = SALTS_OK" "rx' = rx1\<lparr>rx_stream_started := False, rx_data := None, rx_completed := True\<rparr>"
        "out' = out\<lparr>rr_installed := True\<rparr>" "calls' = calls @ [call]" by simp_all
      with True step link D len full act show ?thesis
        by (simp add: rx_inv_def rx_linked_def rx1_def rx_identity_def)
    next
      case False
      then have e: "tr_snapshot_receiver_clear_transfer K rx1 (calls @ [call]) = (rx', calls')" "s = K calls call" "out' = bad"
        using eq1 by (auto split: prod.splits)
      have "rx_linked K rx1 (calls @ [call])"
        using False step link by (simp add: rx_linked_def rx1_def)
      with e False step show ?thesis by (intro dropped [of "calls @ [call]"]) auto
    qed
  qed
qed

section \<open>One chunk\<close>

text \<open>The transfer a receiver works on, with the bytes it has; and how a chunk continues it.\<close>

definition rx_bytes ::
    "('h \<Rightarrow> u8 list) \<Rightarrow> 'h snapshot_receiver
       \<Rightarrow> ((node_id \<times> raft_term \<times> raft_index \<times> raft_term \<times> u64 \<times> digest) \<times> u8 list) option" where
  "rx_bytes absorbed rx =
     (if rx_active rx \<and> \<not> rx_completed rx then Some (rx_identity rx, absorbed (rx_sha256 rx)) else None)"

definition continues :: "('h \<Rightarrow> u8 list) \<Rightarrow> 'h snapshot_receiver \<Rightarrow> snapshot_chunk \<Rightarrow> u8 list \<Rightarrow> bool" where
  "continues absorbed rx ch xs \<longleftrightarrow>
     (\<exists>pre. xs = pre @ byte_list (sc_data ch) \<and> length pre = unat (sc_snapshot_offset ch)
        \<and> (pre = [] \<or> rx_bytes absorbed rx = Some (sc_identity ch, pre)))"

text \<open>The snapshot of a chunk and its bytes, for some configuration.\<close>

definition chunk_image :: "snapshot_chunk \<Rightarrow> conf \<Rightarrow> u8 list \<Rightarrow> snapshot_image" where
  "chunk_image ch c xs = \<lparr>si_leader_term = sc_term ch, si_index = sc_snapshot_index ch, si_term = sc_snapshot_term ch,
     si_configuration = c, si_size = sc_snapshot_size ch, si_data = xs\<rparr>"

text \<open>The outcome of a chunk.\<close>

definition chunk_handled ::
    "('h \<Rightarrow> u8 list) \<Rightarrow> (u8 list \<Rightarrow> digest) \<Rightarrow> sink_status \<Rightarrow> 'h snapshot_receiver \<Rightarrow> sink_call list \<Rightarrow> snapshot_chunk
       \<Rightarrow> salts_status \<Rightarrow> 'h snapshot_receiver \<Rightarrow> receive_result \<Rightarrow> sink_call list \<Rightarrow> bool" where
  "chunk_handled absorbed D K rx calls ch s rx' out calls' \<longleftrightarrow>
     rx_inv absorbed K rx' calls'
     \<and> (s = C_FAULT \<longrightarrow> (\<exists>h c. K h c = C_FAULT))
     \<and> (sa_accepted (rr_ack out) \<longleftrightarrow> s = SALTS_OK)
     \<and> (s = SALTS_OK \<longrightarrow> rx_active rx' \<and> rx_identity rx' = sc_identity ch
          \<and> sa_next_offset (rr_ack out) = rx_next_offset rx')
     \<and> (rx_bytes absorbed rx' = None \<or> rx_bytes absorbed rx' = rx_bytes absorbed rx
          \<or> (\<exists>xs. rx_bytes absorbed rx' = Some (sc_identity ch, xs) \<and> continues absorbed rx ch xs))
     \<and> (rx' = rx \<or> \<not> rx_active rx'
          \<or> rx_completed rx' = rr_installed out \<and> (\<not> rx_completed rx' \<longrightarrow> rx_next_offset rx' < rx_snapshot_size rx')
            \<and> (rx_active rx \<and> rx_configuration rx' = rx_configuration rx
               \<or> sc_snapshot_offset ch = 0 \<and> rx_configuration rx' = sc_configuration ch))
     \<and> (if rr_installed out
        then s = SALTS_OK \<and> rx_active rx' \<and> rx_completed rx'
          \<and> (\<exists>xs. sink_visible (sink_after K calls')
                   = sink_visible (sink_after K calls) @ [chunk_image ch (rx_configuration rx') xs]
               \<and> continues absorbed rx ch xs \<and> length xs = unat (sc_snapshot_size ch) \<and> D xs = sc_snapshot_digest ch)
        else sink_visible (sink_after K calls') = sink_visible (sink_after K calls))"

lemma valid_chunk_bytes:
  assumes "tr_snapshot_receiver_chunk_valid rx ch"
  shows "length (byte_list (sc_data ch)) = sc_data_length ch"
    and "unat (sc_snapshot_offset ch) + sc_data_length ch \<le> unat (sc_snapshot_size ch)"
    and "sc_done ch \<longleftrightarrow> unat (sc_snapshot_offset ch) + sc_data_length ch = unat (sc_snapshot_size ch)"
proof -
  let ?o = "sc_snapshot_offset ch" and ?n = "sc_data_length ch" and ?z = "sc_snapshot_size ch"
  have v: "\<not> (?n \<noteq> 0 \<and> byte_is_null (sc_data ch))" "?o \<le> ?z" "?n \<le> unat (?z - ?o)"
    "sc_done ch = (?o + of_nat ?n = ?z)"
    using assms by (auto simp: tr_snapshot_receiver_chunk_valid_def)
  show "length (byte_list (sc_data ch)) = ?n" using v(1) by (cases "sc_data ch") auto
  show le: "unat ?o + ?n \<le> unat ?z" using v(2,3) by (simp add: unat_minus_le u64_le_unat)
  then have "unat (?o + of_nat ?n) = unat ?o + ?n"
    using unat_plus_nat [of ?o ?n] unat_u64_less [of ?z] by simp
  then show "sc_done ch \<longleftrightarrow> unat ?o + ?n = unat ?z" using v(4) by (auto intro: u64_eqI)
qed

lemma accept_handled:
  assumes hash: "hash_contract H absorbed D" and inv: "rx_inv absorbed K rx1 calls1"
    and valid: "length (byte_list (sc_data ch)) = sc_data_length ch"
      "unat (sc_snapshot_offset ch) + sc_data_length ch \<le> unat (sc_snapshot_size ch)"
      "sc_done ch \<longleftrightarrow> unat (sc_snapshot_offset ch) + sc_data_length ch = unat (sc_snapshot_size ch)"
    and act: "rx_active rx1" "\<not> rx_completed rx1" and id: "rx_identity rx1 = sc_identity ch"
    and off: "sc_snapshot_offset ch = rx_next_offset rx1"
    and before: "absorbed (rx_sha256 rx1) = [] \<or> rx_bytes absorbed rx = Some (sc_identity ch, absorbed (rx_sha256 rx1))"
    and conf: "rx_active rx \<and> rx_configuration rx1 = rx_configuration rx
      \<or> sc_snapshot_offset ch = 0 \<and> rx_configuration rx1 = sc_configuration ch"
    and vis: "sink_visible (sink_after K calls1) = sink_visible (sink_after K calls)"
    and out: "\<not> rr_installed out" "\<not> sa_accepted (rr_ack out)"
  defines "answer \<equiv> \<lambda>r. out\<lparr>rr_ack := (rr_ack out)\<lparr>sa_next_offset := rx_next_offset r, sa_accepted := True\<rparr>\<rparr>"
  assumes eq: "(case receiver_store H K rx1 ch calls1 of
               (result, r, c) \<Rightarrow>
                 if result \<noteq> SALTS_OK then (result, r, out, c)
                 else let r = r\<lparr>rx_next_offset := rx_next_offset r + of_nat (sc_data_length ch)\<rparr>
                      in if \<not> sc_done ch then (SALTS_OK, r, answer r, c)
                         else receiver_finish H K r (answer r) c) = (s, rx', out', calls')"
  shows "chunk_handled absorbed D K rx calls ch s rx' out' calls'"
proof -
  obtain s2 r c where st: "receiver_store H K rx1 ch calls1 = (s2, r, c)" by (metis prod_cases3)
  have size: "rx_snapshot_size rx1 = sc_snapshot_size ch" "rx_digest rx1 = sc_snapshot_digest ch"
    using id by (simp_all add: rx_identity_def sc_identity_def)
  have "unat (rx_next_offset rx1) + sc_data_length ch \<le> unat (rx_snapshot_size rx1)" using valid(2) off size by simp
  note store = store_spec [OF hash inv act valid(1) this st]
  define r1 where "r1 = r\<lparr>rx_next_offset := rx_next_offset r + of_nat (sc_data_length ch)\<rparr>"
  have none: "rx_bytes absorbed x = None" if "\<not> rx_active x" for x using that by (simp add: rx_bytes_def)
  show ?thesis
  proof (cases "s2 = SALTS_OK")
    case False
    with eq st store vis out none show ?thesis by (simp add: chunk_handled_def)
  next
    case True
    have r1: "rx_inv absorbed K r1 c" "rx_identity r1 = sc_identity ch" "rx_active r1" "\<not> rx_completed r1"
      "absorbed (rx_sha256 r1) = absorbed (rx_sha256 rx1) @ byte_list (sc_data ch)"
      "unat (rx_next_offset r1) = unat (sc_snapshot_offset ch) + sc_data_length ch"
      "sink_visible (sink_after K c) = sink_visible (sink_after K calls)"
      "rx_configuration r1 = rx_configuration rx1"
      using store True id off vis by (auto simp: r1_def)
    have "length (absorbed (rx_sha256 rx1)) = unat (sc_snapshot_offset ch)"
      using inv act off by (simp add: rx_inv_def rx_holding_def)
    then have cont: "continues absorbed rx ch (absorbed (rx_sha256 r1))"
      using before r1(5) unfolding continues_def by blast
    have eq1: "(if \<not> sc_done ch then (SALTS_OK, r1, answer r1, c) else receiver_finish H K r1 (answer r1) c)
        = (s, rx', out', calls')"
      using eq [unfolded st prod.case Let_def, folded r1_def] True by simp
    show ?thesis
    proof (cases "sc_done ch")
      case False
      have "rx_snapshot_size r1 = sc_snapshot_size ch" using r1(2) by (simp add: rx_identity_def sc_identity_def)
      then have "rx_next_offset r1 < rx_snapshot_size r1" using False valid(2,3) r1(6) by (simp add: u64_less_unat)
      with False eq1 r1 cont out conf show ?thesis
        by (auto simp: chunk_handled_def answer_def rx_bytes_def)
    next
      case final: True
      have size1: "rx_snapshot_size r1 = sc_snapshot_size ch" "rx_digest r1 = sc_snapshot_digest ch"
        "rx_leader_term r1 = sc_term ch" "rx_snapshot_index r1 = sc_snapshot_index ch" "rx_snapshot_term r1 = sc_snapshot_term ch"
        using r1(2) by (simp_all add: rx_identity_def sc_identity_def)
      have "rx_next_offset r1 = rx_snapshot_size r1" using final valid(3) r1(6) size1(1) by (intro u64_eqI) simp
      moreover have "\<not> rr_installed (answer r1)" using out(1) by (simp add: answer_def)
      moreover have "receiver_finish H K r1 (answer r1) c = (s, rx', out', calls')" using eq1 final by simp
      ultimately have fin: "rx_inv absorbed K rx' calls'
        \<and> (s = SALTS_OK \<longrightarrow> out' = (answer r1)\<lparr>rr_installed := True\<rparr> \<and> rx_active rx' \<and> rx_completed rx'
             \<and> rx_identity rx' = rx_identity r1 \<and> rx_next_offset rx' = rx_next_offset r1
             \<and> rx_configuration rx' = rx_configuration r1
             \<and> sink_visible (sink_after K calls') = sink_visible (sink_after K c) @ [rx_image r1 (absorbed (rx_sha256 r1))]
             \<and> D (absorbed (rx_sha256 r1)) = rx_digest r1 \<and> length (absorbed (rx_sha256 r1)) = unat (rx_snapshot_size r1))
        \<and> (s \<noteq> SALTS_OK \<longrightarrow> \<not> rr_installed out' \<and> \<not> sa_accepted (rr_ack out') \<and> \<not> rx_active rx'
             \<and> sink_visible (sink_after K calls') = sink_visible (sink_after K c))
        \<and> (s = C_FAULT \<longrightarrow> (\<exists>h c. K h c = C_FAULT))"
        by (rule finish_spec [OF hash r1(1,3,4)])
      have img: "rx_image r1 xs = chunk_image ch (rx_configuration r1) xs" for xs
        by (simp add: rx_image_def chunk_image_def size1)
      show ?thesis
      proof (cases "s = SALTS_OK")
        case True
        with fin have "rx_bytes absorbed rx' = None" by (simp add: rx_bytes_def)
        with fin True r1(2,7,8) conf cont size1(1,2) img show ?thesis
          unfolding chunk_handled_def by (auto simp: answer_def)
      next
        case False
        with fin r1(7) none show ?thesis by (simp add: chunk_handled_def)
      qed
    qed
  qed
qed

lemma handle_spec:
  assumes hash: "hash_contract H absorbed D" and alloc: "alloc_ok M" and inv: "rx_inv absorbed K rx calls"
    and eq: "tr_raft_snapshot_receiver_handle H M K rx ch calls = (s, rx', out', calls')"
  shows "chunk_handled absorbed D K rx calls ch s rx' out' calls'"
proof -
  define out where "out = tr_snapshot_receiver_prepare_ack rx ch"
  have o: "\<not> rr_installed out" "\<not> sa_accepted (rr_ack out)"
    by (simp_all add: out_def tr_snapshot_receiver_prepare_ack_def)
  note eq1 = eq [unfolded tr_raft_snapshot_receiver_handle_def Let_def, folded out_def]
  show ?thesis
  proof (cases "tr_snapshot_receiver_chunk_valid rx ch")
    case False
    with eq1 inv o show ?thesis by (simp add: chunk_handled_def)
  next
    case valid: True
    obtain s1 rx1 out1 calls1 where sel: "receiver_select H M K rx ch out calls = (s1, rx1, out1, calls1)" by (metis prod_cases4)
    note select = select_spec [OF hash alloc inv sel]
    note eq2 = eq1 [unfolded sel prod.case]
    show ?thesis
    proof (cases "s1 = SALTS_OK")
      case False
      have "sa_accepted (rr_ack out1) = sa_accepted (rr_ack out)"
        using sel by (auto simp: receiver_select_def split: if_splits prod.splits)
      with False eq2 valid select o show ?thesis by (auto simp: chunk_handled_def rx_bytes_def)
    next
      case ok: True
      then have s: "rx_inv absorbed K rx1 calls1" "sink_visible (sink_after K calls1) = sink_visible (sink_after K calls)"
        "rx_active rx1" "rx_identity rx1 = sc_identity ch" "out1 = out"
        "rx1 = rx \<or> sc_snapshot_offset ch = 0 \<and> \<not> rx_completed rx1 \<and> rx_next_offset rx1 = 0 \<and> absorbed (rx_sha256 rx1) = []"
        "rx1 = rx \<or> sc_snapshot_offset ch = 0 \<and> rx_configuration rx1 = sc_configuration ch"
        using select by auto
      have kept: "rx1 = rx" if "rx_completed rx1 \<or> sc_snapshot_offset ch \<noteq> rx_next_offset rx1"
        using s(6) that by auto
      note eq3 = eq2 [unfolded ok s(5), simplified]
      have answered: ?thesis
        if "s = (if ok then SALTS_OK else SALTS_EPROTO)" "rx' = rx1" "calls' = calls1"
          "out' = out\<lparr>rr_ack := (rr_ack out)\<lparr>sa_next_offset := rx_next_offset rx1, sa_accepted := ok\<rparr>\<rparr>"
          "rx_completed rx1 \<or> sc_snapshot_offset ch \<noteq> rx_next_offset rx1" for ok
        using that(1-4) s(1-4) kept [OF that(5)] o by (simp add: chunk_handled_def)
      show ?thesis
      proof (cases "rx_completed rx1")
        case True
        with eq3 valid show ?thesis by (intro answered [of True]) auto
      next
        case incomplete: False
        consider (old) "sc_snapshot_offset ch < rx_next_offset rx1" 
          | (gap) "\<not> sc_snapshot_offset ch < rx_next_offset rx1" "sc_snapshot_offset ch \<noteq> rx_next_offset rx1" | (expected) "sc_snapshot_offset ch = rx_next_offset rx1" by blast
        then show ?thesis
        proof cases
          case old
          with eq3 valid incomplete show ?thesis by (intro answered [of True]) auto
        next
          case gap
          with eq3 valid incomplete show ?thesis by (intro answered [of False]) auto
        next
          case expected
          have "absorbed (rx_sha256 rx1) = [] \<or> rx_bytes absorbed rx = Some (sc_identity ch, absorbed (rx_sha256 rx1))"
            using s(3,4,6) incomplete by (auto simp: rx_bytes_def)
          moreover have "rx_active rx \<and> rx_configuration rx1 = rx_configuration rx
              \<or> sc_snapshot_offset ch = 0 \<and> rx_configuration rx1 = sc_configuration ch"
            using s(3,7) by auto
          ultimately show ?thesis
            by (rule accept_handled [OF hash s(1) valid_chunk_bytes [OF valid] s(3) incomplete s(4) expected _ _ s(2) o,
                  unfolded Let_def])
              (use eq3 valid incomplete expected in simp)
        qed
      qed
    qed
  qed
qed

end
