(* ===== verification/Raft_Snapshot_Sender.thy ===== *)
theory Raft_Snapshot_Sender
  imports Raft_Snapshot_Stream
begin

text \<open>
  The sending side of a snapshot transfer (\<open>src/snapshot/raft_snapshot_sender.c\<close>): it reads a source in
  chunks, keeps a bounded window of claimed chunks and moves its acknowledged offset with the answers
  of the receiver.
\<close>

section \<open>State\<close>

abbreviation (input) TR_RAFT_SNAPSHOT_MAX_INFLIGHT_CHUNKS :: nat where
  "TR_RAFT_SNAPSHOT_MAX_INFLIGHT_CHUNKS \<equiv> 4"

text \<open>A source: \<open>read_at\<close> takes an offset and a capacity and gives a status, the reported size and the bytes
  it wrote into the buffer.\<close>

record snapshot_source =
  src_size :: u64
  src_digest :: digest
  src_read_at :: "(u64 \<Rightarrow> nat \<Rightarrow> salts_status \<times> nat \<times> u8 list) option"
  src_release :: bool

definition source_zero :: snapshot_source where
  "source_zero = \<lparr>src_size = 0, src_digest = digest_zero, src_read_at = None, src_release = False\<rparr>"

record snapshot_claim =
  claim_offset :: u64
  claim_length :: nat
  claim_slot :: nat

record sender_config =
  sn_self_id :: node_id
  sn_peer_id :: node_id
  sn_max_snapshot_bytes :: u64
  sn_chunk_size :: nat
  sn_max_inflight_chunks :: nat

record snapshot_sender =
  tx_config :: sender_config
  tx_source :: snapshot_source
  tx_chunk_storage :: "u8 list"
  tx_size :: u64
  tx_chunk_size :: nat
  tx_max_inflight_chunks :: nat
  tx_digest :: digest
  tx_leader_term :: raft_term
  tx_snapshot_index :: raft_index
  tx_snapshot_term :: raft_term
  tx_configuration :: conf
  tx_acknowledged_offset :: u64
  tx_next_offset :: u64
  tx_claims :: "snapshot_claim list"
  tx_source_owned :: bool
  tx_active :: bool
  tx_complete :: bool

record sender_status =
  ss_active :: bool
  ss_complete :: bool
  ss_leader_term :: raft_term
  ss_snapshot_index :: raft_index
  ss_snapshot_term :: raft_term
  ss_snapshot_size :: u64
  ss_acknowledged_offset :: u64
  ss_next_offset :: u64
  ss_inflight_chunks :: nat
  ss_max_inflight_chunks :: nat

section \<open>Operations\<close>

text \<open>The memory source of \<open>tr_raft_snapshot_sender_begin\<close>.\<close>

definition tr_snapshot_memory_read_at :: "u8 list \<Rightarrow> u64 \<Rightarrow> nat \<Rightarrow> salts_status \<times> nat \<times> u8 list" where
  "tr_snapshot_memory_read_at data offset capacity =
     (if unat offset > length data \<or> capacity > length data - unat offset then (SALTS_EINVAL, 0, [])
      else (SALTS_OK, capacity, take capacity (drop (unat offset) data)))"

text \<open>Releasing the source: the releases are the effect outside the sender.\<close>

definition tr_raft_snapshot_sender_release_source ::
    "snapshot_sender \<Rightarrow> snapshot_source list \<Rightarrow> snapshot_sender \<times> snapshot_source list" where
  "tr_raft_snapshot_sender_release_source sender released =
     (sender\<lparr>tx_source := source_zero, tx_source_owned := False\<rparr>,
      if tx_source_owned sender \<and> src_release (tx_source sender) then released @ [tx_source sender] else released)"

definition tr_raft_snapshot_sender_clear_transfer ::
    "snapshot_sender \<Rightarrow> snapshot_source list \<Rightarrow> snapshot_sender \<times> snapshot_source list" where
  "tr_raft_snapshot_sender_clear_transfer sender released =
     (case tr_raft_snapshot_sender_release_source sender released of
        (sender, released) \<Rightarrow>
          (sender\<lparr>tx_size := 0, tx_digest := digest_zero, tx_leader_term := 0, tx_snapshot_index := 0,
                  tx_snapshot_term := 0, tx_configuration := conf_zero, tx_acknowledged_offset := 0,
                  tx_next_offset := 0, tx_claims := [], tx_active := False, tx_complete := False\<rparr>, released))"

definition tr_raft_snapshot_sender_slot_in_use :: "snapshot_sender \<Rightarrow> nat \<Rightarrow> bool" where
  "tr_raft_snapshot_sender_slot_in_use sender slot \<longleftrightarrow> list_ex (\<lambda>c. claim_slot c = slot) (tx_claims sender)"

definition tr_raft_snapshot_sender_find_free_slot :: "snapshot_sender \<Rightarrow> salts_status + nat" where
  "tr_raft_snapshot_sender_find_free_slot sender =
     (case find (\<lambda>slot. \<not> tr_raft_snapshot_sender_slot_in_use sender slot) [0..<tx_max_inflight_chunks sender] of
        None \<Rightarrow> Inl SALTS_EBUSY
      | Some slot \<Rightarrow> Inr slot)"

definition tr_raft_snapshot_sender_fill_chunk :: "snapshot_sender \<Rightarrow> snapshot_claim \<Rightarrow> snapshot_chunk" where
  "tr_raft_snapshot_sender_fill_chunk sender claim =
     \<lparr>sc_from = sn_self_id (tx_config sender), sc_to = sn_peer_id (tx_config sender), sc_term = tx_leader_term sender,
      sc_snapshot_index = tx_snapshot_index sender, sc_snapshot_term = tx_snapshot_term sender,
      sc_snapshot_offset = claim_offset claim, sc_snapshot_size = tx_size sender,
      sc_snapshot_digest = tx_digest sender,
      sc_has_configuration = (claim_offset claim = 0),
      sc_configuration = (if claim_offset claim = 0 then tx_configuration sender else conf_zero),
      sc_data = (if claim_length claim = 0 then Byte_null 0
                 else Byte_array (take (claim_length claim)
                        (drop (claim_slot claim * tx_chunk_size sender) (tx_chunk_storage sender)))),
      sc_done = (claim_offset claim + of_nat (claim_length claim) = tx_size sender)\<rparr>"

definition tr_raft_snapshot_sender_create ::
    "heap_alloc \<Rightarrow> bool \<Rightarrow> sender_config \<Rightarrow> salts_status + snapshot_sender" where
  "tr_raft_snapshot_sender_create M calloc_ok config =
     (let chunk_size = sn_chunk_size config;
          inflight = sn_max_inflight_chunks config
      in if sn_self_id config = 0 \<or> sn_peer_id config = 0 \<or> sn_self_id config = sn_peer_id config
            \<or> sn_max_snapshot_bytes config = 0
         then Inl SALTS_EINVAL
         else if chunk_size = 0 \<or> chunk_size > TR_RAFT_WIRE_MAX_SNAPSHOT_CHUNK_BYTES \<or> inflight = 0
                 \<or> inflight > TR_RAFT_SNAPSHOT_MAX_INFLIGHT_CHUNKS
                 \<or> chunk_size > (2 ^ 64 - 1) div inflight
         then Inl SALTS_EINVAL
         else if \<not> calloc_ok then Inl SALTS_ENOMEM
         else case M (chunk_size * inflight) of
           None \<Rightarrow> Inl SALTS_ENOMEM
         | Some storage \<Rightarrow>
             Inr \<lparr>tx_config = config, tx_source = source_zero, tx_chunk_storage = storage, tx_size = 0,
                  tx_chunk_size = chunk_size, tx_max_inflight_chunks = inflight, tx_digest = digest_zero,
                  tx_leader_term = 0, tx_snapshot_index = 0, tx_snapshot_term = 0, tx_configuration = conf_zero,
                  tx_acknowledged_offset = 0, tx_next_offset = 0, tx_claims = [], tx_source_owned = False,
                  tx_active = False, tx_complete = False\<rparr>)"

definition tr_raft_snapshot_sender_reset ::
    "snapshot_sender \<Rightarrow> snapshot_source list \<Rightarrow> snapshot_sender \<times> snapshot_source list" where
  "tr_raft_snapshot_sender_reset sender released = tr_raft_snapshot_sender_clear_transfer sender released"

text \<open>\<open>tr_raft_snapshot_sender_destroy\<close>: the sources it releases.\<close>

definition tr_raft_snapshot_sender_destroy ::
    "snapshot_sender \<Rightarrow> snapshot_source list \<Rightarrow> snapshot_source list" where
  "tr_raft_snapshot_sender_destroy sender released = snd (tr_raft_snapshot_sender_clear_transfer sender released)"

definition tr_raft_snapshot_sender_begin_source ::
    "snapshot_sender \<Rightarrow> raft_term \<Rightarrow> raft_index \<Rightarrow> raft_term \<Rightarrow> conf \<Rightarrow> snapshot_source \<Rightarrow> snapshot_source list
       \<Rightarrow> salts_status \<times> snapshot_sender \<times> snapshot_source list" where
  "tr_raft_snapshot_sender_begin_source sender leader_term snapshot_index snapshot_term configuration source released =
     (if src_read_at source = None \<or> tr_raft_conf_validate configuration \<noteq> SALTS_OK
         \<or> leader_term = 0 \<or> snapshot_index = 0 \<or> snapshot_term = 0 \<or> snapshot_term > leader_term
         \<or> src_size source > sn_max_snapshot_bytes (tx_config sender)
      then (SALTS_EINVAL, sender, released)
      else if tx_active sender \<and> \<not> tx_complete sender then (SALTS_EBUSY, sender, released)
      else case tr_raft_snapshot_sender_clear_transfer sender released of
        (sender, released) \<Rightarrow>
          (SALTS_OK,
           sender\<lparr>tx_source := source, tx_source_owned := True, tx_size := src_size source,
                  tx_digest := src_digest source, tx_leader_term := leader_term, tx_snapshot_index := snapshot_index,
                  tx_snapshot_term := snapshot_term, tx_configuration := configuration, tx_active := True\<rparr>,
           released))"

text \<open>The copying variant. \<open>sha256\<close> is the digest function of the crypto library with its status;
  \<open>memory_ok\<close> says whether the two allocations succeed.\<close>

definition tr_raft_snapshot_sender_begin ::
    "(u8 list \<Rightarrow> salts_status \<times> digest) \<Rightarrow> bool \<Rightarrow> snapshot_sender \<Rightarrow> raft_term \<Rightarrow> raft_index \<Rightarrow> raft_term \<Rightarrow> conf
       \<Rightarrow> byte_array \<Rightarrow> snapshot_source list \<Rightarrow> salts_status \<times> snapshot_sender \<times> snapshot_source list" where
  "tr_raft_snapshot_sender_begin sha256 memory_ok sender leader_term snapshot_index snapshot_term configuration data released =
     (if byte_count data > unat (sn_max_snapshot_bytes (tx_config sender))
         \<or> (byte_count data > 0 \<and> byte_is_null data)
      then (SALTS_EINVAL, sender, released)
      else if \<not> memory_ok then (SALTS_ENOMEM, sender, released)
      else case sha256 (byte_list data) of
        (result, digest) \<Rightarrow>
          if result \<noteq> SALTS_OK then (result, sender, released)
          else let source = \<lparr>src_size = of_nat (byte_count data), src_digest = digest,
                             src_read_at = Some (tr_snapshot_memory_read_at (byte_list data)), src_release = True\<rparr>
               in case tr_raft_snapshot_sender_begin_source sender leader_term snapshot_index snapshot_term
                         configuration source released of
                    (result, sender, released) \<Rightarrow>
                      (result, sender, if result \<noteq> SALTS_OK then released @ [source] else released))"

text \<open>The part of \<open>tr_raft_snapshot_sender_next_chunk\<close> that reads a new chunk into a free slot.\<close>

definition next_chunk_claim :: "snapshot_sender \<Rightarrow> salts_status \<times> snapshot_sender \<times> snapshot_chunk option" where
  "next_chunk_claim sender =
     (let remaining = tx_size sender - tx_next_offset sender;
          n = (if unat remaining < tx_chunk_size sender then unat remaining else tx_chunk_size sender)
      in case tr_raft_snapshot_sender_find_free_slot sender of
           Inl result \<Rightarrow> (result, sender, None)
         | Inr slot \<Rightarrow>
             case (if n \<noteq> 0
                   then case src_read_at (tx_source sender) of
                          None \<Rightarrow> (C_FAULT, 0, [])
                        | Some read_at \<Rightarrow> read_at (tx_next_offset sender) n
                   else (SALTS_OK, 0, [])) of
               (result, read_size, bytes) \<Rightarrow>
                 let sender = sender\<lparr>tx_chunk_storage :=
                       block_write (tx_chunk_storage sender) (slot * tx_chunk_size sender) bytes\<rparr>
                 in if result \<noteq> SALTS_OK then (result, sender, None)
                    else if n \<noteq> 0 \<and> read_size \<noteq> n then (SALTS_EPROTO, sender, None)
                    else let claim = \<lparr>claim_offset = tx_next_offset sender, claim_length = n, claim_slot = slot\<rparr>;
                             sender = sender\<lparr>tx_claims := tx_claims sender @ [claim],
                                             tx_next_offset := tx_next_offset sender + of_nat n\<rparr>
                         in (SALTS_OK, sender, Some (tr_raft_snapshot_sender_fill_chunk sender claim)))"

definition tr_raft_snapshot_sender_next_chunk ::
    "snapshot_sender \<Rightarrow> salts_status \<times> snapshot_sender \<times> snapshot_chunk option" where
  "tr_raft_snapshot_sender_next_chunk sender =
     (if \<not> tx_active sender \<or> tx_complete sender then (SALTS_EBUSY, sender, None)
      else if length (tx_claims sender) \<ge> tx_max_inflight_chunks sender
      then if tx_max_inflight_chunks sender \<noteq> 1 then (SALTS_EBUSY, sender, None)
           else (SALTS_OK, sender, Some (tr_raft_snapshot_sender_fill_chunk sender (hd (tx_claims sender))))
      else if tx_next_offset sender = tx_size sender \<and> tx_claims sender \<noteq> [] then (SALTS_EBUSY, sender, None)
      else next_chunk_claim sender)"

definition tr_raft_snapshot_sender_cancel_chunk :: "snapshot_sender \<Rightarrow> u64 \<Rightarrow> salts_status \<times> snapshot_sender" where
  "tr_raft_snapshot_sender_cancel_chunk sender snapshot_offset =
     (if tx_claims sender = [] then (SALTS_EINVAL, sender)
      else let claim = last (tx_claims sender)
           in if claim_offset claim \<noteq> snapshot_offset then (SALTS_EPROTO, sender)
              else (SALTS_OK, sender\<lparr>tx_next_offset := claim_offset claim, tx_claims := butlast (tx_claims sender)\<rparr>))"

definition tr_raft_snapshot_sender_prepare_resume :: "snapshot_sender \<Rightarrow> salts_status \<times> snapshot_sender" where
  "tr_raft_snapshot_sender_prepare_resume sender =
     (if \<not> tx_active sender \<or> tx_complete sender then (SALTS_EBUSY, sender)
      else (SALTS_OK, sender\<lparr>tx_next_offset := tx_acknowledged_offset sender, tx_claims := []\<rparr>))"

definition claim_end :: "snapshot_claim \<Rightarrow> u64" where
  "claim_end c = claim_offset c + of_nat (claim_length c)"

definition ack_foreign :: "snapshot_sender \<Rightarrow> snapshot_ack \<Rightarrow> bool" where
  "ack_foreign sender ack \<longleftrightarrow>
     sa_from ack \<noteq> sn_peer_id (tx_config sender) \<or> sa_to ack \<noteq> sn_self_id (tx_config sender)
     \<or> sa_term ack \<noteq> tx_leader_term sender \<or> sa_snapshot_index ack \<noteq> tx_snapshot_index sender
     \<or> sa_snapshot_size ack \<noteq> tx_size sender \<or> sa_snapshot_digest ack \<noteq> tx_digest sender"

definition tr_raft_snapshot_sender_acknowledge ::
    "snapshot_sender \<Rightarrow> snapshot_ack \<Rightarrow> snapshot_source list \<Rightarrow> salts_status \<times> snapshot_sender \<times> snapshot_source list" where
  "tr_raft_snapshot_sender_acknowledge sender ack released =
     (let next_offset = sa_next_offset ack
      in if \<not> tx_active sender then (SALTS_EBUSY, sender, released)
         else if ack_foreign sender ack then (SALTS_EPROTO, sender, released)
         else if tx_complete sender
         then (if sa_accepted ack \<and> next_offset = tx_size sender then SALTS_OK else SALTS_EPROTO, sender, released)
         else if next_offset > tx_next_offset sender
                 \<or> (next_offset \<noteq> tx_size sender \<and> unat next_offset mod tx_chunk_size sender \<noteq> 0)
         then (SALTS_EPROTO, sender, released)
         else if \<not> sa_accepted ack
         then if next_offset > tx_acknowledged_offset sender then (SALTS_EPROTO, sender, released)
              else (SALTS_OK,
                    sender\<lparr>tx_acknowledged_offset := next_offset, tx_next_offset := next_offset, tx_claims := []\<rparr>,
                    released)
         else if next_offset < tx_acknowledged_offset sender then (SALTS_EPROTO, sender, released)
         else if \<not> (next_offset = tx_acknowledged_offset sender
                    \<or> list_ex (\<lambda>c. claim_end c = next_offset) (tx_claims sender))
         then (SALTS_EPROTO, sender, released)
         else let sender = sender\<lparr>tx_acknowledged_offset := next_offset,
                                  tx_claims := dropWhile (\<lambda>c. claim_end c \<le> next_offset) (tx_claims sender),
                                  tx_complete := (next_offset = tx_size sender)\<rparr>
              in if tx_complete sender
                 then case tr_raft_snapshot_sender_release_source sender released of
                        (sender, released) \<Rightarrow> (SALTS_OK, sender, released)
                 else (SALTS_OK, sender, released))"

definition tr_raft_snapshot_sender_get_status :: "snapshot_sender \<Rightarrow> sender_status" where
  "tr_raft_snapshot_sender_get_status sender =
     \<lparr>ss_active = tx_active sender, ss_complete = tx_complete sender, ss_leader_term = tx_leader_term sender,
      ss_snapshot_index = tx_snapshot_index sender, ss_snapshot_term = tx_snapshot_term sender,
      ss_snapshot_size = tx_size sender, ss_acknowledged_offset = tx_acknowledged_offset sender,
      ss_next_offset = tx_next_offset sender, ss_inflight_chunks = length (tx_claims sender),
      ss_max_inflight_chunks = tx_max_inflight_chunks sender\<rparr>"

section \<open>The source\<close>

text \<open>What is relied on: a source with contents \<open>xs\<close> reads every range inside them.\<close>

definition source_reads :: "snapshot_source \<Rightarrow> u8 list \<Rightarrow> bool" where
  "source_reads source xs \<longleftrightarrow>
     length xs < 2 ^ 64 \<and> src_size source = of_nat (length xs)
     \<and> (\<exists>f. src_read_at source = Some f
          \<and> (\<forall>off n. unat off + n \<le> length xs \<longrightarrow> f off n = (SALTS_OK, n, take n (drop (unat off) xs))))"

lemma unat_source_size: "source_reads source xs \<Longrightarrow> unat (src_size source) = length xs"
  using unat_plus_nat [of 0 "length xs"] by (simp add: source_reads_def)

lemma memory_source_reads:
  "length xs < 2 ^ 64 \<Longrightarrow> source_reads \<lparr>src_size = of_nat (length xs), src_digest = d,
     src_read_at = Some (tr_snapshot_memory_read_at xs), src_release = r\<rparr> xs"
  by (auto simp: source_reads_def tr_snapshot_memory_read_at_def)

section \<open>The invariant\<close>

text \<open>The claims cover the bytes between two offsets without gap.\<close>

fun claims_cover :: "nat \<Rightarrow> snapshot_claim list \<Rightarrow> nat \<Rightarrow> bool" where
  "claims_cover a [] b \<longleftrightarrow> a = b"
| "claims_cover a (c # cs) b \<longleftrightarrow> unat (claim_offset c) = a \<and> claims_cover (a + claim_length c) cs b"

lemma claims_cover_append:
  "claims_cover a (cs @ [c]) b \<longleftrightarrow> claims_cover a cs (unat (claim_offset c)) \<and> unat (claim_offset c) + claim_length c = b"
  by (induction cs arbitrary: a) auto

lemma claims_cover_le: "claims_cover a cs b \<Longrightarrow> a \<le> b"
  by (induction cs arbitrary: a) fastforce+

text \<open>The size of the chunk at an offset.\<close>

definition chunk_length :: "snapshot_sender \<Rightarrow> u64 \<Rightarrow> nat" where
  "chunk_length tx off = min (tx_chunk_size tx) (unat (tx_size tx) - unat off)"

definition slot_bytes :: "snapshot_sender \<Rightarrow> nat \<Rightarrow> nat \<Rightarrow> u8 list" where
  "slot_bytes tx slot n = take n (drop (slot * tx_chunk_size tx) (tx_chunk_storage tx))"

definition claim_ok :: "snapshot_sender \<Rightarrow> u8 list \<Rightarrow> snapshot_claim \<Rightarrow> bool" where
  "claim_ok tx xs c \<longleftrightarrow>
     claim_slot c < tx_max_inflight_chunks tx \<and> claim_length c = chunk_length tx (claim_offset c)
     \<and> unat (claim_offset c) mod tx_chunk_size tx = 0
     \<and> unat (claim_offset c) + claim_length c \<le> unat (tx_size tx)
     \<and> slot_bytes tx (claim_slot c) (claim_length c) = take (claim_length c) (drop (unat (claim_offset c)) xs)"

definition tx_limits :: "snapshot_sender \<Rightarrow> bool" where
  "tx_limits tx \<longleftrightarrow>
     0 < tx_chunk_size tx \<and> tx_chunk_size tx \<le> 65536 \<and> 0 < tx_max_inflight_chunks tx
     \<and> length (tx_chunk_storage tx) = tx_chunk_size tx * tx_max_inflight_chunks tx
     \<and> sn_self_id (tx_config tx) \<noteq> 0 \<and> sn_peer_id (tx_config tx) \<noteq> 0"

definition tx_sending :: "snapshot_sender \<Rightarrow> u8 list \<Rightarrow> bool" where
  "tx_sending tx xs \<longleftrightarrow>
     tx_source_owned tx \<and> source_reads (tx_source tx) xs \<and> tx_size tx = src_size (tx_source tx)
     \<and> claims_cover (unat (tx_acknowledged_offset tx)) (tx_claims tx) (unat (tx_next_offset tx))
     \<and> unat (tx_acknowledged_offset tx) mod tx_chunk_size tx = 0
     \<and> tx_next_offset tx \<le> tx_size tx
     \<and> (tx_size tx \<noteq> 0 \<longrightarrow> tx_acknowledged_offset tx < tx_size tx)
     \<and> list_all (claim_ok tx xs) (tx_claims tx) \<and> distinct (map claim_slot (tx_claims tx))
     \<and> length (tx_claims tx) \<le> tx_max_inflight_chunks tx
     \<and> (tx_size tx = 0 \<longrightarrow> length (tx_claims tx) \<le> 1)"

definition tx_inv :: "snapshot_sender \<Rightarrow> u8 list \<Rightarrow> bool" where
  "tx_inv tx xs \<longleftrightarrow>
     tx_limits tx \<and> (tx_complete tx \<longrightarrow> tx_active tx)
     \<and> (if tx_active tx \<and> \<not> tx_complete tx then tx_sending tx xs else \<not> tx_source_owned tx \<and> tx_claims tx = [])"

text \<open>Offsets of claims are multiples of the chunk size, or the end.\<close>

lemma next_offset_aligned:
  assumes "tx_sending tx xs" and "tx_limits tx" and "tx_next_offset tx \<noteq> tx_size tx"
  shows "unat (tx_next_offset tx) mod tx_chunk_size tx = 0"
proof (cases "tx_claims tx" rule: rev_cases)
  case Nil
  with assms(1) show ?thesis by (auto simp: tx_sending_def)
next
  case (snoc cs c)
  have c: "claim_ok tx xs c" and e: "unat (claim_offset c) + claim_length c = unat (tx_next_offset tx)"
    using assms(1) snoc by (auto simp: tx_sending_def claims_cover_append)
  have "unat (tx_next_offset tx) < unat (tx_size tx)"
    using assms(1,3) by (auto simp: tx_sending_def u64_le_unat le_less word_unat_eq_iff)
  then have "claim_length c = tx_chunk_size tx" using c e by (auto simp: claim_ok_def chunk_length_def)
  with c e show ?thesis by (auto simp: claim_ok_def mod_add_self2 dest: sym)
qed

section \<open>Claiming a chunk\<close>

text \<open>The chunk of the contents at an offset.\<close>

definition source_chunk :: "snapshot_sender \<Rightarrow> u8 list \<Rightarrow> u64 \<Rightarrow> snapshot_chunk" where
  "source_chunk tx xs off =
     (let n = chunk_length tx off in
      \<lparr>sc_from = sn_self_id (tx_config tx), sc_to = sn_peer_id (tx_config tx), sc_term = tx_leader_term tx,
       sc_snapshot_index = tx_snapshot_index tx, sc_snapshot_term = tx_snapshot_term tx,
       sc_snapshot_offset = off, sc_snapshot_size = tx_size tx, sc_snapshot_digest = tx_digest tx,
       sc_has_configuration = (off = 0), sc_configuration = (if off = 0 then tx_configuration tx else conf_zero),
       sc_data = (if n = 0 then Byte_null 0 else Byte_array (take n (drop (unat off) xs))),
       sc_done = (unat off + n = unat (tx_size tx))\<rparr>)"

lemma fill_chunk_claim:
  assumes "claim_ok tx xs c"
  shows "tr_raft_snapshot_sender_fill_chunk tx c = source_chunk tx xs (claim_offset c)"
proof -
  let ?o = "claim_offset c" and ?n = "claim_length c"
  have le: "unat ?o + ?n \<le> unat (tx_size tx)" and n: "?n = chunk_length tx ?o"
    and b: "take ?n (drop (claim_slot c * tx_chunk_size tx) (tx_chunk_storage tx)) = take ?n (drop (unat ?o) xs)"
    using assms by (auto simp: claim_ok_def slot_bytes_def)
  have "unat (?o + of_nat ?n) = unat ?o + ?n"
    using le unat_plus_nat [of ?o ?n] unat_u64_less [of "tx_size tx"] by simp
  then have "(?o + of_nat ?n = tx_size tx) = (unat ?o + ?n = unat (tx_size tx))" by (auto intro: u64_eqI)
  with n b show ?thesis by (simp add: tr_raft_snapshot_sender_fill_chunk_def source_chunk_def Let_def)
qed

lemma find_free_slot:
  assumes "length (tx_claims tx) < tx_max_inflight_chunks tx"
  obtains slot where "tr_raft_snapshot_sender_find_free_slot tx = Inr slot" "slot < tx_max_inflight_chunks tx"
    "slot \<notin> set (map claim_slot (tx_claims tx))"
proof -
  let ?n = "tx_max_inflight_chunks tx" and ?used = "set (map claim_slot (tx_claims tx))"
  have "card ?used < ?n" using assms card_length [of "map claim_slot (tx_claims tx)"] by simp
  then have "\<not> {0..<?n} \<subseteq> ?used" using card_mono [of ?used "{0..<?n}"] by auto
  then have "find (\<lambda>slot. \<not> tr_raft_snapshot_sender_slot_in_use tx slot) [0..<?n] \<noteq> None"
    by (auto simp: find_None_iff tr_raft_snapshot_sender_slot_in_use_def list_ex_iff)
  then obtain slot where f: "find (\<lambda>slot. \<not> tr_raft_snapshot_sender_slot_in_use tx slot) [0..<?n] = Some slot" by auto
  then have "slot < ?n" "\<not> tr_raft_snapshot_sender_slot_in_use tx slot"
    by (auto simp: find_Some_iff)
  with f show thesis
    by (intro that [of slot])
      (auto simp: tr_raft_snapshot_sender_find_free_slot_def tr_raft_snapshot_sender_slot_in_use_def list_ex_iff)
qed

lemma slot_region:
  assumes "slot < m" and "n \<le> (c :: nat)"
  shows "slot * c + n \<le> c * m"
proof -
  have "Suc slot * c \<le> m * c" using assms(1) by (intro mult_le_mono1) simp
  then show ?thesis using assms(2) by (simp add: mult.commute)
qed

lemma block_write_same:
  "offset + length xs \<le> length block \<Longrightarrow> take (length xs) (drop offset (block_write block offset xs)) = xs"
  by (simp add: block_write_def)

lemma block_write_other:
  assumes "offset + length xs \<le> length block" and "a + n \<le> offset \<or> offset + length xs \<le> a"
  shows "take n (drop a (block_write block offset xs)) = take n (drop a block)"
proof (cases "a + n \<le> offset")
  case True
  then have "take n (drop a (take offset block @ xs @ drop (offset + length xs) block)) = take n (drop a (take offset block))"
    using assms(1) by (simp add: take_drop)
  with True show ?thesis by (simp add: block_write_def take_drop min_def)
next
  case False
  with assms have le: "offset + length xs \<le> a" by simp
  then obtain k where k: "a = offset + length xs + k" using le_iff_add by blast
  with assms(1) show ?thesis by (simp add: block_write_def ac_simps)
qed

lemma slot_bytes_write:
  assumes "tx_limits tx" and "slot < tx_max_inflight_chunks tx" and "other < tx_max_inflight_chunks tx"
    and "length bytes \<le> tx_chunk_size tx" and "n \<le> tx_chunk_size tx"
  defines "tx' \<equiv> tx\<lparr>tx_chunk_storage := block_write (tx_chunk_storage tx) (slot * tx_chunk_size tx) bytes\<rparr>"
  shows "other \<noteq> slot \<Longrightarrow> slot_bytes tx' other n = slot_bytes tx other n"
    and "slot_bytes tx' slot (length bytes) = bytes" and "tx_limits tx'"
proof -
  let ?c = "tx_chunk_size tx"
  have len: "slot * ?c + length bytes \<le> length (tx_chunk_storage tx)"
    using assms(1,2,4) slot_region [of slot "tx_max_inflight_chunks tx" "length bytes" ?c] by (simp add: tx_limits_def)
  show "slot_bytes tx' slot (length bytes) = bytes" using block_write_same [OF len] by (simp add: slot_bytes_def tx'_def)
  show "tx_limits tx'" using assms(1) len by (simp add: tx_limits_def tx'_def)
  show "slot_bytes tx' other n = slot_bytes tx other n" if "other \<noteq> slot"
  proof -
    have "other * ?c + n \<le> slot * ?c \<or> slot * ?c + length bytes \<le> other * ?c"
      using that slot_region [of other slot n ?c] slot_region [of slot other "length bytes" ?c] assms(4,5)
      by (cases "other < slot") (auto simp: mult.commute)
    from block_write_other [OF len this] show ?thesis by (simp add: slot_bytes_def tx'_def)
  qed
qed

text \<open>A successful claim gives the chunk of the contents at the next offset.\<close>

lemma claim_spec:
  assumes lim: "tx_limits tx" and snd: "tx_sending tx xs" and free: "length (tx_claims tx) < tx_max_inflight_chunks tx"
    and more: "tx_next_offset tx \<noteq> tx_size tx \<or> tx_claims tx = []"
  obtains tx' where "next_chunk_claim tx = (SALTS_OK, tx', Some (source_chunk tx xs (tx_next_offset tx)))"
    and "tx_limits tx'" and "tx_sending tx' xs"
    and "\<exists>storage cs nxt. tx' = tx\<lparr>tx_chunk_storage := storage, tx_claims := cs, tx_next_offset := nxt\<rparr>"
    and "length (tx_claims tx') = Suc (length (tx_claims tx))"
    and "unat (tx_next_offset tx') = unat (tx_next_offset tx) + chunk_length tx (tx_next_offset tx)"
proof -
  let ?o = "tx_next_offset tx" and ?n = "chunk_length tx (tx_next_offset tx)"
  have reads: "source_reads (tx_source tx) xs" and size: "unat (tx_size tx) = length xs" and le: "?o \<le> tx_size tx"
    using snd unat_source_size by (auto simp: tx_sending_def)
  have ole: "unat ?o \<le> length xs" using le size by (simp add: u64_le_unat)
  have n: "(if unat (tx_size tx - ?o) < tx_chunk_size tx then unat (tx_size tx - ?o) else tx_chunk_size tx) = ?n"
    using le by (simp add: chunk_length_def unat_minus_le min_def)
  have on: "unat ?o + ?n \<le> length xs" using ole size by (simp add: chunk_length_def)
  obtain slot where slot: "tr_raft_snapshot_sender_find_free_slot tx = Inr slot" "slot < tx_max_inflight_chunks tx"
    "slot \<notin> set (map claim_slot (tx_claims tx))" by (rule find_free_slot [OF free])
  define bytes where "bytes = take ?n (drop (unat ?o) xs)"
  have lb: "length bytes = ?n" using on by (simp add: bytes_def)
  have read: "(if ?n \<noteq> 0 then case src_read_at (tx_source tx) of None \<Rightarrow> (C_FAULT, 0, [])
        | Some read_at \<Rightarrow> read_at ?o ?n else (SALTS_OK, 0, [])) = (SALTS_OK, ?n, bytes)"
    using reads on by (auto simp: source_reads_def bytes_def)
  define tx1 where "tx1 = tx\<lparr>tx_chunk_storage := block_write (tx_chunk_storage tx) (slot * tx_chunk_size tx) bytes\<rparr>"
  define c where "c = \<lparr>claim_offset = ?o, claim_length = ?n, claim_slot = slot\<rparr>"
  define tx2 where "tx2 = tx1\<lparr>tx_claims := tx_claims tx @ [c], tx_next_offset := ?o + of_nat ?n\<rparr>"
  have nc: "?n \<le> tx_chunk_size tx" by (simp add: chunk_length_def)
  note w = slot_bytes_write [OF lim slot(2) _ _ nc, of _ bytes, folded tx1_def, unfolded lb, OF _ nc]
  have lim1: "tx_limits tx1" using slot_bytes_write(3) [OF lim slot(2) slot(2) _ nc, of bytes] lb nc by (simp add: tx1_def)
  have same: "slot_bytes tx2 s k = slot_bytes tx1 s k" "chunk_length tx2 o' = chunk_length tx o'" for s k o'
    by (simp_all add: tx2_def tx1_def slot_bytes_def chunk_length_def)
  have aligned: "unat ?o mod tx_chunk_size tx = 0"
    using next_offset_aligned [OF snd lim] more snd by (cases "?o = tx_size tx") (auto simp: tx_sending_def)
  have ok_c: "claim_ok tx2 xs c"
    using slot(2) aligned on size slot_bytes_write(2) [OF lim slot(2) slot(2) _ nc, of bytes] lb nc
    by (simp add: claim_ok_def same c_def bytes_def) (simp add: tx2_def tx1_def bytes_def)
  have ok_old: "claim_ok tx2 xs d" if "d \<in> set (tx_claims tx)" for d
  proof -
    have d: "claim_ok tx xs d" "claim_slot d \<noteq> slot" using that snd slot(3) by (auto simp: tx_sending_def list_all_iff)
    have "claim_length d \<le> tx_chunk_size tx" using d(1) by (simp add: claim_ok_def chunk_length_def)
    then have "slot_bytes tx1 (claim_slot d) (claim_length d) = slot_bytes tx (claim_slot d) (claim_length d)"
      using slot_bytes_write(1) [OF lim slot(2), of "claim_slot d" bytes "claim_length d"] d lb nc
      by (simp add: tx1_def claim_ok_def)
    with d(1) show ?thesis unfolding claim_ok_def same by (auto simp: tx2_def tx1_def)
  qed
  have un: "unat (?o + of_nat ?n) = unat ?o + ?n"
    using on size unat_plus_nat [of ?o ?n] unat_u64_less [of "tx_size tx"] by simp
  have nle: "?o + of_nat ?n \<le> tx_size tx" using un on size by (simp add: u64_le_unat)
  have one: "length (tx_claims tx) = 0" if "tx_size tx = 0" using that more le by auto
  have "tx_sending tx2 xs"
    using snd ok_c ok_old slot(3) free nle one
    by (simp add: tx_sending_def claims_cover_append un list_all_iff) (auto simp: tx2_def tx1_def c_def un claims_cover_append)
  moreover have "tx_limits tx2" using lim1 by (simp add: tx2_def tx_limits_def)
  moreover have "tr_raft_snapshot_sender_fill_chunk tx2 c = source_chunk tx xs ?o"
    using fill_chunk_claim [OF ok_c] by (simp add: c_def source_chunk_def same Let_def) (simp add: tx2_def tx1_def)
  moreover have "next_chunk_claim tx = (SALTS_OK, tx2, Some (tr_raft_snapshot_sender_fill_chunk tx2 c))"
    unfolding next_chunk_claim_def Let_def n slot(1) sum.case read prod.case
    by (simp add: tx2_def tx1_def c_def)
  moreover have "\<exists>storage cs nxt. tx2 = tx\<lparr>tx_chunk_storage := storage, tx_claims := cs, tx_next_offset := nxt\<rparr>"
    unfolding tx2_def tx1_def by blast
  ultimately show thesis using un by (intro that [of tx2]) (simp_all add: tx2_def)
qed

section \<open>Operations keep the invariant\<close>

text \<open>What an operation on a running transfer leaves as it is.\<close>

definition tx_same :: "snapshot_sender \<Rightarrow> snapshot_sender \<Rightarrow> bool" where
  "tx_same tx tx' \<longleftrightarrow>
     tx_config tx' = tx_config tx \<and> tx_size tx' = tx_size tx \<and> tx_chunk_size tx' = tx_chunk_size tx
     \<and> tx_max_inflight_chunks tx' = tx_max_inflight_chunks tx \<and> tx_digest tx' = tx_digest tx
     \<and> tx_leader_term tx' = tx_leader_term tx \<and> tx_snapshot_index tx' = tx_snapshot_index tx
     \<and> tx_snapshot_term tx' = tx_snapshot_term tx \<and> tx_configuration tx' = tx_configuration tx
     \<and> tx_active tx' = tx_active tx"

lemma tx_same_refl [simp]: "tx_same tx tx"
  by (simp add: tx_same_def)

lemma tx_same_chunk: "tx_same tx tx' \<Longrightarrow> source_chunk tx' xs off = source_chunk tx xs off"
  by (simp add: tx_same_def source_chunk_def chunk_length_def)

lemma create_tx_inv:
  assumes "alloc_ok M" and "tr_raft_snapshot_sender_create M ok config = Inr tx"
  shows "tx_inv tx xs"
  using assms
  by (auto simp: tr_raft_snapshot_sender_create_def Let_def tx_inv_def tx_limits_def alloc_ok_def split: if_splits option.splits)

lemma clear_tx_inv:
  "tx_limits tx \<Longrightarrow> tr_raft_snapshot_sender_clear_transfer tx rel = (tx', rel') \<Longrightarrow> tx_inv tx' xs"
  by (auto simp: tr_raft_snapshot_sender_clear_transfer_def tr_raft_snapshot_sender_release_source_def tx_inv_def tx_limits_def)

lemma begin_source_inv:
  assumes "tx_inv tx ys" and "source_reads source xs"
    and "tr_raft_snapshot_sender_begin_source tx lt i t c source rel = (SALTS_OK, tx', rel')"
  shows "tx_inv tx' xs" and "tx_active tx'" and "\<not> tx_complete tx'" and "tx_size tx' = of_nat (length xs)"
    and "tx_acknowledged_offset tx' = 0" and "tx_next_offset tx' = 0" and "tx_claims tx' = []"
    and "tx_digest tx' = src_digest source" and "tx_leader_term tx' = lt" and "tx_snapshot_index tx' = i"
    and "tx_snapshot_term tx' = t" and "tx_configuration tx' = c" and "tx_config tx' = tx_config tx"
    and "tx_chunk_size tx' = tx_chunk_size tx" and "tx_max_inflight_chunks tx' = tx_max_inflight_chunks tx"
    and "0 < t \<and> t \<le> lt \<and> 0 < i \<and> tr_raft_conf_validate c = SALTS_OK \<and> tx_size tx' \<le> sn_max_snapshot_bytes (tx_config tx)"
proof -
  obtain tx1 rel1 where cl: "tr_raft_snapshot_sender_clear_transfer tx rel = (tx1, rel1)" by fastforce
  have lim: "tx_limits tx" using assms(1) by (simp add: tx_inv_def)
  have tx1: "tx_claims tx1 = []" "tx_acknowledged_offset tx1 = 0" "tx_next_offset tx1 = 0" "\<not> tx_complete tx1"
    "tx_config tx1 = tx_config tx" "tx_chunk_size tx1 = tx_chunk_size tx"
    "tx_max_inflight_chunks tx1 = tx_max_inflight_chunks tx" "tx_chunk_storage tx1 = tx_chunk_storage tx"
    using cl by (auto simp: tr_raft_snapshot_sender_clear_transfer_def tr_raft_snapshot_sender_release_source_def)
  have tx': "tx' = tx1\<lparr>tx_source := source, tx_source_owned := True, tx_size := src_size source,
                  tx_digest := src_digest source, tx_leader_term := lt, tx_snapshot_index := i,
                  tx_snapshot_term := t, tx_configuration := c, tx_active := True\<rparr>"
    and ok: "0 < t \<and> t \<le> lt \<and> 0 < i \<and> tr_raft_conf_validate c = SALTS_OK \<and> src_size source \<le> sn_max_snapshot_bytes (tx_config tx)"
    using assms(3) cl
    by (auto simp: tr_raft_snapshot_sender_begin_source_def not_less word_neq_0_conv split: if_splits)
  show "tx_inv tx' xs"
    using lim tx1 assms(2) by (auto simp: tx' tx_inv_def tx_limits_def tx_sending_def word_gt_0)
  show "tx_size tx' = of_nat (length xs)" using assms(2) by (simp add: tx' source_reads_def)
  show "tx_active tx'" "\<not> tx_complete tx'"
    "tx_acknowledged_offset tx' = 0" "tx_next_offset tx' = 0" "tx_claims tx' = []"
    "tx_digest tx' = src_digest source" "tx_leader_term tx' = lt" "tx_snapshot_index tx' = i"
    "tx_snapshot_term tx' = t" "tx_configuration tx' = c" "tx_config tx' = tx_config tx"
    "tx_chunk_size tx' = tx_chunk_size tx" "tx_max_inflight_chunks tx' = tx_max_inflight_chunks tx"
    using tx1 by (simp_all add: tx')
  show "0 < t \<and> t \<le> lt \<and> 0 < i \<and> tr_raft_conf_validate c = SALTS_OK \<and> tx_size tx' \<le> sn_max_snapshot_bytes (tx_config tx)"
    using ok by (simp add: tx')
qed

text \<open>Asking for a chunk either says busy and changes nothing, or gives a chunk of the contents.\<close>

lemma next_chunk_spec:
  assumes inv: "tx_inv tx xs" and eq: "tr_raft_snapshot_sender_next_chunk tx = (s, tx', ch)"
  shows "s = SALTS_EBUSY \<and> tx' = tx \<and> ch = None
    \<or> s = SALTS_OK \<and> tx_active tx \<and> \<not> tx_complete tx \<and> tx_inv tx' xs \<and> tx_same tx tx' \<and> \<not> tx_complete tx'
      \<and> tx_acknowledged_offset tx' = tx_acknowledged_offset tx
      \<and> (tx' = tx \<and> tx_claims tx \<noteq> [] \<and> tx_max_inflight_chunks tx = 1 \<and> ch = Some (source_chunk tx xs (tx_acknowledged_offset tx))
         \<or> length (tx_claims tx) < tx_max_inflight_chunks tx \<and> length (tx_claims tx') = Suc (length (tx_claims tx))
           \<and> ch = Some (source_chunk tx xs (tx_next_offset tx))
           \<and> unat (tx_next_offset tx') = unat (tx_next_offset tx) + chunk_length tx (tx_next_offset tx))"
proof (cases "tx_active tx \<and> \<not> tx_complete tx")
  case False
  with eq show ?thesis by (auto simp: tr_raft_snapshot_sender_next_chunk_def)
next
  case run: True
  have lim: "tx_limits tx" and snd: "tx_sending tx xs" using inv run by (simp_all add: tx_inv_def)
  show ?thesis
  proof (cases "length (tx_claims tx) \<ge> tx_max_inflight_chunks tx")
    case full: True
    show ?thesis
    proof (cases "tx_max_inflight_chunks tx = 1")
      case True
      with full obtain c cs where c: "tx_claims tx = c # cs" by (cases "tx_claims tx") auto
      have "claim_ok tx xs c" "claim_offset c = tx_acknowledged_offset tx"
        using snd c by (auto simp: tx_sending_def intro: u64_eqI)
      with fill_chunk_claim eq run full True c inv show ?thesis
        by (auto simp: tr_raft_snapshot_sender_next_chunk_def)
    next
      case False
      with eq run full show ?thesis by (auto simp: tr_raft_snapshot_sender_next_chunk_def)
    qed
  next
    case free: False
    show ?thesis
    proof (cases "tx_next_offset tx = tx_size tx \<and> tx_claims tx \<noteq> []")
      case True
      with eq run free show ?thesis by (auto simp: tr_raft_snapshot_sender_next_chunk_def)
    next
      case False
      then have "tx_next_offset tx \<noteq> tx_size tx \<or> tx_claims tx = []" by simp
      moreover have "length (tx_claims tx) < tx_max_inflight_chunks tx" using free by simp
      ultimately obtain tx1 where c: "next_chunk_claim tx = (SALTS_OK, tx1, Some (source_chunk tx xs (tx_next_offset tx)))"
        "tx_limits tx1" "tx_sending tx1 xs"
        "\<exists>storage cs nxt. tx1 = tx\<lparr>tx_chunk_storage := storage, tx_claims := cs, tx_next_offset := nxt\<rparr>"
        "length (tx_claims tx1) = Suc (length (tx_claims tx))"
        "unat (tx_next_offset tx1) = unat (tx_next_offset tx) + chunk_length tx (tx_next_offset tx)"
        using claim_spec [OF lim snd] by metis
      have e: "s = SALTS_OK" "tx' = tx1" "ch = Some (source_chunk tx xs (tx_next_offset tx))"
        using eq run free False c(1) by (auto simp: tr_raft_snapshot_sender_next_chunk_def)
      have "tx_same tx tx1" "tx_acknowledged_offset tx1 = tx_acknowledged_offset tx" "\<not> tx_complete tx1" "tx_active tx1"
        using c(4) run by (auto simp: tx_same_def)
      with e c run free show ?thesis by (simp add: tx_inv_def)
    qed
  qed
qed

lemma resume_spec:
  assumes inv: "tx_inv tx xs" and eq: "tr_raft_snapshot_sender_prepare_resume tx = (s, tx')"
  shows "tx_inv tx' xs" and "tx_same tx tx'" and "tx_acknowledged_offset tx' = tx_acknowledged_offset tx"
    and "tx_complete tx' = tx_complete tx"
  using assms
  by (auto simp: tr_raft_snapshot_sender_prepare_resume_def tx_inv_def tx_sending_def tx_limits_def tx_same_def u64_le_unat
      u64_less_unat dest: claims_cover_le split: if_splits)

lemma cancel_spec:
  assumes inv: "tx_inv tx xs" and eq: "tr_raft_snapshot_sender_cancel_chunk tx off = (s, tx')"
  shows "tx_inv tx' xs" and "tx_same tx tx'" and "tx_acknowledged_offset tx' = tx_acknowledged_offset tx"
    and "tx_complete tx' = tx_complete tx"
proof -
  show "tx_same tx tx'" "tx_acknowledged_offset tx' = tx_acknowledged_offset tx" "tx_complete tx' = tx_complete tx"
    using eq by (auto simp: tr_raft_snapshot_sender_cancel_chunk_def tx_same_def Let_def split: if_splits)
  show "tx_inv tx' xs"
  proof (cases "tx_claims tx" rule: rev_cases)
    case Nil
    with eq inv show ?thesis by (simp add: tr_raft_snapshot_sender_cancel_chunk_def)
  next
    case (snoc cs c)
    show ?thesis
    proof (cases "claim_offset c = off")
      case False
      with eq snoc inv show ?thesis by (simp add: tr_raft_snapshot_sender_cancel_chunk_def)
    next
      case True
      have tx': "tx' = tx\<lparr>tx_next_offset := claim_offset c, tx_claims := cs\<rparr>"
        using eq snoc True by (simp add: tr_raft_snapshot_sender_cancel_chunk_def)
      have run: "tx_active tx" "\<not> tx_complete tx" and snd: "tx_sending tx xs"
        using inv snoc by (auto simp: tx_inv_def split: if_splits)
      have "claim_ok tx' xs d = claim_ok tx xs d" for d
        by (simp add: tx' claim_ok_def slot_bytes_def chunk_length_def)
      moreover have "claim_offset c \<le> tx_size tx" using snd snoc by (auto simp: tx_sending_def claim_ok_def u64_le_unat)
      ultimately have "tx_sending tx' xs"
        using snd snoc by (simp add: tx_sending_def claims_cover_append list_all_iff) (auto simp: tx')
      with inv run show ?thesis by (simp add: tx_inv_def tx' tx_limits_def)
    qed
  qed
qed

section \<open>Acknowledgements\<close>

lemma claim_end_unat: "claim_ok tx xs c \<Longrightarrow> unat (claim_end c) = unat (claim_offset c) + claim_length c"
  using unat_plus_nat [of "claim_offset c" "claim_length c"] unat_u64_less [of "tx_size tx"]
  by (simp add: claim_ok_def claim_end_def)

lemma claim_nonempty: "tx_limits tx \<Longrightarrow> claim_ok tx xs c \<Longrightarrow> unat (claim_offset c) < unat (tx_size tx) \<Longrightarrow> 0 < claim_length c"
  by (simp add: claim_ok_def chunk_length_def tx_limits_def)

text \<open>Dropping the claims behind the end of one of them leaves a cover of the rest.\<close>

lemma cover_dropWhile:
  assumes "claims_cover a cs b" and "list_all (claim_ok tx xs) cs" and "tx_limits tx"
    and "unat n < unat (tx_size tx)" and "unat n = a \<or> list_ex (\<lambda>c. claim_end c = n) cs"
  shows "claims_cover (unat n) (dropWhile (\<lambda>c. claim_end c \<le> n) cs) b"
  using assms(1,2,5)
proof (induction cs arbitrary: a)
  case Nil
  then show ?case by simp
next
  case (Cons c cs)
  have ok: "claim_ok tx xs c" and off: "unat (claim_offset c) = a" and rest: "claims_cover (a + claim_length c) cs b"
    and oks: "list_all (claim_ok tx xs) cs"
    using Cons.prems by auto
  note e = claim_end_unat [OF ok, unfolded off]
  have later: "a + claim_length c \<le> unat (claim_end d)" if d: "d \<in> set cs" for d
  proof -
    obtain us vs where cs: "cs = us @ d # vs" using split_list [OF d] by blast
    have "claims_cover x (us @ d # vs) b \<Longrightarrow> x \<le> unat (claim_offset d)" for x
      by (induction us arbitrary: x) (auto dest: add_leD1)
    then have "a + claim_length c \<le> unat (claim_offset d)" using rest cs by blast
    moreover have "claim_ok tx xs d" using oks d by (simp add: list_all_iff)
    ultimately show ?thesis using claim_end_unat [of tx xs d] by simp
  qed
  show ?case
  proof (cases "unat n = a")
    case True
    then have "0 < claim_length c" using claim_nonempty [OF assms(3) ok] off assms(4) by simp
    with True e have "\<not> claim_end c \<le> n" by (simp add: u64_le_unat)
    with True Cons.prems(1) show ?thesis by simp
  next
    case False
    with off Cons.prems(3) have hit: "claim_end c = n \<or> list_ex (\<lambda>c. claim_end c = n) cs" by simp
    then have reach: "unat (claim_end c) \<le> unat n"
    proof
      assume "list_ex (\<lambda>c. claim_end c = n) cs"
      then obtain d where "d \<in> set cs" "claim_end d = n" by (auto simp: list_ex_iff)
      then show ?thesis using later [of d] e by simp
    qed simp
    then have "claim_end c \<le> n" by (simp add: u64_le_unat)
    have following: "unat n = a + claim_length c \<or> list_ex (\<lambda>c. claim_end c = n) cs"
      using hit e by (elim disjE) simp_all
    with \<open>claim_end c \<le> n\<close> Cons.IH [OF rest oks following] show ?thesis by simp
  qed
qed

text \<open>The outcome of an acknowledgement: a status other than success changes nothing, and the source is
  released by the acknowledgement that completes the transfer.\<close>

lemma ack_spec:
  assumes inv: "tx_inv tx xs" and eq: "tr_raft_snapshot_sender_acknowledge tx ack rel = (s, tx', rel')"
  shows "tx_inv tx' xs \<and> tx_same tx tx' \<and> (s \<noteq> SALTS_OK \<longrightarrow> tx' = tx) \<and> (tx_complete tx \<longrightarrow> tx' = tx)
    \<and> (if tx_complete tx' \<and> \<not> tx_complete tx
       then s = SALTS_OK \<and> \<not> ack_foreign tx ack \<and> sa_accepted ack \<and> sa_next_offset ack = tx_size tx
         \<and> rel' = rel @ (if src_release (tx_source tx) then [tx_source tx] else [])
       else rel' = rel)"
proof -
  let ?n = "sa_next_offset ack"
  have kept: ?thesis if "tx' = tx" "rel' = rel" using that inv by simp
  show ?thesis
  proof (cases "s = SALTS_OK \<and> \<not> tx_complete tx")
    case False
    then have "tx' = tx \<and> rel' = rel"
      using eq by (auto simp: tr_raft_snapshot_sender_acknowledge_def tr_raft_snapshot_sender_release_source_def Let_def
          split: if_splits)
    with kept show ?thesis by blast
  next
    case ok: True
    then have run: "tx_active tx" "\<not> ack_foreign tx ack"
      and le: "?n \<le> tx_next_offset tx" and al: "?n = tx_size tx \<or> unat ?n mod tx_chunk_size tx = 0"
      using eq by (auto simp: tr_raft_snapshot_sender_acknowledge_def Let_def split: if_splits)
    have lim: "tx_limits tx" and snd: "tx_sending tx xs" using inv run ok by (simp_all add: tx_inv_def)
    have end_le: "?n \<le> tx_size tx" using le snd by (auto simp: tx_sending_def)
    show ?thesis
    proof (cases "sa_accepted ack")
      case False
      then have tx': "tx' = tx\<lparr>tx_acknowledged_offset := ?n, tx_next_offset := ?n, tx_claims := []\<rparr>"
        and "rel' = rel" and lower: "?n \<le> tx_acknowledged_offset tx"
        using eq run ok by (auto simp: tr_raft_snapshot_sender_acknowledge_def Let_def split: if_splits)
      have lt: "tx_size tx \<noteq> 0 \<longrightarrow> ?n < tx_size tx" using lower snd by (auto simp: tx_sending_def)
      then have "unat ?n mod tx_chunk_size tx = 0" using al end_le by (cases "tx_size tx = 0") auto
      with lt snd end_le have "tx_sending tx' xs" by (auto simp: tx_sending_def tx')
      with lim run ok \<open>rel' = rel\<close> show ?thesis by (simp add: tx' tx_inv_def tx_limits_def tx_same_def)
    next
      case acc: True
      define tx1 where "tx1 = tx\<lparr>tx_acknowledged_offset := ?n,
          tx_claims := dropWhile (\<lambda>c. claim_end c \<le> ?n) (tx_claims tx), tx_complete := (?n = tx_size tx)\<rparr>"
      have hit: "?n = tx_acknowledged_offset tx \<or> list_ex (\<lambda>c. claim_end c = ?n) (tx_claims tx)"
        using eq run ok acc by (auto simp: tr_raft_snapshot_sender_acknowledge_def Let_def split: if_splits)
      show ?thesis
      proof (cases "?n = tx_size tx")
        case True
        then have e: "tx' = tx1\<lparr>tx_source := source_zero, tx_source_owned := False\<rparr>"
          "rel' = rel @ (if src_release (tx_source tx) then [tx_source tx] else [])"
          using eq run ok acc snd
          by (auto simp: tr_raft_snapshot_sender_acknowledge_def tr_raft_snapshot_sender_release_source_def tx_sending_def
              tx1_def Let_def split: if_splits)
        have "claim_end c \<le> tx_size tx" if "c \<in> set (tx_claims tx)" for c
          using that snd claim_end_unat [of tx xs c] by (auto simp: tx_sending_def list_all_iff claim_ok_def u64_le_unat)
        then have "tx_claims tx1 = []" using True by (simp add: tx1_def)
        with e True lim run ok acc show ?thesis by (simp add: tx1_def tx_inv_def tx_limits_def tx_same_def)
      next
        case False
        then have e: "tx' = tx1" "rel' = rel"
          using eq run ok acc by (auto simp: tr_raft_snapshot_sender_acknowledge_def tx1_def Let_def split: if_splits)
        have lt: "?n < tx_size tx" using False end_le by simp
        let ?cs = "dropWhile (\<lambda>c. claim_end c \<le> ?n) (tx_claims tx)"
        have cover: "claims_cover (unat ?n) ?cs (unat (tx_next_offset tx))"
          using cover_dropWhile [of _ "tx_claims tx" _ tx xs ?n] snd lim lt hit by (auto simp: tx_sending_def u64_less_unat)
        have "claim_ok tx1 xs c = claim_ok tx xs c" for c
          by (simp add: tx1_def claim_ok_def slot_bytes_def chunk_length_def)
        moreover have "list_all (claim_ok tx xs) ?cs" "distinct (map claim_slot ?cs)" "length ?cs \<le> length (tx_claims tx)"
          using snd by (auto simp: tx_sending_def list_all_iff distinct_map length_dropWhile_le dest: set_dropWhileD
              intro: inj_on_subset)
        ultimately have "tx_sending tx1 xs"
          using snd cover al False lt by (simp add: tx_sending_def list_all_iff) (auto simp: tx1_def)
        with e lim run ok False show ?thesis by (simp add: tx1_def tx_inv_def tx_limits_def tx_same_def)
      qed
    qed
  qed
qed

end
