(* ===== verification/Raft_Snapshot_Transfer.thy ===== *)
theory Raft_Snapshot_Transfer
  imports Raft_Snapshot_Receiver Raft_Snapshot_Sender
begin

text \<open>
  The two sides of a snapshot transfer together. A network between them may lose, repeat and reorder
  chunks and acknowledgements; whatever it does, the receiving application sees the snapshot of the
  source and nothing else, and the sender believes in completion only when that snapshot was
  installed. Without failures, alternating chunks and acknowledgements ends after as many rounds as
  the snapshot has chunks.
\<close>

section \<open>The system\<close>

record 'h transfer =
  tf_sender :: snapshot_sender
  tf_receiver :: "'h snapshot_receiver"
  tf_calls :: "sink_call list"
  tf_released :: "snapshot_source list"
  tf_chunks :: "snapshot_chunk list"
  tf_acks :: "snapshot_ack list"

text \<open>\<open>tf_chunks\<close> and \<open>tf_acks\<close> hold everything ever sent: a message may be delivered any number of times,
  at any time, or never.\<close>

inductive transfer_step :: "'h hash_ops \<Rightarrow> heap_alloc \<Rightarrow> sink_status \<Rightarrow> 'h transfer \<Rightarrow> 'h transfer \<Rightarrow> bool"
  for H M K where
  send: "transfer_step H M K st
     (st\<lparr>tf_sender := tx, tf_chunks := (case ch of None \<Rightarrow> tf_chunks st | Some c \<Rightarrow> c # tf_chunks st)\<rparr>)"
    if "tr_raft_snapshot_sender_next_chunk (tf_sender st) = (s, tx, ch)"
| cancel: "transfer_step H M K st (st\<lparr>tf_sender := tx\<rparr>)"
    if "tr_raft_snapshot_sender_cancel_chunk (tf_sender st) off = (s, tx)"
| resume: "transfer_step H M K st (st\<lparr>tf_sender := tx\<rparr>)"
    if "tr_raft_snapshot_sender_prepare_resume (tf_sender st) = (s, tx)"
| deliver: "transfer_step H M K st (st\<lparr>tf_receiver := rx, tf_calls := calls, tf_acks := rr_ack out # tf_acks st\<rparr>)"
    if "ch \<in> set (tf_chunks st)"
      "tr_raft_snapshot_receiver_handle H M K (tf_receiver st) ch (tf_calls st) = (s, rx, out, calls)"
| acknowledge: "transfer_step H M K st (st\<lparr>tf_sender := tx, tf_released := released\<rparr>)"
    if "a \<in> set (tf_acks st)"
      "tr_raft_snapshot_sender_acknowledge (tf_sender st) a (tf_released st) = (s, tx, released)"
| reset: "transfer_step H M K st (st\<lparr>tf_receiver := rx, tf_calls := calls\<rparr>)"
    if "tr_raft_snapshot_receiver_reset K (tf_receiver st) (tf_calls st) = (rx, calls)"

text \<open>A transfer starts with a sender that took the source and a new receiver.\<close>

inductive transfer_start :: "snapshot_source \<Rightarrow> 'h transfer \<Rightarrow> bool" for source where
  "transfer_start source \<lparr>tf_sender = tx, tf_receiver = rx, tf_calls = [], tf_released = released, tf_chunks = [], tf_acks = []\<rparr>"
    if "tr_raft_snapshot_sender_create M ok config = Inr tx0" "alloc_ok M"
      "tr_raft_snapshot_sender_begin_source tx0 lt i t c source [] = (SALTS_OK, tx, released)"
      "tr_raft_snapshot_receiver_create sha ok' config' = Inr rx"

abbreviation transfer_steps :: "'h hash_ops \<Rightarrow> heap_alloc \<Rightarrow> sink_status \<Rightarrow> 'h transfer \<Rightarrow> 'h transfer \<Rightarrow> bool" where
  "transfer_steps H M K \<equiv> (transfer_step H M K)\<^sup>*\<^sup>*"

section \<open>What the receiver holds\<close>

text \<open>The identity and the snapshot of a sender's transfer.\<close>

definition tx_identity :: "snapshot_sender \<Rightarrow> node_id \<times> raft_term \<times> raft_index \<times> raft_term \<times> u64 \<times> digest" where
  "tx_identity tx = (sn_self_id (tx_config tx), tx_leader_term tx, tx_snapshot_index tx, tx_snapshot_term tx, tx_size tx,
     tx_digest tx)"

definition tx_image :: "snapshot_sender \<Rightarrow> u8 list \<Rightarrow> snapshot_image" where
  "tx_image tx xs = \<lparr>si_leader_term = tx_leader_term tx, si_index = tx_snapshot_index tx, si_term = tx_snapshot_term tx,
     si_configuration = tx_configuration tx, si_size = tx_size tx, si_data = xs\<rparr>"

lemma tx_same_image: "tx_same tx tx' \<Longrightarrow> tx_image tx' xs = tx_image tx xs"
  by (simp add: tx_same_def tx_image_def)

lemma source_chunk_sel:
  "sc_identity (source_chunk tx xs off) = tx_identity tx" "sc_snapshot_offset (source_chunk tx xs off) = off"
  "chunk_image (source_chunk tx xs off) c ys = (tx_image tx ys)\<lparr>si_configuration := c\<rparr>"
  "off = 0 \<Longrightarrow> sc_configuration (source_chunk tx xs off) = tx_configuration tx"
  "byte_list (sc_data (source_chunk tx xs off)) = take (chunk_length tx off) (drop (unat off) xs)"
  "sc_snapshot_size (source_chunk tx xs off) = tx_size tx"
  by (simp_all add: source_chunk_def sc_identity_def tx_identity_def chunk_image_def tx_image_def Let_def)

text \<open>The receiver holds a prefix of the contents, and everything visible is the snapshot.\<close>

definition holds_prefix :: "('h \<Rightarrow> u8 list) \<Rightarrow> snapshot_sender \<Rightarrow> u8 list \<Rightarrow> 'h snapshot_receiver \<Rightarrow> bool" where
  "holds_prefix absorbed tx xs rx \<longleftrightarrow>
     (case rx_bytes absorbed rx of None \<Rightarrow> True | Some held \<Rightarrow> fst held = tx_identity tx \<and> snd held = take (length (snd held)) xs)"

lemma holds_prefixD:
  "holds_prefix absorbed tx xs rx \<Longrightarrow> rx_bytes absorbed rx = Some (ident, ys) \<Longrightarrow> ident = tx_identity tx \<and> ys = take (length ys) xs"
  by (simp add: holds_prefix_def)

definition rx_of :: "('h \<Rightarrow> u8 list) \<Rightarrow> sink_status \<Rightarrow> snapshot_sender \<Rightarrow> u8 list \<Rightarrow> 'h snapshot_receiver \<Rightarrow> sink_call list \<Rightarrow> bool" where
  "rx_of absorbed K tx xs rx calls \<longleftrightarrow>
     rx_inv absorbed K rx calls
     \<and> holds_prefix absorbed tx xs rx
     \<and> (rx_active rx \<longrightarrow> rx_configuration rx = tx_configuration tx)
     \<and> (rx_active rx \<and> \<not> rx_completed rx \<longrightarrow> rx_next_offset rx < rx_snapshot_size rx)
     \<and> (rx_completed rx \<longrightarrow> sink_visible (sink_after K calls) \<noteq> [])
     \<and> set (sink_visible (sink_after K calls)) \<subseteq> {tx_image tx xs}"

lemma continues_source:
  assumes "continues absorbed rx (source_chunk tx xs off) ys"
    and "holds_prefix absorbed tx xs rx"
  shows "ys = take (length ys) xs"
proof -
  obtain pre where ys: "ys = pre @ take (chunk_length tx off) (drop (unat off) xs)" and len: "length pre = unat off"
    and held: "pre = [] \<or> rx_bytes absorbed rx = Some (tx_identity tx, pre)"
    using assms(1) unfolding continues_def source_chunk_sel by blast
  have pre: "pre = [] \<or> pre = take (length pre) xs" using held holds_prefixD [OF assms(2)] by metis
  have "ys = take (unat off + chunk_length tx off) xs"
    using ys pre len by (auto simp: take_add)
  then show ?thesis by (metis append_take_drop_id append_eq_conv_conj)
qed

lemma rx_of_handle:
  assumes hash: "hash_contract H absorbed D" and alloc: "alloc_ok M" and rx: "rx_of absorbed K tx xs rx calls"
    and size: "unat (tx_size tx) = length xs" and ch: "ch = source_chunk tx xs off"
    and eq: "tr_raft_snapshot_receiver_handle H M K rx ch calls = (s, rx', out, calls')"
  shows "rx_of absorbed K tx xs rx' calls'"
    and "sink_visible (sink_after K calls) \<noteq> [] \<longrightarrow> sink_visible (sink_after K calls') \<noteq> []"
    and "sa_accepted (rr_ack out) \<and> sa_next_offset (rr_ack out) = tx_size tx \<longrightarrow> sink_visible (sink_after K calls') \<noteq> []"
proof -
  have inv: "rx_inv absorbed K rx calls"
    and pre: "holds_prefix absorbed tx xs rx"
    using rx by (auto simp: rx_of_def)
  note h = handle_spec [OF hash alloc inv eq, unfolded chunk_handled_def]
  note inv' = h [THEN conjunct1] and answer = h [THEN conjunct2, THEN conjunct2, THEN conjunct1]
    and accepted = h [THEN conjunct2, THEN conjunct2, THEN conjunct2, THEN conjunct1]
    and kept = h [THEN conjunct2, THEN conjunct2, THEN conjunct2, THEN conjunct2, THEN conjunct1]
    and moved = h [THEN conjunct2, THEN conjunct2, THEN conjunct2, THEN conjunct2, THEN conjunct2, THEN conjunct1]
    and shown = h [THEN conjunct2, THEN conjunct2, THEN conjunct2, THEN conjunct2, THEN conjunct2, THEN conjunct2]
  have cont: "ys = take (length ys) xs" if "continues absorbed rx ch ys" for ys
    using continues_source that pre ch by blast
  have id: "sc_identity ch = tx_identity tx" and img: "\<And>c ys. chunk_image ch c ys = (tx_image tx ys)\<lparr>si_configuration := c\<rparr>"
    and sz: "sc_snapshot_size ch = tx_size tx"
    using ch by (simp_all add: source_chunk_sel)
  have conf: "rx_configuration rx' = tx_configuration tx" if "rx_active rx'"
    using moved that rx ch source_chunk_sel(2,4) by (auto simp: rx_of_def)
  have full: "ys = xs" if "continues absorbed rx ch ys" "length ys = unat (tx_size tx)" for ys
    using cont [OF that(1)] that(2) size by simp
  have vis: "if rr_installed out then sink_visible (sink_after K calls') = sink_visible (sink_after K calls) @ [tx_image tx xs]
      else sink_visible (sink_after K calls') = sink_visible (sink_after K calls)"
    using shown conf full sz img by (cases "rr_installed out") (auto simp: tx_image_def)
  show grow: "sink_visible (sink_after K calls) \<noteq> [] \<longrightarrow> sink_visible (sink_after K calls') \<noteq> []"
    using vis by (auto split: if_splits)
  have bytes: "holds_prefix absorbed tx xs rx'"
  proof (cases "rx_bytes absorbed rx'")
    case None
    then show ?thesis by (simp add: holds_prefix_def)
  next
    case (Some held)
    then have "rx_bytes absorbed rx = Some held \<or> held = (sc_identity ch, snd held) \<and> continues absorbed rx ch (snd held)"
      using kept by (metis option.distinct(1) option.inject prod.sel(2))
    then show ?thesis
    proof
      assume "rx_bytes absorbed rx = Some held"
      with Some pre show ?thesis by (simp add: holds_prefix_def)
    next
      assume c: "held = (sc_identity ch, snd held) \<and> continues absorbed rx ch (snd held)"
      then have "fst held = tx_identity tx" using id by (metis fst_conv)
      with Some c cont [of "snd held"] show ?thesis by (simp add: holds_prefix_def)
    qed
  qed
  have finished: "rx_completed rx' \<longrightarrow> sink_visible (sink_after K calls') \<noteq> []"
    using moved inv' rx vis grow by (auto simp: rx_of_def rx_inv_def split: if_splits)
  have lt: "rx_active rx' \<and> \<not> rx_completed rx' \<longrightarrow> rx_next_offset rx' < rx_snapshot_size rx'"
    using moved rx by (auto simp: rx_of_def)
  show "rx_of absorbed K tx xs rx' calls'"
    unfolding rx_of_def using inv' bytes conf lt finished vis rx by (auto simp: rx_of_def split: if_splits)
  show "sa_accepted (rr_ack out) \<and> sa_next_offset (rr_ack out) = tx_size tx \<longrightarrow> sink_visible (sink_after K calls') \<noteq> []"
  proof (intro impI)
    assume a: "sa_accepted (rr_ack out) \<and> sa_next_offset (rr_ack out) = tx_size tx"
    with answer accepted have "rx_active rx'" "rx_identity rx' = tx_identity tx" "rx_next_offset rx' = tx_size tx" using id by auto
    with lt have "rx_completed rx'" by (auto simp: rx_identity_def tx_identity_def)
    with finished show "sink_visible (sink_after K calls') \<noteq> []" by blast
  qed
qed

lemma rx_of_reset:
  assumes rx: "rx_of absorbed K tx xs rx calls" and eq: "tr_raft_snapshot_receiver_reset K rx calls = (rx', calls')"
  shows "rx_of absorbed K tx xs rx' calls'" and "sink_visible (sink_after K calls') = sink_visible (sink_after K calls)"
proof -
  have "rx_linked K rx calls" using rx by (simp add: rx_of_def rx_inv_def)
  note c = clear_inv [OF this, of rx' calls'] 
  then show "sink_visible (sink_after K calls') = sink_visible (sink_after K calls)"
    using eq by (simp add: tr_raft_snapshot_receiver_reset_def)
  with c eq rx show "rx_of absorbed K tx xs rx' calls'"
    by (auto simp: tr_raft_snapshot_receiver_reset_def rx_of_def holds_prefix_def rx_bytes_def rx_inv_def)
qed

section \<open>The invariant of the system\<close>

definition transfer_inv ::
    "('h \<Rightarrow> u8 list) \<Rightarrow> sink_status \<Rightarrow> snapshot_sender \<Rightarrow> u8 list \<Rightarrow> 'h transfer \<Rightarrow> bool" where
  "transfer_inv absorbed K tx0 xs st \<longleftrightarrow>
     tx_inv (tf_sender st) xs \<and> tx_same tx0 (tf_sender st)
     \<and> rx_of absorbed K tx0 xs (tf_receiver st) (tf_calls st)
     \<and> (\<forall>ch \<in> set (tf_chunks st). \<exists>off. ch = source_chunk tx0 xs off)
     \<and> (\<forall>a \<in> set (tf_acks st). sa_accepted a \<and> sa_next_offset a = tx_size tx0
          \<longrightarrow> sink_visible (sink_after K (tf_calls st)) \<noteq> [])
     \<and> (tx_complete (tf_sender st) \<longrightarrow> sink_visible (sink_after K (tf_calls st)) \<noteq> [])"

lemma tx_same_trans: "tx_same a b \<Longrightarrow> tx_same b c \<Longrightarrow> tx_same a c"
  by (simp add: tx_same_def)

lemma transfer_step_inv:
  assumes hash: "hash_contract H absorbed D" and alloc: "alloc_ok M" and size: "unat (tx_size tx0) = length xs"
    and "transfer_step H M K st st'" and "transfer_inv absorbed K tx0 xs st"
  shows "transfer_inv absorbed K tx0 xs st'"
  using assms(4,5)
proof cases
  case (send s tx ch)
  have tx: "tx_inv (tf_sender st) xs" "tx_same tx0 (tf_sender st)" using assms(5) by (simp_all add: transfer_inv_def)
  note n = next_chunk_spec [OF tx(1) send(2)]
  have "tx_inv tx xs \<and> tx_same (tf_sender st) tx \<and> (tx_complete tx \<longrightarrow> tx_complete (tf_sender st))" using n tx(1) by auto
  moreover have "\<forall>c. ch = Some c \<longrightarrow> (\<exists>off. c = source_chunk tx0 xs off)"
    using n tx_same_chunk [OF tx(2), of xs] by auto
  ultimately show ?thesis
    using assms(5) send(1) tx_same_trans by (auto simp: transfer_inv_def split: option.split)
next
  case (cancel off s tx)
  have "tx_inv (tf_sender st) xs" using assms(5) by (simp add: transfer_inv_def)
  from cancel_spec [OF this cancel(2)] assms(5) cancel(1) show ?thesis by (auto simp: transfer_inv_def intro: tx_same_trans)
next
  case (resume s tx)
  have "tx_inv (tf_sender st) xs" using assms(5) by (simp add: transfer_inv_def)
  from resume_spec [OF this resume(2)] assms(5) resume(1) show ?thesis by (auto simp: transfer_inv_def intro: tx_same_trans)
next
  case (deliver ch s rx out calls)
  obtain off where "ch = source_chunk tx0 xs off" using assms(5) deliver(2) by (auto simp: transfer_inv_def)
  moreover have "rx_of absorbed K tx0 xs (tf_receiver st) (tf_calls st)" using assms(5) by (simp add: transfer_inv_def)
  ultimately have "rx_of absorbed K tx0 xs rx calls
      \<and> (sink_visible (sink_after K (tf_calls st)) \<noteq> [] \<longrightarrow> sink_visible (sink_after K calls) \<noteq> [])
      \<and> (sa_accepted (rr_ack out) \<and> sa_next_offset (rr_ack out) = tx_size tx0 \<longrightarrow> sink_visible (sink_after K calls) \<noteq> [])"
    using rx_of_handle [OF hash alloc _ size _ deliver(3)] by blast
  with assms(5) deliver(1) show ?thesis by (auto simp: transfer_inv_def)
next
  case (acknowledge a s tx released)
  have tx: "tx_inv (tf_sender st) xs" "tx_same tx0 (tf_sender st)" using assms(5) by (simp_all add: transfer_inv_def)
  note k = ack_spec [OF tx(1) acknowledge(3)]
  have sz: "tx_size (tf_sender st) = tx_size tx0" using tx(2) by (simp add: tx_same_def)
  have "tx_complete tx \<longrightarrow> tx_complete (tf_sender st) \<or> sa_accepted a \<and> sa_next_offset a = tx_size (tf_sender st)"
    using k [THEN conjunct2, THEN conjunct2, THEN conjunct2, THEN conjunct2] by (simp only: split: if_splits) blast+
  then have comp: "tx_complete tx \<longrightarrow> sink_visible (sink_after K (tf_calls st)) \<noteq> []"
    using assms(5) acknowledge(2) unfolding transfer_inv_def sz by blast
  have "tx_inv tx xs" "tx_same tx0 tx" using k tx_same_trans [OF tx(2)] by blast+
  with comp assms(5) acknowledge(1) show ?thesis by (simp add: transfer_inv_def)
next
  case (reset rx calls)
  have "rx_of absorbed K tx0 xs (tf_receiver st) (tf_calls st)" using assms(5) by (simp add: transfer_inv_def)
  from rx_of_reset [OF this reset(2)] assms(5) reset(1) show ?thesis by (auto simp: transfer_inv_def)
qed

lemma transfer_start_inv:
  assumes "transfer_start source st" and src: "source_reads source xs"
  shows "transfer_inv absorbed K (tf_sender st) xs st \<and> unat (tx_size (tf_sender st)) = length xs"
  using assms(1)
proof cases
  case (1 M ok config tx0 lt i t c tx released sha ok' config' rx)
  have tx0: "tx_inv tx0 []" using create_tx_inv 1(2,3) by blast
  note b = begin_source_inv [OF tx0 src 1(4)]
  have rx: "rx_inv absorbed K rx []" "\<not> rx_active rx" "\<not> rx_completed rx"
    using create_inv [OF 1(5), of absorbed K] 1(5)
    by (auto simp: tr_raft_snapshot_receiver_create_def split: if_splits prod.splits)
  have "length xs < 2 ^ 64" using src by (simp add: source_reads_def)
  then have "unat (tx_size tx) = length xs" using b(4) unat_plus_nat [of 0 "length xs"] by simp
  with b rx 1(1) show ?thesis by (simp add: transfer_inv_def rx_of_def holds_prefix_def rx_bytes_def sink_init_def)
qed

lemma transfer_reachable:
  assumes "hash_contract H absorbed D" and "alloc_ok M" and "source_reads source xs" and "transfer_start source st0"
    and "transfer_steps H M K st0 st"
  shows "transfer_inv absorbed K (tf_sender st0) xs st"
  using assms(5)
proof (induction rule: rtranclp_induct)
  case base
  then show ?case using transfer_start_inv [OF assms(4,3)] by blast
next
  case (step y z)
  then show ?case using transfer_step_inv [OF assms(1,2)] transfer_start_inv [OF assms(4,3)] by blast
qed

section \<open>Progress of a receiver\<close>

text \<open>The environment of a transfer in which nothing fails.\<close>

definition no_failure :: "'h hash_ops \<Rightarrow> heap_alloc \<Rightarrow> sink_status \<Rightarrow> bool" where
  "no_failure H M K \<longleftrightarrow>
     (\<forall>h. fst (hash_reset H h) = SALTS_OK) \<and> (\<forall>h ys. fst (hash_update H h ys) = SALTS_OK)
     \<and> (\<forall>h. fst (hash_finish H h) = SALTS_OK) \<and> (\<forall>n. M n \<noteq> None) \<and> (\<forall>calls call. K calls call = SALTS_OK)"

lemma start_ok:
  assumes "no_failure H M K" and "rx_streaming rx \<or> sc_snapshot_size ch \<le> rx_max_buffered_snapshot_bytes rx"
  shows "fst (tr_snapshot_receiver_start H M K rx ch calls) = SALTS_OK"
proof -
  obtain r h where h: "hash_reset H (rx_sha256 rx) = (r, h)" by fastforce
  then have "r = SALTS_OK" using assms(1) unfolding no_failure_def by (metis fst_conv)
  with h assms show ?thesis
    by (auto simp: no_failure_def tr_snapshot_receiver_start_def receiver_begin_def tr_snapshot_receiver_clear_transfer_def
        sink_do_def Let_def not_less)
qed

lemma store_ok:
  assumes "no_failure H M K" and "rx_inv absorbed K rx calls" and "rx_active rx" and "\<not> rx_completed rx"
    and "unat (rx_next_offset rx) + sc_data_length ch \<le> unat (rx_snapshot_size rx)"
  shows "fst (receiver_store H K rx ch calls) = SALTS_OK"
proof -
  obtain u h where u: "hash_update H (rx_sha256 rx) (byte_list (sc_data ch)) = (u, h)" by fastforce
  then have "u = SALTS_OK" using assms(1) unfolding no_failure_def by (metis fst_conv)
  moreover have "sc_data_length ch = 0 \<or> rx_stream_started rx \<or> (\<exists>block. rx_data rx = Some block)"
    using assms(2-5) by (auto simp: rx_inv_def rx_holding_def split: if_splits)
  ultimately show ?thesis
    using u assms(1) by (auto simp: receiver_store_def sink_do_def no_failure_def Let_def split: option.split)
qed

lemma finish_ok:
  assumes "no_failure H M K" and "hash_contract H absorbed D" and "D (absorbed (rx_sha256 rx)) = rx_digest rx"
  shows "fst (receiver_finish H K rx out calls) = SALTS_OK"
proof -
  obtain f d h where f: "hash_finish H (rx_sha256 rx) = (f, d, h)" by (metis prod_cases3)
  then have "f = SALTS_OK" using assms(1) unfolding no_failure_def by (metis fst_conv)
  moreover from this have "d = rx_digest rx" using hash_contractD(3) [OF assms(2)] f assms(3) by simp
  ultimately show ?thesis
    using f assms(1) by (simp add: receiver_finish_def sink_do_def no_failure_def Let_def)
qed

text \<open>The chunk a receiver waits for is taken.\<close>

definition awaits :: "'h snapshot_receiver \<Rightarrow> snapshot_chunk \<Rightarrow> bool" where
  "awaits rx ch \<longleftrightarrow>
     tr_snapshot_receiver_chunk_valid rx ch
     \<and> (if rx_active rx
        then \<not> rx_completed rx \<and> tr_snapshot_receiver_identity_matches rx ch \<and> rx_next_offset rx = sc_snapshot_offset ch
        else sc_snapshot_offset ch = 0
             \<and> (rx_streaming rx \<or> sc_snapshot_size ch \<le> rx_max_buffered_snapshot_bytes rx))"

lemma select_ok:
  assumes env: "no_failure H M K" and hash: "hash_contract H absorbed D" and alloc: "alloc_ok M"
    and inv: "rx_inv absorbed K rx calls" and wait: "awaits rx ch"
  obtains rx1 calls1 where "receiver_select H M K rx ch out calls = (SALTS_OK, rx1, out, calls1)"
    and "rx_inv absorbed K rx1 calls1" and "rx_active rx1" and "\<not> rx_completed rx1" and "rx_identity rx1 = sc_identity ch"
    and "rx_next_offset rx1 = sc_snapshot_offset ch"
    and "rx_active rx \<and> rx1 = rx \<or> \<not> rx_active rx \<and> absorbed (rx_sha256 rx1) = []"
proof -
  obtain s1 rx1 out1 calls1 where sel: "receiver_select H M K rx ch out calls = (s1, rx1, out1, calls1)" by (metis prod_cases4)
  note spec = select_spec [OF hash alloc inv sel]
  have "s1 = SALTS_OK"
    using sel wait start_ok [OF env, of rx ch calls]
    by (auto simp: awaits_def receiver_select_def split: if_splits prod.splits)
  moreover have "rx_active rx \<Longrightarrow> rx1 = rx" using sel wait by (simp add: awaits_def receiver_select_def)
  ultimately show thesis using that [of rx1 calls1] sel spec wait by (auto simp: awaits_def split: if_splits)
qed

lemma handle_next:
  assumes env: "no_failure H M K" and hash: "hash_contract H absorbed D" and alloc: "alloc_ok M"
    and inv: "rx_inv absorbed K rx calls" and wait: "awaits rx ch"
    and dig: "\<And>ys. continues absorbed rx ch ys \<Longrightarrow> length ys = unat (sc_snapshot_size ch) \<Longrightarrow> D ys = sc_snapshot_digest ch"
    and eq: "tr_raft_snapshot_receiver_handle H M K rx ch calls = (s, rx', out, calls')"
  shows "s = SALTS_OK \<and> rr_installed out = sc_done ch \<and> rx_active rx' \<and> rx_completed rx' = sc_done ch
    \<and> unat (rx_next_offset rx') = unat (sc_snapshot_offset ch) + sc_data_length ch \<and> rx_identity rx' = sc_identity ch
    \<and> rr_ack out = (rr_ack (tr_snapshot_receiver_prepare_ack rx ch))\<lparr>sa_next_offset := rx_next_offset rx', sa_accepted := True\<rparr>"
proof -
  define o1 where "o1 = tr_snapshot_receiver_prepare_ack rx ch"
  obtain rx1 calls1 where sel: "receiver_select H M K rx ch o1 calls = (SALTS_OK, rx1, o1, calls1)"
    and rx1: "rx_inv absorbed K rx1 calls1" "rx_active rx1" "\<not> rx_completed rx1" "rx_identity rx1 = sc_identity ch"
      "rx_next_offset rx1 = sc_snapshot_offset ch" "rx_active rx \<and> rx1 = rx \<or> \<not> rx_active rx \<and> absorbed (rx_sha256 rx1) = []"
    by (rule select_ok [OF env hash alloc inv wait, of o1])
  have valid: "tr_snapshot_receiver_chunk_valid rx ch" using wait by (simp add: awaits_def)
  note v = valid_chunk_bytes [OF valid]
  have sizes: "rx_snapshot_size rx1 = sc_snapshot_size ch" "rx_digest rx1 = sc_snapshot_digest ch"
    using rx1(4) by (simp_all add: rx_identity_def sc_identity_def)
  then have room: "unat (rx_next_offset rx1) + sc_data_length ch \<le> unat (rx_snapshot_size rx1)" using v(2) rx1(5) by simp
  obtain s2 r c where st: "receiver_store H K rx1 ch calls1 = (s2, r, c)" by (metis prod_cases3)
  have s2: "s2 = SALTS_OK" using store_ok [OF env rx1(1-3) room] st by simp
  define r1 where "r1 = r\<lparr>rx_next_offset := rx_next_offset r + of_nat (sc_data_length ch)\<rparr>"
  note store = store_spec [OF hash rx1(1-3) v(1) room st, folded r1_def, THEN conjunct1, rule_format, OF s2]
  define o2 where "o2 = o1\<lparr>rr_ack := (rr_ack o1)\<lparr>sa_next_offset := rx_next_offset r1, sa_accepted := True\<rparr>\<rparr>"
  have eq1: "(if \<not> sc_done ch then (SALTS_OK, r1, o2, c) else receiver_finish H K r1 o2 c) = (s, rx', out, calls')"
    using eq [unfolded tr_raft_snapshot_receiver_handle_def Let_def, folded o1_def, unfolded sel st prod.case, folded r1_def, folded o2_def]
      valid rx1(3,5) s2 by simp
  have o: "\<not> rr_installed o2" "\<not> rr_installed o1" by (simp_all add: o2_def o1_def tr_snapshot_receiver_prepare_ack_def)
  show ?thesis
  proof (cases "sc_done ch")
    case False
    with eq1 store rx1(4,5) o show ?thesis by (auto simp: o2_def o1_def)
  next
    case True
    have r1: "rx_next_offset r1 = rx_snapshot_size r1" "rx_digest r1 = sc_snapshot_digest ch"
      using True v(3) store rx1(4,5) sizes by (auto simp: rx_identity_def sc_identity_def intro: u64_eqI)
    obtain fin: "receiver_finish H K r1 o2 c = (s, rx', out, calls')" using eq1 True by simp
    have "continues absorbed rx ch (absorbed (rx_sha256 r1))" 
    proof -
      have "length (absorbed (rx_sha256 rx1)) = unat (sc_snapshot_offset ch)"
        using rx1(1-3,5) by (simp add: rx_inv_def rx_holding_def)
      moreover have "absorbed (rx_sha256 rx1) = [] \<or> rx_bytes absorbed rx = Some (sc_identity ch, absorbed (rx_sha256 rx1))"
        using rx1(2-4,6) by (auto simp: rx_bytes_def)
      ultimately show ?thesis using store unfolding continues_def by blast
    qed
    moreover have "length (absorbed (rx_sha256 r1)) = unat (sc_snapshot_size ch)"
      using store True v(3) rx1(5) by (auto simp: rx_inv_def rx_holding_def)
    ultimately have "D (absorbed (rx_sha256 r1)) = rx_digest r1" using dig r1(2) by simp
    then have "s = SALTS_OK" using finish_ok [OF env hash, of r1 o2 c] fin by simp
    with finish_spec [OF hash _ _ _ r1(1) o(1) fin] store True rx1(4,5) show ?thesis
      by (auto simp: o2_def o1_def)
  qed
qed

section \<open>Rounds of an exchange\<close>

text \<open>One round: the sender's next chunk, the receiver's answer to it, and the acknowledgement.\<close>

definition exchange :: "'h hash_ops \<Rightarrow> heap_alloc \<Rightarrow> sink_status \<Rightarrow> 'h transfer \<Rightarrow> 'h transfer" where
  "exchange H M K st =
     (case tr_raft_snapshot_sender_next_chunk (tf_sender st) of
        (_, tx, None) \<Rightarrow> st\<lparr>tf_sender := tx\<rparr>
      | (_, tx, Some ch) \<Rightarrow>
          (case tr_raft_snapshot_receiver_handle H M K (tf_receiver st) ch (tf_calls st) of
             (_, rx, out, calls) \<Rightarrow>
               (case tr_raft_snapshot_sender_acknowledge tx (rr_ack out) (tf_released st) of
                  (_, tx, released) \<Rightarrow>
                    \<lparr>tf_sender = tx, tf_receiver = rx, tf_calls = calls, tf_released = released,
                     tf_chunks = ch # tf_chunks st, tf_acks = rr_ack out # tf_acks st\<rparr>)))"

lemma exchange_steps: "transfer_steps H M K st (exchange H M K st)"
proof -
  obtain s tx ch where n: "tr_raft_snapshot_sender_next_chunk (tf_sender st) = (s, tx, ch)" by (metis prod_cases3)
  show ?thesis
  proof (cases ch)
    case None
    with n transfer_step.send [OF n, of H M K] show ?thesis by (simp add: exchange_def)
  next
    case (Some c)
    obtain s2 rx out calls where h: "tr_raft_snapshot_receiver_handle H M K (tf_receiver st) c (tf_calls st) = (s2, rx, out, calls)"
      by (metis prod_cases4)
    obtain s3 tx3 released where a: "tr_raft_snapshot_sender_acknowledge tx (rr_ack out) (tf_released st) = (s3, tx3, released)"
      by (metis prod_cases3)
    define st1 where "st1 = st\<lparr>tf_sender := tx, tf_chunks := c # tf_chunks st\<rparr>"
    define st2 where "st2 = st1\<lparr>tf_receiver := rx, tf_calls := calls, tf_acks := rr_ack out # tf_acks st1\<rparr>"
    have "transfer_step H M K st st1" using transfer_step.send [OF n, of H M K] Some by (simp add: st1_def)
    moreover have "transfer_step H M K st1 st2"
      unfolding st2_def by (rule transfer_step.deliver [of c]) (use h in \<open>simp_all add: st1_def\<close>)
    moreover have "transfer_step H M K st2 (st2\<lparr>tf_sender := tx3, tf_released := released\<rparr>)"
      by (rule transfer_step.acknowledge [of "rr_ack out"]) (use a in \<open>simp_all add: st2_def st1_def\<close>)
    ultimately have "transfer_steps H M K st (st2\<lparr>tf_sender := tx3, tf_released := released\<rparr>)"
      by (meson converse_rtranclp_into_rtranclp r_into_rtranclp)
    moreover have "exchange H M K st = st2\<lparr>tf_sender := tx3, tf_released := released\<rparr>"
      using n Some h a by (simp add: exchange_def st2_def st1_def)
    ultimately show ?thesis by simp
  qed
qed


section \<open>Progress of a sender\<close>

text \<open>With nothing in flight, the next chunk is the one at the acknowledged offset, and its
  acknowledgement leaves nothing in flight.\<close>

lemma next_chunk_quiet:
  assumes inv: "tx_inv tx xs" and run: "tx_active tx" "\<not> tx_complete tx" "tx_claims tx = []"
  obtains tx' c where "tr_raft_snapshot_sender_next_chunk tx = (SALTS_OK, tx', Some (source_chunk tx xs (tx_acknowledged_offset tx)))"
    and "tx_inv tx' xs" and "tx_same tx tx'" and "\<not> tx_complete tx'" and "tx_active tx'" and "tx_claims tx' = [c]"
    and "claim_end c = tx_next_offset tx'" and "tx_acknowledged_offset tx' = tx_acknowledged_offset tx"
    and "unat (tx_next_offset tx') = unat (tx_acknowledged_offset tx) + chunk_length tx (tx_acknowledged_offset tx)"
proof -
  have snd: "tx_sending tx xs" and lim: "tx_limits tx" using inv run by (simp_all add: tx_inv_def)
  then have off: "tx_next_offset tx = tx_acknowledged_offset tx" and room: "length (tx_claims tx) < tx_max_inflight_chunks tx"
    using run(3) by (auto simp: tx_sending_def tx_limits_def intro: u64_eqI)
  obtain s tx' ch where n: "tr_raft_snapshot_sender_next_chunk tx = (s, tx', ch)" by (metis prod_cases3)
  obtain tx1 ch1 where "next_chunk_claim tx = (SALTS_OK, tx1, ch1)" using claim_spec [OF lim snd room] run(3) by metis
  then have s: "s = SALTS_OK" using n run room by (simp add: tr_raft_snapshot_sender_next_chunk_def)
  note spec = next_chunk_spec [OF inv n, unfolded s, simplified]
  have tx': "tx_inv tx' xs" "tx_same tx tx'" "\<not> tx_complete tx'" "tx_active tx'" "length (tx_claims tx') = 1"
    "ch = Some (source_chunk tx xs (tx_acknowledged_offset tx))" "tx_acknowledged_offset tx' = tx_acknowledged_offset tx"
    "unat (tx_next_offset tx') = unat (tx_acknowledged_offset tx) + chunk_length tx (tx_acknowledged_offset tx)"
    using spec run(3) off by (auto simp: tx_same_def)
  then obtain c where c: "tx_claims tx' = [c]" by (auto simp: length_Suc_conv)
  have "claim_ok tx' xs c" "unat (claim_offset c) + claim_length c = unat (tx_next_offset tx')"
    using tx'(1,3,4) c by (auto simp: tx_inv_def tx_sending_def)
  then have "claim_end c = tx_next_offset tx'" using claim_end_unat by (intro u64_eqI) metis
  with that [OF n [unfolded s tx'(6)] tx'(1-4) c] tx'(7,8) show thesis by blast
qed

lemma ack_quiet:
  assumes inv: "tx_inv tx xs" and run: "tx_active tx" "\<not> tx_complete tx" "tx_claims tx = [c]"
    and c: "claim_end c = tx_next_offset tx" and own: "\<not> ack_foreign tx a" and a: "sa_accepted a" "sa_next_offset a = tx_next_offset tx"
    and eq: "tr_raft_snapshot_sender_acknowledge tx a released = (s, tx', released')"
  shows "s = SALTS_OK \<and> tx_claims tx' = [] \<and> tx_active tx' \<and> tx_acknowledged_offset tx' = tx_next_offset tx
    \<and> tx_complete tx' = (tx_next_offset tx = tx_size tx)"
proof -
  have snd: "tx_sending tx xs" and lim: "tx_limits tx" using inv run by (simp_all add: tx_inv_def)
  have "tx_acknowledged_offset tx \<le> tx_next_offset tx"
    using snd claims_cover_le by (auto simp: tx_sending_def u64_le_unat)
  moreover have "tx_next_offset tx \<noteq> tx_size tx \<longrightarrow> unat (tx_next_offset tx) mod tx_chunk_size tx = 0"
    using next_offset_aligned [OF snd lim] by blast
  ultimately show ?thesis
    using eq run c own a
    by (auto simp: tr_raft_snapshot_sender_acknowledge_def tr_raft_snapshot_sender_release_source_def Let_def split: if_splits)
qed

section \<open>Completion\<close>

text \<open>The limits of a receiver, which no operation changes.\<close>

definition rx_setup :: "'h snapshot_receiver \<Rightarrow> node_id \<times> u64 \<times> u64 \<times> bool" where
  "rx_setup rx = (rx_self_id rx, rx_max_snapshot_bytes rx, rx_max_buffered_snapshot_bytes rx, rx_streaming rx)"

lemma clear_setup: "rx_setup (fst (tr_snapshot_receiver_clear_transfer K rx calls)) = rx_setup rx"
  by (simp add: tr_snapshot_receiver_clear_transfer_def rx_setup_def)

lemma begin_setup: "rx_setup (fst (snd (receiver_begin H K rx calls))) = rx_setup rx"
  by (auto simp: receiver_begin_def tr_snapshot_receiver_clear_transfer_def sink_do_def Let_def rx_setup_def split: prod.split)

lemma start_setup: "rx_setup (fst (snd (tr_snapshot_receiver_start H M K rx ch calls))) = rx_setup rx"
  by (simp add: tr_snapshot_receiver_start_def Let_def begin_setup tr_snapshot_receiver_clear_transfer_def)
    (simp add: rx_setup_def)

lemma select_setup: "rx_setup (fst (snd (receiver_select H M K rx ch out calls))) = rx_setup rx"
  using start_setup [of H M K rx ch calls] by (auto simp: receiver_select_def split: prod.split)

lemma store_setup: "rx_setup (fst (snd (receiver_store H K rx ch calls))) = rx_setup rx"
  by (auto simp: receiver_store_def tr_snapshot_receiver_clear_transfer_def sink_do_def Let_def rx_setup_def
      split: prod.split option.split)

lemma finish_setup: "rx_setup (fst (snd (receiver_finish H K rx out calls))) = rx_setup rx"
proof -
  obtain f d h where "hash_finish H (rx_sha256 rx) = (f, d, h)" by (metis prod_cases3)
  then show ?thesis
    by (simp add: receiver_finish_def tr_snapshot_receiver_clear_transfer_def sink_do_def Let_def rx_setup_def)
qed

lemma handle_setup: "rx_setup (fst (snd (tr_raft_snapshot_receiver_handle H M K rx ch calls))) = rx_setup rx"
proof -
  obtain s1 rx1 out1 calls1 where sel: "receiver_select H M K rx ch (tr_snapshot_receiver_prepare_ack rx ch) calls = (s1, rx1, out1, calls1)"
    by (metis prod_cases4)
  obtain s2 r c where st: "receiver_store H K rx1 ch calls1 = (s2, r, c)" by (metis prod_cases3)
  have "rx_setup rx1 = rx_setup rx" using select_setup [of H M K rx ch "tr_snapshot_receiver_prepare_ack rx ch" calls] sel by simp
  moreover have "rx_setup r = rx_setup rx1" using store_setup [of H K rx1 ch calls1] st by simp
  ultimately show ?thesis
    by (simp add: tr_raft_snapshot_receiver_handle_def Let_def sel st finish_setup) (simp add: rx_setup_def)
qed

text \<open>A receiver that a transfer is meant for, with room for it.\<close>

definition transfer_fits :: "snapshot_sender \<Rightarrow> 'h snapshot_receiver \<Rightarrow> bool" where
  "transfer_fits tx rx \<longleftrightarrow>
     rx_self_id rx = sn_peer_id (tx_config tx) \<and> tx_size tx \<le> rx_max_snapshot_bytes rx
     \<and> (rx_streaming rx \<or> tx_size tx \<le> rx_max_buffered_snapshot_bytes rx)"

definition tx_header_ok :: "snapshot_sender \<Rightarrow> bool" where
  "tx_header_ok tx \<longleftrightarrow> tx_leader_term tx \<noteq> 0 \<and> tx_snapshot_index tx \<noteq> 0 \<and> tx_snapshot_term tx \<noteq> 0
     \<and> tx_snapshot_term tx \<le> tx_leader_term tx \<and> tr_raft_conf_validate (tx_configuration tx) = SALTS_OK"

lemma fits_setup: "rx_setup rx' = rx_setup rx \<Longrightarrow> tx_same tx tx' \<Longrightarrow> transfer_fits tx' rx' = transfer_fits tx rx"
  by (simp add: rx_setup_def transfer_fits_def tx_same_def)

lemma source_chunk_valid:
  assumes lim: "tx_limits tx" and hd: "tx_header_ok tx" and fit: "transfer_fits tx rx" and size: "unat (tx_size tx) = length xs"
    and off: "tx_size tx \<noteq> 0 \<longrightarrow> off < tx_size tx" "off \<le> tx_size tx"
  shows "tr_snapshot_receiver_chunk_valid rx (source_chunk tx xs off)"
proof -
  let ?n = "chunk_length tx off" and ?ch = "source_chunk tx xs off"
  have n: "unat off + ?n \<le> unat (tx_size tx)" "?n \<le> 65536" "?n = 0 \<longleftrightarrow> tx_size tx = 0"
    using lim off by (auto simp: chunk_length_def tx_limits_def u64_le_unat u64_less_unat)
  have len: "sc_data_length ?ch = ?n" using n(1) size by (simp add: source_chunk_def Let_def)
  have null: "?n \<noteq> 0 \<Longrightarrow> \<not> byte_is_null (sc_data ?ch)" by (simp add: source_chunk_def Let_def)
  have "unat (off + of_nat ?n) = unat off + ?n" using n(1) unat_plus_nat [of off ?n] unat_u64_less [of "tx_size tx"] by simp
  then have fin: "sc_done ?ch = (off + of_nat ?n = tx_size tx)"
    by (auto simp: source_chunk_def Let_def intro: u64_eqI)
  have room: "?n \<le> unat (tx_size tx - off)" using n(1) off(2) by (simp add: unat_minus_le)
  have sel: "sc_from ?ch = sn_self_id (tx_config tx)" "sc_to ?ch = sn_peer_id (tx_config tx)" "sc_term ?ch = tx_leader_term tx"
    "sc_snapshot_index ?ch = tx_snapshot_index tx" "sc_snapshot_term ?ch = tx_snapshot_term tx" "sc_snapshot_size ?ch = tx_size tx"
    "sc_snapshot_offset ?ch = off" "sc_has_configuration ?ch = (off = 0)"
    "sc_configuration ?ch = (if off = 0 then tx_configuration tx else conf_zero)"
    by (simp_all add: source_chunk_def Let_def)
  have "sc_done ?ch \<or> ?n \<noteq> 0" using fin n(3) off(2) by auto
  with len null fin room n(2) lim hd fit off(2) show ?thesis
    unfolding tr_snapshot_receiver_chunk_valid_def sel len
    by (auto simp: tx_limits_def tx_header_ok_def transfer_fits_def not_less)
qed

text \<open>Nothing is in flight, and the receiver waits for the chunk the sender would send.\<close>

definition quiet :: "'h transfer \<Rightarrow> bool" where
  "quiet st \<longleftrightarrow>
     (let tx = tf_sender st; rx = tf_receiver st
      in tx_active tx \<and> \<not> tx_complete tx \<and> tx_claims tx = []
         \<and> (if rx_active rx
            then \<not> rx_completed rx \<and> rx_identity rx = tx_identity tx \<and> rx_next_offset rx = tx_acknowledged_offset tx
            else tx_acknowledged_offset tx = 0))"

lemma transfer_steps_inv:
  assumes "hash_contract H absorbed D" and "alloc_ok M" and "unat (tx_size tx0) = length xs"
    and "transfer_steps H M K st st'" and "transfer_inv absorbed K tx0 xs st"
  shows "transfer_inv absorbed K tx0 xs st'"
  using assms(4,5) by (induction rule: rtranclp_induct) (auto intro: transfer_step_inv [OF assms(1-3)])

lemma quiet_awaits:
  assumes inv: "transfer_inv absorbed K tx0 xs st" and q: "quiet st" and fit: "transfer_fits tx0 (tf_receiver st)"
    and lim: "tx_limits tx0" and hd: "tx_header_ok tx0" and size: "unat (tx_size tx0) = length xs"
  shows "awaits (tf_receiver st) (source_chunk tx0 xs (tx_acknowledged_offset (tf_sender st)))"
proof -
  let ?tx = "tf_sender st" and ?rx = "tf_receiver st" and ?off = "tx_acknowledged_offset (tf_sender st)"
  have same: "tx_same tx0 ?tx" and tx: "tx_sending ?tx xs"
    using inv q by (auto simp: transfer_inv_def quiet_def tx_inv_def Let_def)
  have "?off \<le> tx_next_offset ?tx" using tx claims_cover_le by (auto simp: tx_sending_def u64_le_unat)
  then have off: "tx_size tx0 \<noteq> 0 \<longrightarrow> ?off < tx_size tx0" "?off \<le> tx_size tx0"
    using tx same by (auto simp: tx_sending_def tx_same_def)
  have id: "tx_identity ?tx = tx_identity tx0" using same by (simp add: tx_identity_def tx_same_def)
  have "tr_snapshot_receiver_identity_matches ?rx (source_chunk tx0 xs ?off)"
    if "rx_active ?rx" "rx_identity ?rx = tx_identity tx0"
  proof -
    have "rx_configuration ?rx = tx_configuration tx0" using inv that(1) by (auto simp: transfer_inv_def rx_of_def)
    with that(2) show ?thesis
      by (auto simp: tr_snapshot_receiver_identity_matches_def source_chunk_def rx_identity_def tx_identity_def Let_def list_all2_refl)
  qed
  with source_chunk_valid [OF lim hd fit size off] q id fit show ?thesis
    by (auto simp: awaits_def quiet_def Let_def source_chunk_sel transfer_fits_def)
qed

text \<open>One round brings one more chunk over.\<close>

lemma exchange_round:
  assumes env: "no_failure H M K" and hash: "hash_contract H absorbed D" and alloc: "alloc_ok M"
    and inv: "transfer_inv absorbed K tx0 xs st" and q: "quiet st" and fit: "transfer_fits tx0 (tf_receiver st)"
    and lim: "tx_limits tx0" and hd: "tx_header_ok tx0" and size: "unat (tx_size tx0) = length xs" and dig: "D xs = tx_digest tx0"
  defines "off \<equiv> tx_acknowledged_offset (tf_sender st)" and "st' \<equiv> exchange H M K st"
  shows "transfer_inv absorbed K tx0 xs st' \<and> transfer_fits tx0 (tf_receiver st')
    \<and> (if unat off + chunk_length tx0 off = length xs then tx_complete (tf_sender st')
       else quiet st' \<and> unat (tx_acknowledged_offset (tf_sender st')) = unat off + chunk_length tx0 off)"
proof -
  let ?tx = "tf_sender st" and ?rx = "tf_receiver st" and ?ch = "source_chunk tx0 xs off"
  have same: "tx_same tx0 ?tx" and txi: "tx_inv ?tx xs" using inv by (auto simp: transfer_inv_def)
  have run: "tx_active ?tx" "\<not> tx_complete ?tx" "tx_claims ?tx = []" using q by (auto simp: quiet_def Let_def)
  have ch: "source_chunk ?tx xs off = ?ch" and cl: "chunk_length ?tx off = chunk_length tx0 off"
    using same tx_same_chunk [OF same, of xs] by (auto simp: chunk_length_def tx_same_def)
  obtain tx1 c where n: "tr_raft_snapshot_sender_next_chunk ?tx = (SALTS_OK, tx1, Some ?ch)"
    and tx1: "tx_inv tx1 xs" "tx_same ?tx tx1" "\<not> tx_complete tx1" "tx_active tx1" "tx_claims tx1 = [c]"
      "claim_end c = tx_next_offset tx1" "tx_acknowledged_offset tx1 = off"
      "unat (tx_next_offset tx1) = unat off + chunk_length tx0 off"
    using next_chunk_quiet [OF txi run, folded off_def, unfolded ch cl] by metis
  have wait: "awaits ?rx ?ch" unfolding off_def by (rule quiet_awaits [OF inv q fit lim hd size])
  obtain s rx out calls where h: "tr_raft_snapshot_receiver_handle H M K ?rx ?ch (tf_calls st) = (s, rx, out, calls)"
    by (metis prod_cases4)
  have rxo: "rx_of absorbed K tx0 xs ?rx (tf_calls st)" using inv by (simp add: transfer_inv_def)
  have whole: "D ys = sc_snapshot_digest ?ch" if "continues absorbed ?rx ?ch ys" "length ys = unat (sc_snapshot_size ?ch)" for ys
  proof -
    have "ys = take (length ys) xs" using continues_source [OF that(1)] rxo by (simp add: rx_of_def)
    then have "ys = xs" using that(2) size by (simp add: source_chunk_sel)
    then show ?thesis using dig by (simp add: source_chunk_def Let_def)
  qed
  have "rx_inv absorbed K ?rx (tf_calls st)" using rxo by (simp add: rx_of_def)
  note hn = handle_next [OF env hash alloc this wait whole h]
  have valid: "tr_snapshot_receiver_chunk_valid ?rx ?ch" using wait by (simp add: awaits_def)
  note v = valid_chunk_bytes [OF valid, unfolded source_chunk_sel]
  have dl: "sc_data_length ?ch = chunk_length tx0 off" using v(1) size by (auto simp: chunk_length_def source_chunk_sel min_def split: if_splits)
  have nx: "rx_next_offset rx = tx_next_offset tx1"
    using hn tx1(8) dl by (intro u64_eqI) (simp add: source_chunk_sel)
  obtain s3 tx3 rel where a: "tr_raft_snapshot_sender_acknowledge tx1 (rr_ack out) (tf_released st) = (s3, tx3, rel)"
    by (metis prod_cases3)
  have "tx_same tx0 tx1" using tx_same_trans [OF same tx1(2)] .
  then have own: "\<not> ack_foreign tx1 (rr_ack out)" and sz1: "tx_size tx1 = tx_size tx0"
    using hn fit by (auto simp: ack_foreign_def tr_snapshot_receiver_prepare_ack_def tx_same_def transfer_fits_def
        source_chunk_def Let_def)
  have acc: "sa_accepted (rr_ack out)" "sa_next_offset (rr_ack out) = tx_next_offset tx1" using hn nx by auto
  note aq = ack_quiet [OF tx1(1) tx1(4,3,5,6) own acc a]
  have st': "tf_sender st' = tx3" "tf_receiver st' = rx" using n h a by (simp_all add: st'_def exchange_def)
  have inv': "transfer_inv absorbed K tx0 xs st'"
    unfolding st'_def by (rule transfer_steps_inv [OF hash alloc size exchange_steps inv])
  have "rx_setup rx = rx_setup ?rx" using handle_setup [of H M K ?rx ?ch "tf_calls st"] h by simp
  then have fit': "transfer_fits tx0 rx" using fit fits_setup [of rx ?rx tx0 tx0] by simp
  have id: "rx_identity rx = tx_identity tx3"
    using hn inv' st'(1) by (auto simp: transfer_inv_def tx_same_def tx_identity_def source_chunk_sel)
  have comp: "tx_next_offset tx1 = tx_size tx1 \<longleftrightarrow> unat off + chunk_length tx0 off = length xs"
    using tx1(8) size sz1 by (auto intro: u64_eqI)
  have fin: "sc_done ?ch \<longleftrightarrow> unat off + chunk_length tx0 off = length xs" using v(3) dl size by (simp add: source_chunk_sel)
  show ?thesis
    using inv' fit' st' aq comp fin hn nx id tx1(8) by (auto simp: quiet_def Let_def)
qed

lemma exchange_rounds:
  assumes env: "no_failure H M K" and hash: "hash_contract H absorbed D" and alloc: "alloc_ok M"
    and lim: "tx_limits tx0" and hd: "tx_header_ok tx0" and size: "unat (tx_size tx0) = length xs" and dig: "D xs = tx_digest tx0"
    and "transfer_inv absorbed K tx0 xs st" and "quiet st" and "transfer_fits tx0 (tf_receiver st)"
    and "length xs - unat (tx_acknowledged_offset (tf_sender st)) \<le> Suc n * tx_chunk_size tx0"
    and "n = 0 \<or> n * tx_chunk_size tx0 < length xs - unat (tx_acknowledged_offset (tf_sender st))"
  shows "tx_complete (tf_sender ((exchange H M K ^^ Suc n) st))"
  using assms(8-12)
proof (induction n arbitrary: st)
  case 0
  let ?off = "tx_acknowledged_offset (tf_sender st)"
  have "tx_sending (tf_sender st) xs" and same: "tx_same tx0 (tf_sender st)"
    using 0(1,2) by (auto simp: transfer_inv_def quiet_def tx_inv_def Let_def)
  then have "unat ?off \<le> length xs"
    using claims_cover_le size by (fastforce simp: tx_sending_def u64_le_unat tx_same_def)
  then have "unat ?off + chunk_length tx0 ?off = length xs" using 0(4) size by (simp add: chunk_length_def)
  with exchange_round [OF env hash alloc 0(1-3) lim hd size dig] show ?case by simp
next
  case (Suc n)
  let ?off = "tx_acknowledged_offset (tf_sender st)"
  have full: "chunk_length tx0 ?off = tx_chunk_size tx0" using Suc.prems(5) size by (simp add: chunk_length_def min_def)
  show ?case
  proof (cases "unat ?off + tx_chunk_size tx0 = length xs")
    case True
    then have "Suc n * tx_chunk_size tx0 < tx_chunk_size tx0" using Suc.prems(5) by auto
    then show ?thesis by simp
  next
    case False
    with exchange_round [OF env hash alloc Suc.prems(1-3) lim hd size dig] full
    have r: "transfer_inv absorbed K tx0 xs (exchange H M K st)" "quiet (exchange H M K st)"
      "transfer_fits tx0 (tf_receiver (exchange H M K st))"
      "unat (tx_acknowledged_offset (tf_sender (exchange H M K st))) = unat ?off + tx_chunk_size tx0"
      by auto
    have "tx_complete (tf_sender ((exchange H M K ^^ Suc n) (exchange H M K st)))"
      by (rule Suc.IH [OF r(1-3)]) (use r(4) Suc.prems(4,5) in auto)
    then show ?thesis by (simp add: funpow_swap1)
  qed
qed

text \<open>The number of rounds of a snapshot.\<close>

definition chunk_rounds :: "nat \<Rightarrow> nat \<Rightarrow> nat" where
  "chunk_rounds cs n = Suc ((n - 1) div cs)"

lemma chunk_rounds_bounds:
  assumes "0 < cs"
  shows "n \<le> Suc ((n - 1) div cs) * cs" and "(n - 1) div cs = 0 \<or> (n - 1) div cs * cs < n"
proof -
  let ?q = "(n - 1) div cs"
  have e: "?q * cs + (n - 1) mod cs = n - 1" and m: "(n - 1) mod cs < cs" using assms by simp_all
  show "n \<le> Suc ?q * cs" unfolding mult_Suc using e m by linarith
  show "?q = 0 \<or> ?q * cs < n" using e by (cases "n = 0") (simp, linarith)
qed

lemma transfer_run_complete:
  assumes env: "no_failure H M K" and hash: "hash_contract H absorbed D" and alloc: "alloc_ok M"
    and src: "source_reads source xs" and dig: "src_digest source = D xs"
    and start: "transfer_start source st0" and fit: "transfer_fits (tf_sender st0) (tf_receiver st0)"
  defines "st \<equiv> (exchange H M K ^^ chunk_rounds (tx_chunk_size (tf_sender st0)) (length xs)) st0"
  shows "tx_complete (tf_sender st)
    \<and> set (sink_visible (sink_after K (tf_calls st))) = {tx_image (tf_sender st0) xs}"
proof -
  let ?tx = "tf_sender st0" and ?n = "(length xs - 1) div tx_chunk_size (tf_sender st0)"
  note s = transfer_start_inv [OF start src, of absorbed K]
  have tx: "tx_inv ?tx xs" using s by (simp add: transfer_inv_def)
  have q: "quiet st0 \<and> tx_header_ok ?tx \<and> tx_digest ?tx = src_digest source \<and> tx_acknowledged_offset ?tx = 0"
    using start
  proof cases
    case (1 M ok config tx0 lt i t c tx released sha ok' config' rx)
    have "tx_inv tx0 []" using create_tx_inv 1(2,3) by blast
    note b = begin_source_inv [OF this src 1(4)]
    have "\<not> rx_active rx" using 1(5) by (auto simp: tr_raft_snapshot_receiver_create_def split: if_splits prod.splits)
    with b 1(1) show ?thesis by (auto simp: quiet_def tx_header_ok_def Let_def)
  qed
  have lim: "tx_limits ?tx" using tx by (simp add: tx_inv_def)
  then have "0 < tx_chunk_size ?tx" by (simp add: tx_limits_def)
  note b = chunk_rounds_bounds [OF this, of "length xs"]
  have comp: "tx_complete (tf_sender st)"
    unfolding st_def chunk_rounds_def
    by (rule exchange_rounds [OF env hash alloc lim _ _ _ conjunct1 [OF s] _ fit]) (use q s b dig in auto)
  have "transfer_steps H M K st0 ((exchange H M K ^^ n) st0)" for n
    by (induction n) (auto intro: rtranclp_trans exchange_steps)
  then have "transfer_inv absorbed K ?tx xs st"
    using transfer_steps_inv [OF hash alloc conjunct2 [OF s] _ conjunct1 [OF s]] by (simp add: st_def)
  then have "set (sink_visible (sink_after K (tf_calls st))) \<subseteq> {tx_image ?tx xs}" "sink_visible (sink_after K (tf_calls st)) \<noteq> []"
    using comp by (auto simp: transfer_inv_def rx_of_def)
  then have "set (sink_visible (sink_after K (tf_calls st))) = {tx_image ?tx xs}"
    by (cases "sink_visible (sink_after K (tf_calls st))") auto
  with comp show ?thesis by blast
qed

end
