(* ===== verification/Raft_Snapshot_Peer.thy ===== *)
theory Raft_Snapshot_Peer
  imports Raft_Core_API Raft_Snapshot_Sender
begin

text \<open>
  The sending side of the service (\<open>service/raft_snapshot_coordinator.c\<close>, \<open>service/raft_snapshot_peer.c\<close>):
  a coordinator keeps the window of a sender full, a peer wraps its chunks into transport payloads.
  The callback that takes the chunks is a function on a state of its own.
\<close>

section \<open>Payloads\<close>

record data_chunk =
  dc_from :: node_id
  dc_to :: node_id
  dc_term :: raft_term
  dc_stream_id :: u64
  dc_stream_offset :: u64
  dc_stream_size :: u64
  dc_stream_digest :: digest
  dc_data :: byte_array
  dc_done :: bool

record data_ack =
  da_from :: node_id
  da_to :: node_id
  da_term :: raft_term
  da_stream_id :: u64
  da_stream_size :: u64
  da_next_offset :: u64
  da_stream_digest :: digest
  da_accepted :: bool
  da_durable :: bool

text \<open>The kind of a payload and the member of its union.\<close>

datatype payload_data =
    TR_RAFT_WIRE_PAYLOAD_RAFT message
  | TR_RAFT_WIRE_PAYLOAD_SNAPSHOT_CHUNK snapshot_chunk
  | TR_RAFT_WIRE_PAYLOAD_SNAPSHOT_ACK snapshot_ack
  | TR_RAFT_WIRE_PAYLOAD_DATA_CHUNK data_chunk
  | TR_RAFT_WIRE_PAYLOAD_DATA_ACK data_ack

record transport_payload =
  tp_group_id :: u64
  tp_data :: payload_data

section \<open>The coordinator\<close>

type_synonym 's emit_fn = "'s \<Rightarrow> snapshot_chunk \<Rightarrow> salts_status \<times> 's"

record coordinator_config =
  cc_self_id :: node_id
  cc_peer_id :: node_id
  cc_max_snapshot_bytes :: u64
  cc_chunk_size :: nat
  cc_max_inflight_chunks :: nat
  cc_emit :: bool

record snapshot_coordinator =
  co_sender :: snapshot_sender

lemma claim_grows:
  assumes "next_chunk_claim tx = (SALTS_OK, tx', ch)"
  shows "length (tx_claims tx') = Suc (length (tx_claims tx)) \<and> tx_max_inflight_chunks tx' = tx_max_inflight_chunks tx"
  using assms
  by (auto simp: next_chunk_claim_def Let_def tr_raft_snapshot_sender_find_free_slot_def split: if_splits option.splits prod.splits sum.splits)

lemma next_chunk_grows:
  assumes "tr_raft_snapshot_sender_next_chunk tx = (SALTS_OK, tx', ch)"
    and "length (tx_claims tx') < tx_max_inflight_chunks tx'"
  shows "tx_max_inflight_chunks tx' - length (tx_claims tx') < tx_max_inflight_chunks tx - length (tx_claims tx)"
  using assms claim_grows [of tx tx' ch]
  by (auto simp: tr_raft_snapshot_sender_next_chunk_def split: if_splits)

function tr_snapshot_coordinator_fill_window ::
    "'s emit_fn \<Rightarrow> snapshot_sender \<Rightarrow> 's \<Rightarrow> salts_status \<times> snapshot_sender \<times> 's" where
  "tr_snapshot_coordinator_fill_window emit sender s =
     (case tr_raft_snapshot_sender_next_chunk sender of
        (result, sender, None) \<Rightarrow> (if result = SALTS_EBUSY then SALTS_OK else result, sender, s)
      | (result, sender, Some chunk) \<Rightarrow>
          if result = SALTS_EBUSY then (SALTS_OK, sender, s)
          else if result \<noteq> SALTS_OK then (result, sender, s)
          else case emit s chunk of
            (result, s) \<Rightarrow>
              if result \<noteq> SALTS_OK
              then case tr_raft_snapshot_sender_cancel_chunk sender (sc_snapshot_offset chunk) of
                     (cancel_result, sender) \<Rightarrow> (if cancel_result = SALTS_OK then result else cancel_result, sender, s)
              else let status = tr_raft_snapshot_sender_get_status sender
                   in if ss_inflight_chunks status \<ge> ss_max_inflight_chunks status then (SALTS_OK, sender, s)
                      else tr_snapshot_coordinator_fill_window emit sender s)"
  by pat_completeness auto

termination
  by (relation "measure (\<lambda>(_, tx, _). tx_max_inflight_chunks tx - length (tx_claims tx))")
    (auto simp: tr_raft_snapshot_sender_get_status_def intro!: next_chunk_grows [OF sym])

declare tr_snapshot_coordinator_fill_window.simps [simp del]

definition tr_raft_snapshot_coordinator_create ::
    "heap_alloc \<Rightarrow> bool \<Rightarrow> bool \<Rightarrow> coordinator_config \<Rightarrow> salts_status + snapshot_coordinator" where
  "tr_raft_snapshot_coordinator_create M calloc_ok sender_ok config =
     (if \<not> cc_emit config then Inl SALTS_EINVAL
      else if \<not> calloc_ok then Inl SALTS_ENOMEM
      else case tr_raft_snapshot_sender_create M sender_ok
                  \<lparr>sn_self_id = cc_self_id config, sn_peer_id = cc_peer_id config,
                   sn_max_snapshot_bytes = cc_max_snapshot_bytes config, sn_chunk_size = cc_chunk_size config,
                   sn_max_inflight_chunks = cc_max_inflight_chunks config\<rparr> of
             Inl result \<Rightarrow> Inl result
           | Inr sender \<Rightarrow> Inr \<lparr>co_sender = sender\<rparr>)"

definition tr_raft_snapshot_coordinator_destroy ::
    "snapshot_coordinator \<Rightarrow> snapshot_source list \<Rightarrow> snapshot_source list" where
  "tr_raft_snapshot_coordinator_destroy coordinator released =
     tr_raft_snapshot_sender_destroy (co_sender coordinator) released"

definition coordinator_fill ::
    "'s emit_fn \<Rightarrow> snapshot_sender \<Rightarrow> snapshot_source list \<Rightarrow> 's
       \<Rightarrow> salts_status \<times> snapshot_coordinator \<times> snapshot_source list \<times> 's" where
  "coordinator_fill emit sender released s =
     (case tr_snapshot_coordinator_fill_window emit sender s of
        (result, sender, s) \<Rightarrow> (result, \<lparr>co_sender = sender\<rparr>, released, s))"

definition tr_raft_snapshot_coordinator_begin ::
    "'s emit_fn \<Rightarrow> (u8 list \<Rightarrow> salts_status \<times> digest) \<Rightarrow> bool \<Rightarrow> snapshot_coordinator \<Rightarrow> raft_term \<Rightarrow> raft_index \<Rightarrow> raft_term
       \<Rightarrow> conf \<Rightarrow> byte_array \<Rightarrow> snapshot_source list \<Rightarrow> 's \<Rightarrow> salts_status \<times> snapshot_coordinator \<times> snapshot_source list \<times> 's" where
  "tr_raft_snapshot_coordinator_begin emit sha256 memory_ok coordinator leader_term snapshot_index snapshot_term configuration
       data released s =
     (case tr_raft_snapshot_sender_begin sha256 memory_ok (co_sender coordinator) leader_term snapshot_index snapshot_term
             configuration data released of
        (result, sender, released) \<Rightarrow>
          if result \<noteq> SALTS_OK then (result, coordinator\<lparr>co_sender := sender\<rparr>, released, s)
          else coordinator_fill emit sender released s)"

definition tr_raft_snapshot_coordinator_begin_source ::
    "'s emit_fn \<Rightarrow> snapshot_coordinator \<Rightarrow> raft_term \<Rightarrow> raft_index \<Rightarrow> raft_term \<Rightarrow> conf \<Rightarrow> snapshot_source
       \<Rightarrow> snapshot_source list \<Rightarrow> 's \<Rightarrow> salts_status \<times> snapshot_coordinator \<times> snapshot_source list \<times> 's" where
  "tr_raft_snapshot_coordinator_begin_source emit coordinator leader_term snapshot_index snapshot_term configuration source
       released s =
     (case tr_raft_snapshot_sender_begin_source (co_sender coordinator) leader_term snapshot_index snapshot_term configuration
             source released of
        (result, sender, released) \<Rightarrow>
          if result \<noteq> SALTS_OK
          then (result, coordinator\<lparr>co_sender := sender\<rparr>, if src_release source then released @ [source] else released, s)
          else coordinator_fill emit sender released s)"

definition tr_raft_snapshot_coordinator_handle_ack ::
    "'s emit_fn \<Rightarrow> snapshot_coordinator \<Rightarrow> snapshot_ack \<Rightarrow> snapshot_source list \<Rightarrow> 's
       \<Rightarrow> salts_status \<times> snapshot_coordinator \<times> snapshot_source list \<times> 's" where
  "tr_raft_snapshot_coordinator_handle_ack emit coordinator ack released s =
     (case tr_raft_snapshot_sender_acknowledge (co_sender coordinator) ack released of
        (result, sender, released) \<Rightarrow>
          if result \<noteq> SALTS_OK then (result, coordinator\<lparr>co_sender := sender\<rparr>, released, s)
          else if ss_complete (tr_raft_snapshot_sender_get_status sender)
          then (SALTS_OK, coordinator\<lparr>co_sender := sender\<rparr>, released, s)
          else coordinator_fill emit sender released s)"

definition tr_raft_snapshot_coordinator_resume ::
    "'s emit_fn \<Rightarrow> snapshot_coordinator \<Rightarrow> snapshot_source list \<Rightarrow> 's
       \<Rightarrow> salts_status \<times> snapshot_coordinator \<times> snapshot_source list \<times> 's" where
  "tr_raft_snapshot_coordinator_resume emit coordinator released s =
     (case tr_raft_snapshot_sender_prepare_resume (co_sender coordinator) of
        (result, sender) \<Rightarrow>
          if result = SALTS_OK then coordinator_fill emit sender released s
          else (result, coordinator\<lparr>co_sender := sender\<rparr>, released, s))"

definition tr_raft_snapshot_coordinator_get_status :: "snapshot_coordinator \<Rightarrow> sender_status" where
  "tr_raft_snapshot_coordinator_get_status coordinator = tr_raft_snapshot_sender_get_status (co_sender coordinator)"

section \<open>The peer\<close>

type_synonym 's enqueue_fn = "'s \<Rightarrow> transport_payload \<Rightarrow> salts_status \<times> 's"

record peer_config =
  pc_self_id :: node_id
  pc_peer_id :: node_id
  pc_group_id :: u64
  pc_max_snapshot_bytes :: u64
  pc_chunk_size :: nat
  pc_max_inflight_chunks :: nat
  pc_enqueue :: bool

record snapshot_peer =
  sp_coordinator :: snapshot_coordinator
  sp_group_id :: u64

definition tr_snapshot_peer_emit :: "'s enqueue_fn \<Rightarrow> u64 \<Rightarrow> 's emit_fn" where
  "tr_snapshot_peer_emit enqueue group_id s chunk =
     enqueue s \<lparr>tp_group_id = group_id, tp_data = TR_RAFT_WIRE_PAYLOAD_SNAPSHOT_CHUNK chunk\<rparr>"

definition tr_raft_snapshot_peer_create ::
    "heap_alloc \<Rightarrow> bool \<Rightarrow> bool \<Rightarrow> bool \<Rightarrow> peer_config \<Rightarrow> salts_status + snapshot_peer" where
  "tr_raft_snapshot_peer_create M calloc_ok coordinator_ok sender_ok config =
     (if \<not> pc_enqueue config \<or> pc_group_id config = 0 then Inl SALTS_EINVAL
      else if \<not> calloc_ok then Inl SALTS_ENOMEM
      else case tr_raft_snapshot_coordinator_create M coordinator_ok sender_ok
                  \<lparr>cc_self_id = pc_self_id config, cc_peer_id = pc_peer_id config,
                   cc_max_snapshot_bytes = pc_max_snapshot_bytes config, cc_chunk_size = pc_chunk_size config,
                   cc_max_inflight_chunks = pc_max_inflight_chunks config, cc_emit = True\<rparr> of
             Inl result \<Rightarrow> Inl result
           | Inr coordinator \<Rightarrow> Inr \<lparr>sp_coordinator = coordinator, sp_group_id = pc_group_id config\<rparr>)"

definition tr_raft_snapshot_peer_destroy :: "snapshot_peer \<Rightarrow> snapshot_source list \<Rightarrow> snapshot_source list" where
  "tr_raft_snapshot_peer_destroy peer released = tr_raft_snapshot_coordinator_destroy (sp_coordinator peer) released"

definition tr_raft_snapshot_peer_begin ::
    "'s enqueue_fn \<Rightarrow> (u8 list \<Rightarrow> salts_status \<times> digest) \<Rightarrow> bool \<Rightarrow> snapshot_peer \<Rightarrow> raft_term \<Rightarrow> raft_index \<Rightarrow> raft_term
       \<Rightarrow> conf \<Rightarrow> byte_array \<Rightarrow> snapshot_source list \<Rightarrow> 's \<Rightarrow> salts_status \<times> snapshot_peer \<times> snapshot_source list \<times> 's" where
  "tr_raft_snapshot_peer_begin enqueue sha256 memory_ok peer leader_term snapshot_index snapshot_term configuration data released s =
     (case tr_raft_snapshot_coordinator_begin (tr_snapshot_peer_emit enqueue (sp_group_id peer)) sha256 memory_ok
             (sp_coordinator peer) leader_term snapshot_index snapshot_term configuration data released s of
        (result, coordinator, released, s) \<Rightarrow> (result, peer\<lparr>sp_coordinator := coordinator\<rparr>, released, s))"

definition tr_raft_snapshot_peer_begin_source ::
    "'s enqueue_fn \<Rightarrow> snapshot_peer \<Rightarrow> raft_term \<Rightarrow> raft_index \<Rightarrow> raft_term \<Rightarrow> conf \<Rightarrow> snapshot_source
       \<Rightarrow> snapshot_source list \<Rightarrow> 's \<Rightarrow> salts_status \<times> snapshot_peer \<times> snapshot_source list \<times> 's" where
  "tr_raft_snapshot_peer_begin_source enqueue peer leader_term snapshot_index snapshot_term configuration source released s =
     (case tr_raft_snapshot_coordinator_begin_source (tr_snapshot_peer_emit enqueue (sp_group_id peer))
             (sp_coordinator peer) leader_term snapshot_index snapshot_term configuration source released s of
        (result, coordinator, released, s) \<Rightarrow> (result, peer\<lparr>sp_coordinator := coordinator\<rparr>, released, s))"

definition tr_raft_snapshot_peer_handle_payload ::
    "'s enqueue_fn \<Rightarrow> snapshot_peer \<Rightarrow> transport_payload \<Rightarrow> snapshot_source list \<Rightarrow> 's
       \<Rightarrow> salts_status \<times> snapshot_peer \<times> snapshot_source list \<times> 's" where
  "tr_raft_snapshot_peer_handle_payload enqueue peer payload released s =
     (if tp_group_id payload \<noteq> sp_group_id peer then (SALTS_EPROTO, peer, released, s)
      else case tp_data payload of
        TR_RAFT_WIRE_PAYLOAD_SNAPSHOT_ACK ack \<Rightarrow>
          (case tr_raft_snapshot_coordinator_handle_ack (tr_snapshot_peer_emit enqueue (sp_group_id peer))
                  (sp_coordinator peer) ack released s of
             (result, coordinator, released, s) \<Rightarrow> (result, peer\<lparr>sp_coordinator := coordinator\<rparr>, released, s))
      | _ \<Rightarrow> (SALTS_EPROTO, peer, released, s))"

definition tr_raft_snapshot_peer_resume ::
    "'s enqueue_fn \<Rightarrow> snapshot_peer \<Rightarrow> snapshot_source list \<Rightarrow> 's
       \<Rightarrow> salts_status \<times> snapshot_peer \<times> snapshot_source list \<times> 's" where
  "tr_raft_snapshot_peer_resume enqueue peer released s =
     (case tr_raft_snapshot_coordinator_resume (tr_snapshot_peer_emit enqueue (sp_group_id peer)) (sp_coordinator peer) released s of
        (result, coordinator, released, s) \<Rightarrow> (result, peer\<lparr>sp_coordinator := coordinator\<rparr>, released, s))"

definition tr_raft_snapshot_peer_get_status :: "snapshot_peer \<Rightarrow> sender_status" where
  "tr_raft_snapshot_peer_get_status peer = tr_raft_snapshot_coordinator_get_status (sp_coordinator peer)"

section \<open>Filling the window\<close>

text \<open>Whatever the callback does, filling the window keeps the transfer.\<close>

lemma fill_window_keeps:
  assumes "tx_inv tx xs" and "tr_snapshot_coordinator_fill_window emit tx s = (r, tx', s')"
  shows "tx_inv tx' xs \<and> tx_same tx tx' \<and> tx_complete tx' = tx_complete tx
    \<and> tx_acknowledged_offset tx' = tx_acknowledged_offset tx"
  using assms
proof (induction emit tx s arbitrary: r tx' s' rule: tr_snapshot_coordinator_fill_window.induct)
  case (1 emit tx s)
  obtain r1 tx1 ch where n: "tr_raft_snapshot_sender_next_chunk tx = (r1, tx1, ch)" by (metis prod_cases3)
  have k1: "tx_inv tx1 xs \<and> tx_same tx tx1 \<and> tx_complete tx1 = tx_complete tx
    \<and> tx_acknowledged_offset tx1 = tx_acknowledged_offset tx"
    using next_chunk_spec [OF 1(2) n] 1(2) by auto
  show ?case
  proof (cases "r1 = SALTS_OK \<and> ch \<noteq> None")
    case False
    with n 1(3) k1 show ?thesis
      by (auto simp: tr_snapshot_coordinator_fill_window.simps [of emit tx s] split: option.splits if_splits)
  next
    case True
    then obtain c where c: "ch = Some c" by auto
    obtain r2 s2 where e: "emit s c = (r2, s2)" by fastforce
    obtain r3 tx3 where k: "tr_raft_snapshot_sender_cancel_chunk tx1 (sc_snapshot_offset c) = (r3, tx3)" by fastforce
    note def = tr_snapshot_coordinator_fill_window.simps [of emit tx s]
    show ?thesis
    proof (cases "r2 = SALTS_OK")
      case False
      then have "tx' = tx3" using 1(3) n True c e k by (simp add: def)
      with cancel_spec [OF _ k, of xs] k1 show ?thesis by (auto simp: tx_same_def)
    next
      case ok: True
      show ?thesis
      proof (cases "length (tx_claims tx1) \<ge> tx_max_inflight_chunks tx1")
        case full: True
        then have "tx' = tx1" using 1(3) n True c e ok by (simp add: def tr_raft_snapshot_sender_get_status_def)
        with k1 show ?thesis by simp
      next
        case room: False
        then have "tr_snapshot_coordinator_fill_window emit tx1 s2 = (r, tx', s')"
          using 1(3) n True c e ok by (simp add: def tr_raft_snapshot_sender_get_status_def)
        then have "tx_inv tx' xs \<and> tx_same tx1 tx' \<and> tx_complete tx' = tx_complete tx1
            \<and> tx_acknowledged_offset tx' = tx_acknowledged_offset tx1"
          using 1(1) [of r1 _ tx1 ch c r2 s2] n True c e ok room k1
          by (auto simp: tr_raft_snapshot_sender_get_status_def)
        with k1 show ?thesis by (auto simp: tx_same_def)
      qed
    qed
  qed
qed

text \<open>With a callback that takes every chunk, the window is filled with the next chunks of the contents.\<close>

definition window_offsets :: "snapshot_sender \<Rightarrow> u64 \<Rightarrow> nat \<Rightarrow> u64 list" where
  "window_offsets tx off n = map (\<lambda>i. off + of_nat (i * tx_chunk_size tx)) [0..<n]"

lemma window_offsets_Suc: "window_offsets tx off (Suc n) = off # window_offsets tx (off + of_nat (tx_chunk_size tx)) n"
  by (simp add: window_offsets_def map_Suc_upt [symmetric] upt_conv_Cons comp_def algebra_simps del: upt_Suc)

lemma fill_window_end:
  assumes "tx_next_offset tx = tx_size tx" and "tx_claims tx \<noteq> []" and "length (tx_claims tx) < tx_max_inflight_chunks tx"
  shows "tr_snapshot_coordinator_fill_window emit tx s = (SALTS_OK, tx, s)"
  using assms by (simp add: tr_snapshot_coordinator_fill_window.simps [of emit tx s] tr_raft_snapshot_sender_next_chunk_def)

lemma fill_window_run:
  assumes "tx_inv tx xs" and "tx_active tx" and "\<not> tx_complete tx" and "length (tx_claims tx) < tx_max_inflight_chunks tx"
    and "tr_snapshot_coordinator_fill_window (\<lambda>sent ch. (SALTS_OK, sent @ [ch])) tx sent = (r, tx', sent')"
  shows "\<exists>n. r = SALTS_OK \<and> sent' = sent @ map (source_chunk tx xs) (window_offsets tx (tx_next_offset tx) n)
    \<and> (length (tx_claims tx') = tx_max_inflight_chunks tx \<or> tx_next_offset tx' = tx_size tx)
    \<and> length (tx_claims tx') = length (tx_claims tx) + n"
  using assms
proof (induction "\<lambda>(sent :: snapshot_chunk list) ch. (SALTS_OK, sent @ [ch])" tx sent
    arbitrary: r tx' sent' rule: tr_snapshot_coordinator_fill_window.induct)
  case (1 tx sent)
  let ?emit = "\<lambda>(sent :: snapshot_chunk list) ch. (SALTS_OK, sent @ [ch])"
  note def = tr_snapshot_coordinator_fill_window.simps [of ?emit tx sent]
  have snd: "tx_sending tx xs" and lim: "tx_limits tx" using 1(2-4) by (simp_all add: tx_inv_def)
  show ?case
  proof (cases "tx_next_offset tx = tx_size tx \<and> tx_claims tx \<noteq> []")
    case True
    then have "tr_raft_snapshot_sender_next_chunk tx = (SALTS_EBUSY, tx, None)"
      using 1(3-5) by (auto simp: tr_raft_snapshot_sender_next_chunk_def)
    with True 1(6) show ?thesis by (intro exI [of _ 0]) (simp add: def window_offsets_def)
  next
    case False
    then obtain tx1 where k: "next_chunk_claim tx = (SALTS_OK, tx1, Some (source_chunk tx xs (tx_next_offset tx)))"
      using claim_spec [OF lim snd 1(5)] by metis
    then have n: "tr_raft_snapshot_sender_next_chunk tx = (SALTS_OK, tx1, Some (source_chunk tx xs (tx_next_offset tx)))"
      using 1(3-5) False by (auto simp: tr_raft_snapshot_sender_next_chunk_def)
    have len: "length (tx_claims tx1) = Suc (length (tx_claims tx))" using claim_grows [OF k] by simp
    with next_chunk_spec [OF 1(2) n] have spec: "tx_inv tx1 xs" "tx_same tx tx1" "\<not> tx_complete tx1"
      "unat (tx_next_offset tx1) = unat (tx_next_offset tx) + chunk_length tx (tx_next_offset tx)"
      by auto
    have same: "tx_max_inflight_chunks tx1 = tx_max_inflight_chunks tx" "tx_size tx1 = tx_size tx" "tx_active tx1"
      "tx_chunk_size tx1 = tx_chunk_size tx" "source_chunk tx1 xs = source_chunk tx xs"
      using spec(2) 1(3) tx_same_chunk [OF spec(2), of xs] by (auto simp: tx_same_def)
    define sent1 where "sent1 = sent @ [source_chunk tx xs (tx_next_offset tx)]"
    show ?thesis
    proof (cases "length (tx_claims tx1) \<ge> tx_max_inflight_chunks tx1")
      case True
      then have "r = SALTS_OK" "tx' = tx1" "sent' = sent1"
        using 1(6) n by (simp_all add: def tr_raft_snapshot_sender_get_status_def sent1_def)
      with True len same 1(5) show ?thesis
        by (intro exI [of _ 1]) (simp add: sent1_def window_offsets_def)
    next
      case room: False
      then have f: "tr_snapshot_coordinator_fill_window ?emit tx1 sent1 = (r, tx', sent')"
        using 1(6) n by (simp add: def tr_raft_snapshot_sender_get_status_def sent1_def)
      have IH: "\<exists>n. r = SALTS_OK \<and> sent' = sent1 @ map (source_chunk tx1 xs) (window_offsets tx1 (tx_next_offset tx1) n)
          \<and> (length (tx_claims tx') = tx_max_inflight_chunks tx1 \<or> tx_next_offset tx' = tx_size tx1)
          \<and> length (tx_claims tx') = length (tx_claims tx1) + n"
        using 1(1) [of SALTS_OK _ tx1 _ _ SALTS_OK sent1] n room f spec(1,3) same(3)
        by (auto simp: tr_raft_snapshot_sender_get_status_def sent1_def)
      then obtain m where m: "r = SALTS_OK" "sent' = sent1 @ map (source_chunk tx xs) (window_offsets tx (tx_next_offset tx1) m)"
        "length (tx_claims tx') = tx_max_inflight_chunks tx \<or> tx_next_offset tx' = tx_size tx"
        "length (tx_claims tx') = length (tx_claims tx) + Suc m"
        using same len by (auto simp: window_offsets_def)
      have "m = 0 \<or> tx_next_offset tx1 = tx_next_offset tx + of_nat (tx_chunk_size tx)"
      proof (cases "tx_next_offset tx1 = tx_size tx1")
        case True
        then have "tx' = tx1" using f fill_window_end [of tx1 ?emit sent1] len room by (cases "tx_claims tx1") auto
        with m(4) len show ?thesis by simp
      next
        case False
        then have "chunk_length tx (tx_next_offset tx) = tx_chunk_size tx"
          using spec(4) same(2) snd by (auto simp: chunk_length_def tx_sending_def u64_le_unat intro: u64_eqI)
        then have "tx_next_offset tx1 = tx_next_offset tx + of_nat (tx_chunk_size tx)"
          using spec(4) unat_plus_nat [of "tx_next_offset tx" "tx_chunk_size tx"] unat_u64_less [of "tx_next_offset tx1"]
          by (intro u64_eqI) simp
        then show ?thesis ..
      qed
      then have "window_offsets tx (tx_next_offset tx) (Suc m) = tx_next_offset tx # window_offsets tx (tx_next_offset tx1) m"
        by (elim disjE) (simp add: window_offsets_def, simp add: window_offsets_Suc)
      with m show ?thesis by (intro exI [of _ "Suc m"]) (simp add: sent1_def)
    qed
  qed
qed

end
