(* ===== verification/Raft_Snapshot_Manager.thy ===== *)
theory Raft_Snapshot_Manager
  imports Raft_Snapshot_Peer
begin

text \<open>
  The snapshot manager of a leader (\<open>service/raft_snapshot_manager.c\<close>), one sending peer for each other
  member, and the installer of a follower (\<open>service/raft_snapshot_installer.c\<close>). Their callbacks are
  functions on a state of their own.
\<close>

section \<open>The manager\<close>

text \<open>The source provider gives a status, a point and a source; the buffer provider gives a status, a point,
  the bytes it wrote into the buffer and the size it reports.\<close>

record 's manager_config =
  mc_self_id :: node_id
  mc_group_id :: u64
  mc_peer_node_ids :: "node_id list"
  mc_max_snapshot_bytes :: u64
  mc_max_buffered_snapshot_bytes :: u64
  mc_snapshot_chunk_size :: nat
  mc_snapshot_max_inflight_chunks :: nat
  mc_enqueue :: "'s enqueue_fn option"
  mc_source_provider :: "('s \<Rightarrow> raft_index \<Rightarrow> raft_term \<Rightarrow> salts_status \<times> snapshot_point \<times> snapshot_source \<times> 's) option"
  mc_provider :: "('s \<Rightarrow> raft_index \<Rightarrow> raft_term \<Rightarrow> nat \<Rightarrow> salts_status \<times> snapshot_point \<times> u8 list \<times> nat \<times> 's) option"
  mc_complete :: "('s \<Rightarrow> node_id \<Rightarrow> raft_index \<Rightarrow> salts_status \<times> 's) option"

record 's snapshot_manager =
  sm_self_id :: node_id
  sm_group_id :: u64
  sm_peer_node_ids :: "node_id list"
  sm_peers :: "snapshot_peer list"
  sm_enqueue :: "'s enqueue_fn option"
  sm_max_snapshot_bytes :: u64
  sm_max_buffered_snapshot_bytes :: nat
  sm_snapshot_buffer :: "u8 list option"
  sm_source_provider :: "('s \<Rightarrow> raft_index \<Rightarrow> raft_term \<Rightarrow> salts_status \<times> snapshot_point \<times> snapshot_source \<times> 's) option"
  sm_provider :: "('s \<Rightarrow> raft_index \<Rightarrow> raft_term \<Rightarrow> nat \<Rightarrow> salts_status \<times> snapshot_point \<times> u8 list \<times> nat \<times> 's) option"
  sm_complete :: "('s \<Rightarrow> node_id \<Rightarrow> raft_index \<Rightarrow> salts_status \<times> 's) option"
  sm_completion_notified :: "bool list"

definition tr_snapshot_manager_find_peer :: "'s snapshot_manager \<Rightarrow> node_id \<Rightarrow> nat option" where
  "tr_snapshot_manager_find_peer manager peer_id =
     find (\<lambda>index. sm_peer_node_ids manager ! index = peer_id) [0..<length (sm_peer_node_ids manager)]"

definition tr_snapshot_manager_enqueue :: "'s snapshot_manager \<Rightarrow> 's enqueue_fn" where
  "tr_snapshot_manager_enqueue manager s payload =
     (case sm_enqueue manager of None \<Rightarrow> (SALTS_ENOTCONN, s) | Some enqueue \<Rightarrow> enqueue s payload)"

text \<open>\<open>tr_snapshot_manager_release_source\<close>: the release of a source the manager holds itself.\<close>

definition tr_snapshot_manager_release_source :: "snapshot_source \<Rightarrow> snapshot_source list \<Rightarrow> snapshot_source list" where
  "tr_snapshot_manager_release_source source released = (if src_release source then released @ [source] else released)"

definition tr_snapshot_manager_note_started :: "'s snapshot_manager \<Rightarrow> nat \<Rightarrow> raft_index \<Rightarrow> 's snapshot_manager" where
  "tr_snapshot_manager_note_started manager index snapshot_index =
     (let status = tr_raft_snapshot_peer_get_status (sm_peers manager ! index)
      in if ss_active status \<and> ss_snapshot_index status = snapshot_index
         then manager\<lparr>sm_completion_notified := (sm_completion_notified manager)[index := False]\<rparr>
         else manager)"

text \<open>The checks and the loops of \<open>tr_raft_snapshot_manager_create\<close>. A null array of identifiers is refused like
  an empty one. The allocations of the peers are given by their position.\<close>

definition manager_peer_ids_valid :: "node_id \<Rightarrow> node_id list \<Rightarrow> bool" where
  "manager_peer_ids_valid self_id ids \<longleftrightarrow>
     list_all (\<lambda>index. \<not> (ids ! index = 0 \<or> ids ! index = self_id
                         \<or> (index > 0 \<and> ids ! (index - 1) \<ge> ids ! index))) [0..<length ids]"

fun manager_create_peers ::
    "(nat \<Rightarrow> heap_alloc \<times> bool \<times> bool \<times> bool) \<Rightarrow> 's manager_config \<Rightarrow> nat \<Rightarrow> node_id list \<Rightarrow> salts_status + snapshot_peer list" where
  "manager_create_peers A config index [] = Inr []"
| "manager_create_peers A config index (peer_id # ids) =
     (case A index of
        (M, calloc_ok, coordinator_ok, sender_ok) \<Rightarrow>
          (case tr_raft_snapshot_peer_create M calloc_ok coordinator_ok sender_ok
                  \<lparr>pc_self_id = mc_self_id config, pc_peer_id = peer_id, pc_group_id = mc_group_id config,
                   pc_max_snapshot_bytes = mc_max_snapshot_bytes config, pc_chunk_size = mc_snapshot_chunk_size config,
                   pc_max_inflight_chunks = mc_snapshot_max_inflight_chunks config, pc_enqueue = True\<rparr> of
             Inl result \<Rightarrow> Inl result
           | Inr peer \<Rightarrow>
               (case manager_create_peers A config (Suc index) ids of
                  Inl result \<Rightarrow> Inl result
                | Inr peers \<Rightarrow> Inr (peer # peers))))"

definition tr_raft_snapshot_manager_create ::
    "bool \<Rightarrow> heap_alloc \<Rightarrow> (nat \<Rightarrow> heap_alloc \<times> bool \<times> bool \<times> bool) \<Rightarrow> 's manager_config \<Rightarrow> salts_status + 's snapshot_manager" where
  "tr_raft_snapshot_manager_create calloc_ok M A config =
     (let has_source_provider = mc_source_provider config \<noteq> None;
          has_provider = mc_provider config \<noteq> None;
          ids = mc_peer_node_ids config;
          buffered = unat (mc_max_buffered_snapshot_bytes config);
          buffer = (if has_provider then M buffered else None)
      in if mc_self_id config = 0 \<or> mc_group_id config = 0 \<or> ids = [] \<or> length ids > TR_RAFT_MAX_MEMBERS - 1
            \<or> mc_max_snapshot_bytes config = 0
            \<or> (has_source_provider \<and> has_provider)
            \<or> (has_source_provider \<and> mc_max_buffered_snapshot_bytes config \<noteq> 0)
            \<or> (has_provider \<and> (mc_max_buffered_snapshot_bytes config = 0
                               \<or> mc_max_buffered_snapshot_bytes config > mc_max_snapshot_bytes config))
         then Inl SALTS_EINVAL
         else if \<not> manager_peer_ids_valid (mc_self_id config) ids then Inl SALTS_EINVAL
         else if \<not> calloc_ok then Inl SALTS_ENOMEM
         else if has_provider \<and> buffer = None then Inl SALTS_ENOMEM
         else case manager_create_peers A config 0 ids of
           Inl result \<Rightarrow> Inl result
         | Inr peers \<Rightarrow>
             Inr \<lparr>sm_self_id = mc_self_id config, sm_group_id = mc_group_id config, sm_peer_node_ids = ids,
                  sm_peers = peers, sm_enqueue = mc_enqueue config,
                  sm_max_snapshot_bytes = mc_max_snapshot_bytes config, sm_max_buffered_snapshot_bytes = buffered,
                  sm_snapshot_buffer = buffer, sm_source_provider = mc_source_provider config,
                  sm_provider = mc_provider config, sm_complete = mc_complete config,
                  sm_completion_notified = replicate (length ids) False\<rparr>)"

definition tr_raft_snapshot_manager_destroy :: "'s snapshot_manager \<Rightarrow> snapshot_source list \<Rightarrow> snapshot_source list" where
  "tr_raft_snapshot_manager_destroy manager released =
     foldl (\<lambda>released peer. tr_raft_snapshot_peer_destroy peer released) released (sm_peers manager)"

abbreviation set_peer :: "'s snapshot_manager \<Rightarrow> nat \<Rightarrow> snapshot_peer \<Rightarrow> 's snapshot_manager" where
  "set_peer manager index peer \<equiv> manager\<lparr>sm_peers := (sm_peers manager)[index := peer]\<rparr>"

definition tr_raft_snapshot_manager_begin ::
    "(u8 list \<Rightarrow> salts_status \<times> digest) \<Rightarrow> bool \<Rightarrow> 's snapshot_manager \<Rightarrow> node_id \<Rightarrow> raft_term \<Rightarrow> raft_index \<Rightarrow> raft_term \<Rightarrow> conf
       \<Rightarrow> byte_array \<Rightarrow> snapshot_source list \<Rightarrow> 's \<Rightarrow> salts_status \<times> 's snapshot_manager \<times> snapshot_source list \<times> 's" where
  "tr_raft_snapshot_manager_begin sha256 memory_ok manager peer_id leader_term snapshot_index snapshot_term configuration data
       released s =
     (if sm_enqueue manager = None then (SALTS_ENOTCONN, manager, released, s)
      else case tr_snapshot_manager_find_peer manager peer_id of
        None \<Rightarrow> (SALTS_EPROTO, manager, released, s)
      | Some index \<Rightarrow>
          (case tr_raft_snapshot_peer_begin (tr_snapshot_manager_enqueue manager) sha256 memory_ok (sm_peers manager ! index)
                  leader_term snapshot_index snapshot_term configuration data released s of
             (result, peer, released, s) \<Rightarrow>
               (result, tr_snapshot_manager_note_started (set_peer manager index peer) index snapshot_index, released, s)))"

text \<open>The two branches of \<open>tr_raft_snapshot_manager_enqueue_request\<close>: with a source, and with the buffer.\<close>

definition request_source ::
    "'s snapshot_manager \<Rightarrow> ('s \<Rightarrow> raft_index \<Rightarrow> raft_term \<Rightarrow> salts_status \<times> snapshot_point \<times> snapshot_source \<times> 's)
       \<Rightarrow> snapshot_request \<Rightarrow> nat \<Rightarrow> snapshot_source list \<Rightarrow> 's
       \<Rightarrow> salts_status \<times> 's snapshot_manager \<times> snapshot_source list \<times> 's" where
  "request_source manager source_provider request index released s =
     (case source_provider s (sr_snapshot_index request) (sr_snapshot_term request) of
        (result, point, source, s) \<Rightarrow>
          if result \<noteq> SALTS_OK then (result, manager, released, s)
          else if sp_index point \<noteq> sr_snapshot_index request \<or> sp_term point \<noteq> sr_snapshot_term request
                  \<or> tr_raft_conf_validate (sp_configuration point) \<noteq> SALTS_OK \<or> src_read_at source = None
                  \<or> src_size source > sm_max_snapshot_bytes manager
          then (SALTS_EPROTO, manager, tr_snapshot_manager_release_source source released, s)
          else case tr_raft_snapshot_peer_begin_source (tr_snapshot_manager_enqueue manager) (sm_peers manager ! index)
                      (sr_leader_term request) (sp_index point) (sp_term point) (sp_configuration point) source released s of
                 (result, peer, released, s) \<Rightarrow>
                   (result, tr_snapshot_manager_note_started (set_peer manager index peer) index (sp_index point), released, s))"

definition request_buffer ::
    "(u8 list \<Rightarrow> salts_status \<times> digest) \<Rightarrow> bool \<Rightarrow> 's snapshot_manager
       \<Rightarrow> ('s \<Rightarrow> raft_index \<Rightarrow> raft_term \<Rightarrow> nat \<Rightarrow> salts_status \<times> snapshot_point \<times> u8 list \<times> nat \<times> 's) \<Rightarrow> u8 list
       \<Rightarrow> snapshot_request \<Rightarrow> nat \<Rightarrow> snapshot_source list \<Rightarrow> 's
       \<Rightarrow> salts_status \<times> 's snapshot_manager \<times> snapshot_source list \<times> 's" where
  "request_buffer sha256 memory_ok manager provider buffer request index released s =
     (case provider s (sr_snapshot_index request) (sr_snapshot_term request) (sm_max_buffered_snapshot_bytes manager) of
        (result, point, bytes, snapshot_size, s) \<Rightarrow>
          let buffer = block_write buffer 0 bytes;
              manager = manager\<lparr>sm_snapshot_buffer := Some buffer\<rparr>
          in if result \<noteq> SALTS_OK then (result, manager, released, s)
             else if sp_index point \<noteq> sr_snapshot_index request \<or> sp_term point \<noteq> sr_snapshot_term request
                     \<or> tr_raft_conf_validate (sp_configuration point) \<noteq> SALTS_OK
                     \<or> snapshot_size > sm_max_buffered_snapshot_bytes manager
             then (SALTS_EPROTO, manager, released, s)
             else case tr_raft_snapshot_peer_begin (tr_snapshot_manager_enqueue manager) sha256 memory_ok (sm_peers manager ! index)
                         (sr_leader_term request) (sp_index point) (sp_term point) (sp_configuration point)
                         (Byte_array (take snapshot_size buffer)) released s of
                    (result, peer, released, s) \<Rightarrow>
                      (result, tr_snapshot_manager_note_started (set_peer manager index peer) index (sp_index point), released, s))"

definition tr_raft_snapshot_manager_enqueue_request ::
    "(u8 list \<Rightarrow> salts_status \<times> digest) \<Rightarrow> bool \<Rightarrow> 's snapshot_manager \<Rightarrow> snapshot_request \<Rightarrow> snapshot_source list \<Rightarrow> 's
       \<Rightarrow> salts_status \<times> 's snapshot_manager \<times> snapshot_source list \<times> 's" where
  "tr_raft_snapshot_manager_enqueue_request sha256 memory_ok manager request released s =
     (if sr_peer_id request = 0 \<or> sr_leader_term request = 0 \<or> sr_snapshot_index request = 0 \<or> sr_snapshot_term request = 0
      then (SALTS_EINVAL, manager, released, s)
      else if sm_source_provider manager = None \<and> (sm_provider manager = None \<or> sm_snapshot_buffer manager = None)
      then (SALTS_EINVAL, manager, released, s)
      else case tr_snapshot_manager_find_peer manager (sr_peer_id request) of
        None \<Rightarrow> (SALTS_EPROTO, manager, released, s)
      | Some index \<Rightarrow>
          let status = tr_raft_snapshot_peer_get_status (sm_peers manager ! index)
          in if ss_active status \<and> \<not> ss_complete status
             then (if ss_snapshot_index status = sr_snapshot_index request then SALTS_OK else SALTS_EBUSY, manager, released, s)
             else case sm_source_provider manager of
                    Some source_provider \<Rightarrow> request_source manager source_provider request index released s
                  | None \<Rightarrow>
                      (case (sm_provider manager, sm_snapshot_buffer manager) of
                         (Some provider, Some buffer) \<Rightarrow>
                           request_buffer sha256 memory_ok manager provider buffer request index released s
                       | _ \<Rightarrow> (SALTS_EINVAL, manager, released, s)))"

text \<open>The part of \<open>tr_raft_snapshot_manager_handle_payload\<close> behind the peer: the notification.\<close>

definition manager_notify ::
    "'s snapshot_manager \<Rightarrow> nat \<Rightarrow> node_id \<Rightarrow> snapshot_source list \<Rightarrow> 's
       \<Rightarrow> salts_status \<times> 's snapshot_manager \<times> snapshot_source list \<times> 's" where
  "manager_notify manager index peer_id released s =
     (let status = tr_raft_snapshot_peer_get_status (sm_peers manager ! index)
      in if \<not> ss_complete status \<or> sm_completion_notified manager ! index then (SALTS_OK, manager, released, s)
         else case (case sm_complete manager of
                      None \<Rightarrow> (SALTS_OK, s)
                    | Some complete \<Rightarrow> complete s peer_id (ss_snapshot_index status)) of
                (result, s) \<Rightarrow>
                  if result \<noteq> SALTS_OK then (result, manager, released, s)
                  else (SALTS_OK, manager\<lparr>sm_completion_notified := (sm_completion_notified manager)[index := True]\<rparr>, released, s))"

definition tr_raft_snapshot_manager_handle_payload ::
    "'s snapshot_manager \<Rightarrow> transport_payload \<Rightarrow> snapshot_source list \<Rightarrow> 's
       \<Rightarrow> salts_status \<times> 's snapshot_manager \<times> snapshot_source list \<times> 's" where
  "tr_raft_snapshot_manager_handle_payload manager payload released s =
     (if tp_group_id payload \<noteq> sm_group_id manager then (SALTS_EPROTO, manager, released, s)
      else case tp_data payload of
        TR_RAFT_WIRE_PAYLOAD_SNAPSHOT_ACK ack \<Rightarrow>
          if sa_to ack \<noteq> sm_self_id manager then (SALTS_EPROTO, manager, released, s)
          else (case tr_snapshot_manager_find_peer manager (sa_from ack) of
                  None \<Rightarrow> (SALTS_EPROTO, manager, released, s)
                | Some index \<Rightarrow>
                    (case tr_raft_snapshot_peer_handle_payload (tr_snapshot_manager_enqueue manager) (sm_peers manager ! index)
                            payload released s of
                       (result, peer, released, s) \<Rightarrow>
                         if result \<noteq> SALTS_OK then (result, set_peer manager index peer, released, s)
                         else manager_notify (set_peer manager index peer) index (sa_from ack) released s))
      | _ \<Rightarrow> (SALTS_EPROTO, manager, released, s))"

definition tr_raft_snapshot_manager_resume ::
    "'s snapshot_manager \<Rightarrow> node_id \<Rightarrow> snapshot_source list \<Rightarrow> 's
       \<Rightarrow> salts_status \<times> 's snapshot_manager \<times> snapshot_source list \<times> 's" where
  "tr_raft_snapshot_manager_resume manager peer_id released s =
     (if sm_enqueue manager = None then (SALTS_ENOTCONN, manager, released, s)
      else case tr_snapshot_manager_find_peer manager peer_id of
        None \<Rightarrow> (SALTS_EPROTO, manager, released, s)
      | Some index \<Rightarrow>
          (case tr_raft_snapshot_peer_resume (tr_snapshot_manager_enqueue manager) (sm_peers manager ! index) released s of
             (result, peer, released, s) \<Rightarrow> (result, set_peer manager index peer, released, s)))"

definition tr_raft_snapshot_manager_get_status :: "'s snapshot_manager \<Rightarrow> node_id \<Rightarrow> salts_status + sender_status" where
  "tr_raft_snapshot_manager_get_status manager peer_id =
     (case tr_snapshot_manager_find_peer manager peer_id of
        None \<Rightarrow> Inl SALTS_EPROTO
      | Some index \<Rightarrow> Inr (tr_raft_snapshot_peer_get_status (sm_peers manager ! index)))"

section \<open>The installer\<close>

datatype install_stage =
    TR_RAFT_SNAPSHOT_INSTALL_IDLE
  | TR_RAFT_SNAPSHOT_INSTALL_DURABLE
  | TR_RAFT_SNAPSHOT_INSTALL_APPLICATION
  | TR_RAFT_SNAPSHOT_INSTALL_RUNTIME
  | TR_RAFT_SNAPSHOT_INSTALL_COMPLETE

text \<open>\<open>ic_install_snapshot\<close> is the installation into the storage the configuration names.\<close>

record 's installer_config =
  ic_install_snapshot :: "('s \<Rightarrow> raft_term \<Rightarrow> raft_index \<Rightarrow> raft_term \<Rightarrow> conf \<Rightarrow> byte_array \<Rightarrow> salts_status \<times> 's) option"
  ic_restore_application :: "('s \<Rightarrow> raft_index \<Rightarrow> raft_term \<Rightarrow> byte_array \<Rightarrow> salts_status \<times> 's) option"
  ic_reload_runtime :: "('s \<Rightarrow> raft_index \<Rightarrow> raft_term \<Rightarrow> salts_status \<times> 's) option"

record installer_status =
  is_faulted :: bool
  is_stage :: install_stage
  is_cause :: salts_status
  is_durable_index :: raft_index
  is_restored_index :: raft_index
  is_active_index :: raft_index

record 's snapshot_installer =
  in_config :: "'s installer_config"
  in_status :: installer_status

definition tr_snapshot_installer_fail ::
    "'s snapshot_installer \<Rightarrow> install_stage \<Rightarrow> salts_status \<Rightarrow> salts_status \<times> 's snapshot_installer" where
  "tr_snapshot_installer_fail installer stage cause =
     (cause, installer\<lparr>in_status := (in_status installer)\<lparr>is_faulted := True, is_stage := stage, is_cause := cause\<rparr>\<rparr>)"

definition tr_raft_snapshot_installer_create ::
    "bool \<Rightarrow> 's installer_config \<Rightarrow> salts_status + 's snapshot_installer" where
  "tr_raft_snapshot_installer_create calloc_ok config =
     (if ic_install_snapshot config = None \<or> ic_restore_application config = None \<or> ic_reload_runtime config = None
      then Inl SALTS_EINVAL
      else if \<not> calloc_ok then Inl SALTS_ENOMEM
      else Inr \<lparr>in_config = config,
                in_status = \<lparr>is_faulted = False, is_stage = TR_RAFT_SNAPSHOT_INSTALL_IDLE, is_cause = SALTS_OK,
                             is_durable_index = 0, is_restored_index = 0, is_active_index = 0\<rparr>\<rparr>)"

text \<open>One stage: the call of its callback, and what the installer records on success.\<close>

definition install_stage_run ::
    "install_stage \<Rightarrow> ('s \<Rightarrow> salts_status \<times> 's) option \<Rightarrow> (installer_status \<Rightarrow> installer_status)
       \<Rightarrow> 's snapshot_installer \<Rightarrow> 's \<Rightarrow> salts_status \<times> 's snapshot_installer \<times> 's" where
  "install_stage_run stage callback record_index installer s =
     (let installer = installer\<lparr>in_status := (in_status installer)\<lparr>is_stage := stage\<rparr>\<rparr>
      in case callback of
           None \<Rightarrow> (C_FAULT, installer, s)
         | Some f \<Rightarrow>
             (case f s of
                (result, s) \<Rightarrow>
                  if result \<noteq> SALTS_OK
                  then (case tr_snapshot_installer_fail installer stage result of (result, installer) \<Rightarrow> (result, installer, s))
                  else (SALTS_OK, installer\<lparr>in_status := record_index (in_status installer)\<rparr>, s)))"

definition tr_raft_snapshot_installer_install ::
    "'s snapshot_installer \<Rightarrow> raft_term \<Rightarrow> raft_index \<Rightarrow> raft_term \<Rightarrow> conf \<Rightarrow> byte_array \<Rightarrow> 's
       \<Rightarrow> salts_status \<times> 's snapshot_installer \<times> 's" where
  "tr_raft_snapshot_installer_install installer leader_term snapshot_index snapshot_term configuration data s =
     (if leader_term = 0 \<or> snapshot_index = 0 \<or> snapshot_term = 0 \<or> snapshot_term > leader_term
         \<or> (byte_count data > 0 \<and> byte_is_null data)
      then (SALTS_EINVAL, installer, s)
      else if is_faulted (in_status installer) then (SALTS_EPROTO, installer, s)
      else case install_stage_run TR_RAFT_SNAPSHOT_INSTALL_DURABLE
                  (map_option (\<lambda>f s. f s leader_term snapshot_index snapshot_term configuration data)
                     (ic_install_snapshot (in_config installer)))
                  (\<lambda>status. status\<lparr>is_durable_index := snapshot_index\<rparr>) installer s of
        (result, installer, s) \<Rightarrow>
          if result \<noteq> SALTS_OK then (result, installer, s)
          else case install_stage_run TR_RAFT_SNAPSHOT_INSTALL_APPLICATION
                      (map_option (\<lambda>f s. f s snapshot_index snapshot_term data) (ic_restore_application (in_config installer)))
                      (\<lambda>status. status\<lparr>is_restored_index := snapshot_index\<rparr>) installer s of
            (result, installer, s) \<Rightarrow>
              if result \<noteq> SALTS_OK then (result, installer, s)
              else install_stage_run TR_RAFT_SNAPSHOT_INSTALL_RUNTIME
                     (map_option (\<lambda>f s. f s snapshot_index snapshot_term) (ic_reload_runtime (in_config installer)))
                     (\<lambda>status. status\<lparr>is_active_index := snapshot_index, is_stage := TR_RAFT_SNAPSHOT_INSTALL_COMPLETE,
                                      is_cause := SALTS_OK\<rparr>) installer s)"

definition tr_raft_snapshot_installer_get_status :: "'s snapshot_installer \<Rightarrow> installer_status" where
  "tr_raft_snapshot_installer_get_status installer = in_status installer"

section \<open>What the installer keeps\<close>

text \<open>Without a fault the three indices agree; with one they show how far the last installation came.\<close>

definition installer_inv :: "'s snapshot_installer \<Rightarrow> bool" where
  "installer_inv inst \<longleftrightarrow>
     (let st = in_status inst
      in ic_install_snapshot (in_config inst) \<noteq> None \<and> ic_restore_application (in_config inst) \<noteq> None
         \<and> ic_reload_runtime (in_config inst) \<noteq> None
         \<and> (if is_faulted st
            then is_cause st \<noteq> SALTS_OK
              \<and> (is_stage st = TR_RAFT_SNAPSHOT_INSTALL_DURABLE
                   \<and> is_durable_index st = is_restored_index st \<and> is_restored_index st = is_active_index st
                 \<or> is_stage st = TR_RAFT_SNAPSHOT_INSTALL_APPLICATION \<and> is_restored_index st = is_active_index st
                 \<or> is_stage st = TR_RAFT_SNAPSHOT_INSTALL_RUNTIME \<and> is_durable_index st = is_restored_index st)
            else is_stage st \<in> {TR_RAFT_SNAPSHOT_INSTALL_IDLE, TR_RAFT_SNAPSHOT_INSTALL_COMPLETE} \<and> is_cause st = SALTS_OK
              \<and> is_durable_index st = is_restored_index st \<and> is_restored_index st = is_active_index st))"

lemma stage_run_ok:
  assumes "install_stage_run stage cb rec inst s = (SALTS_OK, inst', s')"
  shows "inst' = inst\<lparr>in_status := rec ((in_status inst)\<lparr>is_stage := stage\<rparr>)\<rparr>"
  using assms
  by (auto simp: install_stage_run_def tr_snapshot_installer_fail_def Let_def split: option.splits prod.splits if_splits)

lemma stage_run_failed:
  assumes "install_stage_run stage cb rec inst s = (r, inst', s')" and "r \<noteq> SALTS_OK" and "cb \<noteq> None"
  shows "inst' = inst\<lparr>in_status := (in_status inst)\<lparr>is_faulted := True, is_stage := stage, is_cause := r\<rparr>\<rparr>"
  using assms
  by (auto simp: install_stage_run_def tr_snapshot_installer_fail_def Let_def split: option.splits prod.splits if_splits)

lemma installer_create_inv: "tr_raft_snapshot_installer_create ok config = Inr inst \<Longrightarrow> installer_inv inst"
  by (auto simp: tr_raft_snapshot_installer_create_def installer_inv_def split: if_splits)

lemma installer_install_inv:
  assumes inv: "installer_inv inst"
    and eq: "tr_raft_snapshot_installer_install inst lt i t c data s = (r, inst', s')"
  shows "installer_inv inst'
    \<and> (if is_faulted (in_status inst) then r \<in> {SALTS_EINVAL, SALTS_EPROTO} \<and> inst' = inst \<and> s' = s
       else if r = SALTS_OK then is_active_index (in_status inst') = i \<and> \<not> is_faulted (in_status inst')
       else r = SALTS_EINVAL \<and> inst' = inst \<and> s' = s
         \<or> is_faulted (in_status inst') \<and> is_cause (in_status inst') = r
           \<and> is_active_index (in_status inst') = is_active_index (in_status inst))"
proof -
  let ?bad = "lt = 0 \<or> i = 0 \<or> t = 0 \<or> t > lt \<or> (byte_count data > 0 \<and> byte_is_null data)"
  let ?f1 = "map_option (\<lambda>f s. f s lt i t c data) (ic_install_snapshot (in_config inst))"
  let ?f2 = "map_option (\<lambda>f s. f s i t data) (ic_restore_application (in_config inst))"
  let ?f3 = "map_option (\<lambda>f s. f s i t) (ic_reload_runtime (in_config inst))"
  have f: "?f1 \<noteq> None" "?f2 \<noteq> None" "?f3 \<noteq> None" using inv by (auto simp: installer_inv_def Let_def)
  show ?thesis
  proof (cases "?bad \<or> is_faulted (in_status inst)")
    case True
    then have "inst' = inst" "s' = s" "r = SALTS_EINVAL \<or> r = SALTS_EPROTO \<and> is_faulted (in_status inst)"
      using eq by (auto simp: tr_raft_snapshot_installer_install_def split: if_splits)
    with inv show ?thesis by auto
  next
    case run: False
    obtain r1 i1 s1 where 1: "install_stage_run TR_RAFT_SNAPSHOT_INSTALL_DURABLE ?f1
        (\<lambda>status. status\<lparr>is_durable_index := i\<rparr>) inst s = (r1, i1, s1)" by (metis prod_cases3)
    show ?thesis
    proof (cases "r1 = SALTS_OK")
      case False
      then have "inst' = i1" "r = r1" using eq run 1 by (auto simp: tr_raft_snapshot_installer_install_def)
      with stage_run_failed [OF 1 False f(1)] run inv False show ?thesis by (auto simp: installer_inv_def Let_def)
    next
      case ok1: True
      note i1 = stage_run_ok [OF 1 [unfolded ok1]]
      obtain r2 i2 s2 where 2: "install_stage_run TR_RAFT_SNAPSHOT_INSTALL_APPLICATION ?f2
          (\<lambda>status. status\<lparr>is_restored_index := i\<rparr>) i1 s1 = (r2, i2, s2)" by (metis prod_cases3)
      have cfg: "in_config i1 = in_config inst" using i1 by simp
      show ?thesis
      proof (cases "r2 = SALTS_OK")
        case False
        then have "inst' = i2" "r = r2" using eq run 1 2 ok1 by (auto simp: tr_raft_snapshot_installer_install_def cfg)
        with stage_run_failed [OF 2 False f(2)] i1 run inv False show ?thesis by (auto simp: installer_inv_def Let_def)
      next
        case ok2: True
        note i2 = stage_run_ok [OF 2 [unfolded ok2]]
        have cfg2: "in_config i2 = in_config inst" using i2 i1 by simp
        have 3: "install_stage_run TR_RAFT_SNAPSHOT_INSTALL_RUNTIME ?f3
            (\<lambda>status. status\<lparr>is_active_index := i, is_stage := TR_RAFT_SNAPSHOT_INSTALL_COMPLETE, is_cause := SALTS_OK\<rparr>) i2 s2
          = (r, inst', s')"
          using eq run 1 2 ok1 ok2 by (auto simp: tr_raft_snapshot_installer_install_def cfg cfg2)
        show ?thesis
        proof (cases "r = SALTS_OK")
          case True
          with stage_run_ok [OF 3 [unfolded True]] i2 i1 run inv show ?thesis by (auto simp: installer_inv_def Let_def)
        next
          case False
          with stage_run_failed [OF 3 False f(3)] i2 i1 run inv show ?thesis by (auto simp: installer_inv_def Let_def)
        qed
      qed
    qed
  qed
qed

section \<open>What a peer keeps of its transfer\<close>

abbreviation peer_sender :: "snapshot_peer \<Rightarrow> snapshot_sender" where
  "peer_sender peer \<equiv> co_sender (sp_coordinator peer)"

lemma peer_status:
  "ss_complete (tr_raft_snapshot_peer_get_status peer) = tx_complete (peer_sender peer)"
  "ss_active (tr_raft_snapshot_peer_get_status peer) = tx_active (peer_sender peer)"
  "ss_snapshot_index (tr_raft_snapshot_peer_get_status peer) = tx_snapshot_index (peer_sender peer)"
  by (simp_all add: tr_raft_snapshot_peer_get_status_def tr_raft_snapshot_coordinator_get_status_def
      tr_raft_snapshot_sender_get_status_def)

text \<open>What names and ends a transfer.\<close>

definition tx_mark :: "snapshot_sender \<Rightarrow> bool \<times> bool \<times> raft_index" where
  "tx_mark tx = (tx_active tx, tx_complete tx, tx_snapshot_index tx)"

lemma next_chunk_mark: "tx_mark (fst (snd (tr_raft_snapshot_sender_next_chunk tx))) = tx_mark tx"
  by (auto simp: tr_raft_snapshot_sender_next_chunk_def next_chunk_claim_def tx_mark_def Let_def
      split: sum.split prod.split option.split)

lemma cancel_mark: "tx_mark (snd (tr_raft_snapshot_sender_cancel_chunk tx off)) = tx_mark tx"
  by (simp add: tr_raft_snapshot_sender_cancel_chunk_def tx_mark_def Let_def)

lemma fill_window_mark: "tx_mark (fst (snd (tr_snapshot_coordinator_fill_window emit tx s))) = tx_mark tx"
proof (induction emit tx s rule: tr_snapshot_coordinator_fill_window.induct)
  case (1 emit tx s)
  obtain r1 tx1 ch where n: "tr_raft_snapshot_sender_next_chunk tx = (r1, tx1, ch)" by (metis prod_cases3)
  have m1: "tx_mark tx1 = tx_mark tx" using next_chunk_mark [of tx] n by simp
  note def = tr_snapshot_coordinator_fill_window.simps [of emit tx s]
  show ?case
  proof (cases "r1 = SALTS_OK \<and> ch \<noteq> None")
    case False
    with n m1 show ?thesis by (auto simp: def split: option.split)
  next
    case True
    then obtain c where c: "ch = Some c" by auto
    obtain r2 s2 where e: "emit s c = (r2, s2)" by fastforce
    let ?again = "\<not> length (tx_claims tx1) \<ge> tx_max_inflight_chunks tx1"
    have rec: "tx_mark (fst (snd (tr_snapshot_coordinator_fill_window emit tx1 s2))) = tx_mark tx" if "r2 = SALTS_OK" ?again
      using 1 [of r1 _ tx1 ch c r2 s2] n True c e that m1 by (auto simp: tr_raft_snapshot_sender_get_status_def)
    show ?thesis
      using n True c e m1 rec cancel_mark [of tx1 "sc_snapshot_offset c"]
      by (auto simp: def tr_raft_snapshot_sender_get_status_def split: prod.split)
  qed
qed

lemma coordinator_fill_mark: "tx_mark (co_sender (fst (snd (coordinator_fill emit tx rel s)))) = tx_mark tx"
  using fill_window_mark [of emit tx s] by (auto simp: coordinator_fill_def split: prod.split)

text \<open>An operation other than a beginning never takes completion back; a beginning that touches the
  transfer leaves one with the given index running.\<close>

lemma begin_source_mark:
  assumes "tr_raft_snapshot_sender_begin_source tx lt i t c source rel = (r, tx', rel')"
  shows "if r = SALTS_OK then tx_mark tx' = (True, False, i) else tx' = tx"
  using assms
  by (auto simp: tr_raft_snapshot_sender_begin_source_def tr_raft_snapshot_sender_clear_transfer_def tx_mark_def
      tr_raft_snapshot_sender_release_source_def split: if_splits)

lemma begin_mark:
  assumes "tr_raft_snapshot_sender_begin sha ok tx lt i t c data rel = (r, tx', rel')"
  shows "if r = SALTS_OK then tx_mark tx' = (True, False, i) else tx' = tx"
proof -
  define source where "source = \<lparr>src_size = of_nat (byte_count data), src_digest = snd (sha (byte_list data)),
      src_read_at = Some (tr_snapshot_memory_read_at (byte_list data)), src_release = True\<rparr>"
  obtain r1 tx1 rel1 where b: "tr_raft_snapshot_sender_begin_source tx lt i t c source rel = (r1, tx1, rel1)" by (metis prod_cases3)
  have "r = r1 \<and> tx' = tx1 \<or> r \<noteq> SALTS_OK \<and> tx' = tx"
    using assms b by (auto simp: tr_raft_snapshot_sender_begin_def source_def Let_def split: if_splits prod.splits)
  with begin_source_mark [OF b] show ?thesis by (auto split: if_splits)
qed

definition began :: "raft_index \<Rightarrow> snapshot_peer \<Rightarrow> snapshot_peer \<Rightarrow> bool" where
  "began i peer peer' \<longleftrightarrow> peer_sender peer' = peer_sender peer \<or> tx_mark (peer_sender peer') = (True, False, i)"

lemma peer_begin_source_began:
  assumes "tr_raft_snapshot_peer_begin_source enqueue peer lt i t c source rel s = (r, peer', rel', s')"
  shows "began i peer peer'"
proof -
  obtain r1 tx1 rel1 where b: "tr_raft_snapshot_sender_begin_source (peer_sender peer) lt i t c source rel = (r1, tx1, rel1)"
    by (metis prod_cases3)
  show ?thesis
  proof (cases "r1 = SALTS_OK")
    case True
    with b assms coordinator_fill_mark [of "tr_snapshot_peer_emit enqueue (sp_group_id peer)" tx1 rel1 s] begin_source_mark [OF b]
    show ?thesis
      by (auto simp: began_def tr_raft_snapshot_peer_begin_source_def tr_raft_snapshot_coordinator_begin_source_def split: prod.splits)
  next
    case False
    with b assms begin_source_mark [OF b] show ?thesis
      by (auto simp: began_def tr_raft_snapshot_peer_begin_source_def tr_raft_snapshot_coordinator_begin_source_def)
  qed
qed

lemma peer_begin_began:
  assumes "tr_raft_snapshot_peer_begin enqueue sha ok peer lt i t c data rel s = (r, peer', rel', s')"
  shows "began i peer peer'"
proof -
  obtain r1 tx1 rel1 where b: "tr_raft_snapshot_sender_begin sha ok (peer_sender peer) lt i t c data rel = (r1, tx1, rel1)"
    by (metis prod_cases3)
  show ?thesis
  proof (cases "r1 = SALTS_OK")
    case True
    with b assms coordinator_fill_mark [of "tr_snapshot_peer_emit enqueue (sp_group_id peer)" tx1 rel1 s] begin_mark [OF b]
    show ?thesis
      by (auto simp: began_def tr_raft_snapshot_peer_begin_def tr_raft_snapshot_coordinator_begin_def split: prod.splits)
  next
    case False
    with b assms begin_mark [OF b] show ?thesis
      by (auto simp: began_def tr_raft_snapshot_peer_begin_def tr_raft_snapshot_coordinator_begin_def)
  qed
qed

lemma ack_complete:
  assumes "tr_raft_snapshot_sender_acknowledge tx a rel = (r, tx', rel')" and "tx_complete tx"
  shows "tx_complete tx'"
  using assms
  by (auto simp: tr_raft_snapshot_sender_acknowledge_def tr_raft_snapshot_sender_release_source_def Let_def split: if_splits)

lemma peer_handle_complete:
  assumes "tr_raft_snapshot_peer_handle_payload enqueue peer payload rel s = (r, peer', rel', s')" and "tx_complete (peer_sender peer)"
  shows "tx_complete (peer_sender peer')"
proof (cases "tp_group_id payload = sp_group_id peer \<and> (\<exists>a. tp_data payload = TR_RAFT_WIRE_PAYLOAD_SNAPSHOT_ACK a)")
  case False
  with assms show ?thesis
    by (auto simp: tr_raft_snapshot_peer_handle_payload_def split: if_splits payload_data.splits)
next
  case True
  then obtain a where a: "tp_data payload = TR_RAFT_WIRE_PAYLOAD_SNAPSHOT_ACK a" by auto
  obtain r1 tx1 rel1 where k: "tr_raft_snapshot_sender_acknowledge (peer_sender peer) a rel = (r1, tx1, rel1)" by (metis prod_cases3)
  have "tx_complete tx1" by (rule ack_complete [OF k assms(2)])
  with assms(1) True a k show ?thesis
    by (auto simp: tr_raft_snapshot_peer_handle_payload_def tr_raft_snapshot_coordinator_handle_ack_def
        tr_raft_snapshot_sender_get_status_def split: if_splits)
qed

lemma peer_resume_complete:
  assumes "tr_raft_snapshot_peer_resume enqueue peer rel s = (r, peer', rel', s')" and "tx_complete (peer_sender peer)"
  shows "tx_complete (peer_sender peer')"
  using assms
  by (auto simp: tr_raft_snapshot_peer_resume_def tr_raft_snapshot_coordinator_resume_def tr_raft_snapshot_sender_prepare_resume_def)

section \<open>The invariant of a manager\<close>

text \<open>A notification stands for a complete transfer.\<close>

definition manager_inv :: "'s snapshot_manager \<Rightarrow> bool" where
  "manager_inv m \<longleftrightarrow>
     length (sm_peers m) = length (sm_peer_node_ids m) \<and> length (sm_completion_notified m) = length (sm_peer_node_ids m)
     \<and> (\<forall>i < length (sm_peer_node_ids m). sm_completion_notified m ! i \<longrightarrow> tx_complete (peer_sender (sm_peers m ! i)))"

lemma find_peer_range: "tr_snapshot_manager_find_peer m p = Some i \<Longrightarrow> i < length (sm_peer_node_ids m) \<and> sm_peer_node_ids m ! i = p"
  by (auto simp: tr_snapshot_manager_find_peer_def find_Some_iff)

lemma set_peer_inv:
  assumes "manager_inv m" and "i < length (sm_peer_node_ids m)"
    and "sm_completion_notified m ! i \<longrightarrow> tx_complete (peer_sender peer)"
  shows "manager_inv (set_peer m i peer)"
  using assms by (auto simp: manager_inv_def nth_list_update)

lemma note_started_inv:
  assumes "manager_inv m" and "i < length (sm_peer_node_ids m)" and "began idx (sm_peers m ! i) peer"
  shows "manager_inv (tr_snapshot_manager_note_started (set_peer m i peer) i idx)"
  using assms
  by (auto simp: manager_inv_def began_def tr_snapshot_manager_note_started_def nth_list_update tx_mark_def Let_def
      peer_status)

lemma create_peers_length: "manager_create_peers A config n ids = Inr peers \<Longrightarrow> length peers = length ids"
  by (induction ids arbitrary: n peers) (auto split: prod.splits sum.splits)

lemma manager_create_inv: "tr_raft_snapshot_manager_create ok M A config = Inr m \<Longrightarrow> manager_inv m"
  by (auto simp: tr_raft_snapshot_manager_create_def manager_inv_def Let_def dest: create_peers_length split: if_splits sum.splits)

lemma manager_begin_inv:
  assumes "manager_inv m" and "tr_raft_snapshot_manager_begin sha ok m p lt i t c data rel s = (r, m', rel', s')"
  shows "manager_inv m'"
  using assms find_peer_range [of m p] note_started_inv [of m] peer_begin_began
  by (fastforce simp: tr_raft_snapshot_manager_begin_def split: if_splits option.splits prod.splits)

lemma request_source_inv:
  assumes "manager_inv m" and "index < length (sm_peer_node_ids m)"
    and "request_source m provider request index rel s = (r, m', rel', s')"
  shows "manager_inv m'"
  using assms note_started_inv [of m index] peer_begin_source_began
  by (fastforce simp: request_source_def split: if_splits prod.splits)

lemma request_buffer_inv:
  assumes "manager_inv m" and "index < length (sm_peer_node_ids m)"
    and "request_buffer sha ok m provider buffer request index rel s = (r, m', rel', s')"
  shows "manager_inv m'"
proof -
  obtain r1 point bytes n s1 where p: "provider s (sr_snapshot_index request) (sr_snapshot_term request)
      (sm_max_buffered_snapshot_bytes m) = (r1, point, bytes, n, s1)" by (metis prod_cases5)
  define m1 where "m1 = m\<lparr>sm_snapshot_buffer := Some (block_write buffer 0 bytes)\<rparr>"
  have m1: "manager_inv m1" "index < length (sm_peer_node_ids m1)" using assms(1,2) by (simp_all add: m1_def manager_inv_def)
  show ?thesis
    using assms(3) m1 note_started_inv [of m1 index] peer_begin_began
    unfolding request_buffer_def p prod.case Let_def m1_def [symmetric]
    by (fastforce split: if_splits prod.splits)
qed

lemma manager_request_inv:
  assumes "manager_inv m" and "tr_raft_snapshot_manager_enqueue_request sha ok m request rel s = (r, m', rel', s')"
  shows "manager_inv m'"
  using assms find_peer_range [of m "sr_peer_id request"]
  by (auto simp: tr_raft_snapshot_manager_enqueue_request_def Let_def split: if_splits option.splits
      intro: request_source_inv request_buffer_inv)

lemma manager_resume_inv:
  assumes "manager_inv m" and "tr_raft_snapshot_manager_resume m p rel s = (r, m', rel', s')"
  shows "manager_inv m'"
proof (cases "sm_enqueue m = None \<or> tr_snapshot_manager_find_peer m p = None")
  case True
  with assms show ?thesis by (auto simp: tr_raft_snapshot_manager_resume_def split: if_splits)
next
  case False
  then obtain i where i: "tr_snapshot_manager_find_peer m p = Some i" by auto
  obtain r1 peer rel1 s1 where h: "tr_raft_snapshot_peer_resume (tr_snapshot_manager_enqueue m) (sm_peers m ! i) rel s
      = (r1, peer, rel1, s1)" by (metis prod_cases4)
  have "m' = set_peer m i peer" using assms(2) False i h by (auto simp: tr_raft_snapshot_manager_resume_def)
  moreover have "manager_inv (set_peer m i peer)"
    by (rule set_peer_inv) (use assms(1) find_peer_range [OF i] peer_resume_complete [OF h] in \<open>auto simp: manager_inv_def\<close>)
  ultimately show ?thesis by simp
qed

text \<open>A payload: the flag of a peer changes only from unset to set, and only after the callback accepted the
  notification of a complete transfer.\<close>

definition notified :: "'s snapshot_manager \<Rightarrow> 's snapshot_manager \<Rightarrow> nat \<Rightarrow> 's \<Rightarrow> bool" where
  "notified m m' i s' \<longleftrightarrow>
     \<not> sm_completion_notified m ! i \<and> sm_completion_notified m' ! i \<and> tx_complete (peer_sender (sm_peers m' ! i))
     \<and> (case sm_complete m of
          None \<Rightarrow> True
        | Some complete \<Rightarrow>
            \<exists>s. complete s (sm_peer_node_ids m ! i) (tx_snapshot_index (peer_sender (sm_peers m' ! i))) = (SALTS_OK, s'))"

lemma manager_notify_spec:
  assumes inv: "manager_inv m" and i: "i < length (sm_peer_node_ids m)" "sm_peer_node_ids m ! i = p"
    and eq: "manager_notify m i p rel s = (r, m', rel', s')"
  shows "manager_inv m'
    \<and> (sm_completion_notified m' = sm_completion_notified m
       \<or> sm_completion_notified m' = (sm_completion_notified m)[i := True] \<and> notified m m' i s')"
proof -
  let ?tx = "peer_sender (sm_peers m ! i)"
  define call where "call = (case sm_complete m of None \<Rightarrow> (SALTS_OK, s) | Some complete \<Rightarrow> complete s p (tx_snapshot_index ?tx))"
  obtain r1 s1 where c: "call = (r1, s1)" by fastforce
  have eq1: "(if \<not> tx_complete ?tx \<or> sm_completion_notified m ! i then (SALTS_OK, m, rel, s)
      else if r1 \<noteq> SALTS_OK then (r1, m, rel, s1)
      else (SALTS_OK, m\<lparr>sm_completion_notified := (sm_completion_notified m)[i := True]\<rparr>, rel, s1)) = (r, m', rel', s')"
    using eq [unfolded manager_notify_def Let_def peer_status, folded call_def, unfolded c prod.case] .
  show ?thesis
  proof (cases "tx_complete ?tx \<and> \<not> sm_completion_notified m ! i \<and> r1 = SALTS_OK")
    case False
    with eq1 have "m' = m" by (auto split: if_splits)
    with inv show ?thesis by simp
  next
    case True
    then have m': "m' = m\<lparr>sm_completion_notified := (sm_completion_notified m)[i := True]\<rparr>" "s' = s1" using eq1 by auto
    have "notified m m' i s'"
      using True c inv i unfolding notified_def call_def m' by (auto simp: manager_inv_def split: option.splits)
    moreover have "manager_inv m'" using inv True i(1) by (auto simp: m' manager_inv_def nth_list_update split: if_splits)
    ultimately show ?thesis by (simp add: m')
  qed
qed

lemma manager_handle_spec:
  assumes inv: "manager_inv m" and eq: "tr_raft_snapshot_manager_handle_payload m payload rel s = (r, m', rel', s')"
  shows "manager_inv m'
    \<and> (sm_completion_notified m' = sm_completion_notified m
       \<or> (\<exists>i < length (sm_peer_node_ids m). sm_completion_notified m' = (sm_completion_notified m)[i := True] \<and> notified m m' i s'))"
proof -
  have kept: ?thesis if "m' = m" using that inv by simp
  show ?thesis
  proof (cases "tp_data payload")
    case (TR_RAFT_WIRE_PAYLOAD_SNAPSHOT_ACK a)
    let ?ok = "tp_group_id payload = sm_group_id m \<and> sa_to a = sm_self_id m"
    show ?thesis
    proof (cases "tr_snapshot_manager_find_peer m (sa_from a)")
      case None
      with eq TR_RAFT_WIRE_PAYLOAD_SNAPSHOT_ACK show ?thesis
        by (intro kept) (auto simp: tr_raft_snapshot_manager_handle_payload_def split: if_splits)
    next
      case (Some i)
      note i = find_peer_range [OF Some]
      obtain r1 peer rel1 s1 where h: "tr_raft_snapshot_peer_handle_payload (tr_snapshot_manager_enqueue m) (sm_peers m ! i)
          payload rel s = (r1, peer, rel1, s1)" by (metis prod_cases4)
      define m1 where "m1 = set_peer m i peer"
      have m1: "manager_inv m1" unfolding m1_def
        by (rule set_peer_inv) (use inv i peer_handle_complete [OF h] in \<open>auto simp: manager_inv_def\<close>)
      have same: "sm_completion_notified m1 = sm_completion_notified m" "sm_peer_node_ids m1 = sm_peer_node_ids m"
        "sm_complete m1 = sm_complete m"
        by (simp_all add: m1_def)
      have eq1: "(if \<not> ?ok then (SALTS_EPROTO, m, rel, s) else if r1 \<noteq> SALTS_OK then (r1, m1, rel1, s1)
          else manager_notify m1 i (sa_from a) rel1 s1) = (r, m', rel', s')"
        using eq [unfolded tr_raft_snapshot_manager_handle_payload_def] Some h TR_RAFT_WIRE_PAYLOAD_SNAPSHOT_ACK
        by (cases "tp_group_id payload = sm_group_id m"; cases "sa_to a = sm_self_id m") (simp_all add: m1_def split: if_splits)
      consider "m' = m" | "m' = m1" | "manager_notify m1 i (sa_from a) rel1 s1 = (r, m', rel', s')"
        using eq1 by (auto split: if_splits)
      then show ?thesis
      proof cases
        case 1
        then show ?thesis by (rule kept)
      next
        case 2
        with m1 same show ?thesis by simp
      next
        case 3
        have "manager_inv m'
            \<and> (sm_completion_notified m' = sm_completion_notified m1
               \<or> sm_completion_notified m' = (sm_completion_notified m1)[i := True] \<and> notified m1 m' i s')"
          by (rule manager_notify_spec [OF m1 _ _ 3]) (use i same in simp_all)
        moreover have "notified m1 m' i s' = notified m m' i s'" by (simp only: notified_def same)
        ultimately show ?thesis using i unfolding same by blast
      qed
    qed
  qed (use eq kept in \<open>auto simp: tr_raft_snapshot_manager_handle_payload_def split: if_splits\<close>)
qed

text \<open>The managers a sequence of calls leads to, with any answers of the callbacks.\<close>

inductive manager_reachable :: "(u8 list \<Rightarrow> salts_status \<times> digest) \<Rightarrow> 's snapshot_manager \<Rightarrow> bool" for sha256 where
  create: "manager_reachable sha256 m" if "tr_raft_snapshot_manager_create ok M A config = Inr m"
| begin_data: "manager_reachable sha256 m'" if "manager_reachable sha256 m"
    "tr_raft_snapshot_manager_begin sha256 ok m p lt i t c data rel s = (r, m', rel', s')"
| request: "manager_reachable sha256 m'" if "manager_reachable sha256 m"
    "tr_raft_snapshot_manager_enqueue_request sha256 ok m request rel s = (r, m', rel', s')"
| payload: "manager_reachable sha256 m'" if "manager_reachable sha256 m"
    "tr_raft_snapshot_manager_handle_payload m payload rel s = (r, m', rel', s')"
| resume: "manager_reachable sha256 m'" if "manager_reachable sha256 m"
    "tr_raft_snapshot_manager_resume m p rel s = (r, m', rel', s')"

lemma manager_reachable_inv: "manager_reachable sha256 m \<Longrightarrow> manager_inv m"
  by (induction rule: manager_reachable.induct)
    (blast intro: manager_create_inv manager_begin_inv manager_request_inv manager_resume_inv dest: manager_handle_spec)+

text \<open>The installers a sequence of installations leads to.\<close>

inductive installer_reachable :: "'s snapshot_installer \<Rightarrow> bool" where
  create: "installer_reachable inst" if "tr_raft_snapshot_installer_create ok config = Inr inst"
| install: "installer_reachable inst'" if "installer_reachable inst"
    "tr_raft_snapshot_installer_install inst lt i t c data s = (r, inst', s')"

lemma installer_reachable_inv: "installer_reachable inst \<Longrightarrow> installer_inv inst"
  by (induction rule: installer_reachable.induct) (auto intro: installer_create_inv dest: installer_install_inv)

end
