(* ===== verification/Raft_Snapshot_Theorems.thy ===== *)
theory Raft_Snapshot_Theorems
  imports Raft_Snapshot_Transfer Raft_Snapshot_Manager
begin

text \<open>
  The properties of snapshot transfer: what a receiver installs, what the application of a receiver can
  see when a sender and a receiver talk over an unreliable network, how long an undisturbed transfer
  takes, how a coordinator fills the window, when a manager reports completion, and what an installer
  leaves behind when a stage fails.
\<close>

section \<open>A sequence of chunks\<close>

text \<open>A receiver handles the chunks of a list, whoever sent them.\<close>

primrec receiver_run ::
    "'h hash_ops \<Rightarrow> heap_alloc \<Rightarrow> sink_status \<Rightarrow> snapshot_chunk list \<Rightarrow> 'h snapshot_receiver \<Rightarrow> sink_call list
       \<Rightarrow> 'h snapshot_receiver \<times> sink_call list" where
  "receiver_run H M K [] rx calls = (rx, calls)"
| "receiver_run H M K (ch # chs) rx calls =
     (case tr_raft_snapshot_receiver_handle H M K rx ch calls of (_, rx, _, calls) \<Rightarrow> receiver_run H M K chs rx calls)"

text \<open>A snapshot is that of a chunk when its header agrees and its bytes have the announced length and digest.\<close>

definition verified_by :: "(u8 list \<Rightarrow> digest) \<Rightarrow> snapshot_image \<Rightarrow> snapshot_chunk \<Rightarrow> bool" where
  "verified_by D img ch \<longleftrightarrow>
     si_leader_term img = sc_term ch \<and> si_index img = sc_snapshot_index ch \<and> si_term img = sc_snapshot_term ch
     \<and> si_size img = sc_snapshot_size ch \<and> length (si_data img) = unat (sc_snapshot_size ch)
     \<and> D (si_data img) = sc_snapshot_digest ch"

lemma handle_visible:
  assumes "hash_contract H absorbed D" and "alloc_ok M" and "rx_inv absorbed K rx calls"
    and "tr_raft_snapshot_receiver_handle H M K rx ch calls = (s, rx', out, calls')"
  shows "rx_inv absorbed K rx' calls'"
    and "img \<in> set (sink_visible (sink_after K calls')) \<Longrightarrow> img \<in> set (sink_visible (sink_after K calls)) \<or> verified_by D img ch"
proof -
  note h = handle_spec [OF assms, unfolded chunk_handled_def]
  show "rx_inv absorbed K rx' calls'" using h by blast
  note shown = h [THEN conjunct2, THEN conjunct2, THEN conjunct2, THEN conjunct2, THEN conjunct2, THEN conjunct2]
  show "img \<in> set (sink_visible (sink_after K calls)) \<or> verified_by D img ch"
    if "img \<in> set (sink_visible (sink_after K calls'))"
    using shown that by (cases "rr_installed out") (auto simp: verified_by_def chunk_image_def)
qed

lemma receiver_run_visible:
  assumes "hash_contract H absorbed D" and "alloc_ok M" and "rx_inv absorbed K rx calls"
    and "receiver_run H M K chs rx calls = (rx', calls')"
  shows "rx_inv absorbed K rx' calls' \<and> (\<forall>img \<in> set (sink_visible (sink_after K calls')).
    img \<in> set (sink_visible (sink_after K calls)) \<or> (\<exists>ch \<in> set chs. verified_by D img ch))"
  using assms(3,4)
proof (induction chs arbitrary: rx calls)
  case Nil
  then show ?case by simp
next
  case (Cons ch chs)
  obtain s rx1 out calls1 where h: "tr_raft_snapshot_receiver_handle H M K rx ch calls = (s, rx1, out, calls1)"
    by (metis prod_cases4)
  note v = handle_visible [OF assms(1,2) Cons.prems(1) h]
  have "receiver_run H M K chs rx1 calls1 = (rx', calls')" using Cons.prems(2) h by simp
  from Cons.IH [OF v(1) this] v(2) show ?case by fastforce
qed

section \<open>An example\<close>

definition ex_contents :: "u8 list" where
  "ex_contents = [3, 1, 4, 1, 5]"

definition ex_digest :: "u8 list \<Rightarrow> digest" where
  "ex_digest xs = replicate 32 (sum_list xs)"

definition ex_hash :: "u8 list hash_ops" where
  "ex_hash = list_hash ex_digest"

definition ex_alloc :: heap_alloc where
  "ex_alloc n = Some (replicate n 0)"

definition ex_sink :: sink_status where
  "ex_sink calls call = SALTS_OK"

definition ex_source :: snapshot_source where
  "ex_source = \<lparr>src_size = of_nat (length ex_contents), src_digest = ex_digest ex_contents,
     src_read_at = Some (tr_snapshot_memory_read_at ex_contents), src_release = True\<rparr>"

definition ex_sender_config :: sender_config where
  "ex_sender_config = \<lparr>sn_self_id = 1, sn_peer_id = 2, sn_max_snapshot_bytes = 100, sn_chunk_size = 2, sn_max_inflight_chunks = 2\<rparr>"

definition ex_receiver_config :: receiver_config where
  "ex_receiver_config = \<lparr>rc_self_id = 2, rc_max_snapshot_bytes = 100, rc_max_buffered_snapshot_bytes = 0, rc_install = False,
     rc_stream_begin = True, rc_stream_write = True, rc_stream_commit = True, rc_stream_abort = True\<rparr>"

definition ex_sender0 :: snapshot_sender where
  "ex_sender0 = projr (tr_raft_snapshot_sender_create ex_alloc True ex_sender_config)"

definition ex_sender :: snapshot_sender where
  "ex_sender = fst (snd (tr_raft_snapshot_sender_begin_source ex_sender0 3 7 2 ex_joint ex_source []))"

definition ex_receiver :: "u8 list snapshot_receiver" where
  "ex_receiver = projr (tr_raft_snapshot_receiver_create (SALTS_OK, []) True ex_receiver_config)"

definition ex_transfer :: "u8 list transfer" where
  "ex_transfer = \<lparr>tf_sender = ex_sender, tf_receiver = ex_receiver, tf_calls = [], tf_released = [], tf_chunks = [], tf_acks = []\<rparr>"

lemma ex_sender0: "tr_raft_snapshot_sender_create ex_alloc True ex_sender_config = Inr ex_sender0"
  by (simp add: ex_sender0_def tr_raft_snapshot_sender_create_def ex_sender_config_def ex_alloc_def)

lemma ex_sender: "tr_raft_snapshot_sender_begin_source ex_sender0 3 7 2 ex_joint ex_source [] = (SALTS_OK, ex_sender, [])"
  by (simp add: ex_sender_def ex_sender0_def tr_raft_snapshot_sender_create_def tr_raft_snapshot_sender_begin_source_def
      tr_raft_snapshot_sender_clear_transfer_def tr_raft_snapshot_sender_release_source_def ex_sender_config_def ex_alloc_def
      ex_source_def ex_contents_def ex_joint_valid)

lemma ex_receiver: "tr_raft_snapshot_receiver_create (SALTS_OK, []) True ex_receiver_config = Inr ex_receiver"
  by (simp add: ex_receiver_def tr_raft_snapshot_receiver_create_def ex_receiver_config_def)

lemma ex_env:
  "hash_contract ex_hash (\<lambda>h. h) ex_digest" "alloc_ok ex_alloc" "no_failure ex_hash ex_alloc ex_sink"
  "source_reads ex_source ex_contents" "src_digest ex_source = ex_digest ex_contents"
  using memory_source_reads [of ex_contents "ex_digest ex_contents" True]
  by (simp_all add: ex_hash_def hash_contract_def alloc_ok_def ex_alloc_def no_failure_def list_hash_def ex_sink_def
      ex_source_def ex_contents_def)

lemma ex_start: "transfer_start ex_source ex_transfer"
  unfolding ex_transfer_def by (rule transfer_start.intros [OF ex_sender0 ex_env(2) ex_sender ex_receiver])

lemma ex_sender_sel: "tx_config ex_sender = ex_sender_config" "tx_size ex_sender = 5" "tx_chunk_size ex_sender = 2"
proof -
  note b = begin_source_inv [OF create_tx_inv [OF ex_env(2) ex_sender0] ex_env(4) ex_sender]
  have "tx_config ex_sender0 = ex_sender_config" "tx_chunk_size ex_sender0 = 2"
    by (simp_all add: ex_sender0_def tr_raft_snapshot_sender_create_def ex_sender_config_def ex_alloc_def)
  with b(4,13,14) show "tx_config ex_sender = ex_sender_config" "tx_size ex_sender = 5" "tx_chunk_size ex_sender = 2"
    by (simp_all add: ex_contents_def)
qed

lemma ex_fits: "transfer_fits (tf_sender ex_transfer) (tf_receiver ex_transfer)"
proof -
  have "tx_config ex_sender = ex_sender_config" "tx_size ex_sender = 5" by (rule ex_sender_sel)+
  moreover have "rx_self_id ex_receiver = 2" "rx_max_snapshot_bytes ex_receiver = 100" "rx_streaming ex_receiver"
    by (simp_all add: ex_receiver_def tr_raft_snapshot_receiver_create_def ex_receiver_config_def)
  ultimately show ?thesis by (simp add: transfer_fits_def ex_transfer_def ex_sender_config_def)
qed

lemma exchanges_steps: "transfer_steps H M K st ((exchange H M K ^^ n) st)"
  by (induction n) (auto intro: rtranclp_trans exchange_steps)

section \<open>Properties\<close>

text \<open>C12 (safety). Whatever chunks reach a new receiver, in whatever order and from whomever, and however the
  callbacks answer: the callbacks are called by their protocol, and every snapshot that becomes visible
  to the application has the header, the length and the digest of one of the chunks.\<close>

theorem receiver_installs_verified:
  assumes "hash_contract H absorbed D" and "alloc_ok M"
    and "tr_raft_snapshot_receiver_create sha ok config = Inr rx"
    and "receiver_run H M K chunks rx [] = (rx', calls)"
  shows "\<not> sink_misused (sink_after K calls)
    \<and> (\<forall>img \<in> set (sink_visible (sink_after K calls)). \<exists>ch \<in> set chunks. verified_by D img ch)"
  using receiver_run_visible [OF assms(1,2) create_inv [OF assms(3)] assms(4)]
  by (auto simp: rx_inv_def rx_linked_def sink_init_def)

definition ex_chunk :: snapshot_chunk where
  "ex_chunk = \<lparr>sc_from = 1, sc_to = 2, sc_term = 3, sc_snapshot_index = 7, sc_snapshot_term = 2, sc_snapshot_offset = 0,
     sc_snapshot_size = 2, sc_snapshot_digest = ex_digest [3, 1], sc_has_configuration = True, sc_configuration = ex_joint,
     sc_data = Byte_array [3, 1], sc_done = True\<rparr>"

theorem receiver_installs_verified_witness:
  "case receiver_run ex_hash ex_alloc ex_sink [ex_chunk] ex_receiver [] of
     (_, calls) \<Rightarrow> \<not> sink_misused (sink_after ex_sink calls)
       \<and> (\<exists>img. sink_visible (sink_after ex_sink calls) = [img] \<and> verified_by ex_digest img ex_chunk)"
proof -
  obtain rx calls where r: "receiver_run ex_hash ex_alloc ex_sink [ex_chunk] ex_receiver [] = (rx, calls)" by fastforce
  have "length (sink_visible (sink_after ex_sink (snd (receiver_run ex_hash ex_alloc ex_sink [ex_chunk] ex_receiver [])))) = 1"
    by code_simp
  then have "length (sink_visible (sink_after ex_sink calls)) = 1" by (simp only: r snd_conv)
  then obtain img where "sink_visible (sink_after ex_sink calls) = [img]" by (auto simp: length_Suc_conv)
  with receiver_installs_verified [OF ex_env(1,2) ex_receiver r] r show ?thesis by auto
qed

text \<open>C10 (safety). A sender and a receiver exchange chunks and acknowledgements over a network that loses,
  repeats and reorders them, while chunks are cancelled, the transfer is resumed and the receiver is
  reset. Everything the application of the receiver can see is the snapshot of the source; its callbacks
  are called by their protocol; and the sender holds the transfer complete only when the snapshot has
  been installed.\<close>

theorem transfer_safe:
  assumes "hash_contract H absorbed D" and "alloc_ok M" and "source_reads source xs" and "transfer_start source st0"
    and "transfer_steps H M K st0 st"
  shows "set (sink_visible (sink_after K (tf_calls st))) \<subseteq> {tx_image (tf_sender st0) xs}
    \<and> \<not> sink_misused (sink_after K (tf_calls st))
    \<and> (tx_complete (tf_sender st) \<longrightarrow> sink_visible (sink_after K (tf_calls st)) \<noteq> [])"
  using transfer_reachable [OF assms]
  by (auto simp: transfer_inv_def rx_of_def rx_inv_def rx_linked_def)

theorem transfer_safe_witness:
  "set (sink_visible (sink_after ex_sink (tf_calls ((exchange ex_hash ex_alloc ex_sink ^^ 3) ex_transfer))))
     \<subseteq> {tx_image ex_sender ex_contents}
   \<and> sink_visible (sink_after ex_sink (tf_calls ((exchange ex_hash ex_alloc ex_sink ^^ 3) ex_transfer))) \<noteq> []"
proof -
  have cs: "tx_chunk_size (tf_sender ex_transfer) = 2" by (simp add: ex_transfer_def ex_sender_sel)
  have "chunk_rounds 2 (length ex_contents) = 3" by code_simp
  then have "tx_complete (tf_sender ((exchange ex_hash ex_alloc ex_sink ^^ 3) ex_transfer))"
    using transfer_run_complete [OF ex_env(3,1,2,4,5) ex_start ex_fits] by (simp add: cs)
  with transfer_safe [OF ex_env(1,2,4) ex_start exchanges_steps] show ?thesis by (simp add: ex_transfer_def)
qed

text \<open>C11 (liveness). When nothing fails and the receiver has room, alternating a chunk and its
  acknowledgement completes the transfer after one round for each chunk of the snapshot, one round for
  an empty one, and exactly the snapshot of the source is then visible.\<close>

theorem transfer_completes:
  assumes "no_failure H M K" and "hash_contract H absorbed D" and "alloc_ok M"
    and "source_reads source xs" and "src_digest source = D xs"
    and "transfer_start source st0" and "transfer_fits (tf_sender st0) (tf_receiver st0)"
    and "st = (exchange H M K ^^ chunk_rounds (tx_chunk_size (tf_sender st0)) (length xs)) st0"
  shows "tx_complete (tf_sender st)
    \<and> set (sink_visible (sink_after K (tf_calls st))) = {tx_image (tf_sender st0) xs}"
  using transfer_run_complete [OF assms(1-7)] by (simp add: assms(8))

theorem transfer_completes_witness:
  "set (sink_visible (sink_after ex_sink (tf_calls
      ((exchange ex_hash ex_alloc ex_sink ^^ chunk_rounds (tx_chunk_size (tf_sender ex_transfer)) (length ex_contents))
        ex_transfer)))) = {tx_image (tf_sender ex_transfer) ex_contents}"
  using transfer_completes [OF ex_env(3,1,2,4,5) ex_start ex_fits refl] by simp

text \<open>C18 (termination). The loop of a coordinator that begins a transfer ends: with a callback that takes
  every chunk it emits consecutive chunks of the source from its start until the window is full or the
  whole snapshot is under way, and no others.\<close>

theorem begin_fills_window:
  assumes "alloc_ok M" and "tr_raft_snapshot_coordinator_create M ok ok' config = Inr co" and "source_reads source xs"
    and "tr_raft_snapshot_sender_begin_source (co_sender co) lt i t c source rel = (SALTS_OK, tx, rel')"
    and "tr_raft_snapshot_coordinator_begin_source (\<lambda>sent ch. (SALTS_OK, sent @ [ch])) co lt i t c source rel []
      = (r, co', rel'', sent)"
  shows "r = SALTS_OK \<and> sent = map (source_chunk tx xs) (window_offsets tx 0 (length sent))
    \<and> length sent = length (tx_claims (co_sender co'))
    \<and> (length sent = tx_max_inflight_chunks tx \<or> tx_next_offset (co_sender co') = tx_size tx)"
proof -
  obtain config' where cr: "tr_raft_snapshot_sender_create M ok' config' = Inr (co_sender co)"
    using assms(2) by (auto simp: tr_raft_snapshot_coordinator_create_def split: if_splits sum.splits)
  have tx0: "tx_inv (co_sender co) []" by (rule create_tx_inv [OF assms(1) cr])
  note b = begin_source_inv [OF tx0 assms(3,4)]
  have "length (tx_claims tx) < tx_max_inflight_chunks tx" using b(1,7) by (simp add: tx_inv_def tx_limits_def)
  moreover have "tr_snapshot_coordinator_fill_window (\<lambda>sent ch. (SALTS_OK, sent @ [ch])) tx [] = (r, co_sender co', sent)"
    using assms(4,5)
    by (auto simp: tr_raft_snapshot_coordinator_begin_source_def coordinator_fill_def split: prod.splits)
  ultimately have "\<exists>n. r = SALTS_OK \<and> sent = [] @ map (source_chunk tx xs) (window_offsets tx (tx_next_offset tx) n)
      \<and> (length (tx_claims (co_sender co')) = tx_max_inflight_chunks tx \<or> tx_next_offset (co_sender co') = tx_size tx)
      \<and> length (tx_claims (co_sender co')) = length (tx_claims tx) + n"
    by (rule fill_window_run [OF b(1,2,3)])
  then obtain n where n: "r = SALTS_OK" "sent = map (source_chunk tx xs) (window_offsets tx 0 n)"
    "length (tx_claims (co_sender co')) = tx_max_inflight_chunks tx \<or> tx_next_offset (co_sender co') = tx_size tx"
    "length (tx_claims (co_sender co')) = n"
    using b(6,7) by auto
  moreover have "length sent = n" using n(2) by (simp add: window_offsets_def)
  ultimately show ?thesis by auto
qed

definition ex_coordinator :: snapshot_coordinator where
  "ex_coordinator = \<lparr>co_sender = ex_sender0\<rparr>"

theorem begin_fills_window_witness:
  "case tr_raft_snapshot_coordinator_begin_source (\<lambda>sent ch. (SALTS_OK, sent @ [ch])) ex_coordinator 3 7 2 ex_joint ex_source [] [] of
     (r, co', _, sent) \<Rightarrow> r = SALTS_OK
       \<and> sent = map (source_chunk ex_sender ex_contents) (window_offsets ex_sender 0 (length sent))
       \<and> length sent = length (tx_claims (co_sender co'))"
proof -
  have "tr_raft_snapshot_coordinator_create ex_alloc True True
      \<lparr>cc_self_id = 1, cc_peer_id = 2, cc_max_snapshot_bytes = 100, cc_chunk_size = 2, cc_max_inflight_chunks = 2, cc_emit = True\<rparr>
    = Inr ex_coordinator"
    using ex_sender0 by (simp add: tr_raft_snapshot_coordinator_create_def ex_coordinator_def ex_sender_config_def)
  note w = begin_fills_window [OF ex_env(2) this ex_env(4), of 3 7 2 ex_joint "[]" ex_sender "[]"]
  show ?thesis using w ex_sender by (auto simp: ex_coordinator_def split: prod.splits)
qed

text \<open>C19 (invariant). In every manager that calls can lead to, whatever its callbacks answer: a peer counts as
  notified only while its transfer is complete. A payload changes the flag of at most one peer, from
  unset to set, and only when that transfer is complete and the callback has accepted the notification
  of that peer and that snapshot.\<close>

theorem manager_notifies_completed:
  assumes "manager_reachable sha256 m"
    and "tr_raft_snapshot_manager_handle_payload m payload released s = (r, m', released', s')"
  shows "(\<forall>i < length (sm_peer_node_ids m). sm_completion_notified m ! i \<longrightarrow> tx_complete (peer_sender (sm_peers m ! i)))
    \<and> (sm_completion_notified m' = sm_completion_notified m
       \<or> (\<exists>i < length (sm_peer_node_ids m).
            sm_completion_notified m' = (sm_completion_notified m)[i := True] \<and> notified m m' i s'))"
  using manager_reachable_inv [OF assms(1)] manager_handle_spec [OF manager_reachable_inv [OF assms(1)] assms(2)]
  by (simp add: manager_inv_def)

text \<open>An example: a manager with one peer, an empty snapshot, and the acknowledgement of its only chunk. The
  state of the callbacks counts the notifications.\<close>

definition ex_manager_config :: "nat manager_config" where
  "ex_manager_config = \<lparr>mc_self_id = 1, mc_group_id = 9, mc_peer_node_ids = [2], mc_max_snapshot_bytes = 100,
     mc_max_buffered_snapshot_bytes = 0, mc_snapshot_chunk_size = 2, mc_snapshot_max_inflight_chunks = 2,
     mc_enqueue = Some (\<lambda>s payload. (SALTS_OK, s)), mc_source_provider = None, mc_provider = None,
     mc_complete = Some (\<lambda>s peer index. (SALTS_OK, Suc s))\<rparr>"

definition ex_sha256 :: "u8 list \<Rightarrow> salts_status \<times> digest" where
  "ex_sha256 xs = (SALTS_OK, ex_digest xs)"

definition ex_manager :: "nat snapshot_manager" where
  "ex_manager = projr (tr_raft_snapshot_manager_create True ex_alloc (\<lambda>i. (ex_alloc, True, True, True)) ex_manager_config)"

definition ex_sending :: "nat snapshot_manager" where
  "ex_sending = fst (snd (tr_raft_snapshot_manager_begin ex_sha256 True ex_manager 2 3 7 2 ex_joint (Byte_array []) [] 0))"

definition ex_ack_payload :: transport_payload where
  "ex_ack_payload = \<lparr>tp_group_id = 9, tp_data = TR_RAFT_WIRE_PAYLOAD_SNAPSHOT_ACK
     \<lparr>sa_from = 2, sa_to = 1, sa_term = 3, sa_snapshot_index = 7, sa_snapshot_size = 0, sa_next_offset = 0,
      sa_snapshot_digest = ex_digest [], sa_accepted = True\<rparr>\<rparr>"

lemma ex_manager_create:
  "tr_raft_snapshot_manager_create True ex_alloc (\<lambda>i. (ex_alloc, True, True, True)) ex_manager_config = Inr ex_manager"
proof -
  have "isl (tr_raft_snapshot_manager_create True ex_alloc (\<lambda>i. (ex_alloc, True, True, True)) ex_manager_config) = False"
    by code_simp
  then show ?thesis unfolding ex_manager_def by (rule sum.collapse(2) [OF iffD1, symmetric, OF eq_False])
qed

lemma ex_sending_reachable: "manager_reachable ex_sha256 ex_sending"
proof -
  have "manager_reachable ex_sha256 ex_manager" by (rule manager_reachable.create [OF ex_manager_create])
  then show ?thesis
    by (rule manager_reachable.begin_data
        [of _ _ True 2 3 7 2 ex_joint "Byte_array []" "[]" 0
          "fst (tr_raft_snapshot_manager_begin ex_sha256 True ex_manager 2 3 7 2 ex_joint (Byte_array []) [] 0)" ex_sending
          "fst (snd (snd (tr_raft_snapshot_manager_begin ex_sha256 True ex_manager 2 3 7 2 ex_joint (Byte_array []) [] 0)))"
          "snd (snd (snd (tr_raft_snapshot_manager_begin ex_sha256 True ex_manager 2 3 7 2 ex_joint (Byte_array []) [] 0)))"])
      (simp add: ex_sending_def)
qed

theorem manager_notifies_completed_witness:
  "case tr_raft_snapshot_manager_handle_payload ex_sending ex_ack_payload [] 0 of
     (r, m', _, s') \<Rightarrow> sm_completion_notified ex_sending = [False] \<and> sm_completion_notified m' = [True]
       \<and> s' = 1 \<and> notified ex_sending m' 0 s'"
proof -
  obtain r m' rel' s' where h: "tr_raft_snapshot_manager_handle_payload ex_sending ex_ack_payload [] 0 = (r, m', rel', s')"
    by (metis prod_cases4)
  have before: "sm_completion_notified ex_sending = [False]" "length (sm_peer_node_ids ex_sending) = 1" by code_simp+
  have "(case tr_raft_snapshot_manager_handle_payload ex_sending ex_ack_payload [] 0 of
      (r, m', _, s') \<Rightarrow> sm_completion_notified m' = [True] \<and> s' = 1)"
    by code_simp
  then have after: "sm_completion_notified m' = [True]" "s' = 1" unfolding h by simp_all
  show ?thesis
    using manager_notifies_completed [OF ex_sending_reachable h] before after h by auto
qed

text \<open>C20 (error). An installer that calls can lead to, whatever its callbacks answer: once a stage has failed
  every later call is refused without touching storage, application or runtime. A successful call ends
  with the durable, the restored and the active index at the snapshot; a failed one leaves everything as
  it was, or records its cause and leaves the active index as it was.\<close>

theorem installer_stages:
  assumes "installer_reachable inst"
    and "tr_raft_snapshot_installer_install inst leader_term i t c data s = (r, inst', s')"
  shows "if is_faulted (in_status inst) then r \<in> {SALTS_EINVAL, SALTS_EPROTO} \<and> inst' = inst \<and> s' = s
    else if r = SALTS_OK
    then is_durable_index (in_status inst') = i \<and> is_restored_index (in_status inst') = i
      \<and> is_active_index (in_status inst') = i \<and> \<not> is_faulted (in_status inst')
    else r = SALTS_EINVAL \<and> inst' = inst \<and> s' = s
      \<or> is_faulted (in_status inst') \<and> is_cause (in_status inst') = r
        \<and> is_active_index (in_status inst') = is_active_index (in_status inst)"
  using installer_install_inv [OF installer_reachable_inv [OF assms(1)] assms(2)]
  by (auto simp: installer_inv_def Let_def split: if_splits)

definition ex_installer_config :: "nat installer_config" where
  "ex_installer_config = \<lparr>ic_install_snapshot = Some (\<lambda>s lt i t c data. (SALTS_OK, Suc s)),
     ic_restore_application = Some (\<lambda>s i t data. (SALTS_EIO, Suc s)), ic_reload_runtime = Some (\<lambda>s i t. (SALTS_OK, Suc s))\<rparr>"

definition ex_installer :: "nat snapshot_installer" where
  "ex_installer = projr (tr_raft_snapshot_installer_create True ex_installer_config)"

theorem installer_stages_witness:
  "case tr_raft_snapshot_installer_install ex_installer 3 7 2 ex_joint (Byte_array [5]) 0 of
     (r, inst', s') \<Rightarrow> r = SALTS_EIO \<and> s' = 2 \<and> is_faulted (in_status inst') \<and> is_cause (in_status inst') = r
       \<and> is_active_index (in_status inst') = is_active_index (in_status ex_installer)"
proof -
  have "tr_raft_snapshot_installer_create True ex_installer_config = Inr ex_installer"
    by (simp add: ex_installer_def tr_raft_snapshot_installer_create_def ex_installer_config_def)
  note reach = installer_reachable.create [OF this]
  obtain r inst' s' where h: "tr_raft_snapshot_installer_install ex_installer 3 7 2 ex_joint (Byte_array [5]) 0 = (r, inst', s')"
    by (metis prod_cases3)
  have "(case tr_raft_snapshot_installer_install ex_installer 3 7 2 ex_joint (Byte_array [5]) 0 of
      (r, _, s') \<Rightarrow> r = SALTS_EIO \<and> s' = 2 \<and> \<not> is_faulted (in_status ex_installer))"
    by code_simp
  then have "r = SALTS_EIO" "s' = 2" "\<not> is_faulted (in_status ex_installer)" unfolding h by simp_all
  with installer_stages [OF reach h] h show ?thesis by auto
qed

end
