(* ===== verification/Spec2Isabelle.thy ===== *)
theory Spec2Isabelle
  imports Raft_Core_Theorems Raft_Snapshot_Theorems
begin

text \<open>
  A verification development for TurboRaft, a Raft consensus library in C.

  \<^bold>\<open>The program.\<close> A deterministic core (\<open>src/core\<close>) holds the state of one Raft group member. Its caller
  feeds it ticks, messages and proposals; every call fills a Ready record with the messages to send, the
  hard state to persist and the committed entries to apply. Around the core stand a snapshot transfer
  (\<open>src/snapshot\<close>), its coordination (\<open>src/service/raft_snapshot_*.c\<close>), and storage, transport, wire codec,
  runtime, control plane and text tools.

  \<^bold>\<open>The theories.\<close>
  \<^item> \<open>TR_Prelude\<close>: machine integers (\<open>u8\<close>, \<open>u32\<close>, \<open>u64\<close> as words), status codes, byte arrays with a null
    pointer, acknowledgement masks, ascending arrays, shared lemmas.
  \<^item> \<open>Raft_Configuration\<close> (\<open>raft_configuration.c\<close>), \<open>Raft_Membership\<close> (\<open>raft_membership.c\<close>),
    \<open>Raft_Peer_Set\<close> (\<open>raft_peer_set.c\<close>), \<open>Raft_Membership_Transition\<close> (\<open>raft_membership_transition.c\<close>):
    configurations and their codec, quorums, the union of members, the staged and committed
    configurations. The lemmas show both round trips of the codec, that quorums are majorities and that
    joint quorums overlap, and that a change runs through the joint to the target configuration.
  \<^item> \<open>Raft_Log\<close> (\<open>raft_log.c\<close>) and \<open>Raft_Append_Window\<close> (ring buffer of \<open>raft_core.c\<close>): the log over the vector
    of the container library, and the append requests in flight. The lemmas show that reconciliation is
    the log-matching rule, that appends are all or nothing, that compaction forgets nothing else, and
    that the ring buffer refines a bounded queue.
  \<^item> \<open>Raft_Core_State\<close>, \<open>Raft_Core_Replication\<close>, \<open>Raft_Core_Election\<close>, \<open>Raft_Core_Step\<close>, \<open>Raft_Core_API\<close>: the
    definitions of \<open>raft_core.c\<close> in its order. The struct is the record \<open>raft_core\<close>, the Ready record \<open>ready\<close>;
    every static function and every function of the interface is a definition of the same name.
  \<^item> \<open>Raft_Core_Invariant\<close>, \<open>Raft_Core_Messages\<close>, \<open>Raft_Core_Handlers\<close>, \<open>Raft_Core_Append\<close>, \<open>Raft_Core_Safety\<close>,
    \<open>Raft_Core_Run\<close>, \<open>Raft_Core_Reachable\<close>: the invariant of a core, that every handler and every call
    keeps it, and the states reachable by calls.
  \<^item> \<open>Raft_Core_Campaign\<close>, \<open>Raft_Cluster\<close>: whose votes a leader counted, and a cluster of cores over an
    unreliable network with its vote and leader history. \<open>Raft_Core_Delivery\<close>: which entries the caller
    admits. \<open>Raft_Core_Follower\<close>: what a follower does with a request.
  \<^item> \<open>Raft_Core_Example\<close>, \<open>Raft_Core_Theorems\<close>: concrete cores, and the properties of the core.
  \<^item> \<open>Raft_Snapshot_Stream\<close>, \<open>Raft_Snapshot_Receiver\<close> (\<open>raft_snapshot_receiver.c\<close>), \<open>Raft_Snapshot_Sender\<close>
    (\<open>raft_snapshot_sender.c\<close>): the two sides of a snapshot transfer and their invariants.
    \<open>Raft_Snapshot_Transfer\<close>: both sides over an unreliable network, and rounds of an undisturbed exchange.
    \<open>Raft_Snapshot_Peer\<close> (\<open>raft_snapshot_coordinator.c\<close>, \<open>raft_snapshot_peer.c\<close>): the window of chunks and the
    payloads. \<open>Raft_Snapshot_Manager\<close> (\<open>raft_snapshot_manager.c\<close>, \<open>raft_snapshot_installer.c\<close>): the
    transfers of a leader to all its peers with their completion callback, and the three stages of an
    installation. \<open>Raft_Snapshot_Theorems\<close>: the properties of snapshot transfer.

  \<^bold>\<open>Conventions.\<close> A struct is a record, an array with a count a list, \<open>size_t\<close> a natural number, an identifier,
  term or index a 64-bit word whose arithmetic wraps. A function that changes a struct returns it next to
  its status; a value that is only set on success is an option or a sum. A read through a null pointer is the
  status \<open>C_FAULT\<close>; the properties show where it cannot occur. Null object pointers of the interface, which
  every function answers with \<open>SALTS_EINVAL\<close>, are not modelled.

  \<^bold>\<open>Parameters.\<close> The vector of the container library is the argument \<open>vec_ops\<close> with the contract \<open>log_vec_ok\<close>,
  which the list instance \<open>list_vec\<close> satisfies. Success of an allocation is an argument. The digest
  stream of the crypto library is \<open>hash_ops\<close> with \<open>hash_contract\<close>; \<open>list_hash\<close> satisfies it. The callbacks of
  the application on the receiving side are a status for each history of calls, so that they may fail at
  any time; \<open>sink_after\<close> is what an application sees of the calls. A snapshot source is a function from offset
  and capacity, with \<open>source_reads\<close> as its contract. The callbacks of coordinator, peer, manager and installer
  are arbitrary functions on a state of their own.

  \<^bold>\<open>Bounds.\<close> No loop of the model has fuel: loops over words count in their difference to the end, the loop
  that fills a window in its free slots, all others recurse over lists. Where a sum of indices could wrap,
  the property carries the room it needs: the log is \<open>log_room\<close> entries away from the largest index, more
  than one message can append.

  \<^bold>\<open>Not modelled.\<close> The write-ahead log storage, the transports, the runtime and the service loop work on
  files, sockets, threads and queues of libraries that are not part of the repository; they only call the
  parts above. The wire codec and the text tools call generated encoders, lexers and parsers. The data
  stream, which repeats the window protocol of snapshots for application data, and the control plane are
  left out. The parser generator is a vendored build tool.
\<close>

end
